(* ===== verification/Fz_Prelude.thy ===== *)
theory Fz_Prelude
  imports Main "HOL-Library.Word" "HOL-Library.Monad_Syntax"
begin

text \<open>
  Shared ground of the development: the C types the sources use, the convention for
  addresses and for faults, the arithmetic helpers of \<^verbatim>\<open>stdext/gcc_common.h\<close>, the mutex
  calls the libraries make, and generic lemmas on lists and functions.

  Conventions.  An address is a natural number and \<open>NULL\<close> is 0.  A C function that may
  run into a failed \<open>assert\<close> or follow a pointer that leads nowhere has a result of type
  \<open>option\<close>: \<open>None\<close> is the fault, and \<open>Some\<close> carries the value the C function
  returns together with the new state.  An outcome of \<open>malloc\<close> is an argument: the
  address it returned, or \<open>NULL\<close>.
\<close>

subsection \<open>Types\<close>

type_synonym addr = nat
type_synonym u8 = "8 word"
type_synonym u16 = "16 word"
type_synonym u32 = "32 word"

abbreviation (input) NULL :: addr where
  "NULL \<equiv> 0"

named_theorems ring_simps "representation of circular lists"
named_theorems hlist_simps "representation of head/pprev lists"
named_theorems frame_simps "operations that leave another part of the state alone"

subsection \<open>Arithmetic helpers of gcc\_common.h\<close>

text \<open>\<^verbatim>\<open>align_num\<close> on a 64-bit target (the \<open>#else\<close> branch): round up to a multiple of 8.\<close>

definition align_num :: "nat \<Rightarrow> nat" where
  "align_num n = ((n + 7) div 8) * 8"

lemma align_num_ge: "n \<le> align_num n"
  unfolding align_num_def by presburger

lemma align_num_lt: "align_num n < n + 8"
  unfolding align_num_def by presburger

lemma align_num_dvd: "8 dvd align_num n"
  unfolding align_num_def by simp

lemma align_num_idem [simp]: "align_num (align_num n) = align_num n"
  unfolding align_num_def by presburger

lemma align_num_pos: "0 < n \<Longrightarrow> 0 < align_num n"
  using align_num_ge [of n] by simp

subsection \<open>The error-checking mutex\<close>

text \<open>
  \<^verbatim>\<open>PTHREAD_MUTEX_ERRORCHECK_NP\<close>: the state is whether the calling thread holds the
  mutex.  Locking a mutex one already holds fails with \<open>EDEADLK\<close>, unlocking one that is
  not held fails with \<open>EPERM\<close>; the result is 0 exactly on success.
\<close>

definition pthread_mutex_lock :: "bool \<Rightarrow> int \<times> bool" where
  "pthread_mutex_lock held = (if held then (35, True) else (0, True))"

definition pthread_mutex_unlock :: "bool \<Rightarrow> int \<times> bool" where
  "pthread_mutex_unlock held = (if held then (0, False) else (1, False))"

lemma pthread_mutex_lock_simps [simp]:
  "pthread_mutex_lock False = (0, True)" "pthread_mutex_lock True = (35, True)"
  by (simp_all add: pthread_mutex_lock_def)

lemma pthread_mutex_unlock_simps [simp]:
  "pthread_mutex_unlock True = (0, False)" "pthread_mutex_unlock False = (1, False)"
  by (simp_all add: pthread_mutex_unlock_def)

subsection \<open>Words\<close>

lemma unat_u32_less: "unat (w :: u32) < 2 ^ 32"
  using unsigned_less [where 'a = nat, of w] by simp

lemma unat_u16_less: "unat (w :: u16) < 2 ^ 16"
  using unsigned_less [where 'a = nat, of w] by simp

lemma unat_u8_less: "unat (w :: u8) < 2 ^ 8"
  using unsigned_less [where 'a = nat, of w] by simp

lemma unat_u32_pred: "0 < unat (w :: u32) \<Longrightarrow> unat (w - 1) = unat w - 1"
  by (rule unat_minus_one) auto

lemma unat_u32_suc: "unat (w :: u32) + 1 < 2 ^ 32 \<Longrightarrow> unat (w + 1) = unat w + 1"
  by (simp add: unat_word_ariths)

lemma unat_u32_minus: "unat (b :: u32) \<le> unat a \<Longrightarrow> unat (a - b) = unat a - unat b"
  by (simp add: unat_sub word_le_nat_alt)

lemma unat_ucast_u16_u32 [simp]: "unat (ucast (w :: u16) :: u32) = unat w"
proof -
  have "unat w < 2 ^ 16" by (rule unat_u16_less)
  then show ?thesis by (simp add: unsigned_ucast_eq take_bit_nat_eq_self)
qed

subsection \<open>Lists\<close>

lemma distinct_Cons_append_mid:
  "distinct (xs @ x # ys) \<longleftrightarrow> distinct (xs @ ys) \<and> x \<notin> set xs \<and> x \<notin> set ys"
  by auto

lemma last_in_set_if: "last (x # xs) \<in> insert x (set xs)"
  by (cases xs rule: rev_cases) auto

lemma fun_upd_apply_neq: "x \<noteq> a \<Longrightarrow> (f(a := v)) x = f x"
  by simp

lemma split_list_at: "x \<in> set xs \<Longrightarrow> \<exists>ys zs. xs = ys @ x # zs \<and> x \<notin> set ys"
  by (rule split_list_first)

text \<open>Dropping the first element with a property.\<close>

primrec remove_first :: "('a \<Rightarrow> bool) \<Rightarrow> 'a list \<Rightarrow> 'a list" where
  "remove_first P [] = []"
| "remove_first P (x # xs) = (if P x then xs else x # remove_first P xs)"

lemma remove_first_none [simp]: "\<forall>x\<in>set xs. \<not> P x \<Longrightarrow> remove_first P xs = xs"
  by (induction xs) auto

lemma remove_first_split: "\<forall>y\<in>set ys. \<not> P y \<Longrightarrow> P x \<Longrightarrow> remove_first P (ys @ x # zs) = ys @ zs"
  by (induction ys) auto

lemma set_remove_first: "set (remove_first P xs) \<subseteq> set xs"
  by (induction xs) auto

lemma find_none: "\<forall>x\<in>set xs. \<not> P x \<Longrightarrow> List.find P xs = None"
  by (induction xs) auto

lemma find_split: "\<forall>y\<in>set ys. \<not> P y \<Longrightarrow> P x \<Longrightarrow> List.find P (ys @ x # zs) = Some x"
  by (induction ys) auto

subsection \<open>Results of operations\<close>

text \<open>What holds of the result when there is one.  The rules follow the structure of an operation.\<close>

definition post :: "('a \<Rightarrow> bool) \<Rightarrow> 'a option \<Rightarrow> bool" where
  "post Q m \<longleftrightarrow> (\<forall>x. m = Some x \<longrightarrow> Q x)"

named_theorems post_intros

lemma postI: "(\<And>x. m = Some x \<Longrightarrow> Q x) \<Longrightarrow> post Q m"
  by (simp add: post_def)

lemma postD: "post Q m \<Longrightarrow> m = Some x \<Longrightarrow> Q x"
  by (simp add: post_def)

lemma post_Some: "Q x \<Longrightarrow> post Q (Some x)"
  by (simp add: post_def)

lemma post_None: "post Q None"
  by (simp add: post_def)

lemma post_bind: "post P m \<Longrightarrow> (\<And>x. m = Some x \<Longrightarrow> P x \<Longrightarrow> post Q (f x)) \<Longrightarrow> post Q (m \<bind> f)"
  by (cases m) (simp_all add: post_def)

lemma post_bind_Some: "post Q (f x) \<Longrightarrow> post Q (Some x \<bind> f)"
  by simp

lemma post_if: "(b \<Longrightarrow> post Q x) \<Longrightarrow> (\<not> b \<Longrightarrow> post Q y) \<Longrightarrow> post Q (if b then x else y)"
  by simp

lemma post_Let: "post Q (f e) \<Longrightarrow> post Q (Let e f)"
  by simp

lemma post_prod: "(\<And>a b. p = (a, b) \<Longrightarrow> post Q (f a b)) \<Longrightarrow> post Q (case p of (a, b) \<Rightarrow> f a b)"
  by (cases p) simp

lemma post_option: "(m = None \<Longrightarrow> post Q x) \<Longrightarrow> (\<And>a. m = Some a \<Longrightarrow> post Q (f a)) \<Longrightarrow> post Q (case m of None \<Rightarrow> x | Some a \<Rightarrow> f a)"
  by (cases m) simp_all

lemma post_sum: "(\<And>a. m = Inl a \<Longrightarrow> post Q (f a)) \<Longrightarrow> (\<And>a. m = Inr a \<Longrightarrow> post Q (g a)) \<Longrightarrow> post Q (case_sum f g m)"
  by (cases m) simp_all

lemma post_weaken: "post P m \<Longrightarrow> (\<And>x. P x \<Longrightarrow> Q x) \<Longrightarrow> post Q m"
  by (simp add: post_def)

lemma post_True: "post (\<lambda>_. True) m"
  by (simp add: post_def)

lemmas post_rules = post_bind_Some post_Some post_None post_if post_Let post_prod post_option post_sum

text \<open>The same, and a promise: there is a result when \<open>c\<close> holds.\<close>

definition wp :: "bool \<Rightarrow> ('a \<Rightarrow> bool) \<Rightarrow> 'a option \<Rightarrow> bool" where
  "wp c Q m \<longleftrightarrow> post Q m \<and> (c \<longrightarrow> m \<noteq> None)"

lemma wpD: "wp c Q m \<Longrightarrow> m = Some x \<Longrightarrow> Q x"
  by (simp add: wp_def post_def)

lemma wp_returns: "wp c Q m \<Longrightarrow> c \<Longrightarrow> \<exists>x. m = Some x \<and> Q x"
  by (auto simp: wp_def post_def)

lemma wp_Some: "Q x \<Longrightarrow> wp c Q (Some x)"
  by (simp add: wp_def post_def)

lemma wp_None: "\<not> c \<Longrightarrow> wp c Q None"
  by (simp add: wp_def post_def)

lemma wp_bind: "wp c P m \<Longrightarrow> (\<And>x. m = Some x \<Longrightarrow> P x \<Longrightarrow> wp c Q (f x)) \<Longrightarrow> wp c Q (m \<bind> f)"
  by (cases m) (simp_all add: wp_def post_def)

lemma wp_bind_Some: "m = Some x \<Longrightarrow> wp c Q (f x) \<Longrightarrow> wp c Q (m \<bind> f)"
  by simp

lemma wp_if: "(b \<Longrightarrow> wp c Q x) \<Longrightarrow> (\<not> b \<Longrightarrow> wp c Q y) \<Longrightarrow> wp c Q (if b then x else y)"
  by simp

lemma wp_Let: "wp c Q (f e) \<Longrightarrow> wp c Q (Let e f)"
  by simp

lemma wp_prod: "(\<And>a b. p = (a, b) \<Longrightarrow> wp c Q (f a b)) \<Longrightarrow> wp c Q (case p of (a, b) \<Rightarrow> f a b)"
  by (cases p) simp

lemma wp_option: "(m = None \<Longrightarrow> wp c Q x) \<Longrightarrow> (\<And>a. m = Some a \<Longrightarrow> wp c Q (f a)) \<Longrightarrow> wp c Q (case m of None \<Rightarrow> x | Some a \<Rightarrow> f a)"
  by (cases m) simp_all

lemma wp_weaken: "wp c P m \<Longrightarrow> (\<And>x. P x \<Longrightarrow> Q x) \<Longrightarrow> wp c Q m"
  by (simp add: wp_def post_def)

lemmas wp_rules = wp_Some wp_if wp_Let wp_prod wp_option

subsection \<open>Error numbers\<close>

definition EINTR :: int where "EINTR = 4"
definition EAGAIN :: int where "EAGAIN = 11"

end
