(* ===== verification/Hlist.thy ===== *)
theory Hlist
  imports Fz_Prelude
begin

text \<open>
  The singly headed list with back references that \<^verbatim>\<open>objpool.c\<close> keeps its free nodes
  and its caches in: an element holds \<open>next\<close> and \<open>pprev\<close>, where \<open>pprev\<close> is the
  address of the pointer that points at the element (the list head or the \<open>next\<close> field
  of the element before).  The source writes the three idioms (push, pop, unlink) out at
  each place; they are named once here.  \<open>hl_rep l xs\<close> says that the links spell \<open>xs\<close>.
\<close>

subsection \<open>The links and the three idioms\<close>

datatype pref = PNull | PHead | PNext addr

record hlist =
  hl_head :: addr
  hl_next :: "addr \<Rightarrow> addr"
  hl_pprev :: "addr \<Rightarrow> pref"

definition hl_empty :: hlist where
  "hl_empty = \<lparr>hl_head = NULL, hl_next = (\<lambda>_. NULL), hl_pprev = (\<lambda>_. PNull)\<rparr>"

definition hl_push :: "addr \<Rightarrow> hlist \<Rightarrow> hlist" where
  "hl_push x l =
     (let l = (if hl_head l \<noteq> NULL
               then l\<lparr>hl_pprev := (hl_pprev l)(hl_head l := PNext x)\<rparr> else l);
          l = l\<lparr>hl_pprev := (hl_pprev l)(x := PHead)\<rparr>;
          l = l\<lparr>hl_next := (hl_next l)(x := hl_head l)\<rparr>
      in l\<lparr>hl_head := x\<rparr>)"

text \<open>
  Both pop and unlink first redirect the back reference of the element after the removed
  one: \<^verbatim>\<open>if (x->next) x->next->pprev = r\<close>.
\<close>

definition hl_redirect :: "addr \<Rightarrow> pref \<Rightarrow> hlist \<Rightarrow> hlist" where
  "hl_redirect a r l = (if a \<noteq> NULL then l\<lparr>hl_pprev := (hl_pprev l)(a := r)\<rparr> else l)"

text \<open>Taking the first element; an empty list is the NULL dereference \<open>node->next\<close>.\<close>

definition hl_pop :: "hlist \<Rightarrow> (addr \<times> hlist) option" where
  "hl_pop l =
     (let x = hl_head l in
      if x = NULL then None
      else
        let l = hl_redirect (hl_next l x) PHead l;
            l = l\<lparr>hl_head := hl_next l x\<rparr>;
            l = l\<lparr>hl_next := (hl_next l)(x := NULL)\<rparr>
        in Some (x, l\<lparr>hl_pprev := (hl_pprev l)(x := PNull)\<rparr>))"

text \<open>\<^verbatim>\<open>*x->pprev = x->next\<close>, where a NULL \<open>pprev\<close> faults.\<close>

definition hl_unlink :: "addr \<Rightarrow> hlist \<Rightarrow> hlist option" where
  "hl_unlink x l =
     (let l = hl_redirect (hl_next l x) (hl_pprev l x) l
      in case hl_pprev l x of
           PNull \<Rightarrow> None
         | PHead \<Rightarrow> Some (l\<lparr>hl_head := hl_next l x\<rparr>)
         | PNext u \<Rightarrow> Some (l\<lparr>hl_next := (hl_next l)(u := hl_next l x)\<rparr>))"

subsection \<open>Representation\<close>

lemma hl_redirect_simps [simp]:
  "hl_head (hl_redirect a r l) = hl_head l" "hl_next (hl_redirect a r l) = hl_next l"
  "x \<noteq> a \<Longrightarrow> hl_pprev (hl_redirect a r l) x = hl_pprev l x"
  by (simp_all add: hl_redirect_def)

primrec hl_path :: "hlist \<Rightarrow> pref \<Rightarrow> addr \<Rightarrow> addr list \<Rightarrow> pref \<Rightarrow> addr \<Rightarrow> bool" where
  "hl_path l r a [] r' a' \<longleftrightarrow> r = r' \<and> a = a'"
| "hl_path l r a (x # xs) r' a' \<longleftrightarrow>
     a = x \<and> x \<noteq> NULL \<and> hl_pprev l x = r \<and> hl_path l (PNext x) (hl_next l x) xs r' a'"

definition hl_end :: "pref \<Rightarrow> addr list \<Rightarrow> pref" where
  "hl_end r xs = (if xs = [] then r else PNext (last xs))"

definition hl_rep :: "hlist \<Rightarrow> addr list \<Rightarrow> bool" where
  "hl_rep l xs \<longleftrightarrow> distinct xs \<and> hl_path l PHead (hl_head l) xs (hl_end PHead xs) NULL"

lemma hl_end_simps [simp]: "hl_end r [] = r" "hl_end r (xs @ [x]) = PNext x"
  by (simp_all add: hl_end_def)

lemma hl_end_Cons: "hl_end r (x # xs) = hl_end (PNext x) xs"
  by (simp add: hl_end_def)

lemma hl_end_append [simp]: "hl_end r (xs @ x # ys) = hl_end (PNext x) ys"
  by (simp add: hl_end_def)

lemma hl_path_append [hlist_simps]:
  "hl_path l r a (xs @ ys) r' a' \<longleftrightarrow>
     (\<exists>r1 a1. hl_path l r a xs r1 a1 \<and> hl_path l r1 a1 ys r' a')"
  by (induction xs arbitrary: r a) auto

lemma hl_path_end: "hl_path l r a xs r' a' \<Longrightarrow> r' = hl_end r xs"
  by (induction xs arbitrary: r a) (auto simp: hl_end_Cons)

lemma hl_path_snoc [hlist_simps]:
  "hl_path l r a (xs @ [x]) r' a' \<longleftrightarrow>
     hl_path l r a xs (hl_end r xs) x \<and> x \<noteq> NULL \<and> hl_pprev l x = hl_end r xs
     \<and> r' = PNext x \<and> a' = hl_next l x"
  by (induction xs arbitrary: r a) (auto simp: hl_end_Cons)

lemma hl_path_nonnull: "hl_path l r a xs r' a' \<Longrightarrow> NULL \<notin> set xs"
  by (induction xs arbitrary: r a) auto

lemma hl_path_cong:
  assumes "\<And>x. x \<in> set xs \<Longrightarrow> hl_next l' x = hl_next l x \<and> hl_pprev l' x = hl_pprev l x"
  shows "hl_path l' r a xs r' a' = hl_path l r a xs r' a'"
  using assms by (induction xs arbitrary: r a) auto

lemma hl_rep_empty [simp]: "hl_rep hl_empty []"
  by (simp add: hl_rep_def hl_empty_def)

lemma hl_rep_Nil [hlist_simps]: "hl_rep l [] \<longleftrightarrow> hl_head l = NULL"
  by (auto simp: hl_rep_def)

lemma hl_rep_nonnull: "hl_rep l xs \<Longrightarrow> NULL \<notin> set xs"
  by (auto simp: hl_rep_def dest: hl_path_nonnull)

lemma hl_rep_distinct: "hl_rep l xs \<Longrightarrow> distinct xs"
  by (simp add: hl_rep_def)

lemma hl_rep_head: "hl_rep l xs \<Longrightarrow> hl_head l = (case xs of [] \<Rightarrow> NULL | x # _ \<Rightarrow> x)"
  by (auto simp: hl_rep_def split: list.splits)

lemma hl_rep_unique: "hl_rep l xs \<Longrightarrow> hl_rep l ys \<Longrightarrow> xs = ys"
proof -
  have "hl_path l r a xs r1 NULL \<Longrightarrow> hl_path l r a ys r2 NULL \<Longrightarrow> xs = ys" for r a r1 r2
  proof (induction xs arbitrary: r a ys)
    case Nil then show ?case by (cases ys) auto
  next
    case (Cons x xs) then show ?case by (cases ys) auto
  qed
  then show "hl_rep l xs \<Longrightarrow> hl_rep l ys \<Longrightarrow> xs = ys"
    unfolding hl_rep_def by blast
qed

subsection \<open>The idioms implement the list operations\<close>

lemma hl_rep_push:
  assumes "hl_rep l xs" and "x \<noteq> NULL" and "x \<notin> set xs"
  shows "hl_rep (hl_push x l) (x # xs)"
proof (cases xs)
  case (Cons y ys)
  have "hl_path (hl_push x l) (PNext y) (hl_next l y) ys (hl_end PHead xs) NULL
      = hl_path l (PNext y) (hl_next l y) ys (hl_end PHead xs) NULL"
    using assms Cons by (intro hl_path_cong) (auto simp: hl_push_def hl_rep_def)
  with assms Cons show ?thesis
    by (auto simp: hl_rep_def hl_push_def hl_end_def)
qed (use assms in \<open>auto simp: hl_rep_def hl_push_def hl_end_def\<close>)

lemma hl_pop_Nil: "hl_rep l [] \<Longrightarrow> hl_pop l = None"
  by (simp add: hl_rep_Nil hl_pop_def)

lemma hl_rep_pop:
  assumes "hl_rep l (x # xs)"
  obtains l' where "hl_pop l = Some (x, l')" and "hl_rep l' xs"
proof -
  define l' where "l' = snd (the (hl_pop l))"
  have "hl_pop l = Some (x, l')"
    using assms by (simp add: l'_def hl_pop_def hl_redirect_def hl_rep_def Let_def)
  moreover have "hl_rep l' xs"
  proof (cases xs)
    case (Cons y ys)
    have "hl_path l' (PNext y) (hl_next l y) ys (hl_end PHead xs) NULL
        = hl_path l (PNext y) (hl_next l y) ys (hl_end PHead xs) NULL"
      using assms Cons by (intro hl_path_cong) (auto simp: l'_def hl_pop_def hl_redirect_def hl_rep_def Let_def)
    with assms Cons show ?thesis
      by (auto simp: l'_def hl_pop_def hl_redirect_def hl_rep_def Let_def hl_end_def)
  qed (use assms in \<open>auto simp: l'_def hl_pop_def hl_redirect_def hl_rep_def Let_def hl_end_def\<close>)
  ultimately show ?thesis by (rule that)
qed

lemma hl_path_redirect:
  assumes "hl_path l r0 a ys r1 NULL" and "distinct ys"
  shows "hl_path (hl_redirect a r l) r a ys (hl_end r ys) NULL"
proof (cases ys)
  case (Cons y zs)
  then have "hl_path (hl_redirect a r l) (PNext y) (hl_next l y) zs r1 NULL"
    using assms by (subst hl_path_cong [of _ _ l]) (auto simp: hl_redirect_def)
  with Cons assms show ?thesis
    by (auto simp: hl_redirect_def hl_end_Cons dest: hl_path_end)
qed (use assms in simp)

lemma hl_rep_unlink:
  assumes "hl_rep l (xs @ x # ys)"
  obtains l' where "hl_unlink x l = Some l'" and "hl_rep l' (xs @ ys)"
proof -
  let ?r = "hl_end PHead xs" and ?n = "hl_next l x"
  define l1 where "l1 = hl_redirect ?n (hl_pprev l x) l"
  have d: "distinct (xs @ x # ys)" and nn: "NULL \<notin> set (xs @ x # ys)"
    using hl_rep_distinct [OF assms] hl_rep_nonnull [OF assms] by auto
  have "hl_path l PHead (hl_head l) xs (hl_pprev l x) x"
    and py: "hl_path l (PNext x) ?n ys (hl_end (PNext x) ys) NULL"
    using assms by (auto simp: hl_rep_def hl_path_append)
  then have pp: "hl_pprev l x = ?r" and px: "hl_path l PHead (hl_head l) xs ?r x"
    using hl_path_end [of l PHead "hl_head l" xs] by simp_all
  have nx: "?n \<notin> insert x (set xs)"
    using py d nn by (cases ys) auto
  have p1: "hl_pprev l1 x = ?r"
    using pp nx by (simp add: l1_def hl_redirect_def)
  have px1: "hl_path l1 PHead (hl_head l) xs ?r x"
    using px nx by (subst hl_path_cong [of _ _ l]) (auto simp: l1_def hl_redirect_def)
  have py1: "hl_path l1 ?r ?n ys (hl_end ?r ys) NULL"
    using py d pp by (simp add: l1_def hl_path_redirect)
  have u: "hl_unlink x l = (case ?r of PNull \<Rightarrow> None | PHead \<Rightarrow> Some (l1\<lparr>hl_head := ?n\<rparr>)
      | PNext v \<Rightarrow> Some (l1\<lparr>hl_next := (hl_next l1)(v := ?n)\<rparr>))"
    using p1 by (simp add: hl_unlink_def l1_def Let_def split: pref.split)
  show ?thesis
  proof (cases xs rule: rev_cases)
    case Nil
    have "hl_path (l1\<lparr>hl_head := ?n\<rparr>) PHead ?n ys (hl_end PHead ys) NULL"
      using py1 Nil by (subst hl_path_cong [of _ _ l1]) auto
    with u d Nil show ?thesis by (intro that) (auto simp: hl_rep_def)
  next
    case (snoc us v)
    let ?l = "l1\<lparr>hl_next := (hl_next l1)(v := ?n)\<rparr>"
    have "hl_path ?l PHead (hl_head l) us (hl_end PHead us) v"
      using px1 d snoc by (subst hl_path_cong [of _ _ l1]) (auto simp: hl_path_snoc)
    moreover have "hl_path ?l (PNext v) ?n ys (hl_end (PNext v) ys) NULL"
      using py1 d snoc by (subst hl_path_cong [of _ _ l1]) auto
    moreover have "hl_pprev ?l v = hl_end PHead us" "v \<noteq> NULL"
      using px1 snoc by (auto simp: hl_path_snoc)
    ultimately show ?thesis using u d snoc
      by (intro that [of ?l]) (auto simp: hl_rep_def hl_path_append hl_end_def l1_def)
  qed
qed

end
