(* ===== verification/Fz_Interfaces.thy ===== *)
theory Fz_Interfaces
  imports Fz_Prelude
begin

text \<open>
  The contracts the components rely on, as locales: what a client may call, what the
  provider promises, and the facts every client gets from the promises alone.  Each
  locale is interpreted on the definitions of the components that provide it.
\<close>

subsection \<open>A pool of objects\<close>

text \<open>
  \<open>used\<close> is the set of objects handed out, \<open>owned\<close> the set of all objects the pool has
  memory for.  \<open>get\<close> is given what the environment decides (the outcomes of \<open>malloc\<close>),
  \<open>ok\<close> says that the environment behaves and \<open>grown\<close> are the objects the environment may
  add.
\<close>

locale object_pool =
  fixes inv :: "'p \<Rightarrow> bool"
    and used :: "'p \<Rightarrow> addr set"
    and owned :: "'p \<Rightarrow> addr set"
    and grown :: "'e \<Rightarrow> 'p \<Rightarrow> addr set"
    and ok :: "'e \<Rightarrow> 'p \<Rightarrow> bool"
    and get :: "'e \<Rightarrow> 'p \<Rightarrow> (addr \<times> 'p) option"
    and put :: "addr \<Rightarrow> 'p \<Rightarrow> (int \<times> 'p) option"
  assumes get_safe: "inv p \<Longrightarrow> ok e p \<Longrightarrow> \<exists>a p'. get e p = Some (a, p')"
    and get_inv: "inv p \<Longrightarrow> ok e p \<Longrightarrow> get e p = Some (a, p') \<Longrightarrow> inv p'"
    and get_fresh: "inv p \<Longrightarrow> ok e p \<Longrightarrow> get e p = Some (a, p') \<Longrightarrow> a \<noteq> NULL \<Longrightarrow>
          a \<notin> used p \<and> used p' = insert a (used p)"
    and get_fail: "inv p \<Longrightarrow> ok e p \<Longrightarrow> get e p = Some (NULL, p') \<Longrightarrow> used p' = used p"
    and put_safe: "inv p \<Longrightarrow> a \<in> used p \<Longrightarrow>
          \<exists>p'. put a p = Some (0, p') \<and> inv p' \<and> used p' = used p - {a}"
    and null_unused: "inv p \<Longrightarrow> NULL \<notin> used p"
    and used_owned: "inv p \<Longrightarrow> used p \<subseteq> owned p"
    and get_owned: "inv p \<Longrightarrow> ok e p \<Longrightarrow> get e p = Some (a, p') \<Longrightarrow> owned p' \<subseteq> owned p \<union> grown e p"
    and put_owned: "inv p \<Longrightarrow> a \<in> used p \<Longrightarrow> put a p = Some (0, p') \<Longrightarrow> owned p' \<subseteq> owned p"
begin

text \<open>A run of \<open>get\<close>s, one per environment, collecting the objects that were handed out.\<close>

fun get_all :: "'e list \<Rightarrow> 'p \<Rightarrow> (addr list \<times> 'p) option" where
  "get_all [] p = Some ([], p)"
| "get_all (e # es) p =
     do {
       (a, p1) \<leftarrow> get e p;
       (as, p2) \<leftarrow> get_all es p1;
       Some (if a = NULL then as else a # as, p2) }"

text \<open>The environments behave all along the run.\<close>

fun ok_all :: "'e list \<Rightarrow> 'p \<Rightarrow> bool" where
  "ok_all [] p = True"
| "ok_all (e # es) p = (ok e p \<and> (\<forall>a p'. get e p = Some (a, p') \<longrightarrow> ok_all es p'))"

lemma get_used:
  assumes "inv p" "ok e p" "get e p = Some (a, p')"
  shows "used p' = (if a = NULL then used p else insert a (used p))"
  using get_fresh [OF assms] get_fail [OF assms(1,2)] assms(3) by auto

lemma get_all_spec:
  assumes "inv p" and "ok_all es p"
  shows "\<exists>as p'. get_all es p = Some (as, p') \<and> inv p' \<and> distinct as
           \<and> set as \<inter> used p = {} \<and> used p' = set as \<union> used p"
  using assms
proof (induction es arbitrary: p)
  case (Cons e es)
  obtain a p1 where g: "get e p = Some (a, p1)"
    using get_safe Cons.prems by fastforce
  obtain as p2 where r: "get_all es p1 = Some (as, p2)" "inv p2" "distinct as"
      "set as \<inter> used p1 = {}" "used p2 = set as \<union> used p1"
    using Cons.IH [of p1] Cons.prems get_inv g by fastforce
  show ?case
  proof (cases "a = NULL")
    case True
    then show ?thesis using g r get_used [of p e a p1] Cons.prems by auto
  next
    case False
    then show ?thesis
      using g r get_used [of p e a p1] get_fresh [of p e a p1] Cons.prems by auto
  qed
qed auto

text \<open>Returning what one got brings the pool back to the same set of used objects.\<close>

lemma get_put_used:
  assumes "inv p" "ok e p" "get e p = Some (a, p')" "a \<noteq> NULL"
  shows "\<exists>p''. put a p' = Some (0, p'') \<and> inv p'' \<and> used p'' = used p"
  using put_safe [of p' a] get_inv [OF assms(1-3)] get_fresh [OF assms] by auto

end

subsection \<open>A table of buckets\<close>

text \<open>
  What the two hash tables promise: \<open>rep h f\<close> says that bucket \<open>i\<close> of the table \<open>h\<close> holds the
  values \<open>f i\<close> in insertion order; \<open>cmp\<close> is the table's compare function, 0 for equal.
\<close>

locale bucket_table =
  fixes rep :: "'h \<Rightarrow> (nat \<Rightarrow> addr list) \<Rightarrow> bool"
    and nb :: "'h \<Rightarrow> u32"
    and cmp :: "addr \<Rightarrow> addr \<Rightarrow> int"
    and ok :: "'e \<Rightarrow> 'h \<Rightarrow> bool"
    and ins :: "'e \<Rightarrow> u32 \<Rightarrow> addr \<Rightarrow> 'h \<Rightarrow> (int \<times> 'h) option"
    and look :: "u32 \<Rightarrow> addr \<Rightarrow> 'h \<Rightarrow> (addr \<times> 'h) option"
    and del :: "u32 \<Rightarrow> addr \<Rightarrow> 'h \<Rightarrow> (addr \<times> 'h) option"
  assumes ins_spec: "rep h f \<Longrightarrow> ok e h \<Longrightarrow> v \<noteq> NULL \<Longrightarrow>
      \<exists>r h'. ins e k v h = Some (r, h') \<and> nb h' = nb h \<and>
        (r = 0 \<and> rep h' (f(unat (k mod nb h) := f (unat (k mod nb h)) @ [v])) \<or> r = -1 \<and> rep h' f)"
    and look_spec: "rep h f \<Longrightarrow> v \<noteq> NULL \<Longrightarrow>
      \<exists>h'. look k v h =
          Some (case List.find (\<lambda>w. cmp w v = 0) (f (unat (k mod nb h))) of None \<Rightarrow> NULL | Some w \<Rightarrow> w, h')
        \<and> nb h' = nb h \<and> rep h' f"
    and del_spec: "rep h f \<Longrightarrow> v \<noteq> NULL \<Longrightarrow>
      \<exists>h'. del k v h =
          Some (case List.find (\<lambda>w. cmp w v = 0) (f (unat (k mod nb h))) of None \<Rightarrow> NULL | Some w \<Rightarrow> w, h')
        \<and> nb h' = nb h
        \<and> rep h' (f(unat (k mod nb h) := remove_first (\<lambda>w. cmp w v = 0) (f (unat (k mod nb h)))))"
begin

text \<open>A value the bucket had no equal of is found, and deleted, under its key.\<close>

lemma ins_then:
  assumes rep: "rep h f" and ok: "ok e h" and v: "v \<noteq> NULL" "cmp v v = 0"
    and new: "\<forall>w\<in>set (f (unat (k mod nb h))). cmp w v \<noteq> 0"
    and ins: "ins e k v h = Some (0, h')"
  shows "\<exists>h''. look k v h' = Some (v, h'')"
    and "\<exists>h''. del k v h' = Some (v, h'') \<and> rep h'' f"
proof -
  let ?i = "unat (k mod nb h)"
  have nb: "nb h' = nb h" and r: "rep h' (f(?i := f ?i @ [v]))"
    using ins_spec [OF rep ok v(1), of k] ins by auto
  have find: "List.find (\<lambda>w. cmp w v = 0) (f ?i @ [v]) = Some v"
    and rem: "remove_first (\<lambda>w. cmp w v = 0) (f ?i @ [v]) = f ?i"
    using find_split [of "f ?i" "\<lambda>w. cmp w v = 0" v "[]"] remove_first_split [of "f ?i" "\<lambda>w. cmp w v = 0" v "[]"]
      new v by auto
  show "\<exists>h''. look k v h' = Some (v, h'')"
    using look_spec [OF r v(1), of k] find nb by auto
  show "\<exists>h''. del k v h' = Some (v, h'') \<and> rep h'' f"
    using del_spec [OF r v(1), of k] find rem nb by auto
qed

text \<open>Keys of other buckets do not notice an insertion.\<close>

lemma ins_other:
  assumes rep: "rep h f" and ok: "ok e h" and v: "v \<noteq> NULL" "u \<noteq> NULL"
    and k: "k mod nb h \<noteq> k' mod nb h" and ins: "ins e k v h = Some (r, h')"
  shows "map_option fst (look k' u h') = map_option fst (look k' u h)"
proof -
  have "unat (k mod nb h) \<noteq> unat (k' mod nb h)" using k by (simp add: word_unat_eq_iff)
  moreover have "nb h' = nb h" and "rep h' (f(unat (k mod nb h) := f (unat (k mod nb h)) @ [v])) \<or> rep h' f"
    using ins_spec [OF rep ok v(1), of k] ins by auto
  ultimately show ?thesis
    using look_spec [OF rep v(2), of k'] look_spec [of h' _ u k', OF _ v(2)] by fastforce
qed

end

subsection \<open>A three-way comparison\<close>

text \<open>
  The contract of a C comparison function on the values of a set \<open>dm\<close>: negative, zero or
  positive, zero exactly on values that count as the \<open>same\<close>, and consistent as an order.
\<close>

locale c_order =
  fixes dm :: "'a \<Rightarrow> bool"
    and cmp :: "'a \<Rightarrow> 'a \<Rightarrow> int"
    and same :: "'a \<Rightarrow> 'a \<Rightarrow> bool"
  assumes zero_iff: "dm a \<Longrightarrow> dm b \<Longrightarrow> cmp a b = 0 \<longleftrightarrow> same a b"
    and anti: "dm a \<Longrightarrow> dm b \<Longrightarrow> sgn (cmp b a) = - sgn (cmp a b)"
    and le_trans: "dm a \<Longrightarrow> dm b \<Longrightarrow> dm c \<Longrightarrow> cmp a b \<le> 0 \<Longrightarrow> cmp b c \<le> 0 \<Longrightarrow> cmp a c \<le> 0"
begin

lemma refl: "dm a \<Longrightarrow> cmp a a = 0"
  using anti [of a a] by (simp add: sgn_if split: if_splits)

lemma swap_less: "dm a \<Longrightarrow> dm b \<Longrightarrow> cmp b a < 0 \<longleftrightarrow> 0 < cmp a b"
  using anti [of a b] by (simp add: sgn_if split: if_splits)

lemma swap_zero: "dm a \<Longrightarrow> dm b \<Longrightarrow> cmp b a = 0 \<longleftrightarrow> cmp a b = 0"
  using anti [of a b] by (simp add: sgn_if split: if_splits)

lemma total: "dm a \<Longrightarrow> dm b \<Longrightarrow> cmp a b \<le> 0 \<or> cmp b a \<le> 0"
  using swap_less [of a b] by linarith

lemma less_le_trans:
  assumes "dm a" "dm b" "dm c" "cmp a b < 0" "cmp b c \<le> 0"
  shows "cmp a c < 0"
proof (rule ccontr)
  assume "\<not> cmp a c < 0"
  then have "cmp c a \<le> 0" using swap_less [of a c] swap_zero [of a c] assms by linarith
  then have "cmp b a \<le> 0" using le_trans [of b c a] assms by simp
  then show False using swap_less [of a b] swap_zero [of a b] assms by linarith
qed

lemma eq_trans:
  assumes "dm a" "dm b" "dm c" "cmp a b = 0" "cmp b c = 0"
  shows "cmp a c = 0"
proof -
  have "cmp a c \<le> 0" using le_trans [of a b c] assms by simp
  moreover have "cmp c a \<le> 0"
    using le_trans [of c b a] swap_zero [of a b] swap_zero [of b c] assms by simp
  ultimately show ?thesis using swap_less [of c a] assms by linarith
qed

end

text \<open>Ties of one comparison broken by the difference of a number.\<close>

locale c_order_lex = c_order dm cmp same
  for dm :: "'a \<Rightarrow> bool" and cmp :: "'a \<Rightarrow> 'a \<Rightarrow> int" and same :: "'a \<Rightarrow> 'a \<Rightarrow> bool" +
  fixes num :: "'a \<Rightarrow> int"
begin

lemma lex_le_trans:
  assumes "dm a" "dm b" "dm c"
    and "(if cmp a b \<noteq> 0 then cmp a b else num a - num b) \<le> 0"
    and "(if cmp b c \<noteq> 0 then cmp b c else num b - num c) \<le> 0"
  shows "(if cmp a c \<noteq> 0 then cmp a c else num a - num c) \<le> 0"
proof -
  have ab: "cmp a b \<le> 0" and bc: "cmp b c \<le> 0" using assms by (auto split: if_splits)
  have ac: "cmp a c \<le> 0" by (rule le_trans [OF assms(1-3) ab bc])
  show ?thesis
  proof (cases "cmp a c = 0")
    case True
    then have "cmp a b = 0" using less_le_trans [OF assms(1-3) _ bc] ab by fastforce
    moreover from this have "cmp b c = 0"
      using True eq_trans [of b a c] swap_zero [of a b] assms by simp
    ultimately show ?thesis using assms True by simp
  qed (use ac in simp)
qed

end

sublocale c_order_lex \<subseteq> lex: c_order dm "\<lambda>a b. if cmp a b \<noteq> 0 then cmp a b else num a - num b"
  "\<lambda>a b. same a b \<and> num a = num b"
proof
  fix a b
  assume "dm a" "dm b"
  then show "((if cmp a b \<noteq> 0 then cmp a b else num a - num b) = 0) = (same a b \<and> num a = num b)"
    by (auto simp: zero_iff)
  show "sgn (if cmp b a \<noteq> 0 then cmp b a else num b - num a) =
      - sgn (if cmp a b \<noteq> 0 then cmp a b else num a - num b)"
    using \<open>dm a\<close> \<open>dm b\<close> anti [of a b] swap_zero [of a b] by (simp add: sgn_if split: if_splits)
qed (rule lex_le_trans)

subsection \<open>Transition systems\<close>

text \<open>The states a system can get into, one step at a time.\<close>

inductive reach :: "('s \<Rightarrow> bool) \<Rightarrow> ('s \<Rightarrow> 's \<Rightarrow> bool) \<Rightarrow> 's \<Rightarrow> bool" for init step where
  reach_init: "init s \<Longrightarrow> reach init step s"
| reach_step: "reach init step s \<Longrightarrow> step s s' \<Longrightarrow> reach init step s'"

lemma reach_steps: "step\<^sup>*\<^sup>* s s' \<Longrightarrow> reach init step s \<Longrightarrow> reach init step s'"
  by (induction rule: rtranclp_induct) (auto intro: reach_step)

locale inductive_invariant =
  fixes init :: "'s \<Rightarrow> bool"
    and step :: "'s \<Rightarrow> 's \<Rightarrow> bool"
    and inv :: "'s \<Rightarrow> bool"
  assumes init_inv: "init s \<Longrightarrow> inv s"
    and step_inv: "inv s \<Longrightarrow> step s s' \<Longrightarrow> inv s'"
begin

lemma reach_inv: "reach init step s \<Longrightarrow> inv s"
  by (induction rule: reach.induct) (auto intro: init_inv step_inv)

lemma steps_inv: "step\<^sup>*\<^sup>* s s' \<Longrightarrow> inv s \<Longrightarrow> inv s'"
  by (induction rule: rtranclp_induct) (auto intro: step_inv)

end

text \<open>
  A lock among threads: \<open>ex\<close> tells who holds it exclusively, \<open>sh\<close> who shares it.  Whatever keeps an
  invariant under which an exclusive holder is alone excludes every other holder in all
  reachable states.
\<close>

locale lock_system = inductive_invariant init step inv
  for init :: "'s \<Rightarrow> bool" and step :: "'s \<Rightarrow> 's \<Rightarrow> bool" and inv :: "'s \<Rightarrow> bool" +
  fixes ex :: "'s \<Rightarrow> nat \<Rightarrow> bool"
    and sh :: "'s \<Rightarrow> nat \<Rightarrow> bool"
  assumes alone: "inv s \<Longrightarrow> ex s t \<Longrightarrow> ex s u \<or> sh s u \<Longrightarrow> u = t"
begin

lemma mutual_exclusion: "reach init step s \<Longrightarrow> ex s t \<Longrightarrow> u \<noteq> t \<Longrightarrow> \<not> ex s u \<and> \<not> sh s u"
  using alone reach_inv by blast

end

subsection \<open>Reference counts\<close>

text \<open>
  An object with a reference count that starts at 0, as the proxy's objects have it: \<open>clone\<close> adds a
  reference, \<open>release\<close> drops one and destroys the object when there was none to drop.  \<open>rc\<close> is
  the count of a live object, \<open>ok\<close> what has to hold for its destruction not to fault.
\<close>

primrec repeat_op :: "nat \<Rightarrow> ('s \<Rightarrow> ('r \<times> 's) option) \<Rightarrow> 's \<Rightarrow> 's option" where
  "repeat_op 0 f s = Some s"
| "repeat_op (Suc n) f s = (case f s of None \<Rightarrow> None | Some (_, s) \<Rightarrow> repeat_op n f s)"

locale refcounted =
  fixes rc :: "'s \<Rightarrow> addr \<Rightarrow> u32 option"
    and clone :: "addr \<Rightarrow> 's \<Rightarrow> (addr \<times> 's) option"
    and release :: "addr \<Rightarrow> 's \<Rightarrow> (int \<times> 's) option"
    and ok :: "'s \<Rightarrow> addr \<Rightarrow> bool"
  assumes clone_live: "rc s a = Some k \<Longrightarrow> ok s a \<Longrightarrow>
      \<exists>s'. clone a s = Some (a, s') \<and> rc s' a = Some (k + 1) \<and> ok s' a"
    and release_live: "rc s a = Some k \<Longrightarrow> k \<noteq> 0 \<Longrightarrow> ok s a \<Longrightarrow>
      \<exists>s'. release a s = Some (0, s') \<and> rc s' a = Some (k - 1) \<and> ok s' a"
    and release_last: "rc s a = Some 0 \<Longrightarrow> ok s a \<Longrightarrow> \<exists>s'. release a s = Some (0, s') \<and> rc s' a = None"
begin

lemma clones:
  "rc s a = Some k \<Longrightarrow> ok s a \<Longrightarrow>
     \<exists>s'. repeat_op n (clone a) s = Some s' \<and> rc s' a = Some (k + of_nat n) \<and> ok s' a"
proof (induction n arbitrary: s k)
  case (Suc n)
  obtain s1 where s1: "clone a s = Some (a, s1)" "rc s1 a = Some (k + 1)" "ok s1 a"
    using clone_live [OF Suc.prems] by blast
  then show ?case using Suc.IH [OF s1(2,3)] by (auto simp: ac_simps)
qed simp

lemma releases:
  "rc s a = Some (of_nat n) \<Longrightarrow> ok s a \<Longrightarrow> n < 2 ^ 32 \<Longrightarrow>
     \<exists>s'. repeat_op n (release a) s = Some s' \<and> rc s' a = Some 0 \<and> ok s' a"
proof (induction n arbitrary: s)
  case (Suc n)
  have "unat (of_nat (Suc n) :: u32) = Suc n"
    using Suc.prems(3) by (simp add: unsigned_of_nat take_bit_nat_eq_self del: of_nat_Suc)
  then have "(of_nat (Suc n) :: u32) \<noteq> 0" by (metis nat.distinct(1) unsigned_0)
  then obtain s1 where s1: "release a s = Some (0, s1)" "rc s1 a = Some (of_nat (Suc n) - 1)" "ok s1 a"
    using release_live [OF Suc.prems(1) _ Suc.prems(2)] by blast
  then show ?case using Suc.IH [of s1] Suc.prems(3) by auto
qed simp

text \<open>However often it is cloned, the object lives through as many releases and dies with the next one.\<close>

theorem balanced:
  assumes "rc s a = Some 0" and "ok s a" and "n < 2 ^ 32"
  shows "\<exists>s1 s2 s3. repeat_op n (clone a) s = Some s1 \<and> repeat_op n (release a) s1 = Some s2 \<and>
    rc s2 a = Some 0 \<and> release a s2 = Some (0, s3) \<and> rc s3 a = None"
proof -
  obtain s1 where s1: "repeat_op n (clone a) s = Some s1" "rc s1 a = Some (of_nat n)" "ok s1 a"
    using clones [OF assms(1,2), of n] by auto
  obtain s2 where s2: "repeat_op n (release a) s1 = Some s2" "rc s2 a = Some 0" "ok s2 a"
    using releases [OF s1(2,3) assms(3)] by auto
  then show ?thesis using s1(1) release_last [OF s2(2,3)] by auto
qed

end

end
