(* ===== verification/Objpool.thy ===== *)
theory Objpool
  imports Hlist Fz_Interfaces "HOL-Library.Multiset"
begin

text \<open>
  The object pool of \<^verbatim>\<open>code/basic/datastruct/objpool.c\<close>.  A pool owns caches; a cache owns
  one malloced block cut into \<open>incsize\<close> nodes of \<open>nodesize\<close> bytes; a node is a 40-byte
  header followed by the object handed to the caller.  The headers of all nodes and all
  cache structures in memory are two partial maps, so that following a wild pointer is a
  fault; the two intrusive lists are \<open>hlist\<close>s; \<open>op_live\<close> are the blocks malloced for the
  pool and not yet freed.  The contents of the objects themselves belong to the client.
\<close>

subsection \<open>State\<close>

record op_cache =
  k_magic :: u32
  k_nused :: u32
  k_pool :: addr
  k_capacity :: u32

record op_node =
  n_magic :: u32
  n_used :: bool
  n_cache :: addr
  n_pool :: addr

record objpool =
  op_addr :: addr
  op_magic :: u32
  op_need_lock :: bool
  op_lock :: bool
  op_objsize :: u16
  op_incsize :: u16
  op_nodesize :: u16
  op_nalloced :: u32
  op_nfreed :: u32
  op_node_list :: hlist
  op_cache_list :: hlist
  op_nodes :: "addr \<Rightarrow> op_node option"
  op_caches :: "addr \<Rightarrow> op_cache option"
  op_live :: "addr list"

text \<open>\<^verbatim>\<open>sizeof(_op_node_t)\<close> on LP64, and \<^verbatim>\<open>_OP_OFFSET\<close>.\<close>

definition op_hdr :: nat where
  "op_hdr = align_num 40"

definition OP_OFFSET :: "addr \<Rightarrow> addr" where
  "OP_OFFSET p = p - op_hdr"

definition OBJPOOL_INC_SIZE :: int where
  "OBJPOOL_INC_SIZE = 1000"

text \<open>The lock macros: the flag says whether the caller goes on.\<close>

definition OP_LOCK :: "objpool \<Rightarrow> bool \<times> objpool" where
  "OP_LOCK op =
     (if op_need_lock op then
        let (rc, m) = pthread_mutex_lock (op_lock op) in (rc = 0, op\<lparr>op_lock := m\<rparr>)
      else (True, op))"

definition OP_UNLOCK :: "objpool \<Rightarrow> bool \<times> objpool" where
  "OP_UNLOCK op =
     (if op_need_lock op then
        let (rc, m) = pthread_mutex_unlock (op_lock op) in (rc = 0, op\<lparr>op_lock := m\<rparr>)
      else (True, op))"

subsection \<open>Caches\<close>

definition op_check_memory :: int where
  "op_check_memory = 0"

definition op_cell :: "objpool \<Rightarrow> addr \<Rightarrow> nat \<Rightarrow> addr" where
  "op_cell op base i = base + i * unat (op_nodesize op)"

text \<open>One round of the loop that cuts the block into nodes.\<close>

definition op_init_node :: "addr \<Rightarrow> addr \<Rightarrow> nat \<Rightarrow> objpool \<Rightarrow> objpool" where
  "op_init_node cache base i op =
     (let node = op_cell op base i;
          op = op\<lparr>op_nodes := (op_nodes op)(node \<mapsto>
                 \<lparr>n_magic = op_magic op, n_used = False, n_cache = cache, n_pool = op_addr op\<rparr>)\<rparr>
      in op\<lparr>op_node_list := hl_push node (op_node_list op)\<rparr>)"

definition op_alloc_cache :: "addr \<Rightarrow> addr \<Rightarrow> objpool \<Rightarrow> int \<times> objpool" where
  "op_alloc_cache mc mp op =
     (if op_check_memory \<noteq> 0 then (-1, op)
      else if mc = NULL then (-1, op)
      else
        let op = op\<lparr>op_live := mc # op_live op\<rparr> in
        if mp = NULL then (-1, op)
        else
          let op = op\<lparr>op_live := mp # op_live op\<rparr>;
              op = fold (op_init_node mc mp) [0..<unat (op_incsize op)] op;
              op = op\<lparr>op_caches := (op_caches op)(mc \<mapsto>
                     \<lparr>k_magic = op_magic op, k_nused = 0, k_pool = mp,
                      k_capacity = ucast (op_incsize op)\<rparr>)\<rparr>;
              op = op\<lparr>op_nalloced := op_nalloced op + ucast (op_incsize op),
                      op_nfreed := op_nfreed op + ucast (op_incsize op)\<rparr>
          in (0, op\<lparr>op_cache_list := hl_push mc (op_cache_list op)\<rparr>))"

text \<open>
  One round of the loop of \<^verbatim>\<open>_op_free_cache\<close>: both asserts, then the unlink; the header
  must still be a node in memory.
\<close>

definition op_drop_node :: "addr \<Rightarrow> nat \<Rightarrow> objpool \<Rightarrow> objpool option" where
  "op_drop_node base i op =
     (let node = op_cell op base i in
      do {
        nd \<leftarrow> op_nodes op node;
        if n_used nd \<or> hl_pprev (op_node_list op) node = PNull then None
        else do {
          l \<leftarrow> hl_unlink node (op_node_list op);
          Some (op\<lparr>op_node_list := l\<rparr>) } })"

fun op_drop_nodes :: "addr \<Rightarrow> nat list \<Rightarrow> objpool \<Rightarrow> objpool option" where
  "op_drop_nodes base [] op = Some op"
| "op_drop_nodes base (i # is) op = do { op \<leftarrow> op_drop_node base i op; op_drop_nodes base is op }"

text \<open>\<^verbatim>\<open>free\<close>: freeing a block that is not allocated is a fault.\<close>

definition op_release :: "addr \<Rightarrow> objpool \<Rightarrow> objpool option" where
  "op_release b op =
     (if b \<in> set (op_live op) then Some (op\<lparr>op_live := remove1 b (op_live op)\<rparr>) else None)"

definition op_free_block :: "objpool \<Rightarrow> addr \<Rightarrow> addr \<Rightarrow> op_node option" where
  "op_free_block op base =
     fold (\<lambda>i m. m(op_cell op base i := None)) [0..<unat (op_incsize op)] (op_nodes op)"

definition op_free_cache :: "addr \<Rightarrow> objpool \<Rightarrow> objpool option" where
  "op_free_cache cache op =
     do {
       k \<leftarrow> op_caches op cache;
       if k_nused k \<noteq> 0 \<or> hl_pprev (op_cache_list op) cache = PNull \<or> k_pool k = NULL
          \<or> op_magic op \<noteq> k_magic k then None
       else do {
         l \<leftarrow> hl_unlink cache (op_cache_list op);
         let op = op\<lparr>op_cache_list := l\<lparr>hl_pprev := (hl_pprev l)(cache := PNull),
                                        hl_next := (hl_next l)(cache := NULL)\<rparr>\<rparr>;
         op \<leftarrow> op_drop_nodes (k_pool k) [0..<unat (op_incsize op)] op;
         let op = op\<lparr>op_nalloced := op_nalloced op - ucast (op_incsize op),
                     op_nfreed := op_nfreed op - ucast (op_incsize op)\<rparr>;
         op \<leftarrow> op_release (k_pool k) (op\<lparr>op_nodes := op_free_block op (k_pool k)\<rparr>);
         op_release cache (op\<lparr>op_caches := (op_caches op)(cache := None)\<rparr>) } }"

text \<open>\<^verbatim>\<open>_op_free_cache_list\<close>: free every cache and its block, following \<open>next\<close>.\<close>

partial_function (option) op_free_from :: "addr \<Rightarrow> objpool \<Rightarrow> objpool option" where
  "op_free_from cache op =
     (if cache = NULL then Some op
      else do {
        k \<leftarrow> op_caches op cache;
        let nxt = hl_next (op_cache_list op) cache;
        op \<leftarrow> (if k_pool k \<noteq> NULL
               then op_release (k_pool k) (op\<lparr>op_nodes := op_free_block op (k_pool k)\<rparr>)
               else Some op);
        op \<leftarrow> op_release cache (op\<lparr>op_caches := (op_caches op)(cache := None)\<rparr>);
        op_free_from nxt op })"

definition op_free_cache_list :: "objpool \<Rightarrow> objpool option" where
  "op_free_cache_list op =
     do {
       op \<leftarrow> op_free_from (hl_head (op_cache_list op)) op;
       Some (op\<lparr>op_cache_list := (op_cache_list op)\<lparr>hl_head := NULL\<rparr>\<rparr>) }"

text \<open>\<^verbatim>\<open>_op_put_node\<close>, with its asserts.\<close>

definition op_put_node :: "addr \<Rightarrow> objpool \<Rightarrow> objpool option" where
  "op_put_node node op =
     do {
       nd \<leftarrow> op_nodes op node;
       if n_cache nd = NULL then None
       else do {
         k \<leftarrow> op_caches op (n_cache nd);
         if op_magic op \<noteq> n_magic nd \<or> op_magic op \<noteq> k_magic k \<or> \<not> n_used nd then None
         else
           let op = op\<lparr>op_node_list := hl_push node (op_node_list op)\<rparr>;
               op = op\<lparr>op_nodes := (op_nodes op)(node \<mapsto> nd\<lparr>n_used := False\<rparr>)\<rparr>;
               op = op\<lparr>op_nfreed := op_nfreed op + 1\<rparr>;
               k = k\<lparr>k_nused := k_nused k - 1\<rparr>;
               op = op\<lparr>op_caches := (op_caches op)(n_cache nd \<mapsto> k)\<rparr>
           in if k_nused k = 0 \<and> unat (op_nfreed op) > 2 * unat (op_incsize op)
              then op_free_cache (n_cache nd) op
              else Some op } }"

subsection \<open>The interface functions\<close>

text \<open>
  \<open>None\<close> is the NULL the function returns.  \<open>mo\<close>, \<open>mc\<close> and \<open>mp\<close> are the outcomes
  of the three \<open>malloc\<close>s, \<open>now\<close> is \<^verbatim>\<open>time(NULL)\<close>.
\<close>

definition objpool_alloc ::
  "nat \<Rightarrow> int \<Rightarrow> bool \<Rightarrow> u32 \<Rightarrow> addr \<Rightarrow> addr \<Rightarrow> addr \<Rightarrow> objpool option" where
  "objpool_alloc objsize incsize locked now mo mc mp =
     (if objsize < 1 then None
      else
        let incsize = (if incsize < 1 then OBJPOOL_INC_SIZE else incsize) in
        if mo = NULL then None
        else
          let objsz = of_nat (align_num objsize);
              op = \<lparr>op_addr = mo, op_magic = now, op_need_lock = False, op_lock = False,
                    op_objsize = objsz, op_incsize = word_of_int incsize,
                    op_nodesize = objsz + of_nat op_hdr, op_nalloced = 0, op_nfreed = 0,
                    op_node_list = hl_empty, op_cache_list = hl_empty,
                    op_nodes = Map.empty, op_caches = Map.empty, op_live = [mo]\<rparr>;
              (rc, op) = op_alloc_cache mc mp op
          in if rc \<noteq> 0 then None
             else Some (if locked then op\<lparr>op_need_lock := True, op_lock := False\<rparr> else op))"

text \<open>The state that is left in memory after \<^verbatim>\<open>objpool_free\<close>; a NULL pool is address 0.\<close>

definition objpool_free :: "objpool \<Rightarrow> objpool option" where
  "objpool_free op =
     (if op_addr op = NULL then Some op
      else do {
        op \<leftarrow> op_free_cache_list op;
        op_release (op_addr op) op })"

text \<open>Taking the first free node and marking it used.\<close>

definition op_take_node :: "objpool \<Rightarrow> (addr \<times> objpool) option" where
  "op_take_node op =
     do {
       (node, l) \<leftarrow> hl_pop (op_node_list op);
       nd \<leftarrow> op_nodes op node;
       let op = op\<lparr>op_node_list := l, op_nodes := (op_nodes op)(node \<mapsto> nd\<lparr>n_used := True\<rparr>)\<rparr>;
       if n_cache nd = NULL then None
       else do {
         k \<leftarrow> op_caches op (n_cache nd);
         Some (node, op\<lparr>op_caches := (op_caches op)(n_cache nd \<mapsto> k\<lparr>k_nused := k_nused k + 1\<rparr>),
                        op_nfreed := op_nfreed op - 1\<rparr>) } }"

definition objpool_get :: "addr \<times> addr \<Rightarrow> objpool \<Rightarrow> (addr \<times> objpool) option" where
  "objpool_get m op =
     (if op_addr op = NULL then Some (NULL, op)
      else
        let (go, op) = OP_LOCK op in
        if \<not> go then Some (NULL, op)
        else
          let (rc, op) = (if op_nfreed op = 0 then op_alloc_cache (fst m) (snd m) op else (0, op)) in
          if rc \<noteq> 0 then Some (NULL, snd (OP_UNLOCK op))
          else do {
            (node, op) \<leftarrow> op_take_node op;
            Some (node + op_hdr, snd (OP_UNLOCK op)) })"

definition objpool_put :: "addr \<Rightarrow> objpool \<Rightarrow> (int \<times> objpool) option" where
  "objpool_put ptr op =
     (if ptr = NULL then Some (-1, op)
      else do {
        nd \<leftarrow> op_nodes op (OP_OFFSET ptr);
        if n_pool nd \<noteq> op_addr op \<or> n_pool nd = NULL then None
        else
          let (go, op) = OP_LOCK op in
          if \<not> go then Some (-1, op)
          else do {
            op \<leftarrow> op_put_node (OP_OFFSET ptr) op;
            let (done, op) = OP_UNLOCK op;
            Some (if done then 0 else -1, op) } })"

subsection \<open>The representation invariant\<close>

definition op_cells :: "objpool \<Rightarrow> addr \<Rightarrow> addr list" where
  "op_cells op c =
     (case op_caches op c of None \<Rightarrow> []
      | Some k \<Rightarrow> map (op_cell op (k_pool k)) [0..<unat (op_incsize op)])"

definition op_is_used :: "objpool \<Rightarrow> addr \<Rightarrow> bool" where
  "op_is_used op a = (case op_nodes op a of None \<Rightarrow> False | Some nd \<Rightarrow> n_used nd)"

definition op_used :: "objpool \<Rightarrow> addr set" where
  "op_used op = {a + op_hdr | a. op_is_used op a}"

text \<open>All objects the pool has memory for, and those a growth would add.\<close>

definition op_owned :: "objpool \<Rightarrow> addr set" where
  "op_owned op = (\<lambda>a. a + op_hdr) ` dom (op_nodes op)"

definition op_growth :: "addr \<times> addr \<Rightarrow> objpool \<Rightarrow> addr set" where
  "op_growth m op =
     (if op_nfreed op = 0 then (\<lambda>i. op_cell op (snd m) i + op_hdr) ` {..<unat (op_incsize op)} else {})"

text \<open>Two node addresses whose nodes do not overlap in memory.\<close>

definition op_apart :: "objpool \<Rightarrow> addr \<Rightarrow> addr \<Rightarrow> bool" where
  "op_apart op a b \<longleftrightarrow>
     a + unat (op_nodesize op) \<le> b \<or> b + unat (op_nodesize op) \<le> a"

text \<open>The free list \<open>ns\<close> and the cache list \<open>cs\<close> agree with the headers in memory.\<close>

definition op_shape :: "objpool \<Rightarrow> bool" where
  "op_shape op \<longleftrightarrow> op_addr op \<noteq> NULL \<and> 0 < unat (op_incsize op) \<and> 0 < unat (op_objsize op)
     \<and> unat (op_nodesize op) = unat (op_objsize op) + op_hdr"

definition op_caches_ok :: "objpool \<Rightarrow> addr list \<Rightarrow> bool" where
  "op_caches_ok op cs \<longleftrightarrow>
     hl_rep (op_cache_list op) cs \<and> dom (op_caches op) = set cs
     \<and> unat (op_nalloced op) = length cs * unat (op_incsize op)
     \<and> (\<forall>c k. op_caches op c = Some k \<longrightarrow> k_magic k = op_magic op \<and> k_pool k \<noteq> NULL
          \<and> unat (k_nused k) = length (filter (op_is_used op) (op_cells op c)))"

definition op_nodes_ok :: "objpool \<Rightarrow> addr list \<Rightarrow> bool" where
  "op_nodes_ok op cs \<longleftrightarrow>
     dom (op_nodes op) = (\<Union>c\<in>set cs. set (op_cells op c))
     \<and> (\<forall>c\<in>set cs. \<forall>d\<in>set cs. c \<noteq> d \<longrightarrow> set (op_cells op c) \<inter> set (op_cells op d) = {})
     \<and> (\<forall>a nd. op_nodes op a = Some nd \<longrightarrow> n_magic nd = op_magic op \<and> n_pool nd = op_addr op
          \<and> n_cache nd \<in> set cs \<and> a \<in> set (op_cells op (n_cache nd)))
     \<and> (\<forall>a\<in>dom (op_nodes op). \<forall>b\<in>dom (op_nodes op). a \<noteq> b \<longrightarrow> op_apart op a b)"

definition op_free_ok :: "objpool \<Rightarrow> addr list \<Rightarrow> bool" where
  "op_free_ok op ns \<longleftrightarrow>
     hl_rep (op_node_list op) ns \<and> set ns = {a \<in> dom (op_nodes op). \<not> op_is_used op a}
     \<and> unat (op_nfreed op) = length ns"

definition op_rep :: "objpool \<Rightarrow> addr list \<Rightarrow> addr list \<Rightarrow> bool" where
  "op_rep op cs ns \<longleftrightarrow> op_shape op \<and> op_caches_ok op cs \<and> op_nodes_ok op cs \<and> op_free_ok op ns"

text \<open>The blocks a pool with the caches \<open>cs\<close> owns are allocated, each once.\<close>

definition op_blocks :: "objpool \<Rightarrow> addr list \<Rightarrow> addr list" where
  "op_blocks op cs = concat (map (\<lambda>c. [k_pool (the (op_caches op c)), c]) cs)"

definition op_owns :: "objpool \<Rightarrow> addr list \<Rightarrow> bool" where
  "op_owns op cs \<longleftrightarrow> mset (op_blocks op cs @ [op_addr op]) \<subseteq># mset (op_live op)"

definition op_inv :: "objpool \<Rightarrow> bool" where
  "op_inv op \<longleftrightarrow>
     (\<exists>cs ns. op_rep op cs ns \<and> op_owns op cs) \<and> (op_need_lock op \<longrightarrow> \<not> op_lock op)"

text \<open>
  What \<open>malloc\<close> promises when the pool grows: the cache structure is new, the block does not
  overlap a block of the pool, and the pool stays below \<open>2^32\<close> objects, the range of its
  counters.
\<close>

definition op_fresh :: "addr \<times> addr \<Rightarrow> objpool \<Rightarrow> bool" where
  "op_fresh m op \<longleftrightarrow>
     (op_nfreed op = 0 \<and> fst m \<noteq> NULL \<and> snd m \<noteq> NULL \<longrightarrow>
        op_caches op (fst m) = None
        \<and> (\<forall>i<unat (op_incsize op). \<forall>a\<in>dom (op_nodes op). op_apart op a (op_cell op (snd m) i))
        \<and> unat (op_nalloced op) + unat (op_incsize op) < 2 ^ 32)"

end
