(* ===== verification/Objpool_Correct.thy ===== *)
theory Objpool_Correct
  imports Objpool
begin

text \<open>
  The correctness of the object pool: every operation of \<^verbatim>\<open>Objpool\<close> keeps the representation
  invariant, the pool implements the contract \<^verbatim>\<open>object_pool\<close>, and the properties that follow.
  The proofs go through the intermediate states \<open>op_grown\<close>, \<open>op_mark\<close>, \<open>op_returned\<close> and
  \<open>op_dropped\<close>, each the closed form of one piece of the code.
\<close>

subsection \<open>Growing the pool\<close>

lemma hl_rep_fold_push:
  assumes "hl_rep l ys" and "distinct xs" and "set xs \<inter> set ys = {}" and "NULL \<notin> set xs"
  shows "hl_rep (fold hl_push xs l) (rev xs @ ys)"
  using assms
proof (induction xs arbitrary: l ys)
  case (Cons x xs)
  have "hl_rep (hl_push x l) (x # ys)" using Cons.prems by (intro hl_rep_push) auto
  from Cons.IH [OF this] Cons.prems show ?case by auto
qed simp

lemma op_cell_upd [simp]:
  "op_cell (op\<lparr>op_nodes := m\<rparr>) = op_cell op" "op_cell (op\<lparr>op_node_list := l\<rparr>) = op_cell op"
  "op_cell (op\<lparr>op_caches := c\<rparr>) = op_cell op" "op_cell (op\<lparr>op_cache_list := l\<rparr>) = op_cell op"
  "op_cell (op\<lparr>op_live := v\<rparr>) = op_cell op" "op_cell (op\<lparr>op_nfreed := n\<rparr>) = op_cell op"
  "op_cell (op\<lparr>op_nalloced := n\<rparr>) = op_cell op" "op_cell (op\<lparr>op_lock := b\<rparr>) = op_cell op"
  by (simp_all add: op_cell_def fun_eq_iff)

lemma op_cell_inj: "0 < unat (op_nodesize op) \<Longrightarrow> inj_on (op_cell op base) A"
  by (auto simp: inj_on_def op_cell_def)

lemma fold_map_upds: "fold (\<lambda>i m. m(f i := v)) is m = (\<lambda>a. if a \<in> f ` set is then v else m a)"
  by (induction "is" arbitrary: m) auto

lemma op_init_nodes:
  "fold (op_init_node c base) is op = op\<lparr>
     op_nodes := fold (\<lambda>i m. m(op_cell op base i := Some
        \<lparr>n_magic = op_magic op, n_used = False, n_cache = c, n_pool = op_addr op\<rparr>)) is (op_nodes op),
     op_node_list := fold hl_push (map (op_cell op base) is) (op_node_list op)\<rparr>"
  by (induction "is" arbitrary: op) (simp_all add: op_init_node_def Let_def)

lemma op_cells_distinct:
  "0 < unat (op_nodesize op) \<Longrightarrow> distinct (op_cells op c)"
  by (auto simp: op_cells_def distinct_map intro: op_cell_inj split: option.splits)

lemma op_apart_sym: "op_apart op a b = op_apart op b a"
  by (auto simp: op_apart_def)

lemma op_cell_apart:
  "op_cell op b i \<noteq> op_cell op b j \<Longrightarrow> op_apart op (op_cell op b i) (op_cell op b j)"
proof -
  have "i < j \<Longrightarrow> op_cell op b i + unat (op_nodesize op) \<le> op_cell op b j" for i j
  proof -
    assume "i < j"
    then have "Suc i * unat (op_nodesize op) \<le> j * unat (op_nodesize op)"
      by (intro mult_le_mono1) simp
    then show ?thesis by (simp add: op_cell_def)
  qed
  then show "op_cell op b i \<noteq> op_cell op b j \<Longrightarrow> ?thesis"
    by (metis op_apart_def nat_neq_iff)
qed

text \<open>The pool after a successful growth.\<close>

definition op_grown :: "addr \<Rightarrow> addr \<Rightarrow> objpool \<Rightarrow> objpool" where
  "op_grown mc mp op = op\<lparr>
     op_live := mp # mc # op_live op,
     op_nodes := (\<lambda>a. if a \<in> op_cell op mp ` {0..<unat (op_incsize op)}
                      then Some \<lparr>n_magic = op_magic op, n_used = False, n_cache = mc, n_pool = op_addr op\<rparr>
                      else op_nodes op a),
     op_node_list := fold hl_push (map (op_cell op mp) [0..<unat (op_incsize op)]) (op_node_list op),
     op_caches := (op_caches op)(mc \<mapsto> \<lparr>k_magic = op_magic op, k_nused = 0, k_pool = mp,
                      k_capacity = ucast (op_incsize op)\<rparr>),
     op_nalloced := op_nalloced op + ucast (op_incsize op),
     op_nfreed := op_nfreed op + ucast (op_incsize op),
     op_cache_list := hl_push mc (op_cache_list op)\<rparr>"

lemma op_alloc_cache_eq:
  "mc \<noteq> NULL \<Longrightarrow> mp \<noteq> NULL \<Longrightarrow> op_alloc_cache mc mp op = (0, op_grown mc mp op)"
  by (simp add: op_alloc_cache_def op_check_memory_def Let_def op_init_nodes fold_map_upds op_grown_def cong: if_cong)

lemma op_alloc_cache_fail:
  assumes "mc = NULL \<or> mp = NULL"
  obtains v where "op_alloc_cache mc mp op = (-1, op\<lparr>op_live := v\<rparr>)"
    "v = op_live op \<or> v = mc # op_live op"
proof (cases "mc = NULL")
  case True
  then show ?thesis by (intro that [of "op_live op"]) (simp_all add: op_alloc_cache_def)
next
  case False
  then show ?thesis using assms
    by (intro that [of "mc # op_live op"]) (simp_all add: op_alloc_cache_def op_check_memory_def)
qed

lemma op_grown_sel [simp]:
  "op_addr (op_grown mc mp op) = op_addr op" "op_magic (op_grown mc mp op) = op_magic op"
  "op_need_lock (op_grown mc mp op) = op_need_lock op" "op_lock (op_grown mc mp op) = op_lock op"
  "op_objsize (op_grown mc mp op) = op_objsize op" "op_incsize (op_grown mc mp op) = op_incsize op"
  "op_nodesize (op_grown mc mp op) = op_nodesize op"
  "op_cell (op_grown mc mp op) = op_cell op" "op_apart (op_grown mc mp op) = op_apart op"
  by (simp_all add: op_grown_def fun_eq_iff op_cell_def op_apart_def)

lemma op_cells_grown:
  "op_cells (op_grown mc mp op) c =
     (if c = mc then map (op_cell op mp) [0..<unat (op_incsize op)] else op_cells op c)"
  by (cases "op_caches op c") (simp_all add: op_cells_def, simp_all add: op_grown_def)

text \<open>What growing needs of the environment.\<close>

definition op_room :: "addr \<Rightarrow> addr \<Rightarrow> objpool \<Rightarrow> bool" where
  "op_room mc mp op \<longleftrightarrow> mc \<noteq> NULL \<and> mp \<noteq> NULL \<and> op_caches op mc = None
     \<and> (\<forall>i<unat (op_incsize op). \<forall>a\<in>dom (op_nodes op). op_apart op a (op_cell op mp i))
     \<and> unat (op_nalloced op) + unat (op_incsize op) < 2 ^ 32"

lemma op_shape_pos: "op_shape op \<Longrightarrow> 0 < unat (op_nodesize op)"
  by (auto simp: op_shape_def)

lemma op_room_new:
  assumes "op_room mc mp op" "op_shape op" "i < unat (op_incsize op)"
  shows "op_nodes op (op_cell op mp i) = None"
proof (rule ccontr)
  assume "op_nodes op (op_cell op mp i) \<noteq> None"
  then have "op_apart op (op_cell op mp i) (op_cell op mp i)"
    using assms by (auto simp: op_room_def)
  then show False using op_shape_pos [OF assms(2)] by (simp add: op_apart_def)
qed

lemma op_grown_used:
  assumes "op_room mc mp op" "op_shape op"
  shows "op_is_used (op_grown mc mp op) = op_is_used op"
  using op_room_new [OF assms] by (fastforce simp: op_is_used_def op_grown_def fun_eq_iff)

lemma op_grown_node:
  "op_nodes (op_grown mc mp op) a = Some nd \<longleftrightarrow>
     (if a \<in> op_cell op mp ` {0..<unat (op_incsize op)}
      then nd = \<lparr>n_magic = op_magic op, n_used = False, n_cache = mc, n_pool = op_addr op\<rparr>
      else op_nodes op a = Some nd)"
  by (auto simp: op_grown_def)

lemma op_grown_caches_ok:
  assumes "op_shape op" "op_caches_ok op cs" and room: "op_room mc mp op"
  shows "op_caches_ok (op_grown mc mp op) (mc # cs)"
proof -
  let ?g = "op_grown mc mp op" and ?cells = "map (op_cell op mp) [0..<unat (op_incsize op)]"
  have mc: "mc \<notin> set cs" "mc \<noteq> NULL" "mp \<noteq> NULL"
    using assms by (auto simp: op_room_def op_caches_ok_def)
  have "hl_rep (op_cache_list ?g) (mc # cs)"
    using assms mc by (simp add: op_grown_def op_caches_ok_def hl_rep_push)
  moreover have "unat (op_nalloced ?g) = Suc (length cs) * unat (op_incsize op)"
    using assms by (simp add: op_grown_def op_room_def op_caches_ok_def unat_word_ariths)
  moreover have "filter (op_is_used op) ?cells = []"
    using op_room_new [OF room] assms(1) by (auto simp: filter_empty_conv op_is_used_def)
  ultimately show ?thesis
    using assms mc unfolding op_caches_ok_def op_grown_used [OF room assms(1)]
    by (auto simp: op_cells_grown) (auto simp: op_grown_def split: if_splits)
qed

lemma op_grown_nodes_ok:
  assumes "op_shape op" "op_caches_ok op cs" and no: "op_nodes_ok op cs" and room: "op_room mc mp op"
  shows "op_nodes_ok (op_grown mc mp op) (mc # cs)"
  unfolding op_nodes_ok_def
proof (intro conjI)
  let ?g = "op_grown mc mp op" and ?cells = "map (op_cell op mp) [0..<unat (op_incsize op)]"
  have mc: "mc \<notin> set cs" using assms by (auto simp: op_room_def op_caches_ok_def)
  have d: "dom (op_nodes ?g) = set ?cells \<union> dom (op_nodes op)"
    by (auto simp: op_grown_node dom_def)
  have od: "dom (op_nodes op) = (\<Union>c\<in>set cs. set (op_cells op c))"
    using no by (simp add: op_nodes_ok_def)
  show "dom (op_nodes ?g) = (\<Union>c\<in>set (mc # cs). set (op_cells ?g c))"
    using mc d od by (auto simp: op_cells_grown split: if_splits)
  have "a \<notin> dom (op_nodes op)" if "a \<in> set ?cells" for a
    using that op_room_new [OF room assms(1)] by (auto simp: domIff)
  then have "set ?cells \<inter> set (op_cells op c) = {}" if "c \<in> set cs" for c
    using that unfolding od by blast
  then show "\<forall>c\<in>set (mc # cs). \<forall>d\<in>set (mc # cs). c \<noteq> d \<longrightarrow>
      set (op_cells ?g c) \<inter> set (op_cells ?g d) = {}"
    using no mc by (simp add: op_nodes_ok_def op_cells_grown) blast
  show "\<forall>a nd. op_nodes ?g a = Some nd \<longrightarrow> n_magic nd = op_magic ?g \<and> n_pool nd = op_addr ?g
      \<and> n_cache nd \<in> set (mc # cs) \<and> a \<in> set (op_cells ?g (n_cache nd))"
    using no mc by (auto simp: op_cells_grown op_grown_node op_nodes_ok_def split: if_splits)
  have "op_apart op a b" if "a \<in> dom (op_nodes ?g)" "b \<in> dom (op_nodes ?g)" "a \<noteq> b" for a b
    using that no room op_cell_apart unfolding d
    by (auto simp: op_nodes_ok_def op_room_def op_apart_sym)
  then show "\<forall>a\<in>dom (op_nodes ?g). \<forall>b\<in>dom (op_nodes ?g). a \<noteq> b \<longrightarrow> op_apart ?g a b"
    by simp
qed

lemma op_grown_free_ok:
  assumes "op_shape op" "op_free_ok op []" and room: "op_room mc mp op"
  shows "op_free_ok (op_grown mc mp op) (rev (map (op_cell op mp) [0..<unat (op_incsize op)]))"
proof -
  let ?g = "op_grown mc mp op" and ?cells = "map (op_cell op mp) [0..<unat (op_incsize op)]"
  have pos: "0 < unat (op_nodesize op)" using assms by (simp add: op_shape_def)
  have "hl_rep (op_node_list ?g) (rev ?cells @ [])"
    unfolding op_grown_def using assms pos
    by (simp del: append_Nil2, intro hl_rep_fold_push)
       (auto simp: op_free_ok_def op_room_def distinct_map op_cell_def intro: op_cell_inj)
  moreover have "unat (op_nfreed ?g) = length ?cells"
    using assms by (simp add: op_grown_def op_free_ok_def unat_eq_zero)
  moreover have "op_is_used op a" if "op_nodes op a = Some nd" for a nd
    using assms that by (auto simp: op_free_ok_def)
  then have "set ?cells = {a \<in> dom (op_nodes ?g). \<not> op_is_used op a}"
    using op_room_new [OF room assms(1)]
    by (fastforce simp: op_grown_node op_is_used_def dom_def split: if_splits)
  ultimately show ?thesis
    using assms by (simp add: op_free_ok_def op_grown_used [OF room])
qed

lemma op_fresh_room:
  "op_fresh (mc, mp) op \<Longrightarrow> op_free_ok op [] \<Longrightarrow> mc \<noteq> NULL \<Longrightarrow> mp \<noteq> NULL \<Longrightarrow> op_room mc mp op"
  by (auto simp: op_fresh_def op_room_def op_free_ok_def unat_eq_zero)

lemma op_grown_rep:
  assumes "op_rep op cs []" and "op_room mc mp op"
  shows "op_rep (op_grown mc mp op) (mc # cs) (rev (map (op_cell op mp) [0..<unat (op_incsize op)]))"
  using assms op_grown_caches_ok op_grown_nodes_ok op_grown_free_ok
  by (auto simp: op_rep_def op_shape_def)

lemma op_blocks_Cons [simp]:
  "op_blocks op (c # cs) = k_pool (the (op_caches op c)) # c # op_blocks op cs"
  "op_blocks op [] = []"
  by (simp_all add: op_blocks_def)

lemma op_blocks_cong:
  "(\<And>c. c \<in> set cs \<Longrightarrow> k_pool (the (op_caches op' c)) = k_pool (the (op_caches op c))) \<Longrightarrow>
     op_blocks op' cs = op_blocks op cs"
  by (induction cs) auto

lemma op_grown_owns:
  assumes "op_caches_ok op cs" and "op_room mc mp op" and "op_owns op cs"
  shows "op_owns (op_grown mc mp op) (mc # cs)"
proof -
  have "mc \<notin> set cs" using assms(1,2) by (auto simp: op_room_def op_caches_ok_def)
  then have "op_blocks (op_grown mc mp op) cs = op_blocks op cs"
    by (intro op_blocks_cong) (auto simp: op_grown_def)
  then show ?thesis using assms(3) by (auto simp: op_owns_def) (auto simp: op_grown_def)
qed

subsection \<open>Taking a node and putting it back\<close>

lemma op_upd_frame [frame_simps]:
  "op_cells (op\<lparr>op_node_list := l\<rparr>) = op_cells op" "op_cells (op\<lparr>op_nfreed := n\<rparr>) = op_cells op"
  "op_cells (op\<lparr>op_live := v\<rparr>) = op_cells op" "op_cells (op\<lparr>op_lock := b\<rparr>) = op_cells op"
  "op_is_used (op\<lparr>op_node_list := l\<rparr>) = op_is_used op" "op_is_used (op\<lparr>op_nfreed := n\<rparr>) = op_is_used op"
  "op_is_used (op\<lparr>op_live := v\<rparr>) = op_is_used op" "op_is_used (op\<lparr>op_lock := b\<rparr>) = op_is_used op"
  by (simp_all add: op_cells_def op_is_used_def fun_eq_iff cong: option.case_cong)

lemma op_apart_upd [simp]:
  "op_apart (op\<lparr>op_nodes := m\<rparr>) = op_apart op" "op_apart (op\<lparr>op_node_list := l\<rparr>) = op_apart op"
  "op_apart (op\<lparr>op_caches := c\<rparr>) = op_apart op" "op_apart (op\<lparr>op_cache_list := l\<rparr>) = op_apart op"
  "op_apart (op\<lparr>op_live := v\<rparr>) = op_apart op" "op_apart (op\<lparr>op_nfreed := n\<rparr>) = op_apart op"
  "op_apart (op\<lparr>op_nalloced := n\<rparr>) = op_apart op" "op_apart (op\<lparr>op_lock := b\<rparr>) = op_apart op"
  by (simp_all add: op_apart_def fun_eq_iff)

lemma op_ok_frame [frame_simps]:
  "op_caches_ok (op\<lparr>op_node_list := l\<rparr>) cs = op_caches_ok op cs"
  "op_caches_ok (op\<lparr>op_nfreed := n\<rparr>) cs = op_caches_ok op cs"
  "op_caches_ok (op\<lparr>op_live := v\<rparr>) cs = op_caches_ok op cs"
  "op_caches_ok (op\<lparr>op_lock := b\<rparr>) cs = op_caches_ok op cs"
  "op_nodes_ok (op\<lparr>op_node_list := l\<rparr>) cs = op_nodes_ok op cs"
  "op_nodes_ok (op\<lparr>op_nfreed := n\<rparr>) cs = op_nodes_ok op cs"
  "op_nodes_ok (op\<lparr>op_live := v\<rparr>) cs = op_nodes_ok op cs"
  "op_nodes_ok (op\<lparr>op_lock := b\<rparr>) cs = op_nodes_ok op cs"
  by (simp_all add: op_caches_ok_def op_nodes_ok_def frame_simps)

lemma op_owns_frame [frame_simps]:
  "op_owns (op\<lparr>op_node_list := l\<rparr>) cs = op_owns op cs" "op_owns (op\<lparr>op_nfreed := n\<rparr>) cs = op_owns op cs"
  "op_owns (op\<lparr>op_lock := b\<rparr>) cs = op_owns op cs"
  "op_owns op cs \<Longrightarrow> op_owns (op\<lparr>op_live := x # op_live op\<rparr>) cs"
  by (simp_all add: op_owns_def op_blocks_def)
    (metis add_mset_add_single mset_subset_eq_add_left subset_mset.order_trans)

lemma op_rep_frame [frame_simps]:
  "op_rep (op\<lparr>op_live := v\<rparr>) cs ns = op_rep op cs ns"
  "op_rep (op\<lparr>op_lock := b\<rparr>) cs ns = op_rep op cs ns"
  by (simp_all add: op_rep_def op_free_ok_def op_shape_def frame_simps)

definition op_mark :: "addr \<Rightarrow> bool \<Rightarrow> u32 \<Rightarrow> objpool \<Rightarrow> objpool" where
  "op_mark n b nu op =
     (let nd = the (op_nodes op n); k = the (op_caches op (n_cache nd)) in
      op\<lparr>op_nodes := (op_nodes op)(n \<mapsto> nd\<lparr>n_used := b\<rparr>),
         op_caches := (op_caches op)(n_cache nd \<mapsto> k\<lparr>k_nused := nu\<rparr>)\<rparr>)"

lemma op_mark_used:
  "op_nodes op n = Some nd \<Longrightarrow> op_is_used (op_mark n b nu op) = (op_is_used op)(n := b)"
  by (auto simp: op_mark_def op_is_used_def fun_eq_iff)

lemma op_mark_dom [simp]:
  "op_nodes op n = Some nd \<Longrightarrow> dom (op_nodes (op_mark n b nu op)) = dom (op_nodes op)"
  "op_nodes op n = Some nd \<Longrightarrow> op_caches op (n_cache nd) = Some k \<Longrightarrow>
     dom (op_caches (op_mark n b nu op)) = dom (op_caches op)"
  by (auto simp: op_mark_def Let_def)

lemma op_mark_sel [simp]:
  "op_addr (op_mark n b nu op) = op_addr op" "op_magic (op_mark n b nu op) = op_magic op"
  "op_need_lock (op_mark n b nu op) = op_need_lock op" "op_lock (op_mark n b nu op) = op_lock op"
  "op_objsize (op_mark n b nu op) = op_objsize op" "op_incsize (op_mark n b nu op) = op_incsize op"
  "op_nodesize (op_mark n b nu op) = op_nodesize op" "op_nalloced (op_mark n b nu op) = op_nalloced op"
  "op_cache_list (op_mark n b nu op) = op_cache_list op"
  "op_node_list (op_mark n b nu op) = op_node_list op"
  "op_nfreed (op_mark n b nu op) = op_nfreed op" "op_cell (op_mark n b nu op) = op_cell op"
  "op_apart (op_mark n b nu op) = op_apart op"
  by (simp_all add: op_mark_def Let_def)

lemma op_mark_cells:
  assumes "op_nodes op n = Some nd" and "op_caches op (n_cache nd) = Some k"
  shows "op_cells (op_mark n b nu op) = op_cells op"
  using assms by (auto simp: op_cells_def fun_eq_iff cong: option.case_cong)
    (auto simp: op_mark_def cong: option.case_cong)

lemma op_mark_nodes_ok:
  assumes "op_nodes op n = Some nd" and "op_caches op (n_cache nd) = Some k" and "op_nodes_ok op cs"
  shows "op_nodes_ok (op_mark n b nu op) cs"
proof -
  let ?m = "op_mark n b nu op"
  have "\<exists>nd0. op_nodes op a = Some nd0 \<and> n_magic nd1 = n_magic nd0 \<and> n_pool nd1 = n_pool nd0
      \<and> n_cache nd1 = n_cache nd0" if "op_nodes ?m a = Some nd1" for a nd1
    using that assms by (auto simp: op_mark_def split: if_splits)
  then have "\<forall>a nd. op_nodes ?m a = Some nd \<longrightarrow> n_magic nd = op_magic op \<and> n_pool nd = op_addr op
      \<and> n_cache nd \<in> set cs \<and> a \<in> set (op_cells op (n_cache nd))"
    using assms(3) unfolding op_nodes_ok_def by fastforce
  then show ?thesis
    using assms(3) unfolding op_nodes_ok_def op_mark_dom(1) [OF assms(1)] op_mark_cells [OF assms(1,2)]
    by simp
qed

lemma op_mark_caches_ok:
  assumes "op_nodes op n = Some nd" and "op_caches op (n_cache nd) = Some k"
    and no: "op_nodes_ok op cs" and ca: "op_caches_ok op cs"
    and nu: "unat nu = length (filter ((op_is_used op)(n := b)) (op_cells op (n_cache nd)))"
  shows "op_caches_ok (op_mark n b nu op) cs"
proof -
  let ?m = "op_mark n b nu op"
  have "n \<notin> set (op_cells op c)" if "c \<in> set cs" "c \<noteq> n_cache nd" for c
    using that no assms(1) unfolding op_nodes_ok_def by blast
  then have same: "filter ((op_is_used op)(n := b)) (op_cells op c) = filter (op_is_used op) (op_cells op c)"
    if "c \<in> set cs" "c \<noteq> n_cache nd" for c
    using that by (intro filter_cong) auto
  have "k_magic k1 = op_magic op \<and> k_pool k1 \<noteq> NULL
      \<and> unat (k_nused k1) = length (filter ((op_is_used op)(n := b)) (op_cells op c))"
    if "op_caches ?m c = Some k1" for c k1
  proof (cases "c = n_cache nd")
    case True
    then show ?thesis using that assms by (auto simp: op_mark_def op_caches_ok_def)
  next
    case False
    then have "op_caches op c = Some k1" using that assms by (simp add: op_mark_def)
    moreover from this have "c \<in> set cs" using ca by (auto simp: op_caches_ok_def)
    ultimately show ?thesis using ca same [of c] False by (simp add: op_caches_ok_def)
  qed
  then show ?thesis
    using ca unfolding op_caches_ok_def op_mark_cells [OF assms(1,2)] op_mark_used [OF assms(1)]
    using op_mark_dom [OF assms(1)] assms(2) by simp
qed

lemma op_mark_owns:
  assumes "op_nodes op n = Some nd" and "op_caches op (n_cache nd) = Some k"
  shows "op_owns (op_mark n b nu op) cs = op_owns op cs"
proof -
  have "op_blocks (op_mark n b nu op) cs = op_blocks op cs"
    using assms by (intro op_blocks_cong) (auto simp: op_mark_def)
  then show ?thesis by (simp add: op_owns_def op_mark_def Let_def)
qed

lemma length_filter_upd:
  "distinct xs \<Longrightarrow> n \<in> set xs \<Longrightarrow> \<not> P n \<Longrightarrow>
     length (filter (P(n := True)) xs) = Suc (length (filter P xs))"
proof -
  assume a: "distinct xs" "n \<in> set xs" "\<not> P n"
  then have "{x. (P(n := True)) x} \<inter> set xs = insert n ({x. P x} \<inter> set xs)"
    by auto
  with a show ?thesis by (simp add: distinct_length_filter)
qed

lemma op_rep_node:
  assumes "op_rep op cs ns" and "op_nodes op n = Some nd"
  obtains k where "op_caches op (n_cache nd) = Some k" "n_cache nd \<in> set cs" "n_cache nd \<noteq> NULL"
    "n \<in> set (op_cells op (n_cache nd))" "distinct (op_cells op (n_cache nd))"
    "unat (k_nused k) = length (filter (op_is_used op) (op_cells op (n_cache nd)))"
    "k_magic k = op_magic op" "n_magic nd = op_magic op" "n_pool nd = op_addr op"
    "length (op_cells op (n_cache nd)) = unat (op_incsize op)" "n \<noteq> NULL"
proof -
  have c: "n_cache nd \<in> set cs" and n: "n \<in> set (op_cells op (n_cache nd))"
    and f: "n_magic nd = op_magic op" "n_pool nd = op_addr op"
    using assms by (auto simp: op_rep_def op_nodes_ok_def)
  then have "n_cache nd \<in> dom (op_caches op)"
    using assms by (simp add: op_rep_def op_caches_ok_def)
  then obtain k where k: "op_caches op (n_cache nd) = Some k" by auto
  have "n_cache nd \<noteq> NULL"
    using c assms hl_rep_nonnull by (fastforce simp: op_rep_def op_caches_ok_def)
  moreover have "distinct (op_cells op (n_cache nd))"
    using assms by (intro op_cells_distinct op_shape_pos) (simp add: op_rep_def)
  moreover have "n \<noteq> NULL"
    using n k assms by (auto simp: op_cells_def op_cell_def op_rep_def op_caches_ok_def)
  ultimately show ?thesis
    using that [OF k c] f n k assms by (auto simp: op_rep_def op_caches_ok_def op_cells_def)
qed
lemma op_is_usedD: "op_is_used op n \<Longrightarrow> \<exists>nd. op_nodes op n = Some nd \<and> n_used nd"
  by (auto simp: op_is_used_def split: option.splits)

lemma op_take_node_rep:
  assumes rep: "op_rep op cs (n # ns)" and own: "op_owns op cs"
  obtains op' where "op_take_node op = Some (n, op')" "op_rep op' cs ns" "op_owns op' cs"
    "op_is_used op' = (op_is_used op)(n := True)"
    "op_need_lock op' = op_need_lock op" "op_lock op' = op_lock op"
proof -
  have fo: "op_free_ok op (n # ns)" and sh: "op_shape op" using rep by (simp_all add: op_rep_def)
  then obtain l nd where l: "hl_pop (op_node_list op) = Some (n, l)" "hl_rep l ns"
    and nd: "op_nodes op n = Some nd" and un: "\<not> op_is_used op n"
  proof -
    have "hl_rep (op_node_list op) (n # ns)" "n \<in> dom (op_nodes op)" "\<not> op_is_used op n"
      using fo by (auto simp: op_free_ok_def)
    then show ?thesis using that by (metis domD hl_rep_pop)
  qed
  obtain k where k: "op_caches op (n_cache nd) = Some k" "n_cache nd \<noteq> NULL"
      "n \<in> set (op_cells op (n_cache nd))" "distinct (op_cells op (n_cache nd))"
      "unat (k_nused k) = length (filter (op_is_used op) (op_cells op (n_cache nd)))"
      "length (op_cells op (n_cache nd)) = unat (op_incsize op)"
    using op_rep_node [OF rep nd] by metis
  let ?m = "op_mark n True (k_nused k + 1) op"
  let ?op = "?m\<lparr>op_node_list := l, op_nfreed := op_nfreed op - 1\<rparr>"
  have "unat (k_nused k) \<le> unat (op_incsize op)"
    using k(5,6) length_filter_le [of "op_is_used op" "op_cells op (n_cache nd)"] by simp
  moreover have "unat (op_incsize op) < 2 ^ 16" by (rule unat_u16_less)
  ultimately have nu: "unat (k_nused k + 1) = length (filter ((op_is_used op)(n := True)) (op_cells op (n_cache nd)))"
    using k un by (simp add: unat_u32_suc length_filter_upd del: fun_upd_apply)
  have "op_take_node op = Some (n, ?op)"
    using l nd k by (simp add: op_take_node_def op_mark_def Let_def)
  moreover have "op_caches_ok ?op cs" "op_nodes_ok ?op cs"
    using rep op_mark_caches_ok [OF nd k(1) _ _ nu] op_mark_nodes_ok [OF nd k(1)]
    by (simp_all add: op_rep_def frame_simps)
  moreover have us: "op_is_used ?op = (op_is_used op)(n := True)"
    using op_mark_used [OF nd] by (simp add: frame_simps)
  moreover have "op_free_ok ?op ns"
  proof -
    have "n \<notin> set ns" using fo hl_rep_distinct by (fastforce simp: op_free_ok_def)
    then show ?thesis
      using fo l(2) nd us by (auto simp: op_free_ok_def unat_u32_pred op_mark_dom(1) [OF nd])
  qed
  ultimately show ?thesis
    using sh own op_mark_owns [OF nd k(1)]
    by (intro that [of ?op]) (auto simp: op_rep_def op_shape_def frame_simps)
qed

lemma op_rep_count:
  assumes "op_rep op cs ns"
  shows "card (dom (op_nodes op)) \<le> unat (op_nalloced op)" "finite (dom (op_nodes op))"
proof -
  have d: "dom (op_nodes op) = (\<Union>c\<in>set cs. set (op_cells op c))"
    using assms by (simp add: op_rep_def op_nodes_ok_def)
  then show "finite (dom (op_nodes op))" by simp
  have "card (set (op_cells op c)) \<le> unat (op_incsize op)" for c
    by (rule order_trans [OF card_length]) (simp add: op_cells_def split: option.split)
  then have "card (dom (op_nodes op)) \<le> (\<Sum>c\<in>set cs. unat (op_incsize op))"
    unfolding d by (intro order_trans [OF card_UN_le] sum_mono) auto
  also have "\<dots> \<le> length cs * unat (op_incsize op)"
    using card_length [of cs] by simp
  finally show "card (dom (op_nodes op)) \<le> unat (op_nalloced op)"
    using assms by (simp add: op_rep_def op_caches_ok_def)
qed

text \<open>Putting a node back, before the decision to give its cache up.\<close>

definition op_returned :: "addr \<Rightarrow> objpool \<Rightarrow> objpool" where
  "op_returned n op =
     (let k = the (op_caches op (n_cache (the (op_nodes op n)))) in
      (op_mark n False (k_nused k - 1) op)\<lparr>op_node_list := hl_push n (op_node_list op),
         op_nfreed := op_nfreed op + 1\<rparr>)"

lemma op_returned_sel [simp]:
  "op_need_lock (op_returned n op) = op_need_lock op" "op_lock (op_returned n op) = op_lock op"
  "op_addr (op_returned n op) = op_addr op"
  by (simp_all add: op_returned_def Let_def)

lemma op_returned_rep:
  assumes rep: "op_rep op cs ns" and us: "op_is_used op n" and own: "op_owns op cs"
  shows "op_rep (op_returned n op) cs (n # ns)" and "op_owns (op_returned n op) cs"
    and "op_is_used (op_returned n op) = (op_is_used op)(n := False)"
proof -
  obtain nd where nd: "op_nodes op n = Some nd" using op_is_usedD [OF us] by blast
  obtain k where k: "op_caches op (n_cache nd) = Some k"
      "n \<in> set (op_cells op (n_cache nd))" "distinct (op_cells op (n_cache nd))"
      "unat (k_nused k) = length (filter (op_is_used op) (op_cells op (n_cache nd)))"
    and z: "n \<noteq> NULL"
    using op_rep_node [OF rep nd] by metis
  let ?r = "op_returned n op"
  have r: "?r = (op_mark n False (k_nused k - 1) op)\<lparr>op_node_list := hl_push n (op_node_list op),
         op_nfreed := op_nfreed op + 1\<rparr>"
    using nd k by (simp add: op_returned_def)
  have "((op_is_used op)(n := False))(n := True) = op_is_used op" using us by (simp add: fun_eq_iff)
  then have "unat (k_nused k) = Suc (length (filter ((op_is_used op)(n := False)) (op_cells op (n_cache nd))))"
    using k length_filter_upd [of "op_cells op (n_cache nd)" n "(op_is_used op)(n := False)"] by simp
  then have nu: "unat (k_nused k - 1) = length (filter ((op_is_used op)(n := False)) (op_cells op (n_cache nd)))"
    by (simp add: unat_u32_pred del: fun_upd_apply)
  show "op_owns ?r cs" using own op_mark_owns [OF nd k(1)] by (simp add: r frame_simps)
  show used: "op_is_used ?r = (op_is_used op)(n := False)"
    using op_mark_used [OF nd] by (simp add: r frame_simps)
  have fo: "op_free_ok op ns" using rep by (simp add: op_rep_def)
  have n: "n \<notin> set ns" "n \<in> dom (op_nodes op)" "set ns \<subseteq> dom (op_nodes op)"
    using fo us nd by (auto simp: op_free_ok_def)
  have "length (n # ns) = card (set (n # ns))"
    using fo n(1) hl_rep_distinct by (intro distinct_card [symmetric]) (auto simp: op_free_ok_def)
  also have "\<dots> \<le> card (dom (op_nodes op))"
    using n op_rep_count(2) [OF rep] by (intro card_mono) auto
  finally have "unat (op_nfreed op) + 1 \<le> unat (op_nalloced op)"
    using fo op_rep_count(1) [OF rep] by (simp add: op_free_ok_def)
  then have nf: "unat (op_nfreed op + 1) = Suc (length ns)"
    using fo unat_u32_less [of "op_nalloced op"] by (simp add: op_free_ok_def unat_u32_suc)
  have "op_free_ok ?r (n # ns)"
    using fo nf n us z hl_rep_push [of "op_node_list op" ns n]
    unfolding op_free_ok_def used by (auto simp: r op_mark_dom(1) [OF nd])
  moreover have "op_caches_ok ?r cs" "op_nodes_ok ?r cs"
    using rep op_mark_caches_ok [OF nd k(1) _ _ nu] op_mark_nodes_ok [OF nd k(1)]
    by (simp_all add: op_rep_def frame_simps r)
  ultimately show "op_rep ?r cs (n # ns)"
    using rep by (auto simp: op_rep_def op_shape_def r)
qed
subsection \<open>Giving a cache up\<close>

lemma hl_rep_pprev:
  assumes "hl_rep l xs" and "x \<in> set xs"
  shows "hl_pprev l x \<noteq> PNull"
proof -
  obtain ys zs where xs: "xs = ys @ x # zs" using assms(2) by (auto dest: split_list)
  have "hl_path l PHead (hl_head l) ys (hl_pprev l x) x"
    using assms(1) xs by (auto simp: hl_rep_def hl_path_append)
  then have "hl_pprev l x = hl_end PHead ys" by (rule hl_path_end)
  then show ?thesis by (simp add: hl_end_def)
qed

lemma hl_rep_unlink_set:
  assumes "hl_rep l xs" and "x \<in> set xs"
  obtains l' where "hl_unlink x l = Some l'" and "hl_rep l' (remove1 x xs)"
proof -
  obtain ys zs where xs: "xs = ys @ x # zs" "x \<notin> set ys" using assms(2) by (auto dest: split_list_first)
  then obtain l' where "hl_unlink x l = Some l'" "hl_rep l' (ys @ zs)"
    using assms(1) by (metis hl_rep_unlink)
  with xs show ?thesis by (intro that) (auto simp: remove1_append)
qed

lemma hl_rep_clear:
  assumes "c \<notin> set xs"
  shows "hl_rep (l\<lparr>hl_pprev := (hl_pprev l)(c := r), hl_next := (hl_next l)(c := a)\<rparr>) xs = hl_rep l xs"
proof -
  have "hl_path (l\<lparr>hl_pprev := (hl_pprev l)(c := r), hl_next := (hl_next l)(c := a)\<rparr>) PHead h xs e NULL
      = hl_path l PHead h xs e NULL" for h e
    using assms by (intro hl_path_cong) auto
  then show ?thesis by (simp add: hl_rep_def)
qed

lemma op_drop_nodes_rep:
  assumes "hl_rep (op_node_list op) ns" and "distinct (map (op_cell op base) is)"
    and "\<forall>i\<in>set is. op_cell op base i \<in> set ns \<and> op_cell op base i \<in> dom (op_nodes op)
           \<and> \<not> op_is_used op (op_cell op base i)"
  obtains l where "op_drop_nodes base is op = Some (op\<lparr>op_node_list := l\<rparr>)"
    "hl_rep l (filter (\<lambda>a. a \<notin> op_cell op base ` set is) ns)"
  using assms
proof (induction "is" arbitrary: op ns thesis)
  case Nil
  show ?case by (rule Nil(1) [of "op_node_list op"]) (use Nil(2) in simp_all)
next
  case (Cons i "is")
  let ?a = "op_cell op base i"
  obtain nd where nd: "op_nodes op ?a = Some nd" "\<not> n_used nd" "?a \<in> set ns"
    using Cons.prems by (auto simp: op_is_used_def)
  obtain l where l: "hl_unlink ?a (op_node_list op) = Some l" "hl_rep l (remove1 ?a ns)"
    using hl_rep_unlink_set [OF Cons.prems(2) nd(3)] by blast
  have r: "remove1 ?a ns = filter (\<lambda>a. a \<noteq> ?a) ns"
    using hl_rep_distinct [OF Cons.prems(2)]
    by (auto simp: distinct_remove1_removeAll removeAll_filter_not_eq intro: filter_cong)
  obtain l' where l': "op_drop_nodes base is (op\<lparr>op_node_list := l\<rparr>) = Some (op\<lparr>op_node_list := l'\<rparr>)"
      "hl_rep l' (filter (\<lambda>a. a \<notin> op_cell op base ` set is) (remove1 ?a ns))"
  proof (rule Cons.IH [of "op\<lparr>op_node_list := l\<rparr>" "remove1 ?a ns"])
    show "\<forall>i\<in>set is. op_cell (op\<lparr>op_node_list := l\<rparr>) base i \<in> set (remove1 ?a ns)
        \<and> op_cell (op\<lparr>op_node_list := l\<rparr>) base i \<in> dom (op_nodes (op\<lparr>op_node_list := l\<rparr>))
        \<and> \<not> op_is_used (op\<lparr>op_node_list := l\<rparr>) (op_cell (op\<lparr>op_node_list := l\<rparr>) base i)"
      using Cons.prems(3,4) unfolding r by (auto simp: frame_simps) (metis imageI)
  qed (use l(2) Cons.prems(3) in auto)
  show ?case
  proof (rule Cons.prems(1))
    show "op_drop_nodes base (i # is) op = Some (op\<lparr>op_node_list := l'\<rparr>)"
      using nd l l'(1) hl_rep_pprev [OF Cons.prems(2) nd(3)] by (simp add: op_drop_node_def)
    show "hl_rep l' (filter (\<lambda>a. a \<notin> op_cell op base ` set (i # is)) ns)"
      using l'(2) by (simp add: r conj_commute)
  qed
qed

text \<open>The pool after the cache \<open>c\<close> is gone.\<close>

definition op_dropped :: "addr \<Rightarrow> hlist \<Rightarrow> hlist \<Rightarrow> objpool \<Rightarrow> objpool" where
  "op_dropped c lc ln op = op\<lparr>
     op_cache_list := lc, op_node_list := ln,
     op_nalloced := op_nalloced op - ucast (op_incsize op),
     op_nfreed := op_nfreed op - ucast (op_incsize op),
     op_nodes := (\<lambda>a. if a \<in> set (op_cells op c) then None else op_nodes op a),
     op_caches := (op_caches op)(c := None),
     op_live := remove1 c (remove1 (k_pool (the (op_caches op c))) (op_live op))\<rparr>"

lemma op_dropped_sel [simp]:
  "op_addr (op_dropped c lc ln op) = op_addr op" "op_magic (op_dropped c lc ln op) = op_magic op"
  "op_need_lock (op_dropped c lc ln op) = op_need_lock op" "op_lock (op_dropped c lc ln op) = op_lock op"
  "op_objsize (op_dropped c lc ln op) = op_objsize op" "op_incsize (op_dropped c lc ln op) = op_incsize op"
  "op_nodesize (op_dropped c lc ln op) = op_nodesize op"
  "op_cell (op_dropped c lc ln op) = op_cell op" "op_apart (op_dropped c lc ln op) = op_apart op"
  by (simp_all add: op_dropped_def)

lemma op_dropped_cells: "op_cells (op_dropped c lc ln op) d = (if d = c then [] else op_cells op d)"
  by (cases "op_caches op d") (simp_all add: op_cells_def, simp_all add: op_dropped_def)

lemma op_dropped_dom: "dom (op_nodes (op_dropped c lc ln op)) = dom (op_nodes op) - set (op_cells op c)"
  by (auto simp: op_dropped_def split: if_splits)

lemma op_dropped_used:
  "\<forall>a\<in>set (op_cells op c). \<not> op_is_used op a \<Longrightarrow>
     op_is_used (op_dropped c lc ln op) = op_is_used op"
  by (auto simp: op_dropped_def op_is_used_def fun_eq_iff)

lemma op_is_used_cache_list [frame_simps]: "op_is_used (op\<lparr>op_cache_list := l\<rparr>) = op_is_used op"
  by (simp add: op_is_used_def fun_eq_iff)

lemma op_dropped_ok:
  assumes rep: "op_rep op cs ns" and c: "c \<in> set cs"
    and un: "\<forall>a\<in>set (op_cells op c). \<not> op_is_used op a" and lc: "hl_rep lc (remove1 c cs)"
  shows "op_caches_ok (op_dropped c lc ln op) (remove1 c cs)"
    and "op_nodes_ok (op_dropped c lc ln op) (remove1 c cs)"
proof -
  let ?d = "op_dropped c lc ln op"
  have ca: "op_caches_ok op cs" and no: "op_nodes_ok op cs" using rep by (simp_all add: op_rep_def)
  have dc: "distinct cs" using ca by (auto simp: op_caches_ok_def dest: hl_rep_distinct)
  then have s: "set (remove1 c cs) = set cs - {c}" by simp
  have "length cs = Suc (length (remove1 c cs))"
    using c length_pos_if_in_set [OF c] by (simp add: length_remove1)
  then have al: "unat (op_nalloced ?d) = length (remove1 c cs) * unat (op_incsize op)"
    using ca by (simp add: op_dropped_def op_caches_ok_def unat_u32_minus)
  have k: "op_caches ?d d = Some k \<longleftrightarrow> d \<noteq> c \<and> op_caches op d = Some k" for d k
    by (simp add: op_dropped_def)
  show "op_caches_ok ?d (remove1 c cs)"
    unfolding op_caches_ok_def op_dropped_used [OF un] k op_dropped_cells s
    using ca lc al by (auto simp: op_caches_ok_def op_dropped_def)
  have disj: "set (op_cells op d) \<inter> set (op_cells op c) = {}" if "d \<in> set cs" "d \<noteq> c" for d
    using no c that by (auto simp: op_nodes_ok_def)
  then have dm: "dom (op_nodes ?d) = (\<Union>d\<in>set cs - {c}. set (op_cells op d))"
    using no c unfolding op_dropped_dom by (auto simp: op_nodes_ok_def)
  have nd: "op_nodes ?d a = Some nd \<longleftrightarrow> a \<notin> set (op_cells op c) \<and> op_nodes op a = Some nd" for a nd
    by (simp add: op_dropped_def)
  show "op_nodes_ok ?d (remove1 c cs)"
    unfolding op_nodes_ok_def s nd op_dropped_cells
    using no dm by (auto simp: op_nodes_ok_def op_dropped_dom)
qed

lemma op_dropped_free_ok:
  assumes rep: "op_rep op cs ns" and un: "\<forall>a\<in>set (op_cells op c). \<not> op_is_used op a"
    and sub: "set (op_cells op c) \<subseteq> set ns" and dc: "distinct (op_cells op c)"
    and len: "length (op_cells op c) = unat (op_incsize op)"
    and ln: "hl_rep ln (filter (\<lambda>a. a \<notin> set (op_cells op c)) ns)"
  shows "op_free_ok (op_dropped c lc ln op) (filter (\<lambda>a. a \<notin> set (op_cells op c)) ns)"
proof -
  have fo: "op_free_ok op ns" using rep by (simp add: op_rep_def)
  then have "distinct ns" by (auto simp: op_free_ok_def dest: hl_rep_distinct)
  moreover have "{a. a \<in> set (op_cells op c)} \<inter> set ns = set (op_cells op c)" using sub by auto
  ultimately have "length (filter (\<lambda>a. a \<in> set (op_cells op c)) ns) = unat (op_incsize op)"
    using dc len by (simp add: distinct_length_filter distinct_card)
  then have "length ns = unat (op_incsize op) + length (filter (\<lambda>a. a \<notin> set (op_cells op c)) ns)"
    using sum_length_filter_compl [of "\<lambda>a. a \<in> set (op_cells op c)" ns] by simp
  then have "unat (op_nfreed (op_dropped c lc ln op)) = length (filter (\<lambda>a. a \<notin> set (op_cells op c)) ns)"
    using fo by (simp add: op_dropped_def op_free_ok_def unat_u32_minus)
  then show ?thesis
    using fo ln unfolding op_free_ok_def op_dropped_used [OF un] op_dropped_dom
    by (auto simp: op_dropped_def)
qed

lemma mset_sub_diff: "A + B \<subseteq># C \<Longrightarrow> B \<subseteq># C - (A :: 'a multiset)"
  unfolding subseteq_mset_def
  by (metis add_leD1 add_le_imp_le_diff add.commute count_diff count_union)

lemma op_blocks_remove1:
  "c \<in> set cs \<Longrightarrow>
     mset (op_blocks op cs) = {#k_pool (the (op_caches op c)), c#} + mset (op_blocks op (remove1 c cs))"
  by (induction cs) auto

lemma op_dropped_owns:
  assumes "op_owns op cs" and c: "c \<in> set cs" and "distinct cs"
  defines "b \<equiv> k_pool (the (op_caches op c))"
  shows "op_owns (op_dropped c lc ln op) (remove1 c cs)"
    and "b \<in> set (op_live op)" and "c \<in> set (remove1 b (op_live op))"
proof -
  have "op_blocks (op_dropped c lc ln op) (remove1 c cs) = op_blocks op (remove1 c cs)"
    using assms(3) by (intro op_blocks_cong) (auto simp: op_dropped_def)
  moreover have s: "{#b, c#} + mset (op_blocks op (remove1 c cs) @ [op_addr op]) \<subseteq># mset (op_live op)"
    using assms(1) op_blocks_remove1 [OF c, of op] by (simp add: op_owns_def b_def)
  moreover have "mset (op_blocks op (remove1 c cs) @ [op_addr op]) \<subseteq># mset (op_live op) - {#b, c#}"
    using s by (rule mset_sub_diff)
  ultimately show "op_owns (op_dropped c lc ln op) (remove1 c cs)"
    by (simp add: op_owns_def op_dropped_def b_def add_mset_commute)
  have s2: "{#b, c#} \<subseteq># mset (op_live op)" using s by (rule subset_mset.dual_order.trans) simp
  then show "b \<in> set (op_live op)" by (metis insert_subset_eq_iff set_mset_mset)
  have "{#c#} \<subseteq># mset (op_live op) - {#b#}" using s2 by (simp add: insert_subset_eq_iff)
  then show "c \<in> set (remove1 b (op_live op))" by (metis mset_remove1 set_mset_mset single_subset_iff)
qed

lemma op_free_cache_rep:
  assumes rep: "op_rep op cs ns" and own: "op_owns op cs" and c: "c \<in> set cs"
    and un: "\<forall>a\<in>set (op_cells op c). \<not> op_is_used op a"
  obtains op' where "op_free_cache c op = Some op'"
    "op_rep op' (remove1 c cs) (filter (\<lambda>a. a \<notin> set (op_cells op c)) ns)" "op_owns op' (remove1 c cs)"
    "op_is_used op' = op_is_used op" "op_need_lock op' = op_need_lock op" "op_lock op' = op_lock op"
proof -
  have sh: "op_shape op" and ca: "op_caches_ok op cs" and no: "op_nodes_ok op cs" and fo: "op_free_ok op ns"
    using rep by (simp_all add: op_rep_def)
  obtain k where k: "op_caches op c = Some k" "k_magic k = op_magic op" "k_pool k \<noteq> NULL" "k_nused k = 0"
  proof -
    have "c \<in> dom (op_caches op)" using ca c by (simp add: op_caches_ok_def)
    moreover have "filter (op_is_used op) (op_cells op c) = []" using un by (simp add: filter_empty_conv)
    ultimately show ?thesis using that ca by (fastforce simp: op_caches_ok_def unat_eq_zero)
  qed
  have rc: "hl_rep (op_cache_list op) cs" using ca by (simp add: op_caches_ok_def)
  obtain l where l: "hl_unlink c (op_cache_list op) = Some l" "hl_rep l (remove1 c cs)"
    using hl_rep_unlink_set [OF rc c] by blast
  let ?lc = "l\<lparr>hl_pprev := (hl_pprev l)(c := PNull), hl_next := (hl_next l)(c := NULL)\<rparr>"
  have lc: "hl_rep ?lc (remove1 c cs)"
    using l(2) hl_rep_distinct [OF rc] by (simp add: hl_rep_clear)
  have cells: "op_cells op c = map (op_cell op (k_pool k)) [0..<unat (op_incsize op)]"
    using k by (simp add: op_cells_def)
  have sub: "set (op_cells op c) \<subseteq> set ns" "set (op_cells op c) \<subseteq> dom (op_nodes op)"
    using c no fo un by (auto simp: op_nodes_ok_def op_free_ok_def)
  let ?o = "op\<lparr>op_cache_list := ?lc\<rparr>" and ?is = "[0..<unat (op_incsize op)]"
  let ?ns = "filter (\<lambda>a. a \<notin> set (op_cells op c)) ns"
  have dc: "distinct (op_cells op c)" using op_cells_distinct [OF op_shape_pos [OF sh]] .
  obtain ln where ln: "op_drop_nodes (k_pool k) ?is ?o = Some (?o\<lparr>op_node_list := ln\<rparr>)" "hl_rep ln ?ns"
  proof (rule op_drop_nodes_rep [of ?o ns "k_pool k" ?is])
    show "hl_rep (op_node_list ?o) ns" using fo by (simp add: op_free_ok_def)
    show "distinct (map (op_cell ?o (k_pool k)) ?is)" using dc by (simp add: cells)
    show "\<forall>i\<in>set ?is. op_cell ?o (k_pool k) i \<in> set ns \<and> op_cell ?o (k_pool k) i \<in> dom (op_nodes ?o)
        \<and> \<not> op_is_used ?o (op_cell ?o (k_pool k) i)"
      using sub un by (auto simp: cells frame_simps)
  qed (simp add: cells)
  let ?d = "op_dropped c ?lc ln op"
  have "op_free_cache c op = Some ?d"
    using k l(1) ln(1) hl_rep_pprev [OF rc c] op_dropped_owns(2,3) [OF own c hl_rep_distinct [OF rc]]
    by (simp add: op_free_cache_def op_free_block_def op_release_def fold_map_upds op_dropped_def cells Let_def cong: if_cong)
  moreover have "op_free_ok ?d ?ns"
    using op_dropped_free_ok [OF rep un sub(1) dc _ ln(2)] by (simp add: cells)
  ultimately show ?thesis
    using op_dropped_ok [OF rep c un lc, of ln] op_dropped_used [OF un] sh
      op_dropped_owns(1) [OF own c hl_rep_distinct [OF rc]]
    by (intro that [of ?d]) (auto simp: op_rep_def op_shape_def)
qed

subsection \<open>The pool keeps its promises\<close>

lemma op_put_node_rep:
  assumes rep: "op_rep op cs ns" and us: "op_is_used op n" and own: "op_owns op cs"
  obtains op' cs' ns' where "op_put_node n op = Some op'" "op_rep op' cs' ns'" "op_owns op' cs'"
    "op_is_used op' = (op_is_used op)(n := False)"
    "op_need_lock op' = op_need_lock op" "op_lock op' = op_lock op"
proof -
  obtain nd where nd: "op_nodes op n = Some nd" "n_used nd" using op_is_usedD [OF us] by blast
  obtain k where k: "op_caches op (n_cache nd) = Some k" "n_cache nd \<in> set cs" "n_cache nd \<noteq> NULL"
      "k_magic k = op_magic op" "n_magic nd = op_magic op"
    using op_rep_node [OF rep nd(1)] by metis
  let ?r = "op_returned n op" and ?k = "k\<lparr>k_nused := k_nused k - 1\<rparr>"
  have re: "?r = op\<lparr>op_node_list := hl_push n (op_node_list op),
      op_nodes := (op_nodes op)(n \<mapsto> nd\<lparr>n_used := False\<rparr>), op_nfreed := op_nfreed op + 1,
      op_caches := (op_caches op)(n_cache nd \<mapsto> ?k)\<rparr>"
    using nd k by (simp add: op_returned_def op_mark_def Let_def)
  have p: "op_put_node n op = (if k_nused ?k = 0 \<and> unat (op_nfreed op + 1) > 2 * unat (op_incsize op)
      then op_free_cache (n_cache nd) ?r else Some ?r)"
    using nd k unfolding re by (simp add: op_put_node_def Let_def)
  note r = op_returned_rep [OF rep us own]
  have kr: "op_caches ?r (n_cache nd) = Some ?k"
    using nd k by (simp add: op_returned_def op_mark_def)
  have un: "\<forall>a\<in>set (op_cells ?r (n_cache nd)). \<not> op_is_used ?r a" if "k_nused ?k = 0"
  proof -
    have "unat (k_nused ?k) = length (filter (op_is_used ?r) (op_cells ?r (n_cache nd)))"
      using r(1) kr unfolding op_rep_def op_caches_ok_def by blast
    with that show ?thesis by (simp add: filter_empty_conv)
  qed
  show ?thesis
  proof (cases "k_nused ?k = 0 \<and> unat (op_nfreed op + 1) > 2 * unat (op_incsize op)")
    case True
    then obtain op' where f: "op_free_cache (n_cache nd) ?r = Some op'"
      "op_rep op' (remove1 (n_cache nd) cs) (filter (\<lambda>a. a \<notin> set (op_cells ?r (n_cache nd))) (n # ns))"
      "op_owns op' (remove1 (n_cache nd) cs)"
      "op_is_used op' = op_is_used ?r" "op_need_lock op' = op_need_lock op" "op_lock op' = op_lock op"
      using op_free_cache_rep [OF r(1,2) k(2)] un by (metis op_returned_sel(1,2))
    show ?thesis by (rule that [OF _ f(2)]) (use True p r(3) f in simp_all)
  next
    case False
    with p r show ?thesis by (intro that [of ?r cs "n # ns"]) auto
  qed
qed

lemma OP_LOCK_free: "(op_need_lock op \<longrightarrow> \<not> op_lock op) \<Longrightarrow>
  OP_LOCK op = (True, op\<lparr>op_lock := (op_need_lock op \<or> op_lock op)\<rparr>)"
  by (simp add: OP_LOCK_def)

lemma OP_UNLOCK_held: "(op_need_lock op \<longrightarrow> op_lock op) \<Longrightarrow>
  OP_UNLOCK op = (True, op\<lparr>op_lock := (op_lock op \<and> \<not> op_need_lock op)\<rparr>)"
  by (simp add: OP_UNLOCK_def)

lemma op_fresh_lock [frame_simps]: "op_fresh m (op\<lparr>op_lock := b\<rparr>) = op_fresh m op"
  by (simp add: op_fresh_def)

text \<open>A \<open>get\<close> with the lock held: it fails without touching the pool, or hands out a free node.\<close>

lemma op_get_locked:
  assumes rep: "op_rep op cs ns" and own: "op_owns op cs" and fr: "op_fresh (mc, mp) op"
  defines "r \<equiv> (if op_nfreed op = 0 then op_alloc_cache mc mp op else (0, op))"
  shows "(fst r = -1 \<and> (\<exists>v. snd r = op\<lparr>op_live := v\<rparr> \<and> op_owns (snd r) cs) \<and> ns = [] \<and> (mc = NULL \<or> mp = NULL)) \<or>
         (fst r = 0 \<and> (\<exists>cs' n ns'. op_rep (snd r) cs' (n # ns') \<and> op_owns (snd r) cs')
            \<and> op_is_used (snd r) = op_is_used op
            \<and> op_need_lock (snd r) = op_need_lock op \<and> op_lock (snd r) = op_lock op)"
proof (cases "ns = []")
  case True
  then have f: "op_free_ok op []" and z: "op_nfreed op = 0" and sh: "op_shape op" and ca: "op_caches_ok op cs"
    using rep by (auto simp: op_rep_def op_free_ok_def unat_eq_zero)
  show ?thesis
  proof (cases "mc = NULL \<or> mp = NULL")
    case False
    then have room: "op_room mc mp op" using op_fresh_room [OF fr f] by simp
    have "r = (0, op_grown mc mp op)" using False z by (simp add: r_def op_alloc_cache_eq)
    moreover obtain n ns' where "rev (map (op_cell op mp) [0..<unat (op_incsize op)]) = n # ns'"
      using sh by (cases "rev (map (op_cell op mp) [0..<unat (op_incsize op)])") (auto simp: op_shape_def)
    ultimately show ?thesis
      using op_grown_rep [OF rep [unfolded True] room] op_grown_used [OF room sh]
        op_grown_owns [OF ca room own] by auto
  next
    case fail: True
    then obtain v where "r = (-1, op\<lparr>op_live := v\<rparr>)" "op_owns (op\<lparr>op_live := v\<rparr>) cs"
    proof (rule op_alloc_cache_fail [of mc mp op])
      fix v assume "op_alloc_cache mc mp op = (-1, op\<lparr>op_live := v\<rparr>)" "v = op_live op \<or> v = mc # op_live op"
      then show ?thesis using that [of v] own z frame_simps by (auto simp: r_def frame_simps)
    qed
    with fail True show ?thesis by auto
  qed
next
  case False
  then have "op_nfreed op \<noteq> 0" using rep by (auto simp: op_rep_def op_free_ok_def)
  with False rep own show ?thesis by (auto simp: r_def neq_Nil_conv)
qed

lemma OP_UNLOCK_inv:
  assumes "op_rep op cs ns" and "op_owns op cs"
  shows "op_inv (snd (OP_UNLOCK op))" "op_is_used (snd (OP_UNLOCK op)) = op_is_used op"
  using assms by (cases "op_need_lock op"; cases "op_lock op"; auto simp: op_inv_def OP_UNLOCK_def frame_simps)+

lemma op_hdr_pos: "0 < op_hdr"
  by (simp add: op_hdr_def align_num_def)

lemma op_used_simps:
  "n + op_hdr \<in> op_used op \<longleftrightarrow> op_is_used op n"
  "op_is_used op' = (op_is_used op)(n := True) \<Longrightarrow> op_used op' = insert (n + op_hdr) (op_used op)"
  "op_is_used op' = (op_is_used op)(n := False) \<Longrightarrow> op_used op' = op_used op - {n + op_hdr}"
  "op_is_used op' = op_is_used op \<Longrightarrow> op_used op' = op_used op"
  by (auto simp: op_used_def)

lemma objpool_get_cases:
  assumes inv: "op_inv op" and fr: "op_fresh m op"
  obtains op' where "objpool_get m op = Some (NULL, op')" "op_inv op'"
      "op_is_used op' = op_is_used op" "fst m = NULL \<or> snd m = NULL" "op_nfreed op = 0"
  | n op' where "objpool_get m op = Some (n + op_hdr, op')" "op_inv op'"
      "\<not> op_is_used op n" "op_is_used op' = (op_is_used op)(n := True)"
proof -
  obtain cs ns where rep: "op_rep op cs ns" and own: "op_owns op cs" and lk: "op_need_lock op \<longrightarrow> \<not> op_lock op"
    using inv by (auto simp: op_inv_def)
  define o1 where "o1 = op\<lparr>op_lock := (op_need_lock op \<or> op_lock op)\<rparr>"
  define r where "r = (if op_nfreed o1 = 0 then op_alloc_cache (fst m) (snd m) o1 else (0, o1))"
  have nz: "op_addr op \<noteq> NULL" using rep by (simp add: op_rep_def op_shape_def)
  have repo: "op_rep o1 cs ns" "op_owns o1 cs" and fro: "op_fresh (fst m, snd m) o1" and us: "op_is_used o1 = op_is_used op"
    using rep own fr by (simp_all add: frame_simps o1_def)
  have get: "objpool_get m op = (if fst r \<noteq> 0 then Some (NULL, snd (OP_UNLOCK (snd r)))
      else do { (node, op) \<leftarrow> op_take_node (snd r); Some (node + op_hdr, snd (OP_UNLOCK op)) })"
    using lk nz by (simp add: objpool_get_def OP_LOCK_free Let_def split_beta r_def o1_def)
  from op_get_locked [OF repo(1,2) fro] consider
      v where "fst r = -1" "snd r = o1\<lparr>op_live := v\<rparr>" "op_owns (snd r) cs" "ns = []" "fst m = NULL \<or> snd m = NULL"
    | cs' n ns' where "fst r = 0" "op_rep (snd r) cs' (n # ns')" "op_owns (snd r) cs'" "op_is_used (snd r) = op_is_used o1"
    unfolding r_def [symmetric] by (elim disjE conjE exE) blast+
  then show ?thesis
  proof cases
    case 1
    then have "op_rep (snd r) cs ns" using repo by (simp add: frame_simps)
    note u = OP_UNLOCK_inv [OF this 1(3)]
    moreover have "op_nfreed op = 0" using rep 1(4) by (simp add: op_rep_def op_free_ok_def unat_eq_zero)
    ultimately show ?thesis
      using get 1 us by (intro that(1) [OF _ u(1)]) (simp_all add: frame_simps)
  next
    case 2
    obtain op2 where t: "op_take_node (snd r) = Some (n, op2)" "op_rep op2 cs' ns'" "op_owns op2 cs'"
      "op_is_used op2 = (op_is_used (snd r))(n := True)"
      using op_take_node_rep [OF 2(2,3)] by metis
    note u = OP_UNLOCK_inv [OF t(2,3)]
    have "\<not> op_is_used (snd r) n" using 2(2) by (auto simp: op_rep_def op_free_ok_def)
    then show ?thesis
      using get t 2 us by (intro that(2) [OF _ u(1)]) (simp_all add: u(2))
  qed
qed

lemma objpool_put_ok:
  assumes inv: "op_inv op" and us: "op_is_used op n"
  obtains op' where "objpool_put (n + op_hdr) op = Some (0, op')" "op_inv op'"
    "op_is_used op' = (op_is_used op)(n := False)"
proof -
  obtain cs ns where rep: "op_rep op cs ns" and own: "op_owns op cs" and lk: "op_need_lock op \<longrightarrow> \<not> op_lock op"
    using inv by (auto simp: op_inv_def)
  define o1 where "o1 = op\<lparr>op_lock := (op_need_lock op \<or> op_lock op)\<rparr>"
  have repo: "op_rep o1 cs ns" and used: "op_is_used o1 = op_is_used op"
    and owno: "op_owns o1 cs" and held: "op_need_lock o1 \<longrightarrow> op_lock o1"
    using rep own by (auto simp: frame_simps o1_def)
  obtain nd where nd: "op_nodes op n = Some nd" using op_is_usedD [OF us] by blast
  have pool: "n_pool nd = op_addr op" "op_addr op \<noteq> NULL"
    using op_rep_node [OF rep nd] rep by (metis, simp add: op_rep_def op_shape_def)
  obtain o2 cs' ns' where put: "op_put_node n o1 = Some o2" "op_rep o2 cs' ns'" "op_owns o2 cs'"
    "op_is_used o2 = (op_is_used o1)(n := False)"
    "op_need_lock o2 = op_need_lock o1" "op_lock o2 = op_lock o1"
    using op_put_node_rep [OF repo _ owno] us used by metis
  have "n + op_hdr \<noteq> NULL" "OP_OFFSET (n + op_hdr) = n" by (auto simp: op_hdr_def align_num_def OP_OFFSET_def)
  then have "objpool_put (n + op_hdr) op = Some (0, snd (OP_UNLOCK o2))"
    using nd pool put held OP_LOCK_free [OF lk] OP_UNLOCK_held [of o2]
    by (simp add: objpool_put_def Let_def o1_def [symmetric])
  then show ?thesis
    using that OP_UNLOCK_inv [OF put(2,3)] put(4) used by simp
qed

lemma objpool_get_used:
  assumes "op_inv op" and "op_fresh m op" and get: "objpool_get m op = Some (a, op')"
  shows "op_inv op' \<and> a \<notin> op_used op
    \<and> op_used op' = (if a = NULL then op_used op else insert a (op_used op))"
proof (rule objpool_get_cases [OF assms(1,2)])
  fix o1 assume c: "objpool_get m op = Some (NULL, o1)" "op_inv o1" "op_is_used o1 = op_is_used op"
  show ?thesis using get c(1,2) op_used_simps(4) [OF c(3)] by (simp add: op_used_def op_hdr_pos)
next
  fix n o1 assume c: "objpool_get m op = Some (n + op_hdr, o1)" "op_inv o1" "\<not> op_is_used op n"
    "op_is_used o1 = (op_is_used op)(n := True)"
  show ?thesis using get c(1-3) op_used_simps(2) [OF c(4)] op_hdr_pos
    by (auto simp: op_used_simps(1))
qed

lemma objpool_get_nonnull:
  assumes "op_inv op" and "op_nfreed op \<noteq> 0" and "objpool_get m op = Some (a, op')"
  shows "a \<noteq> NULL"
proof -
  have "op_fresh m op" using assms(2) by (simp add: op_fresh_def)
  from objpool_get_cases [OF assms(1) this] show ?thesis using assms(2,3) op_hdr_pos by fastforce
qed

lemma op_take_node_dom: "op_take_node op = Some (n, op') \<Longrightarrow> dom (op_nodes op') = dom (op_nodes op)"
  by (auto simp: op_take_node_def Let_def split: Option.bind_splits if_splits)

lemma op_alloc_cache_dom:
  "dom (op_nodes (snd (op_alloc_cache mc mp op))) \<subseteq>
     dom (op_nodes op) \<union> op_cell op mp ` {..<unat (op_incsize op)}"
proof (cases "mc = NULL \<or> mp = NULL")
  case True
  then show ?thesis by (rule op_alloc_cache_fail [of mc mp op]) auto
next
  case False
  then show ?thesis by (auto simp: op_alloc_cache_eq op_grown_node dom_def split: if_splits)
qed

lemma op_drop_nodes_nodes: "op_drop_nodes base is op = Some op' \<Longrightarrow> op_nodes op' = op_nodes op"
  by (induction "is" arbitrary: op) (auto simp: op_drop_node_def Let_def split: Option.bind_splits if_splits)

lemma op_free_cache_dom: "op_free_cache c op = Some op' \<Longrightarrow> dom (op_nodes op') \<subseteq> dom (op_nodes op)"
  by (auto simp: op_free_cache_def op_release_def op_free_block_def fold_map_upds Let_def
      split: Option.bind_splits if_splits dest!: op_drop_nodes_nodes)

lemma op_put_node_dom: "op_put_node n op = Some op' \<Longrightarrow> dom (op_nodes op') \<subseteq> dom (op_nodes op)"
  by (auto simp: op_put_node_def Let_def split: Option.bind_splits if_splits dest!: op_free_cache_dom)

lemma op_lock_nodes [simp]: "op_nodes (snd (OP_LOCK op)) = op_nodes op" "op_nodes (snd (OP_UNLOCK op)) = op_nodes op"
  by (simp_all add: OP_LOCK_def OP_UNLOCK_def split_beta)

lemma OP_LOCK_upd: "\<exists>b. snd (OP_LOCK op) = op\<lparr>op_lock := b\<rparr>"
proof (cases "op_need_lock op")
  case False
  then show ?thesis by (intro exI [of _ "op_lock op"]) (simp add: OP_LOCK_def)
qed (auto simp: OP_LOCK_def split_beta)

lemma objpool_get_owned:
  assumes "objpool_get m op = Some (a, op')"
  shows "op_owned op' \<subseteq> op_owned op \<union> op_growth m op"
proof -
  obtain b where b: "snd (OP_LOCK op) = op\<lparr>op_lock := b\<rparr>" using OP_LOCK_upd by blast
  define r where "r = (if op_nfreed op = 0 then op_alloc_cache (fst m) (snd m) (op\<lparr>op_lock := b\<rparr>) else (0, op\<lparr>op_lock := b\<rparr>))"
  have r: "dom (op_nodes (snd r)) \<subseteq> dom (op_nodes op) \<union>
      (if op_nfreed op = 0 then op_cell op (snd m) ` {..<unat (op_incsize op)} else {})"
    using op_alloc_cache_dom [of "fst m" "snd m" "op\<lparr>op_lock := b\<rparr>"] by (auto simp: r_def)
  have "dom (op_nodes op') \<subseteq> dom (op_nodes op) \<union> dom (op_nodes (snd r))"
    using assms b by (auto simp: objpool_get_def r_def [symmetric] Let_def split_beta
        split: if_splits Option.bind_splits dest!: op_take_node_dom)
  with r show ?thesis unfolding op_owned_def op_growth_def by (auto split: if_splits) blast+
qed

lemma objpool_put_owned: "objpool_put a op = Some (r, op') \<Longrightarrow> op_owned op' \<subseteq> op_owned op"
  using OP_LOCK_upd [of op]
  by (auto simp: objpool_put_def op_owned_def Let_def split_beta
      split: if_splits Option.bind_splits dest!: op_put_node_dom) blast+

interpretation op: object_pool op_inv op_used op_owned op_growth op_fresh objpool_get objpool_put
proof
  fix p e assume "op_inv p" "op_fresh e p"
  then show "\<exists>a p'. objpool_get e p = Some (a, p')" by (metis objpool_get_cases)
next
  fix p a assume inv: "op_inv p" and "a \<in> op_used p"
  then obtain n where n: "a = n + op_hdr" "op_is_used p n" by (auto simp: op_used_def)
  show "\<exists>p'. objpool_put a p = Some (0, p') \<and> op_inv p' \<and> op_used p' = op_used p - {a}"
    using objpool_put_ok [OF inv n(2)] n(1) by (metis op_used_simps(3))
next
  fix p assume "op_inv p" then show "NULL \<notin> op_used p" by (simp add: op_used_def op_hdr_pos)
next
  fix p show "op_used p \<subseteq> op_owned p" unfolding op_used_def op_owned_def using op_is_usedD by blast
qed (use objpool_get_used objpool_get_owned objpool_put_owned in \<open>auto split: if_splits\<close>)

subsection \<open>Creating and destroying a pool\<close>

lemma op_release_mem:
  "mset (op_live op) = add_mset b M \<Longrightarrow>
     \<exists>v. op_release b op = Some (op\<lparr>op_live := v\<rparr>) \<and> mset v = M"
  unfolding op_release_def
  by (metis add_mset_remove_trivial mset_remove1 set_mset_mset union_single_eq_member)

lemma op_free_from_path:
  assumes "hl_path (op_cache_list op) r a cs r' NULL" and "distinct cs"
    and "\<forall>c\<in>set cs. \<exists>k. op_caches op c = Some k \<and> k_pool k \<noteq> NULL"
    and "mset (op_live op) = mset (op_blocks op cs) + M"
  shows "\<exists>op'. op_free_from a op = Some op' \<and> mset (op_live op') = M \<and> op_addr op' = op_addr op"
  using assms
proof (induction cs arbitrary: op r a)
  case Nil
  then show ?case by (simp add: op_free_from.simps)
next
  case (Cons c cs)
  obtain k where k: "op_caches op c = Some k" "k_pool k \<noteq> NULL" using Cons.prems(3) by auto
  let ?o1 = "op\<lparr>op_nodes := op_free_block op (k_pool k)\<rparr>"
  obtain v1 where v1: "op_release (k_pool k) ?o1 = Some (?o1\<lparr>op_live := v1\<rparr>)"
      "mset v1 = add_mset c (mset (op_blocks op cs) + M)"
    using op_release_mem [of ?o1 "k_pool k"] Cons.prems(4) k by auto
  let ?o2 = "?o1\<lparr>op_live := v1, op_caches := (op_caches op)(c := None)\<rparr>"
  obtain v2 where v2: "op_release c ?o2 = Some (?o2\<lparr>op_live := v2\<rparr>)"
      "mset v2 = mset (op_blocks op cs) + M"
    using op_release_mem [of ?o2 c] v1(2) by auto
  let ?o3 = "?o2\<lparr>op_live := v2\<rparr>"
  have "op_blocks ?o3 cs = op_blocks op cs"
    using Cons.prems(2) by (intro op_blocks_cong) auto
  then have "\<exists>op'. op_free_from (hl_next (op_cache_list op) c) ?o3 = Some op' \<and> mset (op_live op') = M
      \<and> op_addr op' = op_addr ?o3"
    using Cons.prems v2(2) by (intro Cons.IH) auto
  moreover have "op_free_from a op = op_free_from (hl_next (op_cache_list op) c) ?o3"
    using Cons.prems(1) k v1(1) v2(1) by (subst op_free_from.simps) simp
  ultimately show ?case by simp
qed

lemma objpool_free_rep:
  assumes rep: "op_rep op cs ns" and live: "mset (op_live op) = mset (op_blocks op cs @ [op_addr op]) + M"
  shows "\<exists>op'. objpool_free op = Some op' \<and> mset (op_live op') = M"
proof -
  have "hl_path (op_cache_list op) PHead (hl_head (op_cache_list op)) cs (hl_end PHead cs) NULL" "distinct cs"
    using rep by (auto simp: op_rep_def op_caches_ok_def hl_rep_def)
  moreover have "\<forall>c\<in>set cs. \<exists>k. op_caches op c = Some k \<and> k_pool k \<noteq> NULL"
    using rep unfolding op_rep_def op_caches_ok_def by (metis domD)
  moreover have "mset (op_live op) = mset (op_blocks op cs) + add_mset (op_addr op) M" using live by simp
  ultimately obtain o1 where o1: "op_free_from (hl_head (op_cache_list op)) op = Some o1"
      "mset (op_live o1) = add_mset (op_addr op) M" "op_addr o1 = op_addr op"
    using op_free_from_path by blast
  let ?o = "o1\<lparr>op_cache_list := (op_cache_list o1)\<lparr>hl_head := NULL\<rparr>\<rparr>"
  obtain v where "op_release (op_addr op) ?o = Some (?o\<lparr>op_live := v\<rparr>)" "mset v = M"
    using op_release_mem [of ?o "op_addr op" M] o1(2) by auto
  with o1 rep show ?thesis
    by (auto simp: objpool_free_def op_free_cache_list_def op_rep_def op_shape_def)
qed

text \<open>The blocks a pool was given are recovered exactly, whatever it did in between.\<close>

lemma objpool_free_inv: "op_inv op \<Longrightarrow> \<exists>op'. objpool_free op = Some op'"
  unfolding op_inv_def op_owns_def using objpool_free_rep
  by (metis mset_subset_eq_exists_conv)

lemma op_need_lock_frame:
  "op_cell (op\<lparr>op_need_lock := b\<rparr>) = op_cell op" "op_is_used (op\<lparr>op_need_lock := b\<rparr>) = op_is_used op"
  "op_blocks (op\<lparr>op_need_lock := b\<rparr>) = op_blocks op"
  "op_rep (op\<lparr>op_need_lock := b\<rparr>) = op_rep op" "op_blocks (op\<lparr>op_lock := b\<rparr>) = op_blocks op"
proof -
  have c: "op_cell (op\<lparr>op_need_lock := b\<rparr>) = op_cell op" "op_apart (op\<lparr>op_need_lock := b\<rparr>) = op_apart op"
    by (simp_all add: op_cell_def op_apart_def fun_eq_iff)
  have s: "op_cells (op\<lparr>op_need_lock := b\<rparr>) = op_cells op"
      "op_is_used (op\<lparr>op_need_lock := b\<rparr>) = op_is_used op"
    by (simp_all add: op_cells_def op_is_used_def fun_eq_iff c cong: option.case_cong)
  show "op_cell (op\<lparr>op_need_lock := b\<rparr>) = op_cell op" "op_is_used (op\<lparr>op_need_lock := b\<rparr>) = op_is_used op"
    by (rule c(1), rule s(2))
  show "op_rep (op\<lparr>op_need_lock := b\<rparr>) = op_rep op"
    by (simp add: op_rep_def op_shape_def op_caches_ok_def op_nodes_ok_def op_free_ok_def s c fun_eq_iff)
qed (simp_all add: op_blocks_def fun_eq_iff)

lemma objpool_alloc_rep:
  assumes sz: "0 < objsize" "align_num objsize + op_hdr < 2 ^ 16" and inc: "0 < incsize" "incsize < 2 ^ 16"
    and nz: "mo \<noteq> NULL" "mc \<noteq> NULL" "mp \<noteq> NULL"
  obtains op where "objpool_alloc objsize incsize locked now mo mc mp = Some op"
    "op_rep op [mc] (rev (map (op_cell op mp) [0..<nat incsize]))"
    "op_is_used op = (\<lambda>_. False)" "op_live op = [mp, mc, mo]" "op_blocks op [mc] = [mp, mc]" "op_addr op = mo"
    "op_need_lock op = locked" "\<not> op_lock op" "unat (op_objsize op) = align_num objsize"
proof -
  let ?o = "\<lparr>op_addr = mo, op_magic = now, op_need_lock = False, op_lock = False,
                    op_objsize = of_nat (align_num objsize), op_incsize = word_of_int incsize,
                    op_nodesize = of_nat (align_num objsize) + of_nat op_hdr, op_nalloced = 0, op_nfreed = 0,
                    op_node_list = hl_empty, op_cache_list = hl_empty,
                    op_nodes = Map.empty, op_caches = Map.empty, op_live = [mo]\<rparr>"
  have i: "unat (word_of_int incsize :: u16) = nat incsize"
    using inc by (simp add: unsigned_of_int take_bit_int_eq_self)
  have o: "unat (of_nat (align_num objsize) :: u16) = align_num objsize"
      "unat (of_nat (align_num objsize) + of_nat op_hdr :: u16) = align_num objsize + op_hdr"
    using sz by (simp_all add: unat_of_nat take_bit_nat_eq_self flip: of_nat_add)
  have sh: "op_shape ?o" using nz inc align_num_pos [OF sz(1)] by (simp add: op_shape_def i o)
  have rep: "op_rep ?o [] []" using sh by (simp add: op_rep_def op_caches_ok_def op_nodes_ok_def op_free_ok_def)
  have room: "op_room mc mp ?o" using nz inc by (simp add: op_room_def i)
  define g where "g = op_grown mc mp ?o"
  have al: "objpool_alloc objsize incsize locked now mo mc mp =
      Some (if locked then g\<lparr>op_need_lock := True, op_lock := False\<rparr> else g)"
    using sz inc nz by (simp add: objpool_alloc_def op_alloc_cache_eq Let_def g_def)
  have g: "op_rep g [mc] (rev (map (op_cell g mp) [0..<nat incsize]))" "op_is_used g = (\<lambda>_. False)"
    using op_grown_rep [OF rep room] op_grown_used [OF room sh] by (simp_all add: i op_is_used_def fun_eq_iff g_def)
  have f: "op_live g = [mp, mc, mo]" "op_blocks g [mc] = [mp, mc]" "op_addr g = mo"
    "unat (op_objsize g) = align_num objsize" "\<not> op_need_lock g" "\<not> op_lock g"
    by (simp_all add: g_def o, simp_all add: op_grown_def)
  show ?thesis
  proof (cases locked)
    case True
    show ?thesis by (rule that [OF al]) (use True g f in \<open>simp_all add: op_need_lock_frame frame_simps del: op_blocks_Cons\<close>)
  qed (use that [OF al] g f in \<open>simp del: op_blocks_Cons\<close>)
qed

text \<open>A new pool, as its clients see it.\<close>

lemma objpool_alloc_new:
  assumes "0 < objsize" "align_num objsize + op_hdr < 2 ^ 16" and "0 < incsize" "incsize < 2 ^ 16"
    and "mo \<noteq> NULL" "mc \<noteq> NULL" "mp \<noteq> NULL"
  obtains op where "objpool_alloc objsize incsize locked now mo mc mp = Some op" "op_inv op" "op_used op = {}"
    "unat (op_nfreed op) = nat incsize" "unat (op_objsize op) = align_num objsize"
    "op_owned op = (\<lambda>i. mp + i * (align_num objsize + op_hdr) + op_hdr) ` {..<nat incsize}"
proof -
  obtain op where op: "objpool_alloc objsize incsize locked now mo mc mp = Some op"
    "op_rep op [mc] (rev (map (op_cell op mp) [0..<nat incsize]))"
    "op_is_used op = (\<lambda>_. False)" "op_live op = [mp, mc, mo]" "op_blocks op [mc] = [mp, mc]" "op_addr op = mo"
    "\<not> op_lock op" "unat (op_objsize op) = align_num objsize"
    by (rule objpool_alloc_rep [OF assms])
  then have "op_owns op [mc]" by (simp add: op_owns_def del: op_blocks_Cons)
  then have inv: "op_inv op" using op(2,7) by (auto simp: op_inv_def)
  have free: "unat (op_nfreed op) = nat incsize" "dom (op_nodes op) = op_cell op mp ` {..<nat incsize}"
    using op(2,3) by (auto simp: op_rep_def op_free_ok_def atLeast0LessThan)
  have "unat (op_nodesize op) = align_num objsize + op_hdr" using op(2,8) by (simp add: op_rep_def op_shape_def)
  then have "op_owned op = (\<lambda>i. mp + i * (align_num objsize + op_hdr) + op_hdr) ` {..<nat incsize}"
    by (simp add: op_owned_def free(2) image_image op_cell_def)
  then show ?thesis using that op(1,3,8) inv free(1) by (simp add: op_used_def)
qed

subsection \<open>Properties\<close>

lemma op_used_apart:
  assumes "op_inv op" and "a \<in> op_used op" and "b \<in> op_used op" and "a \<noteq> b"
  shows "a + unat (op_objsize op) \<le> b \<or> b + unat (op_objsize op) \<le> a"
proof -
  obtain cs ns where rep: "op_rep op cs ns" using assms(1) by (auto simp: op_inv_def)
  obtain x y where xy: "a = x + op_hdr" "b = y + op_hdr" "op_is_used op x" "op_is_used op y"
    using assms(2,3) by (auto simp: op_used_def)
  then have "x \<in> dom (op_nodes op)" "y \<in> dom (op_nodes op)" "x \<noteq> y"
    using op_is_usedD [of op] assms(4) by auto
  then have "op_apart op x y" using rep by (simp add: op_rep_def op_nodes_ok_def)
  moreover have "unat (op_nodesize op) = unat (op_objsize op) + op_hdr"
    using rep by (simp add: op_rep_def op_shape_def)
  ultimately show ?thesis using xy by (auto simp: op_apart_def)
qed

text \<open>A small pool for the witnesses: objects of 16 bytes, two at a time.\<close>

definition op_sample :: objpool where
  "op_sample = the (objpool_alloc 16 2 True 7 1000 2000 3000)"

lemma op_sample_rep:
  "op_rep op_sample [2000] (rev (map (op_cell op_sample 3000) [0..<2]))" 
  "op_live op_sample = [3000, 2000, 1000]" "op_blocks op_sample [2000] = [3000, 2000]"
  "op_addr op_sample = 1000" "op_inv op_sample" "op_used op_sample = {}"
  "op_nfreed op_sample \<noteq> 0" "\<not> op_lock op_sample"
proof -
  obtain op where op: "objpool_alloc 16 2 True 7 1000 2000 3000 = Some op"
    "op_rep op [2000] (rev (map (op_cell op 3000) [0..<nat 2]))"
    "op_is_used op = (\<lambda>_. False)" "op_live op = [3000, 2000, 1000]" "op_blocks op [2000] = [3000, 2000]"
    "op_addr op = 1000" "op_need_lock op = True" "\<not> op_lock op"
    by (rule objpool_alloc_rep [of 16 2 1000 2000 3000 True 7]) (auto simp: align_num_def op_hdr_def)
  moreover from op(1) have s: "op_sample = op" by (simp add: op_sample_def)
  ultimately show "op_rep op_sample [2000] (rev (map (op_cell op_sample 3000) [0..<2]))" 
    "op_live op_sample = [3000, 2000, 1000]" "op_blocks op_sample [2000] = [3000, 2000]"
    "op_addr op_sample = 1000"
    by (simp_all del: op_blocks_Cons)
  have own: "op_owns op [2000]" using op by (simp add: op_owns_def del: op_blocks_Cons)
  then show "op_inv op_sample" using op(2,8) by (auto simp: op_inv_def s)
  show "\<not> op_lock op_sample" using op(8) by (simp add: s)
  show "op_used op_sample = {}" using op(3) by (simp add: op_used_def s)
  have "unat (op_nfreed op) = 2" using op(2) by (simp add: op_rep_def op_free_ok_def)
  then show "op_nfreed op_sample \<noteq> 0" by (auto simp: s)
qed

text \<open>
  C7: from a consistent pool, and whatever \<open>malloc\<close> answers, \<^verbatim>\<open>objpool_get\<close> returns; either
  NULL, then only because the pool was exhausted and \<open>malloc\<close> failed, with the objects in use
  unchanged; or an object that was not in use, that is from then on in use and whose bytes
  overlap no other object in use.  The pool stays consistent.
\<close>

theorem objpool_get_correct:
  assumes "op_inv op" and "op_fresh m op"
  shows "\<exists>a op'. objpool_get m op = Some (a, op') \<and> op_inv op' \<and>
    (if a = NULL then op_used op' = op_used op \<and> op_nfreed op = 0 \<and> (fst m = NULL \<or> snd m = NULL)
     else a \<notin> op_used op \<and> op_used op' = insert a (op_used op) \<and>
       (\<forall>b\<in>op_used op. a + unat (op_objsize op') \<le> b \<or> b + unat (op_objsize op') \<le> a))"
proof (rule objpool_get_cases [OF assms])
  fix o1 assume c: "objpool_get m op = Some (NULL, o1)" "op_inv o1" "op_is_used o1 = op_is_used op"
    "fst m = NULL \<or> snd m = NULL" "op_nfreed op = 0"
  then show ?thesis using op_used_simps(4) [OF c(3)] by auto
next
  fix n o1 assume c: "objpool_get m op = Some (n + op_hdr, o1)" "op_inv o1" "\<not> op_is_used op n"
    "op_is_used o1 = (op_is_used op)(n := True)"
  have u: "n + op_hdr \<notin> op_used op" "op_used o1 = insert (n + op_hdr) (op_used op)"
    using c(3) op_used_simps(2) [OF c(4)] by (simp_all add: op_used_simps(1))
  then show ?thesis
    using c(1,2) op_hdr_pos op_used_apart [OF c(2), of "n + op_hdr"] by auto
qed

theorem objpool_get_correct_witness:
  "\<exists>a op'. objpool_get (NULL, NULL) op_sample = Some (a, op') \<and> op_inv op' \<and>
     a \<noteq> NULL \<and> op_used op' = {a}"
  using objpool_get_correct [of op_sample "(NULL, NULL)"] op_sample_rep(5-7)
  by (auto simp: op_fresh_def split: if_splits)

text \<open>
  C8: handing an object in use back to a consistent pool succeeds, takes exactly that object
  out of use and keeps the pool consistent, also when the put gives a whole cache back to
  the system.
\<close>

theorem objpool_put_correct:
  assumes "op_inv op" and "a \<in> op_used op"
  shows "\<exists>op'. objpool_put a op = Some (0, op') \<and> op_inv op' \<and> op_used op' = op_used op - {a}"
  using assms by (rule op.put_safe)

theorem objpool_put_correct_witness:
  "\<exists>op' a. op_inv op' \<and> a \<in> op_used op' \<and> (\<exists>op2. objpool_put a op' = Some (0, op2) \<and> op_used op2 = op_used op' - {a})"
proof -
  obtain a op' where "op_inv op'" "op_used op' = insert a (op_used op_sample)"
    using op.get_safe [of op_sample "(NULL, NULL)"] op_sample_rep(5-7)
      objpool_get_cases [of op_sample "(NULL, NULL)"] op_used_simps(2)
    by (metis fst_conv op_fresh_def)
  then show ?thesis using objpool_put_correct [of op' a] by blast
qed

text \<open>
  A run of gets on a consistent pool returns pairwise different objects, none of which was
  in use before.
\<close>

theorem objpool_get_all_distinct:
  assumes "op_inv op" and "op.ok_all ms op"
  shows "\<exists>as op'. op.get_all ms op = Some (as, op') \<and> op_inv op' \<and> distinct as
           \<and> set as \<inter> op_used op = {} \<and> op_used op' = set as \<union> op_used op"
  using assms by (rule op.get_all_spec)

theorem objpool_get_all_distinct_witness:
  "\<exists>as op'. op.get_all [(NULL, NULL)] op_sample = Some (as, op') \<and> op_used op' = set as"
  using objpool_get_all_distinct [of op_sample "[(NULL, NULL)]"] op_sample_rep(5-7)
  by (auto simp: op_fresh_def)

text \<open>
  \<^verbatim>\<open>objpool_alloc\<close> with sizes that fit the 16-bit fields yields a consistent pool with no
  object in use and \<open>incsize\<close> free ones.
\<close>

theorem objpool_alloc_ok:
  assumes "0 < objsize" "align_num objsize + op_hdr < 2 ^ 16" and "0 < incsize" "incsize < 2 ^ 16"
    and "mo \<noteq> NULL" "mc \<noteq> NULL" "mp \<noteq> NULL"
  shows "\<exists>op. objpool_alloc objsize incsize locked now mo mc mp = Some op \<and> op_inv op \<and> op_used op = {}
    \<and> unat (op_nfreed op) = nat incsize \<and> unat (op_objsize op) \<ge> objsize"
  using align_num_ge [of objsize] by (rule_tac objpool_alloc_new [OF assms, of locked now]) auto

theorem objpool_alloc_ok_witness:
  "\<exists>op. objpool_alloc 100 50 True 7 1000 2000 3000 = Some op \<and> op_inv op \<and> unat (op_nfreed op) = 50"
  using objpool_alloc_ok [of 100 50 1000 2000 3000 True 7] by (simp add: align_num_def op_hdr_def) auto

text \<open>
  C11: \<^verbatim>\<open>objpool_free\<close> frees the block of every cache, every cache and the pool, each exactly
  once and nothing else.
\<close>

theorem objpool_free_ok:
  assumes "op_rep op cs ns" and "mset (op_live op) = mset (op_blocks op cs @ [op_addr op]) + M"
  shows "\<exists>op'. objpool_free op = Some op' \<and> mset (op_live op') = M"
  using assms by (rule objpool_free_rep)

theorem objpool_free_ok_witness: "\<exists>op'. objpool_free op_sample = Some op' \<and> op_live op' = []"
  using objpool_free_ok [of op_sample "[2000]" _ "{#}", OF op_sample_rep(1)] op_sample_rep(2-4)
  by (simp del: op_blocks_Cons)

lemma u16_add_wrap:
  assumes "65496 \<le> n" and "n \<le> 65528"
  shows "unat (of_nat n + of_nat 40 :: u16) < 40"
proof -
  have "unat (of_nat n + of_nat 40 :: u16) = (n + 40) mod 65536"
    by (simp only: of_nat_add [symmetric] unat_of_nat) (simp add: take_bit_nat_def)
  also have "\<dots> = n + 40 - 65536" using assms by (subst mod_if) auto
  finally show ?thesis using assms by simp
qed

text \<open>
  An object size the public \<open>size_t\<close> parameter admits but the 16-bit \<open>nodesize\<close> field does
  not is truncated silently: the nodes come out smaller than their own header.
\<close>

theorem objpool_alloc_truncates:
  assumes "65489 \<le> objsize" "objsize \<le> 65528" and "mo \<noteq> NULL" "mc \<noteq> NULL" "mp \<noteq> NULL"
  shows "\<exists>op. objpool_alloc objsize incsize locked now mo mc mp = Some op \<and> unat (op_nodesize op) < op_hdr"
proof -
  have "65496 \<le> align_num objsize" "align_num objsize \<le> 65528"
    using assms(1,2) unfolding align_num_def by presburger+
  from u16_add_wrap [OF this] have "unat (of_nat (align_num objsize) + of_nat op_hdr :: u16) < op_hdr"
    by (simp add: op_hdr_def align_num_def [of 40])
  with assms show ?thesis by (simp add: objpool_alloc_def op_alloc_cache_eq Let_def)
qed

theorem objpool_alloc_truncates_witness:
  "\<exists>op. objpool_alloc 65520 10 False 7 1000 2000 3000 = Some op \<and> unat (op_nodesize op) < op_hdr"
  using objpool_alloc_truncates [of 65520 1000 2000 3000 10 False 7] by simp

text \<open>
  When a pool has to grow and the second \<open>malloc\<close> fails, the cache structure obtained by the
  first is never freed.
\<close>

theorem objpool_get_leaks:
  assumes "op_inv op" and "op_nfreed op = 0" and "mc \<noteq> NULL"
  shows "\<exists>op'. objpool_get (mc, NULL) op = Some (NULL, op') \<and> op_live op' = mc # op_live op
    \<and> op_caches op' = op_caches op"
proof -
  have "op_addr op \<noteq> NULL" "op_need_lock op \<longrightarrow> \<not> op_lock op"
    using assms(1) by (auto simp: op_inv_def op_rep_def op_shape_def)
  then show ?thesis using assms(2,3)
    by (simp add: objpool_get_def OP_LOCK_free OP_UNLOCK_def op_alloc_cache_def op_check_memory_def Let_def split_beta)
qed

theorem objpool_get_leaks_witness:
  "\<exists>op op'. op_inv op \<and> objpool_get (5000, NULL) op = Some (NULL, op') \<and> op_live op' = 5000 # op_live op"
proof -
  have lk: "\<not> op_lock op_sample" "op_owns op_sample [2000]"
    using op_sample_rep by (simp_all add: op_owns_def del: op_blocks_Cons)
  obtain n1 n2 where "op_rep op_sample [2000] [n1, n2]" using op_sample_rep(1) by (simp add: upt_rec)
  then obtain o1 where o1: "op_rep o1 [2000] [n2]" "op_owns o1 [2000]" "op_lock o1 = op_lock op_sample"
    using op_take_node_rep lk(2) by metis
  then obtain o2 where o2: "op_rep o2 [2000] []" "op_owns o2 [2000]" "op_lock o2 = op_lock o1"
    using op_take_node_rep by metis
  then have "op_inv o2" "op_nfreed o2 = 0"
    using lk o1(3) by (auto simp: op_inv_def op_rep_def op_free_ok_def unat_eq_zero)
  then show ?thesis using objpool_get_leaks [of o2 5000] by auto
qed

end
