(* ===== verification/Bucket.thy ===== *)
theory Bucket
  imports Cblist Objpool_Correct
begin

text \<open>
  The memory both hash tables keep their items in: an array of bucket headers, one ring of
  items per bucket, items drawn from an object pool.  \<open>bk_rep st B\<close> says that the ring of bucket
  \<open>i\<close> holds the items \<open>B i\<close> and that the pool has handed out exactly the items of all buckets.
  The loops of the two tables that stop at the first matching item are \<open>cb_scan\<close>.
\<close>

subsection \<open>The store\<close>

record bstore =
  b_pool :: objpool
  b_links :: cbheap
  b_data :: "addr \<Rightarrow> addr"
  b_base :: addr
  b_n :: u32

text \<open>The list header of an entry: both entry structures have 24 bytes, the header comes first.\<close>

definition bk_hdr :: "bstore \<Rightarrow> nat \<Rightarrow> addr" where
  "bk_hdr st i = b_base st + 24 * i"

text \<open>
  A \<^verbatim>\<open>CBLIST_FOR_EACH\<close> whose body goes on with the next item or leaves the loop: the number of
  rounds that went on and the item it stopped at, or the header when it ran through.
\<close>

partial_function (option) cb_scan ::
  "cbheap \<Rightarrow> addr \<Rightarrow> (addr \<Rightarrow> bool) \<Rightarrow> addr \<Rightarrow> nat \<Rightarrow> (nat \<times> addr) option" where
  "cb_scan h lh stop e k =
     (if e = lh then Some (k, lh)
      else if stop e then Some (k, e)
      else cb_scan h lh stop (cb_n h e) (k + 1))"

lemma cb_scan_seg:
  "cb_seg h a xs lh \<Longrightarrow> lh \<notin> set xs \<Longrightarrow>
     cb_scan h lh stop (cb_n h a) k =
       Some (k + length (takeWhile (\<lambda>x. \<not> stop x) xs), hd (dropWhile (\<lambda>x. \<not> stop x) xs @ [lh]))"
proof (induction xs arbitrary: a k)
  case Nil
  then show ?case by (simp add: cb_scan.simps)
next
  case (Cons x xs)
  then show ?case by (subst cb_scan.simps) auto
qed

lemma cb_scan_ring:
  "cb_ring h lh xs \<Longrightarrow> cb_scan h lh stop (cb_n h lh) 0 =
     Some (length (takeWhile (\<lambda>x. \<not> stop x) xs), hd (dropWhile (\<lambda>x. \<not> stop x) xs @ [lh]))"
  using cb_scan_seg [of h lh xs lh stop 0] by (simp add: cb_ring_def)

text \<open>The two outcomes of a scan.\<close>

lemma cb_scan_cases:
  assumes "cb_ring h lh xs"
  obtains (none) "\<forall>x\<in>set xs. \<not> stop x" "cb_scan h lh stop (cb_n h lh) 0 = Some (length xs, lh)"
  | (found) ys x zs where "xs = ys @ x # zs" "\<forall>y\<in>set ys. \<not> stop y" "stop x" "x \<noteq> lh"
      "cb_scan h lh stop (cb_n h lh) 0 = Some (length ys, x)"
proof (cases "\<forall>x\<in>set xs. \<not> stop x")
  case True
  then have t: "takeWhile (\<lambda>x. \<not> stop x) xs = xs" and d: "dropWhile (\<lambda>x. \<not> stop x) xs = []"
    by auto
  show ?thesis by (rule none [OF True]) (simp only: cb_scan_ring [OF assms] t d append_Nil list.sel)
next
  case False
  then have "\<exists>x\<in>set xs. stop x" by blast
  then obtain ys x zs where s: "xs = ys @ x # zs" "stop x" "\<forall>y\<in>set ys. \<not> stop y"
    using split_list_first_prop [of xs stop] by blast
  moreover have "takeWhile (\<lambda>x. \<not> stop x) xs = ys" "dropWhile (\<lambda>x. \<not> stop x) xs = x # zs"
    using s by (simp_all add: takeWhile_append2 dropWhile_append2)
  moreover have "x \<noteq> lh" using assms s by (auto simp: cb_ring_def)
  ultimately show ?thesis using found cb_scan_ring [OF assms, of stop] by simp
qed

subsection \<open>Representation\<close>

definition bk_hdrs :: "bstore \<Rightarrow> addr set" where
  "bk_hdrs st = bk_hdr st ` {..<unat (b_n st)}"

definition bk_rep :: "bstore \<Rightarrow> (nat \<Rightarrow> addr list) \<Rightarrow> bool" where
  "bk_rep st B \<longleftrightarrow>
     0 < unat (b_n st) \<and> op_inv (b_pool st)
     \<and> (\<forall>i\<ge>unat (b_n st). B i = [])
     \<and> (\<forall>i<unat (b_n st). cb_ring (b_links st) (bk_hdr st i) (B i))
     \<and> (\<forall>i<unat (b_n st). \<forall>j<unat (b_n st). i \<noteq> j \<longrightarrow> set (B i) \<inter> set (B j) = {})
     \<and> op_used (b_pool st) = (\<Union>i<unat (b_n st). set (B i))
     \<and> op_owned (b_pool st) \<inter> bk_hdrs st = {}"

text \<open>The values of a bucket, in insertion order.\<close>

definition bk_vals :: "bstore \<Rightarrow> (nat \<Rightarrow> addr list) \<Rightarrow> nat \<Rightarrow> addr list" where
  "bk_vals st B i = map (b_data st) (B i)"

definition bk_fresh :: "addr \<times> addr \<Rightarrow> bstore \<Rightarrow> bool" where
  "bk_fresh m st \<longleftrightarrow> op_fresh m (b_pool st) \<and> op_growth m (b_pool st) \<inter> bk_hdrs st = {}"

lemma bk_hdr_inj [simp]: "bk_hdr st i = bk_hdr st j \<longleftrightarrow> i = j"
  by (simp add: bk_hdr_def)

lemma bk_rep_ring: "bk_rep st B \<Longrightarrow> i < unat (b_n st) \<Longrightarrow> cb_ring (b_links st) (bk_hdr st i) (B i)"
  by (simp add: bk_rep_def)

text \<open>Rings of different buckets share nothing.\<close>

lemma bk_rep_disjoint:
  assumes "bk_rep st B" "i < unat (b_n st)" "j < unat (b_n st)" "i \<noteq> j"
  shows "insert (bk_hdr st i) (set (B i)) \<inter> insert (bk_hdr st j) (set (B j)) = {}"
proof -
  have "set (B i) \<union> set (B j) \<subseteq> op_owned (b_pool st)"
    using assms op.used_owned [of "b_pool st"] by (auto simp: bk_rep_def)
  moreover have "{bk_hdr st i, bk_hdr st j} \<subseteq> bk_hdrs st" using assms by (auto simp: bk_hdrs_def)
  moreover have "op_owned (b_pool st) \<inter> bk_hdrs st = {}" "set (B i) \<inter> set (B j) = {}"
    using assms by (auto simp: bk_rep_def)
  ultimately show ?thesis using assms(4) by auto
qed

subsection \<open>Adding and removing an item\<close>

text \<open>The item \<open>a\<close> just taken from the pool gets its value and goes to the tail of bucket \<open>i\<close>.\<close>

definition bk_link :: "nat \<Rightarrow> addr \<Rightarrow> addr \<Rightarrow> bstore \<Rightarrow> bstore" where
  "bk_link i a v st =
     (let st = st\<lparr>b_data := (b_data st)(a := v)\<rparr>
      in st\<lparr>b_links := CBLIST_ADD_TAIL (bk_hdr st i) a (b_links st)\<rparr>)"

lemma bk_rep_link:
  assumes rep: "bk_rep st B" and i: "i < unat (b_n st)" and fr: "bk_fresh m st"
    and get: "objpool_get m (b_pool st) = Some (a, p)" and a: "a \<noteq> NULL"
  shows "bk_rep (bk_link i a v (st\<lparr>b_pool := p\<rparr>)) (B(i := B i @ [a]))"
    and "bk_vals (bk_link i a v (st\<lparr>b_pool := p\<rparr>)) (B(i := B i @ [a])) =
           (bk_vals st B)(i := bk_vals st B i @ [v])"
proof -
  let ?st = "bk_link i a v (st\<lparr>b_pool := p\<rparr>)" and ?B = "B(i := B i @ [a])"
  have hd: "bk_hdr ?st = bk_hdr st" "bk_hdrs ?st = bk_hdrs st" "b_n ?st = b_n st" "b_pool ?st = p"
    "b_links ?st = CBLIST_ADD_TAIL (bk_hdr st i) a (b_links st)" "b_data ?st = (b_data st)(a := v)"
    by (simp_all add: bk_link_def Let_def bk_hdr_def bk_hdrs_def fun_eq_iff)
  have inv: "op_inv (b_pool st)" and ok: "op_fresh m (b_pool st)"
    using rep fr by (simp_all add: bk_rep_def bk_fresh_def)
  have p: "op_inv p" "a \<notin> op_used (b_pool st)" "op_used p = insert a (op_used (b_pool st))"
    using op.get_inv [OF inv ok get] op.get_fresh [OF inv ok get a] by auto
  have ow: "op_owned p \<inter> bk_hdrs st = {}"
    using op.get_owned [OF inv ok get] rep fr by (auto simp: bk_rep_def bk_fresh_def)
  have ah: "a \<notin> bk_hdrs st" using ow p op.used_owned [OF p(1)] by auto
  have un: "op_used (b_pool st) = (\<Union>j<unat (b_n st). set (B j))" using rep by (simp add: bk_rep_def)
  have new: "a \<notin> insert (bk_hdr st j) (set (B j))" if "j < unat (b_n st)" for j
    using that p(2) ah by (auto simp: un bk_hdrs_def)
  have "cb_ring (b_links ?st) (bk_hdr st j) (?B j)" if j: "j < unat (b_n st)" for j
  proof (cases "j = i")
    case True
    then show ?thesis using cb_ring_ADD_TAIL [OF bk_rep_ring [OF rep i] new [OF i]] by (simp add: hd)
  next
    case False
    have "({a, bk_hdr st i} \<union> set (B i)) \<inter> insert (bk_hdr st j) (set (B j)) = {}"
      using bk_rep_disjoint [OF rep i j] False new [OF j] by auto
    with False show ?thesis
      using bk_rep_ring [OF rep j] cb_ring_ADD_TAIL_frame [OF bk_rep_ring [OF rep i]] by (simp add: hd)
  qed
  moreover have "set (?B j) \<inter> set (?B k) = {}" if "j < unat (b_n st)" "k < unat (b_n st)" "j \<noteq> k" for j k
    using that rep new [of j] new [of k] by (auto simp: bk_rep_def)
  moreover have "op_used p = (\<Union>j<unat (b_n st). set (?B j))"
    using p(3) i by (auto simp: un split: if_splits)
  ultimately show "bk_rep ?st ?B"
    using rep p(1) ow i by (simp add: bk_rep_def hd)
  show "bk_vals ?st ?B = (bk_vals st B)(i := bk_vals st B i @ [v])"
  proof
    fix j
    have "a \<notin> set (B j)" using new [of j] rep by (cases "j < unat (b_n st)") (auto simp: bk_rep_def)
    then show "bk_vals ?st ?B j = ((bk_vals st B)(i := bk_vals st B i @ [v])) j"
      by (auto simp: bk_vals_def hd)
  qed
qed

text \<open>The item \<open>a\<close> is unlinked from its bucket and handed back to the pool.\<close>

definition bk_unlink :: "addr \<Rightarrow> bstore \<Rightarrow> bstore option" where
  "bk_unlink a st =
     (let st = st\<lparr>b_links := CBLIST_DEL a (b_links st)\<rparr>
      in do { (r, p) \<leftarrow> objpool_put a (b_pool st); Some (st\<lparr>b_pool := p\<rparr>) })"

lemma bk_rep_unlink:
  assumes rep: "bk_rep st B" and i: "i < unat (b_n st)" and B: "B i = ys @ a # zs"
  obtains st' where "bk_unlink a st = Some st'" "bk_rep st' (B(i := ys @ zs))"
    "b_data st' = b_data st" "b_base st' = b_base st" "b_n st' = b_n st"
proof -
  have inv: "op_inv (b_pool st)" and un: "op_used (b_pool st) = (\<Union>j<unat (b_n st). set (B j))"
    using rep by (simp_all add: bk_rep_def)
  then have "a \<in> op_used (b_pool st)" using i B by (auto intro!: bexI [of _ i])
  from op.put_safe [OF inv this] obtain p where p: "objpool_put a (b_pool st) = Some (0, p)" "op_inv p"
      "op_used p = op_used (b_pool st) - {a}"
    by blast
  let ?st = "st\<lparr>b_links := CBLIST_DEL a (b_links st), b_pool := p\<rparr>" and ?B = "B(i := ys @ zs)"
  have hd: "bk_hdr ?st = bk_hdr st" "bk_hdrs ?st = bk_hdrs st"
    by (simp_all add: bk_hdr_def bk_hdrs_def fun_eq_iff)
  note ri = bk_rep_ring [OF rep i, unfolded B]
  have a: "a \<notin> set (ys @ zs)" using ri by (auto simp: cb_ring_def)
  have dj: "a \<notin> set (B j)" if "j < unat (b_n st)" "j \<noteq> i" for j
    using bk_rep_disjoint [OF rep i that(1)] that(2) B by auto
  have "cb_ring (b_links ?st) (bk_hdr st j) (?B j)" if j: "j < unat (b_n st)" for j
    using cb_ring_DEL [OF ri] bk_rep_ring [OF rep j] cb_ring_DEL_frame [OF ri] bk_rep_disjoint [OF rep i j] B
    by (cases "j = i") auto
  moreover have "set (?B j) \<inter> set (?B k) = {}" if "j < unat (b_n st)" "k < unat (b_n st)" "j \<noteq> k" for j k
  proof -
    have "set (?B j) \<subseteq> set (B j)" "set (?B k) \<subseteq> set (B k)" using B by auto
    with bk_rep_disjoint [OF rep that] show ?thesis by blast
  qed
  moreover have "set (?B j) = set (B j) - {a}" if "j < unat (b_n st)" for j
    using a dj [OF that] B by (cases "j = i") auto
  then have "op_used p = (\<Union>j<unat (b_n st). set (?B j))"
    unfolding p(3) un by blast
  moreover have "op_owned p \<inter> bk_hdrs st = {}"
    using op.put_owned [OF inv \<open>a \<in> op_used (b_pool st)\<close> p(1)] rep by (auto simp: bk_rep_def)
  ultimately have "bk_rep ?st ?B"
    using rep p(2) i by (simp add: bk_rep_def hd)
  then show ?thesis using p(1) by (intro that [of ?st]) (simp_all add: bk_unlink_def)
qed

text \<open>A \<open>get\<close> that fails leaves the buckets alone.\<close>

lemma bk_rep_get_fail:
  assumes rep: "bk_rep st B" and fr: "bk_fresh m st"
    and get: "objpool_get m (b_pool st) = Some (NULL, p)"
  shows "bk_rep (st\<lparr>b_pool := p\<rparr>) B" and "bk_vals (st\<lparr>b_pool := p\<rparr>) B = bk_vals st B"
proof -
  have inv: "op_inv (b_pool st)" and ok: "op_fresh m (b_pool st)"
    using rep fr by (simp_all add: bk_rep_def bk_fresh_def)
  have "op_owned p \<inter> bk_hdrs st = {}"
    using op.get_owned [OF inv ok get] rep fr by (auto simp: bk_rep_def bk_fresh_def)
  then show "bk_rep (st\<lparr>b_pool := p\<rparr>) B"
    using rep op.get_inv [OF inv ok get] op.get_fail [OF inv ok get]
    by (simp add: bk_rep_def bk_hdr_def bk_hdrs_def)
qed (simp add: bk_vals_def fun_eq_iff)

lemma bk_rep_pool: "bk_rep st B \<Longrightarrow> op_inv (b_pool st)"
  by (simp add: bk_rep_def)

lemma bk_rep_n: "bk_rep st B \<Longrightarrow> b_n st \<noteq> 0"
  by (auto simp: bk_rep_def)

lemma unat_mod_less: "n \<noteq> 0 \<Longrightarrow> unat ((k :: u32) mod n) < unat n"
  by (simp add: unat_mod unat_gt_0)

text \<open>The number of values in a table.\<close>

definition bk_count :: "nat \<Rightarrow> (nat \<Rightarrow> addr list) \<Rightarrow> nat" where
  "bk_count n f = (\<Sum>i<n. length (f i))"

lemma bk_count_upd:
  "i < n \<Longrightarrow> bk_count n (f(i := xs)) + length (f i) = bk_count n f + length xs"
proof -
  assume "i < n"
  then have "bk_count n g = length (g i) + (\<Sum>j\<in>{..<n} - {i}. length (g j))" for g :: "nat \<Rightarrow> addr list"
    unfolding bk_count_def by (subst sum.remove [of _ i]) auto
  from this [of f] this [of "f(i := xs)"] show ?thesis by simp
qed

lemma bk_vals_find:
  assumes "B i = ys @ x # zs" "\<forall>y\<in>set ys. \<not> P (b_data st y)" "P (b_data st x)"
  shows "List.find P (bk_vals st B i) = Some (b_data st x)"
    and "remove_first P (bk_vals st B i) = bk_vals st (B(i := ys @ zs)) i"
  using find_split [of "map (b_data st) ys" P "b_data st x" "map (b_data st) zs"]
    remove_first_split [of "map (b_data st) ys" P "b_data st x" "map (b_data st) zs"] assms
  by (simp_all add: bk_vals_def)

subsection \<open>Empty buckets\<close>

definition bk_init :: "nat list \<Rightarrow> bstore \<Rightarrow> bstore" where
  "bk_init is st = fold (\<lambda>i st. st\<lparr>b_links := CBLIST_INIT (bk_hdr st i) (b_links st)\<rparr>) is st"

lemma bk_init_sel [simp]:
  "b_pool (bk_init is st) = b_pool st" "b_base (bk_init is st) = b_base st" "b_n (bk_init is st) = b_n st"
  "b_data (bk_init is st) = b_data st" "bk_hdr (bk_init is st) = bk_hdr st"
  "bk_hdrs (bk_init is st) = bk_hdrs st"
proof -
  show b: "b_pool (bk_init is st) = b_pool st" "b_base (bk_init is st) = b_base st" "b_n (bk_init is st) = b_n st"
    "b_data (bk_init is st) = b_data st"
    unfolding bk_init_def by (induction "is" arbitrary: st) auto
  then show "bk_hdr (bk_init is st) = bk_hdr st" "bk_hdrs (bk_init is st) = bk_hdrs st"
    by (simp_all add: bk_hdr_def bk_hdrs_def fun_eq_iff)
qed

lemma bk_init_ring: "j \<in> set is \<Longrightarrow> cb_ring (b_links (bk_init is st)) (bk_hdr st j) []"
proof (induction "is" rule: rev_induct)
  case (snoc i "is")
  have "b_links (bk_init (is @ [i]) st) = CBLIST_INIT (bk_hdr st i) (b_links (bk_init is st))"
    using bk_init_sel(5) [of "is" st] by (simp add: bk_init_def)
  then show ?case using snoc
    by (cases "j = i") (auto simp: cb_ring_INIT cb_ring_INIT_frame)
qed simp

lemma bk_rep_init:
  assumes "0 < unat (b_n st)" "op_inv (b_pool st)" "op_used (b_pool st) = {}"
    and "op_owned (b_pool st) \<inter> bk_hdrs st = {}"
  shows "bk_rep (bk_init [0..<unat (b_n st)] st) (\<lambda>_. [])"
  using assms by (simp add: bk_rep_def bk_init_ring)

end
