(* ===== verification/Hash.thy ===== *)
theory Hash
  imports Bucket
begin

text \<open>
  The chained hash table of \<^verbatim>\<open>code/basic/datastruct/hash.c\<close> over the ring list and the object
  pool.  The entry array, the items and the pool are a \<open>bstore\<close>; the compare function is a
  field of the table and, as its \<open>const\<close> parameters say, a function of its two arguments.  The
  statistics counters are C \<open>int\<close>s that only diagnostics read; they are unbounded here.
\<close>

subsection \<open>Choosing the number of entries\<close>

definition ht_size :: "u32 list" where
  "ht_size = [7, 47, 79, 97, 163, 197, 331, 397, 673, 797, 1361, 1597,
     2729, 3203, 5471, 6421, 10949, 12853, 21911, 25717, 43853,
     51437, 87719, 102877, 175447, 205759, 350899, 411527, 701819,
     823117, 1403641, 1646237, 2807303, 3292489, 5614657, 6584983,
     11229331, 13169977, 22458671, 26339969, 44917381, 52679969,
     89834777, 105359939]"

definition HT_SIZE_SZ :: int where
  "HT_SIZE_SZ = 44"

text \<open>Reading the table; an index outside of it is a fault.\<close>

definition ht_at :: "int \<Rightarrow> u32 option" where
  "ht_at i = (if 0 \<le> i \<and> i < HT_SIZE_SZ then Some (ht_size ! nat i) else None)"

text \<open>
  The loop: \<open>Some (mid, newsize)\<close> when it is left, where \<open>newsize\<close> may be unset; a fault, and a
  round that changes nothing and so repeats forever, is \<open>None\<close>.
\<close>

partial_function (option) hash_choose_loop ::
  "u32 \<Rightarrow> int \<Rightarrow> int \<Rightarrow> int \<Rightarrow> (int \<times> u32 option) option" where
  "hash_choose_loop sz bottom tp mid =
     (if \<not> bottom \<le> tp then Some (mid, None)
      else
        let mid = (bottom + tp) div 2 in
        do {
          v \<leftarrow> ht_at mid;
          if sz = v then Some (mid, Some v)
          else if sz > v \<and> mid < HT_SIZE_SZ then do {
            w \<leftarrow> ht_at (mid + 1);
            if sz \<le> w then Some (mid, Some w)
            else hash_choose_loop sz (mid + 1) tp mid }
          else if sz < v \<and> mid > 0 then do {
            w \<leftarrow> ht_at (mid - 1);
            if sz \<ge> w then Some (mid, Some (if sz = w then sz else v))
            else hash_choose_loop sz bottom (mid - 1) mid }
          else if mid = tp \<and> mid = bottom then Some (mid, None)
          else hash_choose_loop sz bottom tp mid })"

definition hash_choose_size :: "u32 \<Rightarrow> u32 option" where
  "hash_choose_size sz =
     do {
       (mid, newsize) \<leftarrow> hash_choose_loop sz 0 (HT_SIZE_SZ - 1) 0;
       if mid = 0 then ht_at 0
       else if mid = HT_SIZE_SZ - 1 then ht_at (HT_SIZE_SZ - 1)
       else newsize }"

subsection \<open>State and operations\<close>

record hash_t =
  h_addr :: addr
  h_store :: bstore
  h_cmp :: "addr \<Rightarrow> addr \<Rightarrow> int"
  h_size :: u32
  h_nconflict :: int
  h_nfind_failed :: int
  h_nfind_success :: int
  h_need_lock :: bool
  h_lock :: bool

definition HH_LOCK :: "hash_t \<Rightarrow> bool \<times> hash_t" where
  "HH_LOCK h =
     (if h_need_lock h then
        let (rc, m) = pthread_mutex_lock (h_lock h) in (rc = 0, h\<lparr>h_lock := m\<rparr>)
      else (True, h))"

definition HH_UNLOCK :: "hash_t \<Rightarrow> hash_t" where
  "HH_UNLOCK h = (if h_need_lock h then h\<lparr>h_lock := snd (pthread_mutex_unlock (h_lock h))\<rparr> else h)"

text \<open>
  \<open>Some None\<close> is a returned NULL.  The arguments after \<open>need_lock\<close> are the outcomes of the
  \<open>malloc\<close>s (the table, the pool's three blocks, the entries), the time and the contents of
  memory the entries are placed in; the data of fresh items is uninitialised memory.
\<close>

definition hash_alloc ::
  "u32 \<Rightarrow> (addr \<Rightarrow> addr \<Rightarrow> int) option \<Rightarrow> bool \<Rightarrow> addr \<Rightarrow> u32 \<Rightarrow> addr \<Rightarrow> addr \<Rightarrow> addr \<Rightarrow> addr
     \<Rightarrow> cbheap \<Rightarrow> (addr \<Rightarrow> addr) \<Rightarrow> hash_t option option" where
  "hash_alloc sz cmp_func need_lock mh now mo mc mp me links data =
     (case cmp_func of None \<Rightarrow> Some None | Some cmp \<Rightarrow>
      if sz < 1 then Some None
      else if mh = NULL then Some None
      else
        case objpool_alloc 24 500 False now mo mc mp of None \<Rightarrow> Some None
        | Some pool \<Rightarrow>
          do {
            nentry \<leftarrow> hash_choose_size sz;
            if me = NULL then do { objpool_free pool; Some None }
            else
              let st = \<lparr>b_pool = pool, b_links = links, b_data = data, b_base = me, b_n = nentry\<rparr>;
                  st = bk_init [0..<unat nentry] st
              in Some (Some \<lparr>h_addr = mh, h_store = st, h_cmp = cmp, h_size = 0, h_nconflict = 0,
                     h_nfind_failed = 0, h_nfind_success = 0, h_need_lock = need_lock,
                     h_lock = False\<rparr>) })"

text \<open>
  The values passed to the free function, in order, and the freed pool.  The flag says whether
  a free function was given.
\<close>

fun hash_visit :: "bstore \<Rightarrow> nat list \<Rightarrow> addr list option" where
  "hash_visit st [] = Some []"
| "hash_visit st (i # is) =
     do {
       items \<leftarrow> CBLIST_FOR_EACH (bk_hdr st i) (b_links st);
       vs \<leftarrow> hash_visit st is;
       Some (map (b_data st) items @ vs) }"

definition hash_free :: "bool \<Rightarrow> hash_t \<Rightarrow> (int \<times> addr list \<times> hash_t) option" where
  "hash_free free_func h =
     (if h_addr h = NULL then Some (-1, [], h)
      else
        let (go, h) = HH_LOCK h in
        if \<not> go then Some (-1, [], h)
        else do {
          vs \<leftarrow> (if free_func then hash_visit (h_store h) [0..<unat (b_n (h_store h))] else Some []);
          pool \<leftarrow> objpool_free (b_pool (h_store h));
          Some (0, vs, HH_UNLOCK (h\<lparr>h_store := (h_store h)\<lparr>b_pool := pool, b_base := NULL\<rparr>\<rparr>)) })"

text \<open>The scan both lookups make for an item whose value compares equal.\<close>

definition hash_scan :: "hash_t \<Rightarrow> nat \<Rightarrow> addr \<Rightarrow> (nat \<times> addr) option" where
  "hash_scan h i val =
     (let st = h_store h; lh = bk_hdr st i in
      cb_scan (b_links st) lh (\<lambda>e. h_cmp h (b_data st e) val = 0) (cb_n (b_links st) lh) 0)"

definition hash_search :: "u32 \<Rightarrow> addr \<Rightarrow> hash_t \<Rightarrow> (addr \<times> hash_t) option" where
  "hash_search key val h =
     (if h_addr h = NULL \<or> val = NULL then Some (NULL, h)
      else if b_n (h_store h) = 0 then None
      else
        let index = unat (key mod b_n (h_store h));
            (go, h) = HH_LOCK h
        in if \<not> go then Some (NULL, h)
           else do {
             (k, item) \<leftarrow> hash_scan h index val;
             let h = h\<lparr>h_nconflict := h_nconflict h + int k\<rparr>;
             let (ret, h) = (if item \<noteq> bk_hdr (h_store h) index
                  then (b_data (h_store h) item, h\<lparr>h_nfind_success := h_nfind_success h + 1\<rparr>)
                  else (NULL, h));
             let h = (if ret = NULL then h\<lparr>h_nfind_failed := h_nfind_failed h + 1\<rparr> else h);
             Some (ret, HH_UNLOCK h) })"

text \<open>Taking an item from the pool and appending it to an entry.\<close>

definition hash_add :: "addr \<times> addr \<Rightarrow> nat \<Rightarrow> addr \<Rightarrow> hash_t \<Rightarrow> (int \<times> hash_t) option" where
  "hash_add m index val h =
     do {
       (item, pool) \<leftarrow> objpool_get m (b_pool (h_store h));
       let h = h\<lparr>h_store := (h_store h)\<lparr>b_pool := pool\<rparr>\<rparr>;
       if item = NULL then Some (-1, h)
       else Some (0, h\<lparr>h_store := bk_link index item val (h_store h), h_size := h_size h + 1\<rparr>) }"

definition hash_insert :: "addr \<times> addr \<Rightarrow> u32 \<Rightarrow> addr \<Rightarrow> hash_t \<Rightarrow> (int \<times> hash_t) option" where
  "hash_insert m key val h =
     (if h_addr h = NULL \<or> val = NULL then Some (-1, h)
      else if b_n (h_store h) = 0 then None
      else
        let index = unat (key mod b_n (h_store h));
            (go, h) = HH_LOCK h
        in if \<not> go then Some (-1, h)
           else do {
             (ret, h) \<leftarrow> hash_add m index val h;
             Some (ret, HH_UNLOCK h) })"

definition hash_insert_nodup :: "addr \<times> addr \<Rightarrow> u32 \<Rightarrow> addr \<Rightarrow> hash_t \<Rightarrow> (int \<times> hash_t) option" where
  "hash_insert_nodup m key val h =
     (if h_addr h = NULL \<or> val = NULL then Some (-1, h)
      else if b_n (h_store h) = 0 then None
      else
        let index = unat (key mod b_n (h_store h));
            (go, h) = HH_LOCK h
        in if \<not> go then Some (-1, h)
           else do {
             (k, item) \<leftarrow> hash_scan h index val;
             (ret, h) \<leftarrow> (if item \<noteq> bk_hdr (h_store h) index then Some (-1, h)
                         else hash_add m index val h);
             Some (ret, HH_UNLOCK h) })"

definition hash_delete :: "u32 \<Rightarrow> addr \<Rightarrow> hash_t \<Rightarrow> (addr \<times> hash_t) option" where
  "hash_delete key val h =
     (if h_addr h = NULL \<or> val = NULL then Some (NULL, h)
      else if b_n (h_store h) = 0 then None
      else
        let index = unat (key mod b_n (h_store h));
            (go, h) = HH_LOCK h
        in if \<not> go then Some (NULL, h)
           else do {
             (k, item) \<leftarrow> hash_scan h index val;
             let h = h\<lparr>h_nconflict := h_nconflict h + int k\<rparr>;
             (ret, h) \<leftarrow> (if item \<noteq> bk_hdr (h_store h) index then do {
                    let ret = b_data (h_store h) item;
                    let h = h\<lparr>h_nfind_success := h_nfind_success h + 1\<rparr>;
                    st \<leftarrow> bk_unlink item (h_store h);
                    Some (ret, h\<lparr>h_store := st, h_size := h_size h - 1\<rparr>) }
                  else Some (NULL, h));
             let h = (if ret = NULL then h\<lparr>h_nfind_failed := h_nfind_failed h + 1\<rparr> else h);
             Some (ret, HH_UNLOCK h) })"

definition hash_size :: "hash_t \<Rightarrow> int \<times> hash_t" where
  "hash_size h =
     (if h_addr h = NULL then (-1, h)
      else
        let (go, h) = HH_LOCK h in
        if \<not> go then (-1, h) else (sint (h_size h), HH_UNLOCK h))"

subsection \<open>The entry count\<close>

text \<open>What the caller wants: the smallest entry of the table that is not below \<open>sz\<close>.\<close>

definition hash_fits :: "u32 \<Rightarrow> u32 \<Rightarrow> bool" where
  "hash_fits sz v \<longleftrightarrow> v \<in> set ht_size \<and> sz \<le> v \<and> (\<forall>w\<in>set ht_size. sz \<le> w \<longrightarrow> v \<le> w)"

lemma ht_size_less: "i < j \<Longrightarrow> j < 44 \<Longrightarrow> ht_size ! i < ht_size ! j"
proof -
  have "sorted_wrt (<) ht_size" "length ht_size = 44" by (simp_all add: ht_size_def)
  then show "i < j \<Longrightarrow> j < 44 \<Longrightarrow> ht_size ! i < ht_size ! j" by (simp add: sorted_wrt_iff_nth_less)
qed

lemma ht_size_mono: "ht_size ! i < ht_size ! j \<Longrightarrow> i < 44 \<Longrightarrow> j < 44 \<Longrightarrow> i < j"
  using ht_size_less [of j i] by (metis linorder_neqE_nat order.asym order.irrefl)

lemma hash_fits_nth:
  assumes "j < 44" and "sz \<le> ht_size ! j" and "j = 0 \<or> ht_size ! (j - 1) < sz"
  shows "hash_fits sz (ht_size ! j)"
  unfolding hash_fits_def
proof (intro conjI ballI impI)
  have l: "length ht_size = 44" by (simp add: ht_size_def)
  then show "ht_size ! j \<in> set ht_size" using assms(1) by simp
  fix w assume "w \<in> set ht_size" "sz \<le> w"
  then obtain i where i: "i < 44" "w = ht_size ! i" by (auto simp: in_set_conv_nth l)
  show "ht_size ! j \<le> w"
  proof (cases "j \<le> i")
    case True
    then show ?thesis using i ht_size_less [of j i] by (cases "j = i") auto
  next
    case False
    then have "i = j - 1 \<or> i < j - 1" "j - 1 < 44" using assms(1) by linarith+
    then have "ht_size ! i \<le> ht_size ! (j - 1)" using ht_size_less by (auto intro: less_imp_le)
    then show ?thesis using assms(3) False \<open>sz \<le> w\<close> i by auto
  qed
qed (rule assms(2))

lemma ht_size_pred: "0 < j \<Longrightarrow> j < 44 \<Longrightarrow> ht_size ! (j - 1) < ht_size ! j"
  by (rule ht_size_less) auto

lemma ht_at_nth: "i < 44 \<Longrightarrow> ht_at (int i) = Some (ht_size ! i)"
  by (simp add: ht_at_def HT_SIZE_SZ_def)

lemma hash_fits_here: "k < 44 \<Longrightarrow> sz = ht_size ! k \<Longrightarrow> hash_fits sz (ht_size ! k)"
  using ht_size_pred [of k] by (intro hash_fits_nth) auto

lemma hash_fits_below:
  assumes "k < 44" "0 < k" "sz < ht_size ! k" "ht_size ! (k - 1) \<le> sz"
  shows "hash_fits sz (if sz = ht_size ! (k - 1) then sz else ht_size ! k)"
  using hash_fits_here [of "k - 1" sz] hash_fits_nth [of k sz] assms by auto

text \<open>One round of the loop.\<close>

lemma hash_choose_round:
  assumes "b \<le> t" "t < 44" "sz \<le> ht_size ! 43"
  defines "k \<equiv> (b + t) div 2"
  shows "hash_choose_loop sz (int b) (int t) m =
    (if sz = ht_size ! k then Some (int k, Some sz)
     else if ht_size ! k < sz then
       (if sz \<le> ht_size ! Suc k then Some (int k, Some (ht_size ! Suc k))
        else hash_choose_loop sz (int (Suc k)) (int t) (int k))
     else if 0 < k then
       (if ht_size ! (k - 1) \<le> sz
        then Some (int k, Some (if sz = ht_size ! (k - 1) then sz else ht_size ! k))
        else hash_choose_loop sz (int b) (int (k - 1)) (int k))
     else if b = t then Some (int k, None) else hash_choose_loop sz (int b) (int t) (int k))"
proof -
  have mid: "(int b + int t) div 2 = int k" by (simp add: k_def zdiv_int)
  have k: "b \<le> k" "k \<le> t" "k < 44" using assms(1,2) by (auto simp: k_def)
  have "ht_size ! k < sz \<Longrightarrow> Suc k < 44" using assms(3) k by (cases "k = 43") auto
  then have s: "ht_size ! k < sz \<Longrightarrow> ht_at (int k + 1) = Some (ht_size ! Suc k)"
    using ht_at_nth [of "Suc k"] by (simp add: add.commute)
  have p: "0 < k \<Longrightarrow> ht_at (int k - 1) = Some (ht_size ! (k - 1))"
    using ht_at_nth [of "k - 1"] k by (simp add: of_nat_diff)
  have bt: "int k = int t \<and> int k = int b \<longleftrightarrow> b = t" using k by auto
  note l = hash_choose_loop.simps [of sz "int b" "int t" m, unfolded mid Let_def]
  consider (eq) "sz = ht_size ! k" | (gt) "ht_size ! k < sz" | (lt) "sz < ht_size ! k" by fastforce
  then show ?thesis
  proof cases
    case gt
    then show ?thesis using k assms(1) s by (subst l) (simp add: ht_at_nth HT_SIZE_SZ_def add.commute)
  next
    case lt
    then have "\<not> ht_size ! k < sz" "sz \<noteq> ht_size ! k" by auto
    then show ?thesis using lt k assms(1) p bt by (subst l) (simp add: ht_at_nth of_nat_diff)
  qed (use k assms(1) in \<open>subst l, simp add: ht_at_nth\<close>)
qed

text \<open>
  With \<open>bottom\<close> still 0 the upper end runs through 43, 20, 9, 3, 0: the middle reaches the first
  entry only for a size below it, which is what makes the last two lines of the function right.
\<close>

definition hash_chosen :: "u32 \<Rightarrow> (int \<times> u32 option) option \<Rightarrow> bool" where
  "hash_chosen sz r \<longleftrightarrow> (\<exists>mid v. r = Some (mid, v) \<and>
     (if mid = 0 then hash_fits sz (ht_size ! 0) else mid \<noteq> 43 \<and> (\<exists>w. v = Some w \<and> hash_fits sz w)))"

lemma hash_choose_loop_fits:
  assumes "b \<le> t" "t < 44" "b = 0 \<longrightarrow> t \<in> {43, 20, 9, 3, 0}"
    and "b = 0 \<or> ht_size ! b < sz" "t = 43 \<or> sz < ht_size ! t" "sz \<le> ht_size ! 43"
  shows "hash_chosen sz (hash_choose_loop sz (int b) (int t) m)"
  using assms
proof (induction "t - b" arbitrary: b t m rule: less_induct)
  case less
  define k where "k = (b + t) div 2"
  note round = hash_choose_round [OF less.prems(1,2,6), of m, folded k_def]
  have k: "b \<le> k" "k \<le> t" "k < 44" using less.prems(1,2) by (auto simp: k_def)
  have "k = 43 \<longrightarrow> b = 43" using less.prems(1,2) by (auto simp: k_def)
  then have k43: "k \<noteq> 43" using less.prems(4,6) by auto
  consider (eq) "sz = ht_size ! k" | (gt) "sz > ht_size ! k" | (lt) "sz < ht_size ! k" by fastforce
  then show ?case
  proof cases
    case eq
    then show ?thesis using round k43 hash_fits_here [OF k(3) eq] by (auto simp: hash_chosen_def)
  next
    case gt
    have kt: "k < t"
      using gt less.prems(2,5) k k43 ht_size_mono [of k t] by (cases "t = 43") auto
    then have k0: "k \<noteq> 0" using less.prems(3) by (auto simp: k_def)
    show ?thesis
    proof (cases "sz \<le> ht_size ! Suc k")
      case True
      then have "hash_fits sz (ht_size ! Suc k)" using gt k k43 by (intro hash_fits_nth) auto
      then show ?thesis using round gt True k43 k0 by (auto simp: hash_chosen_def)
    next
      case False
      then have "hash_chosen sz (hash_choose_loop sz (int (Suc k)) (int t) (int k))"
        using less.prems k kt by (intro less.hyps) auto
      then show ?thesis using round gt False by auto
    qed
  next
    case lt
    show ?thesis
    proof (cases "k = 0")
      case True
      then have "b = 0" "t = 0" using less.prems(3) k by (auto simp: k_def)
      moreover have "hash_fits sz (ht_size ! 0)" using lt True by (intro hash_fits_nth) auto
      ultimately show ?thesis using round lt True by (auto simp: hash_chosen_def)
    next
      case k0: False
      then have bk: "b < k"
        using lt less.prems(4) k ht_size_mono [of b k] by (cases "b = 0") auto
      have "b = 0 \<longrightarrow> k - 1 \<in> {43, 20, 9, 3, 0}" using less.prems(3) k0 by (auto simp: k_def)
      then have "\<not> ht_size ! (k - 1) \<le> sz \<Longrightarrow>
          hash_chosen sz (hash_choose_loop sz (int b) (int (k - 1)) (int k))"
        using less.prems k bk by (intro less.hyps) auto
      then show ?thesis
        using round lt k0 k43 hash_fits_below [OF k(3) _ lt] by (auto simp: hash_chosen_def split: if_splits)
    qed
  qed
qed

lemma hash_choose_size_fits:
  assumes "sz \<le> 105359939"
  obtains v where "hash_choose_size sz = Some v" "hash_fits sz v"
proof -
  have "hash_chosen sz (hash_choose_loop sz (int 0) (int 43) 0)"
    using assms by (intro hash_choose_loop_fits) (auto simp: ht_size_def)
  then show ?thesis
    using that ht_at_nth [of 0] by (auto simp: hash_chosen_def hash_choose_size_def HT_SIZE_SZ_def split: if_splits)
qed

text \<open>Beyond the last entry the search runs off the table.\<close>

lemma hash_choose_loop_over:
  assumes "ht_size ! 43 < sz" and "b \<le> 43"
  shows "hash_choose_loop sz (int b) (int 43) m = None"
  using assms(2)
proof (induction "43 - b" arbitrary: b m rule: less_induct)
  case less
  define k where "k = (b + 43) div 2"
  have mid: "(int b + int 43) div 2 = int k" by (simp add: k_def zdiv_int)
  have k: "b \<le> k" "k < 44" using less.prems by (auto simp: k_def)
  have T: "ht_size ! i < sz" if "i < 44" for i
    using that ht_size_less [of i 43] assms(1) by (cases "i = 43") auto
  note l = hash_choose_loop.simps [of sz "int b" "int 43" m, unfolded mid Let_def]
  show ?case
  proof (cases "k = 43")
    case True
    then show ?thesis using less.prems T [of 43] by (subst l) (simp add: ht_at_def HT_SIZE_SZ_def)
  next
    case False
    then have "hash_choose_loop sz (int (Suc k)) (int 43) (int k) = None"
      using less.prems k by (intro less.hyps) auto
    then show ?thesis using False k less.prems T [of k] T [of "Suc k"] ht_at_nth [of "Suc k"]
      by (subst l) (simp add: ht_at_nth HT_SIZE_SZ_def add.commute not_le)
  qed
qed

lemma hash_choose_size_over: "105359939 < sz \<Longrightarrow> hash_choose_size sz = None"
  using hash_choose_loop_over [of sz 0 0] by (simp add: ht_size_def hash_choose_size_def HT_SIZE_SZ_def)

lemma hash_fits_pos: "hash_fits sz v \<Longrightarrow> 0 < unat v"
proof -
  have "0 \<notin> set ht_size" by (simp add: ht_size_def)
  then show "hash_fits sz v \<Longrightarrow> 0 < unat v" by (auto simp: hash_fits_def unat_gt_0)
qed

subsection \<open>The table and its contents\<close>

definition hash_rep :: "(addr \<Rightarrow> addr \<Rightarrow> int) \<Rightarrow> hash_t \<Rightarrow> (nat \<Rightarrow> addr list) \<Rightarrow> bool" where
  "hash_rep cmp h f \<longleftrightarrow>
     h_addr h \<noteq> NULL \<and> h_cmp h = cmp \<and> (h_need_lock h \<longrightarrow> \<not> h_lock h)
     \<and> (\<exists>B. bk_rep (h_store h) B \<and> f = bk_vals (h_store h) B)
     \<and> (\<forall>i. NULL \<notin> set (f i))
     \<and> h_size h = of_nat (bk_count (unat (b_n (h_store h))) f)"

definition hash_nb :: "hash_t \<Rightarrow> u32" where
  "hash_nb h = b_n (h_store h)"

definition hash_fresh :: "addr \<times> addr \<Rightarrow> hash_t \<Rightarrow> bool" where
  "hash_fresh m h = bk_fresh m (h_store h)"

lemma HH_UNLOCK_sel [simp]:
  "h_addr (HH_UNLOCK h) = h_addr h" "h_store (HH_UNLOCK h) = h_store h" "h_cmp (HH_UNLOCK h) = h_cmp h"
  "h_size (HH_UNLOCK h) = h_size h" "h_need_lock (HH_UNLOCK h) = h_need_lock h"
  "h_lock (HH_UNLOCK h) = (h_lock h \<and> \<not> h_need_lock h)"
  by (auto simp: HH_UNLOCK_def pthread_mutex_unlock_def)

lemma hash_scan_cases:
  assumes "bk_rep (h_store h) B" and "i < unat (b_n (h_store h))"
  obtains (none) "hash_scan h i v = Some (length (B i), bk_hdr (h_store h) i)"
      "\<forall>w\<in>set (bk_vals (h_store h) B i). h_cmp h w v \<noteq> 0"
  | (found) ys x zs where "hash_scan h i v = Some (length ys, x)" "x \<noteq> bk_hdr (h_store h) i"
      "B i = ys @ x # zs" "\<forall>y\<in>set ys. h_cmp h (b_data (h_store h) y) v \<noteq> 0"
      "h_cmp h (b_data (h_store h) x) v = 0"
proof (rule cb_scan_cases [OF bk_rep_ring [OF assms], of "\<lambda>e. h_cmp h (b_data (h_store h) e) v = 0"], goal_cases)
  case 1
  then show ?thesis by (intro none) (auto simp: hash_scan_def Let_def bk_vals_def)
next
  case (2 ys x zs)
  then show ?thesis by (intro found) (auto simp: hash_scan_def Let_def)
qed

text \<open>What every operation starts with: the arguments are valid, the lock is taken, the index is in range.\<close>

lemma hash_enter:
  assumes rep: "hash_rep cmp h f" and i: "i = unat (k mod hash_nb h)"
  obtains h' B where "HH_LOCK h = (True, h')" "h_store h' = h_store h" "h_addr h' = h_addr h"
    "h_addr h \<noteq> NULL" "h_cmp h' = cmp" "h_size h' = h_size h" "h_need_lock h' \<longrightarrow> h_lock h'"
    "bk_rep (h_store h) B" "f = bk_vals (h_store h) B" "i < unat (b_n (h_store h))"
    "b_n (h_store h) \<noteq> 0" "\<forall>i. NULL \<notin> set (f i)"
    "h_size h = of_nat (bk_count (unat (b_n (h_store h))) f)"
proof -
  obtain B where B: "bk_rep (h_store h) B" "f = bk_vals (h_store h) B" using rep by (auto simp: hash_rep_def)
  have n: "b_n (h_store h) \<noteq> 0" "i < unat (b_n (h_store h))"
    using bk_rep_n [OF B(1)] unat_mod_less by (simp_all add: i hash_nb_def)
  have "HH_LOCK h = (True, h\<lparr>h_lock := h_need_lock h \<or> h_lock h\<rparr>)"
    using rep by (auto simp: HH_LOCK_def hash_rep_def)
  then show ?thesis by (rule that) (use rep B n in \<open>auto simp: hash_rep_def\<close>)
qed

lemma hash_search_spec:
  assumes rep: "hash_rep cmp h f" and v: "v \<noteq> NULL" and i: "i = unat (k mod hash_nb h)"
  shows "\<exists>h'. hash_search k v h =
      Some (case List.find (\<lambda>w. cmp w v = 0) (f i) of None \<Rightarrow> NULL | Some w \<Rightarrow> w, h')
    \<and> hash_nb h' = hash_nb h \<and> hash_rep cmp h' f"
proof (rule hash_enter [OF rep i], goal_cases)
  case (1 h1 B)
  show ?case
  proof (rule hash_scan_cases [of h1 B i v], goal_cases)
    case 3
    then have "List.find (\<lambda>w. cmp w v = 0) (f i) = None" using 1 by (intro find_none) simp
    moreover have "hash_search k v h = Some (NULL, HH_UNLOCK (h1\<lparr>h_nconflict := h_nconflict h1 + int (length (B i)),
        h_nfind_failed := h_nfind_failed h1 + 1\<rparr>))"
      using 1 3 v i by (simp add: hash_search_def hash_nb_def)
    ultimately show ?case using 1 by (auto simp: hash_rep_def hash_nb_def)
  next
    case (4 ys x zs)
    have find: "List.find (\<lambda>w. cmp w v = 0) (f i) = Some (b_data (h_store h) x)"
      using 1 4 bk_vals_find(1) [of B i ys x zs "\<lambda>w. cmp w v = 0" "h_store h"] by simp
    then have "b_data (h_store h) x \<noteq> NULL" using 1(12) by (metis find_Some_iff nth_mem)
    then have "hash_search k v h = Some (b_data (h_store h) x, HH_UNLOCK (h1\<lparr>h_nconflict := h_nconflict h1 + int (length ys),
        h_nfind_success := h_nfind_success h1 + 1\<rparr>))"
      using 1 4 v i by (simp add: hash_search_def hash_nb_def)
    then show ?case using 1 find by (auto simp: hash_rep_def hash_nb_def)
  qed (use 1 in auto)
qed

lemma hash_add_spec:
  assumes l: "h_need_lock h1 \<longrightarrow> h_lock h1" "h_addr h1 \<noteq> NULL" "h_cmp h1 = cmp"
    and B: "bk_rep (h_store h1) B" "i < unat (b_n (h_store h1))" "f = bk_vals (h_store h1) B"
    and f: "\<forall>i. NULL \<notin> set (f i)" "h_size h1 = of_nat (bk_count (unat (b_n (h_store h1))) f)"
    and fr: "bk_fresh m (h_store h1)" and v: "v \<noteq> NULL"
  shows "\<exists>r h2. hash_add m i v h1 = Some (r, h2) \<and> hash_nb h2 = hash_nb h1
    \<and> (r = 0 \<and> hash_rep cmp (HH_UNLOCK h2) (f(i := f i @ [v])) \<or> r = -1 \<and> hash_rep cmp (HH_UNLOCK h2) f)"
proof -
  have inv: "op_inv (b_pool (h_store h1))" "op_fresh m (b_pool (h_store h1))"
    using B fr by (simp_all add: bk_rep_def bk_fresh_def)
  obtain a p where get: "objpool_get m (b_pool (h_store h1)) = Some (a, p)"
    using op.get_safe [OF inv] by blast
  show ?thesis
  proof (cases "a = NULL")
    case True
    have "bk_rep ((h_store h1)\<lparr>b_pool := p\<rparr>) B" "bk_vals ((h_store h1)\<lparr>b_pool := p\<rparr>) B = f"
      using bk_rep_get_fail [OF B(1) fr] get True B(3) by auto
    then show ?thesis using True get l f
      by (auto simp: hash_add_def hash_nb_def hash_rep_def)
  next
    case False
    let ?st = "bk_link i a v ((h_store h1)\<lparr>b_pool := p\<rparr>)" and ?f = "f(i := f i @ [v])"
    have r: "bk_rep ?st (B(i := B i @ [a]))" "bk_vals ?st (B(i := B i @ [a])) = ?f"
      using bk_rep_link [OF B(1,2) fr get False, of v] B(3) by auto
    have n: "b_n ?st = b_n (h_store h1)" by (simp add: bk_link_def Let_def)
    have "bk_count (unat (b_n (h_store h1))) ?f = Suc (bk_count (unat (b_n (h_store h1))) f)"
      using bk_count_upd [OF B(2), of f "f i @ [v]"] by simp
    then have "hash_rep cmp (HH_UNLOCK (h1\<lparr>h_store := ?st, h_size := h_size h1 + 1\<rparr>)) ?f"
      using r l f v by (auto simp: hash_rep_def n add.commute)
    then show ?thesis using False get n by (auto simp: hash_add_def hash_nb_def)
  qed
qed

lemma hash_insert_spec:
  assumes rep: "hash_rep cmp h f" and fr: "hash_fresh m h" and v: "v \<noteq> NULL" and i: "i = unat (k mod hash_nb h)"
  shows "\<exists>r h'. hash_insert m k v h = Some (r, h') \<and> hash_nb h' = hash_nb h
    \<and> (r = 0 \<and> hash_rep cmp h' (f(i := f i @ [v])) \<or> r = -1 \<and> hash_rep cmp h' f)"
proof (rule hash_enter [OF rep i], goal_cases)
  case (1 h1 B)
  then have "\<exists>r h2. hash_add m i v h1 = Some (r, h2) \<and> hash_nb h2 = hash_nb h1
      \<and> (r = 0 \<and> hash_rep cmp (HH_UNLOCK h2) (f(i := f i @ [v])) \<or> r = -1 \<and> hash_rep cmp (HH_UNLOCK h2) f)"
    using fr v by (intro hash_add_spec [of _ _ B]) (auto simp: hash_fresh_def)
  then show ?case using 1 v i by (auto simp: hash_insert_def hash_nb_def)
qed

lemma hash_insert_nodup_spec:
  assumes rep: "hash_rep cmp h f" and fr: "hash_fresh m h" and v: "v \<noteq> NULL" and i: "i = unat (k mod hash_nb h)"
  shows "\<exists>r h'. hash_insert_nodup m k v h = Some (r, h') \<and> hash_nb h' = hash_nb h
    \<and> (r = 0 \<and> (\<forall>w\<in>set (f i). cmp w v \<noteq> 0) \<and> hash_rep cmp h' (f(i := f i @ [v])) \<or> r = -1 \<and> hash_rep cmp h' f)
    \<and> ((\<exists>w\<in>set (f i). cmp w v = 0) \<longrightarrow> r = -1)"
proof (rule hash_enter [OF rep i], goal_cases)
  case (1 h1 B)
  then have add: "\<exists>r h2. hash_add m i v h1 = Some (r, h2) \<and> hash_nb h2 = hash_nb h1
      \<and> (r = 0 \<and> hash_rep cmp (HH_UNLOCK h2) (f(i := f i @ [v])) \<or> r = -1 \<and> hash_rep cmp (HH_UNLOCK h2) f)"
    using fr v by (intro hash_add_spec [of _ _ B]) (auto simp: hash_fresh_def)
  show ?case
  proof (rule hash_scan_cases [of h1 B i v], goal_cases)
    case 3
    then show ?case using 1 add v i by (auto simp: hash_insert_nodup_def hash_nb_def)
  next
    case (4 ys x zs)
    then have "b_data (h_store h) x \<in> set (f i)" using 1 by (simp add: bk_vals_def)
    moreover have "hash_insert_nodup m k v h = Some (-1, HH_UNLOCK h1)"
      using 1 4 v i by (simp add: hash_insert_nodup_def hash_nb_def)
    moreover have "hash_rep cmp (HH_UNLOCK h1) f" using 1 by (auto simp: hash_rep_def)
    ultimately show ?case using 1 4 by (auto simp: hash_nb_def)
  qed (use 1 in auto)
qed

lemma hash_delete_spec:
  assumes rep: "hash_rep cmp h f" and v: "v \<noteq> NULL" and i: "i = unat (k mod hash_nb h)"
  shows "\<exists>h'. hash_delete k v h =
      Some (case List.find (\<lambda>w. cmp w v = 0) (f i) of None \<Rightarrow> NULL | Some w \<Rightarrow> w, h')
    \<and> hash_nb h' = hash_nb h \<and> hash_rep cmp h' (f(i := remove_first (\<lambda>w. cmp w v = 0) (f i)))"
proof (rule hash_enter [OF rep i], goal_cases)
  case (1 h1 B)
  show ?case
  proof (rule hash_scan_cases [of h1 B i v], goal_cases)
    case 3
    then have none: "\<forall>w\<in>set (f i). cmp w v \<noteq> 0" using 1 by simp
    then have "List.find (\<lambda>w. cmp w v = 0) (f i) = None" by (intro find_none) simp
    moreover have "hash_delete k v h = Some (NULL, HH_UNLOCK (h1\<lparr>h_nconflict := h_nconflict h1 + int (length (B i)),
        h_nfind_failed := h_nfind_failed h1 + 1\<rparr>))"
      using 1 3 v i by (simp add: hash_delete_def hash_nb_def)
    moreover have "f(i := remove_first (\<lambda>w. cmp w v = 0) (f i)) = f" using none by simp
    ultimately show ?case using 1 by (auto simp: hash_rep_def hash_nb_def)
  next
    case (4 ys x zs)
    let ?P = "\<lambda>w. cmp w v = 0" and ?st = "h_store h"
    have find: "List.find ?P (f i) = Some (b_data ?st x)" "remove_first ?P (f i) = bk_vals ?st (B(i := ys @ zs)) i"
      using 1 4 bk_vals_find [of B i ys x zs ?P ?st] by simp_all
    then have nz: "b_data ?st x \<noteq> NULL" using 1(12) by (metis find_Some_iff nth_mem)
    obtain st where st: "bk_unlink x ?st = Some st" "bk_rep st (B(i := ys @ zs))"
        "b_data st = b_data ?st" "b_n st = b_n ?st"
      using bk_rep_unlink [OF 1(8,10) 4(3)] by metis
    let ?h = "h1\<lparr>h_nconflict := h_nconflict h1 + int (length ys), h_nfind_success := h_nfind_success h1 + 1,
        h_store := st, h_size := h_size h1 - 1\<rparr>"
    have del: "hash_delete k v h = Some (b_data ?st x, HH_UNLOCK ?h)"
      using 1 4 v i nz st by (simp add: hash_delete_def hash_nb_def)
    have vals: "bk_vals st (B(i := ys @ zs)) = f(i := remove_first ?P (f i))"
      using 1(9) find(2) st(3) by (auto simp: bk_vals_def fun_eq_iff)
    have "length (f i) = Suc (length (remove_first ?P (f i)))"
      using 1(9) 4(3) find(2) by (simp add: bk_vals_def)
    then have cnt: "bk_count (unat (b_n ?st)) f = Suc (bk_count (unat (b_n ?st)) (f(i := remove_first ?P (f i))))"
      using bk_count_upd [OF 1(10), of f "remove_first ?P (f i)"] by simp
    have "NULL \<notin> set ((f(i := remove_first ?P (f i))) j)" for j
      using 1(12) set_remove_first [of ?P "f i"] by auto
    then have "hash_rep cmp (HH_UNLOCK ?h) (f(i := remove_first ?P (f i)))"
      using 1 st(2,4) vals cnt by (auto simp: hash_rep_def)
    then show ?case using del find(1) st(4) by (simp add: hash_nb_def)
  qed (use 1 in auto)
qed

text \<open>As long as the pool has a free item an insertion succeeds.\<close>

lemma hash_insert_succeeds:
  assumes rep: "hash_rep cmp h f" and v: "v \<noteq> NULL" and free: "op_nfreed (b_pool (h_store h)) \<noteq> 0"
  shows "\<exists>h'. hash_insert m k v h = Some (0, h')"
proof (rule hash_enter [OF rep refl, of k], goal_cases)
  case (1 h1 B)
  have inv: "op_inv (b_pool (h_store h))" "op_fresh m (b_pool (h_store h))"
    using bk_rep_pool [OF 1(8)] free by (simp_all add: op_fresh_def)
  obtain a p where get: "objpool_get m (b_pool (h_store h)) = Some (a, p)"
    using op.get_safe [OF inv] by blast
  then show ?case using 1 v objpool_get_nonnull [OF inv(1) free get]
    by (simp add: hash_insert_def hash_add_def)
qed

interpretation hs: bucket_table "hash_rep cmp" hash_nb cmp hash_fresh hash_insert hash_search hash_delete for cmp
  by unfold_locales
    (fact hash_insert_spec [OF _ _ _ refl] hash_search_spec [OF _ _ refl] hash_delete_spec [OF _ _ refl])+


subsection \<open>Creating and destroying a table\<close>

lemma hash_visit_rep:
  assumes "bk_rep st B" "\<forall>i\<in>set is. i < unat (b_n st)"
  shows "hash_visit st is = Some (concat (map (bk_vals st B) is))"
  using assms(2)
proof (induction "is")
  case (Cons i "is")
  then have "CBLIST_FOR_EACH (bk_hdr st i) (b_links st) = Some (B i)"
    using CBLIST_FOR_EACH_ring bk_rep_ring [OF assms(1)] by simp
  with Cons show ?case by (simp add: bk_vals_def)
qed simp

lemma hash_free_spec:
  assumes "hash_rep cmp h f"
  shows "\<exists>h'. hash_free ff h =
    Some (0, if ff then concat (map f [0..<unat (hash_nb h)]) else [], h')"
proof (rule hash_enter [OF assms refl, of 0], goal_cases)
  case (1 h1 B)
  obtain p where "objpool_free (b_pool (h_store h)) = Some p"
    using objpool_free_inv [OF bk_rep_pool [OF 1(8)]] by blast
  moreover have "hash_visit (h_store h) [0..<unat (b_n (h_store h))] = Some (concat (map f [0..<unat (b_n (h_store h))]))"
    using hash_visit_rep [OF 1(8)] 1(9) by simp
  ultimately show ?case using 1 by (simp add: hash_free_def hash_nb_def)
qed

lemma hash_alloc_spec:
  assumes "1 \<le> sz" "sz \<le> 105359939" and nz: "mh \<noteq> NULL" "mo \<noteq> NULL" "mc \<noteq> NULL" "mp \<noteq> NULL" "me \<noteq> NULL"
    and sep: "me + 24 * unat (the (hash_choose_size sz)) \<le> mp \<or> mp + 500 * 64 \<le> me"
  shows "\<exists>h. hash_alloc sz (Some cmp) lk mh now mo mc mp me links data = Some (Some h)
    \<and> hash_rep cmp h (\<lambda>_. []) \<and> hash_fits sz (hash_nb h) \<and> unat (op_nfreed (b_pool (h_store h))) = 500"
proof -
  obtain n where n: "hash_choose_size sz = Some n" "hash_fits sz n" by (rule hash_choose_size_fits [OF assms(2)])
  obtain op where op: "objpool_alloc 24 500 False now mo mc mp = Some op" "op_inv op" "op_used op = {}"
      "op_owned op = (\<lambda>i. mp + i * 64 + 40) ` {..<500}" "unat (op_nfreed op) = 500"
    by (rule objpool_alloc_new [of 24 500 mo mc mp False now]) (use nz in \<open>auto simp: align_num_def op_hdr_def\<close>)
  let ?st = "\<lparr>b_pool = op, b_links = links, b_data = data, b_base = me, b_n = n\<rparr>"
  have "op_owned op \<inter> bk_hdrs ?st = {}"
    using sep n(1) by (auto simp: op(4) bk_hdrs_def bk_hdr_def)
  then have "bk_rep (bk_init [0..<unat n] ?st) (\<lambda>_. [])"
    using bk_rep_init [of ?st] hash_fits_pos [OF n(2)] op by simp
  moreover have "bk_vals st (\<lambda>_. []) = (\<lambda>_. [])" "bk_count k (\<lambda>_. []) = 0" for st k
    by (simp_all add: bk_vals_def bk_count_def fun_eq_iff)
  moreover have "\<not> sz < 1" using assms(1) by (rule leD)
  ultimately show ?thesis using nz op(1,5) n
    by (simp add: hash_alloc_def hash_rep_def hash_nb_def) (metis)
qed


subsection \<open>Properties\<close>

definition hash_sample :: hash_t where
  "hash_sample = the (the (hash_alloc 7 (Some (\<lambda>a b. int a - int b)) True 1 7 1000 2000 3000 40000
      \<lparr>cb_p = (\<lambda>_. NULL), cb_n = (\<lambda>_. NULL)\<rparr> (\<lambda>_. NULL)))"

lemma hash_sample_rep:
  "hash_rep (\<lambda>a b. int a - int b) hash_sample (\<lambda>_. [])" "hash_fresh m hash_sample"
  "op_nfreed (b_pool (h_store hash_sample)) \<noteq> 0"
proof -
  obtain h where h: "hash_sample = h" "hash_rep (\<lambda>a b. int a - int b) h (\<lambda>_. [])"
      "unat (op_nfreed (b_pool (h_store h))) = 500"
    using hash_alloc_spec [of 7 1 1000 2000 3000 40000 "\<lambda>a b. int a - int b" True 7
        "\<lparr>cb_p = (\<lambda>_. NULL), cb_n = (\<lambda>_. NULL)\<rparr>" "\<lambda>_. NULL"]
    by (auto simp: hash_sample_def)
  then show "hash_rep (\<lambda>a b. int a - int b) hash_sample (\<lambda>_. [])" by simp
  have n: "op_nfreed (b_pool (h_store h)) \<noteq> 0" using h(3) by auto
  then show "op_nfreed (b_pool (h_store hash_sample)) \<noteq> 0" by (simp add: h)
  from n show "hash_fresh m hash_sample" by (simp add: h hash_fresh_def bk_fresh_def op_fresh_def op_growth_def)
qed

text \<open>
  C10: for every size the table of primes covers, the binary search of \<^verbatim>\<open>_hash_choose_size\<close> ends,
  stays inside the table and returns the smallest prime of the table that is not below the size.
\<close>

theorem hash_choose_size_correct:
  assumes "sz \<le> 105359939"
  shows "\<exists>v. hash_choose_size sz = Some v \<and> hash_fits sz v"
  using hash_choose_size_fits [OF assms] by blast

theorem hash_choose_size_correct_witness: "\<exists>v. hash_choose_size 1000 = Some v \<and> hash_fits 1000 v"
  by (rule hash_choose_size_correct) simp

text \<open>
  For a size beyond the last prime the same search reads the element after the end of the table.
\<close>

theorem hash_choose_size_overrun:
  assumes "105359939 < sz"
  shows "hash_choose_size sz = None"
  using assms by (rule hash_choose_size_over)

theorem hash_choose_size_overrun_witness: "hash_choose_size 105359940 = None"
  by (rule hash_choose_size_overrun) simp

text \<open>
  \<^verbatim>\<open>hash_alloc\<close> yields an empty table with the chosen number of entries when its allocations
  succeed and do not overlap.
\<close>

theorem hash_alloc_ok:
  assumes "1 \<le> sz" "sz \<le> 105359939" and "mh \<noteq> NULL" "mo \<noteq> NULL" "mc \<noteq> NULL" "mp \<noteq> NULL" "me \<noteq> NULL"
    and "me + 24 * unat (the (hash_choose_size sz)) \<le> mp \<or> mp + 500 * 64 \<le> me"
  shows "\<exists>h. hash_alloc sz (Some cmp) lk mh now mo mc mp me links data = Some (Some h)
    \<and> hash_rep cmp h (\<lambda>_. []) \<and> hash_fits sz (hash_nb h)"
  using hash_alloc_spec [OF assms] by blast

theorem hash_alloc_ok_witness:
  "\<exists>h. hash_alloc 100 (Some (\<lambda>a b. int a - int b)) True 1 7 1000 2000 3000 40000
      \<lparr>cb_p = (\<lambda>_. NULL), cb_n = (\<lambda>_. NULL)\<rparr> (\<lambda>_. NULL) = Some (Some h) \<and> hash_fits 100 (hash_nb h)"
  using hash_alloc_ok [of 100 1 1000 2000 3000 40000 "\<lambda>a b. int a - int b" True 7
      "\<lparr>cb_p = (\<lambda>_. NULL), cb_n = (\<lambda>_. NULL)\<rparr>" "\<lambda>_. NULL"] by auto



text \<open>
  \<^verbatim>\<open>hash_insert_nodup\<close> never lets an entry hold two values that compare equal: it refuses with
  -1 and unchanged contents when the entry has an equal value, and otherwise appends the value
  or fails for want of memory.
\<close>

theorem hash_insert_nodup_correct:
  assumes "hash_rep cmp h f" "hash_fresh m h" "v \<noteq> NULL"
  shows "\<exists>r h'. hash_insert_nodup m k v h = Some (r, h') \<and>
    (let i = unat (k mod hash_nb h) in
      (r = 0 \<and> (\<forall>w\<in>set (f i). cmp w v \<noteq> 0) \<and> hash_rep cmp h' (f(i := f i @ [v])) \<or> r = -1 \<and> hash_rep cmp h' f)
      \<and> ((\<exists>w\<in>set (f i). cmp w v = 0) \<longrightarrow> r = -1))"
  using hash_insert_nodup_spec [OF assms refl, of k] unfolding Let_def by blast

theorem hash_insert_nodup_correct_witness:
  "\<exists>r h'. hash_insert_nodup (NULL, NULL) 12 77 hash_sample = Some (r, h')"
  using hash_insert_nodup_correct [OF hash_sample_rep(1) hash_sample_rep(2), of 77] by fastforce



end
