(* ===== verification/Shash.thy ===== *)
theory Shash
  imports Bucket
begin

text \<open>
  The static-inline hash table of \<^verbatim>\<open>code/basic/datastruct/shash.h\<close>: no lock, a free function kept
  in the table, a size per bucket.  It keeps its items in the same kind of store as
  \<^verbatim>\<open>hash.c\<close> and provides the same contract.
\<close>

subsection \<open>State and operations\<close>

record shash_t =
  s_addr :: addr
  s_store :: bstore
  s_bsize :: "nat \<Rightarrow> u32"
  s_size :: u32
  s_cmp :: "addr \<Rightarrow> addr \<Rightarrow> int"
  s_free :: bool

text \<open>
  \<open>None\<close> is a returned NULL.  The table and the array of buckets are malloced before the pool.
\<close>

definition shash_alloc ::
  "u32 \<Rightarrow> (addr \<Rightarrow> addr \<Rightarrow> int) \<Rightarrow> bool \<Rightarrow> addr \<Rightarrow> addr \<Rightarrow> u32 \<Rightarrow> addr \<Rightarrow> addr \<Rightarrow> addr
     \<Rightarrow> cbheap \<Rightarrow> (addr \<Rightarrow> addr) \<Rightarrow> (nat \<Rightarrow> u32) \<Rightarrow> shash_t option" where
  "shash_alloc bucket cfunc ffunc mh mb now mo mc mp links data sizes =
     (if bucket < 1 then None
      else if mh = NULL then None
      else if mb = NULL then None
      else
        case objpool_alloc 24 1024 False now mo mc mp of None \<Rightarrow> None
        | Some pool \<Rightarrow>
          let st = \<lparr>b_pool = pool, b_links = links, b_data = data, b_base = mb, b_n = bucket\<rparr>;
              st = bk_init [0..<unat bucket] st
          in Some \<lparr>s_addr = mh, s_store = st, s_bsize = (\<lambda>i. if i < unat bucket then 0 else sizes i),
                   s_size = 0, s_cmp = cfunc, s_free = ffunc\<rparr>)"

text \<open>
  The inner loop of \<^verbatim>\<open>shash_free\<close> from the item \<open>e\<close> on: the successor is read before the item is
  unlinked and handed back.  \<open>vs\<close> collects the values given to the free function.
\<close>

partial_function (option) shash_drain ::
  "nat \<Rightarrow> addr \<Rightarrow> addr list \<Rightarrow> shash_t \<Rightarrow> (addr list \<times> shash_t) option" where
  "shash_drain i e vs h =
     (if e = bk_hdr (s_store h) i then Some (vs, h)
      else
        let bak = cb_n (b_links (s_store h)) e;
            vs = (if s_free h then vs @ [b_data (s_store h) e] else vs)
        in do {
          st \<leftarrow> bk_unlink e (s_store h);
          shash_drain i bak vs
            (h\<lparr>s_store := st, s_bsize := (s_bsize h)(i := s_bsize h i - 1)\<rparr>) })"

text \<open>
  The loop over the buckets; \<open>n\<close> counts the messages about an invalid size.
\<close>

fun shash_drain_all :: "nat list \<Rightarrow> addr list \<Rightarrow> nat \<Rightarrow> shash_t \<Rightarrow> (addr list \<times> nat \<times> shash_t) option" where
  "shash_drain_all [] vs n h = Some (vs, n, h)"
| "shash_drain_all (i # is) vs n h =
     do {
       (vs, h) \<leftarrow> shash_drain i (cb_n (b_links (s_store h)) (bk_hdr (s_store h) i)) vs h;
       shash_drain_all is vs (if s_size h \<noteq> 0 then n + 1 else n) h }"

definition shash_free :: "shash_t \<Rightarrow> (addr list \<times> nat \<times> shash_t) option" where
  "shash_free h =
     (if s_addr h = NULL then Some ([], 0, h)
      else do {
        (vs, n, h) \<leftarrow> (if b_base (s_store h) \<noteq> NULL
             then shash_drain_all [0..<unat (b_n (s_store h))] [] 0 h else Some ([], 0, h));
        pool \<leftarrow> objpool_free (b_pool (s_store h));
        Some (vs, n, h\<lparr>s_store := (s_store h)\<lparr>b_pool := pool\<rparr>\<rparr>) })"

definition shash_scan :: "shash_t \<Rightarrow> nat \<Rightarrow> (addr \<Rightarrow> bool) \<Rightarrow> (nat \<times> addr) option" where
  "shash_scan h i stop =
     (let st = s_store h; lh = bk_hdr st i in
      cb_scan (b_links st) lh (\<lambda>e. stop (b_data st e)) (cb_n (b_links st) lh) 0)"

text \<open>The end of \<^verbatim>\<open>shash_add\<close>: take an item and append it.\<close>

definition shash_push :: "addr \<times> addr \<Rightarrow> nat \<Rightarrow> addr \<Rightarrow> shash_t \<Rightarrow> (int \<times> shash_t) option" where
  "shash_push m i d h =
     do {
       (item, pool) \<leftarrow> objpool_get m (b_pool (s_store h));
       let h = h\<lparr>s_store := (s_store h)\<lparr>b_pool := pool\<rparr>\<rparr>;
       if item = NULL then Some (-1, h)
       else Some (0, h\<lparr>s_store := bk_link i item d (s_store h),
                      s_bsize := (s_bsize h)(i := s_bsize h i + 1), s_size := s_size h + 1\<rparr>) }"

definition shash_add :: "addr \<times> addr \<Rightarrow> addr \<Rightarrow> u32 \<Rightarrow> bool \<Rightarrow> shash_t \<Rightarrow> (int \<times> shash_t) option" where
  "shash_add m d hval check h =
     (if s_addr h = NULL \<or> d = NULL then Some (-1, h)
      else if b_n (s_store h) = 0 then None
      else
        let i = unat (hval mod b_n (s_store h)) in
        do {
          (k, item) \<leftarrow> (if check then shash_scan h i (\<lambda>v. v = d \<or> s_cmp h v d = 0)
                       else Some (0, bk_hdr (s_store h) i));
          if item \<noteq> bk_hdr (s_store h) i then Some (-1, h)
          else shash_push m i d h })"

definition shash_del :: "addr \<Rightarrow> u32 \<Rightarrow> shash_t \<Rightarrow> (addr \<times> shash_t) option" where
  "shash_del d hval h =
     (if s_addr h = NULL \<or> d = NULL then Some (NULL, h)
      else if b_n (s_store h) = 0 then None
      else
        let i = unat (hval mod b_n (s_store h)) in
        do {
          (k, item) \<leftarrow> shash_scan h i (\<lambda>v. s_cmp h v d = 0);
          if item = bk_hdr (s_store h) i then Some (NULL, h)
          else do {
            let data = b_data (s_store h) item;
            st \<leftarrow> bk_unlink item (s_store h);
            Some (data, h\<lparr>s_store := st\<rparr>) } })"

definition shash_find :: "addr \<Rightarrow> u32 \<Rightarrow> shash_t \<Rightarrow> addr option" where
  "shash_find d hval h =
     (if s_addr h = NULL \<or> d = NULL then Some NULL
      else if b_n (s_store h) = 0 then None
      else
        let i = unat (hval mod b_n (s_store h)) in
        do {
          (k, item) \<leftarrow> shash_scan h i (\<lambda>v. s_cmp h v d = 0);
          Some (if item = bk_hdr (s_store h) i then NULL else b_data (s_store h) item) })"

subsection \<open>The table and its contents\<close>

definition shash_rep :: "(addr \<Rightarrow> addr \<Rightarrow> int) \<Rightarrow> shash_t \<Rightarrow> (nat \<Rightarrow> addr list) \<Rightarrow> bool" where
  "shash_rep cmp h f \<longleftrightarrow>
     s_addr h \<noteq> NULL \<and> s_cmp h = cmp \<and> (\<exists>B. bk_rep (s_store h) B \<and> f = bk_vals (s_store h) B)"

definition shash_nb :: "shash_t \<Rightarrow> u32" where
  "shash_nb h = b_n (s_store h)"

definition shash_fresh :: "addr \<times> addr \<Rightarrow> shash_t \<Rightarrow> bool" where
  "shash_fresh m h = bk_fresh m (s_store h)"

lemma shash_scan_cases:
  assumes "bk_rep (s_store h) B" and "i < unat (b_n (s_store h))"
  obtains (none) "shash_scan h i stop = Some (length (B i), bk_hdr (s_store h) i)"
      "\<forall>w\<in>set (bk_vals (s_store h) B i). \<not> stop w"
  | (found) ys x zs where "shash_scan h i stop = Some (length ys, x)" "x \<noteq> bk_hdr (s_store h) i"
      "B i = ys @ x # zs" "\<forall>y\<in>set ys. \<not> stop (b_data (s_store h) y)" "stop (b_data (s_store h) x)"
proof (rule cb_scan_cases [OF bk_rep_ring [OF assms], of "\<lambda>e. stop (b_data (s_store h) e)"], goal_cases)
  case 1
  then show ?thesis by (intro none) (auto simp: shash_scan_def Let_def bk_vals_def)
next
  case (2 ys x zs)
  then show ?thesis by (intro found) (auto simp: shash_scan_def Let_def)
qed

lemma shash_enter:
  assumes "shash_rep cmp h f" and "i = unat (k mod shash_nb h)"
  obtains B where "s_addr h \<noteq> NULL" "s_cmp h = cmp" "bk_rep (s_store h) B" "f = bk_vals (s_store h) B"
    "i < unat (b_n (s_store h))" "b_n (s_store h) \<noteq> 0"
proof -
  obtain B where B: "bk_rep (s_store h) B" "f = bk_vals (s_store h) B" "s_addr h \<noteq> NULL" "s_cmp h = cmp"
    using assms(1) by (auto simp: shash_rep_def)
  then show ?thesis using that bk_rep_n [OF B(1)] unat_mod_less assms(2) by (simp add: shash_nb_def)
qed

lemma shash_push_spec:
  assumes h: "s_addr h \<noteq> NULL" "s_cmp h = cmp" "bk_rep (s_store h) B" "f = bk_vals (s_store h) B"
    and i: "i < unat (b_n (s_store h))" and fr: "shash_fresh m h"
  shows "\<exists>r h'. shash_push m i v h = Some (r, h') \<and> shash_nb h' = shash_nb h
    \<and> (r = 0 \<and> s_size h' = s_size h + 1 \<and> shash_rep cmp h' (f(i := f i @ [v])) \<or> r = -1 \<and> shash_rep cmp h' f)"
proof -
  note fr = fr [unfolded shash_fresh_def]
  have inv: "op_inv (b_pool (s_store h))" "op_fresh m (b_pool (s_store h))"
    using bk_rep_pool [OF h(3)] fr by (simp_all add: bk_fresh_def)
  obtain a p where get: "objpool_get m (b_pool (s_store h)) = Some (a, p)"
    using op.get_safe [OF inv] by blast
  show ?thesis
  proof (cases "a = NULL")
    case True
    then show ?thesis using bk_rep_get_fail [OF h(3) fr, of p] get h
      by (auto simp: shash_push_def shash_nb_def shash_rep_def)
  next
    case False
    have "b_n (bk_link i a v ((s_store h)\<lparr>b_pool := p\<rparr>)) = b_n (s_store h)" by (simp add: bk_link_def Let_def)
    then show ?thesis using bk_rep_link [OF h(3) i fr get False, of v] False get h
      by (auto simp: shash_push_def shash_nb_def shash_rep_def intro!: exI [of _ "B(i := B i @ [a])"])
  qed
qed

text \<open>Adding, with and without the check for an equal value.\<close>

lemma shash_add_spec:
  assumes rep: "shash_rep cmp h f" and fr: "shash_fresh m h" and v: "v \<noteq> NULL" and i: "i = unat (k mod shash_nb h)"
  shows "\<exists>r h'. shash_add m v k check h = Some (r, h') \<and> shash_nb h' = shash_nb h
    \<and> (r = 0 \<and> s_size h' = s_size h + 1 \<and> (check \<longrightarrow> (\<forall>w\<in>set (f i). w \<noteq> v \<and> cmp w v \<noteq> 0))
          \<and> shash_rep cmp h' (f(i := f i @ [v]))
       \<or> r = -1 \<and> shash_rep cmp h' f)"
proof (rule shash_enter [OF rep i], goal_cases)
  case (1 B)
  note push = shash_push_spec [OF 1(1-5) fr, of v]
  show ?case
  proof (cases check)
    case False
    then show ?thesis using 1 push v i by (simp add: shash_add_def shash_nb_def)
  next
    case check: True
    show ?thesis
    proof (rule shash_scan_cases [OF 1(3,5), of "\<lambda>w. w = v \<or> s_cmp h w v = 0"], goal_cases)
      case none: 1
      then have "shash_add m v k check h = shash_push m i v h"
        using 1 check v i by (simp add: shash_add_def shash_nb_def)
      moreover have "\<forall>w\<in>set (f i). w \<noteq> v \<and> cmp w v \<noteq> 0" using none 1 by auto
      ultimately show ?case using push by metis
    next
      case (2 ys x zs)
      then show ?case using 1 check v i rep by (simp add: shash_add_def shash_nb_def)
    qed
  qed
qed

lemma shash_find_spec:
  assumes rep: "shash_rep cmp h f" and v: "v \<noteq> NULL" and i: "i = unat (k mod shash_nb h)"
  shows "shash_find v k h =
    Some (case List.find (\<lambda>w. cmp w v = 0) (f i) of None \<Rightarrow> NULL | Some w \<Rightarrow> w)"
proof (rule shash_enter [OF rep i], goal_cases)
  case (1 B)
  show ?case
  proof (rule shash_scan_cases [OF 1(3,5), of "\<lambda>w. s_cmp h w v = 0"], goal_cases)
    case none: 1
    then have "List.find (\<lambda>w. cmp w v = 0) (f i) = None" using 1 by (intro find_none) simp
    then show ?case using none 1 v i by (simp add: shash_find_def shash_nb_def)
  next
    case (2 ys x zs)
    then have "List.find (\<lambda>w. cmp w v = 0) (f i) = Some (b_data (s_store h) x)"
      using 1 bk_vals_find(1) [of B i ys x zs "\<lambda>w. cmp w v = 0" "s_store h"] by simp
    then show ?case using 2 1 v i by (simp add: shash_find_def shash_nb_def)
  qed
qed

text \<open>Deleting; the table's size stays what it was, whether or not an item went.\<close>

lemma shash_del_spec:
  assumes rep: "shash_rep cmp h f" and v: "v \<noteq> NULL" and i: "i = unat (k mod shash_nb h)"
  shows "\<exists>h'. shash_del v k h =
      Some (case List.find (\<lambda>w. cmp w v = 0) (f i) of None \<Rightarrow> NULL | Some w \<Rightarrow> w, h')
    \<and> shash_nb h' = shash_nb h \<and> s_size h' = s_size h
    \<and> shash_rep cmp h' (f(i := remove_first (\<lambda>w. cmp w v = 0) (f i)))"
proof (rule shash_enter [OF rep i], goal_cases)
  case (1 B)
  show ?case
  proof (rule shash_scan_cases [OF 1(3,5), of "\<lambda>w. s_cmp h w v = 0"], goal_cases)
    case none: 1
    then have n: "\<forall>w\<in>set (f i). cmp w v \<noteq> 0" using 1 by simp
    then have "List.find (\<lambda>w. cmp w v = 0) (f i) = None" "f(i := remove_first (\<lambda>w. cmp w v = 0) (f i)) = f"
      by (simp_all add: find_none)
    then show ?case using none 1 v i rep by (simp add: shash_del_def shash_nb_def)
  next
    case (2 ys x zs)
    let ?P = "\<lambda>w. cmp w v = 0" and ?st = "s_store h"
    have find: "List.find ?P (f i) = Some (b_data ?st x)" "remove_first ?P (f i) = bk_vals ?st (B(i := ys @ zs)) i"
      using 1 2 bk_vals_find [of B i ys x zs ?P ?st] by simp_all
    obtain st where st: "bk_unlink x ?st = Some st" "bk_rep st (B(i := ys @ zs))"
        "b_data st = b_data ?st" "b_n st = b_n ?st"
      using bk_rep_unlink [OF 1(3,5) 2(3)] by metis
    have "bk_vals st (B(i := ys @ zs)) = f(i := remove_first ?P (f i))"
      using 1(4) find(2) st(3) by (auto simp: bk_vals_def fun_eq_iff)
    then have "shash_rep cmp (h\<lparr>s_store := st\<rparr>) (f(i := remove_first ?P (f i)))"
      using 1 st(2) by (auto simp: shash_rep_def)
    then show ?case using 1 2 v i st(1,4) find(1) by (simp add: shash_del_def shash_nb_def)
  qed
qed

lemma shash_add_succeeds:
  assumes rep: "shash_rep cmp h f" and v: "v \<noteq> NULL" and free: "op_nfreed (b_pool (s_store h)) \<noteq> 0"
  shows "\<exists>h'. shash_add m v k False h = Some (0, h')"
proof (rule shash_enter [OF rep refl, of k], goal_cases)
  case (1 B)
  have inv: "op_inv (b_pool (s_store h))" "op_fresh m (b_pool (s_store h))"
    using bk_rep_pool [OF 1(3)] free by (simp_all add: op_fresh_def)
  obtain a p where get: "objpool_get m (b_pool (s_store h)) = Some (a, p)"
    using op.get_safe [OF inv] by blast
  then show ?case using 1 v objpool_get_nonnull [OF inv(1) free get]
    by (simp add: shash_add_def shash_push_def Let_def)
qed

interpretation sh: bucket_table "shash_rep cmp" shash_nb cmp shash_fresh
    "\<lambda>m k v. shash_add m v k False" "\<lambda>k v h. map_option (\<lambda>r. (r, h)) (shash_find v k h)" "\<lambda>k v. shash_del v k" for cmp
proof (unfold_locales, goal_cases)
  case (1 h f e v k)
  then show ?case using shash_add_spec [OF 1 refl, of k False] by blast
next
  case (2 h f v k)
  then show ?case using shash_find_spec [OF 2 refl, of k] by simp
next
  case (3 h f v k)
  then show ?case using shash_del_spec [OF 3 refl, of k] by blast
qed

subsection \<open>Creating and destroying a table\<close>

lemma shash_drain_rep:
  assumes "bk_rep (s_store h) B" "i < unat (b_n (s_store h))" "lh = bk_hdr (s_store h) i"
  shows "\<exists>h'. shash_drain i (cb_n (b_links (s_store h)) lh) vs h =
      Some (if s_free h then vs @ bk_vals (s_store h) B i else vs, h')
    \<and> bk_rep (s_store h') (B(i := [])) \<and> b_data (s_store h') = b_data (s_store h)
    \<and> b_n (s_store h') = b_n (s_store h) \<and> b_base (s_store h') = b_base (s_store h)
    \<and> s_free h' = s_free h \<and> s_size h' = s_size h"
  using assms
proof (induction "B i" arbitrary: B h vs)
  case Nil
  then have "cb_n (b_links (s_store h)) lh = lh"
    using bk_rep_ring [of "s_store h" B i] by (simp add: cb_ring_Nil)
  moreover have "B(i := []) = B" using Nil(1) by auto
  ultimately show ?case using Nil by (subst shash_drain.simps) (simp add: bk_vals_def)
next
  case (Cons x xs)
  let ?st = "s_store h"
  have ring: "cb_ring (b_links ?st) lh (x # xs)" using bk_rep_ring [OF Cons(3,4)] Cons(2,5) by simp
  then have x: "cb_n (b_links ?st) lh = x" "x \<noteq> lh" by (auto simp: cb_ring_def)
  have bx: "B i = [] @ x # xs" using Cons(2) by simp
  obtain st where st: "bk_unlink x ?st = Some st" "bk_rep st (B(i := [] @ xs))" "b_data st = b_data ?st"
      "b_base st = b_base ?st" "b_n st = b_n ?st"
    by (rule bk_rep_unlink [OF Cons(3,4) bx])
  let ?h = "h\<lparr>s_store := st, s_bsize := (s_bsize h)(i := s_bsize h i - 1)\<rparr>"
  have hd: "lh = bk_hdr st i" using st(4) Cons(5) by (simp add: bk_hdr_def)
  have "cb_ring (b_links st) lh xs" using bk_rep_ring [OF st(2), of i] Cons(4) st(5) hd by simp
  then have n: "cb_n (b_links ?st) x = cb_n (b_links st) lh"
    using ring cb_seg_first [of "b_links ?st" x xs lh] cb_seg_first [of "b_links st" lh xs lh]
    by (simp add: cb_ring_def)
  let ?vs = "if s_free h then vs @ [b_data ?st x] else vs"
  have "shash_drain i x vs h = shash_drain i (cb_n (b_links st) lh) ?vs ?h"
    using x st(1) Cons(5) n by (subst shash_drain.simps) simp
  moreover have "bk_vals ?st B i = b_data ?st x # bk_vals st (B(i := [] @ xs)) i"
    using bx st(3) by (simp add: bk_vals_def)
  ultimately show ?case
    using Cons(1) [of "B(i := [] @ xs)" ?h ?vs] st hd Cons(4) x(1)
    by (cases "s_free h") simp_all
qed

lemma shash_drain_all_rep:
  assumes "bk_rep (s_store h) B" "\<forall>i\<in>set is. i < unat (b_n (s_store h))" "distinct is"
  shows "\<exists>h'. shash_drain_all is vs n h =
      Some (if s_free h then vs @ concat (map (bk_vals (s_store h) B) is) else vs,
            if s_size h \<noteq> 0 then n + length is else n, h')
    \<and> op_inv (b_pool (s_store h'))"
  using assms
proof (induction "is" arbitrary: B h vs n)
  case Nil
  then show ?case using bk_rep_pool by simp
next
  case (Cons i "is")
  obtain h1 where d: "shash_drain i (cb_n (b_links (s_store h)) (bk_hdr (s_store h) i)) vs h =
      Some (if s_free h then vs @ bk_vals (s_store h) B i else vs, h1)"
    and h1: "bk_rep (s_store h1) (B(i := []))" "b_data (s_store h1) = b_data (s_store h)"
      "b_n (s_store h1) = b_n (s_store h)" "s_free h1 = s_free h" "s_size h1 = s_size h"
    using shash_drain_rep [OF Cons(2) _ refl, of i vs] Cons(3) by auto
  have "map (bk_vals (s_store h1) (B(i := []))) is = map (bk_vals (s_store h) B) is"
    using Cons(4) h1(2) by (auto simp: bk_vals_def)
  then show ?case
    using Cons.IH [OF h1(1), of "if s_free h then vs @ bk_vals (s_store h) B i else vs"
        "if s_size h \<noteq> 0 then n + 1 else n"] Cons(3,4) h1 d
    by (auto cong: map_cong)
qed

lemma shash_free_spec:
  assumes "shash_rep cmp h f" "b_base (s_store h) \<noteq> NULL"
  shows "\<exists>h'. shash_free h =
    Some (if s_free h then concat (map f [0..<unat (shash_nb h)]) else [],
          if s_size h \<noteq> 0 then unat (shash_nb h) else 0, h')"
proof -
  obtain B where B: "bk_rep (s_store h) B" "f = bk_vals (s_store h) B" "s_addr h \<noteq> NULL"
    using assms(1) by (auto simp: shash_rep_def)
  obtain h1 where d: "shash_drain_all [0..<unat (b_n (s_store h))] [] 0 h =
      Some (if s_free h then concat (map f [0..<unat (b_n (s_store h))]) else [],
            if s_size h \<noteq> 0 then unat (b_n (s_store h)) else 0, h1)" "op_inv (b_pool (s_store h1))"
    using shash_drain_all_rep [OF B(1), of "[0..<unat (b_n (s_store h))]" "[]" 0] B(2) by auto
  obtain p where "objpool_free (b_pool (s_store h1)) = Some p" using objpool_free_inv [OF d(2)] by blast
  with d(1) B(3) assms(2) show ?thesis by (simp add: shash_free_def shash_nb_def)
qed

lemma shash_alloc_spec:
  assumes "1 \<le> n" and nz: "mh \<noteq> NULL" "mb \<noteq> NULL" "mo \<noteq> NULL" "mc \<noteq> NULL" "mp \<noteq> NULL"
    and sep: "mb + 24 * unat n \<le> mp \<or> mp + 1024 * 64 \<le> mb"
  shows "\<exists>h. shash_alloc n cmp ff mh mb now mo mc mp links data sizes = Some h
    \<and> shash_rep cmp h (\<lambda>_. []) \<and> shash_nb h = n \<and> s_size h = 0 \<and> s_free h = ff \<and> b_base (s_store h) = mb
    \<and> unat (op_nfreed (b_pool (s_store h))) = 1024"
proof -
  obtain op where op: "objpool_alloc 24 1024 False now mo mc mp = Some op" "op_inv op" "op_used op = {}"
      "op_owned op = (\<lambda>i. mp + i * 64 + 40) ` {..<1024}" "unat (op_nfreed op) = 1024"
    by (rule objpool_alloc_new [of 24 1024 mo mc mp False now]) (use nz in \<open>auto simp: align_num_def op_hdr_def\<close>)
  let ?st = "\<lparr>b_pool = op, b_links = links, b_data = data, b_base = mb, b_n = n\<rparr>"
  have n: "\<not> n < 1" "0 < unat n" using assms(1) leD by (auto simp: word_le_nat_alt)
  have "op_owned op \<inter> bk_hdrs ?st = {}"
    using sep by (auto simp: op(4) bk_hdrs_def bk_hdr_def)
  then have "bk_rep (bk_init [0..<unat n] ?st) (\<lambda>_. [])"
    using bk_rep_init [of ?st] n op by simp
  moreover have "bk_vals st (\<lambda>_. []) = (\<lambda>_. [])" for st by (simp add: bk_vals_def fun_eq_iff)
  ultimately show ?thesis using nz op(1,5) n(1) by (simp add: shash_alloc_def shash_rep_def shash_nb_def) metis
qed

subsection \<open>Properties\<close>

definition shash_sample :: shash_t where
  "shash_sample = the (shash_alloc 4 (\<lambda>a b. int a - int b) True 1 100000 7 1000 2000 3000
      \<lparr>cb_p = (\<lambda>_. NULL), cb_n = (\<lambda>_. NULL)\<rparr> (\<lambda>_. NULL) (\<lambda>_. 0))"

lemma shash_sample_rep:
  "shash_rep (\<lambda>a b. int a - int b) shash_sample (\<lambda>_. [])" "shash_fresh m shash_sample"
  "op_nfreed (b_pool (s_store shash_sample)) \<noteq> 0" "b_base (s_store shash_sample) \<noteq> NULL" "s_size shash_sample = 0"
proof -
  obtain h where h: "shash_sample = h" "shash_rep (\<lambda>a b. int a - int b) h (\<lambda>_. [])"
      "unat (op_nfreed (b_pool (s_store h))) = 1024" "b_base (s_store h) = 100000" "s_size h = 0"
    using shash_alloc_spec [of 4 1 100000 1000 2000 3000 "\<lambda>a b. int a - int b" True 7
        "\<lparr>cb_p = (\<lambda>_. NULL), cb_n = (\<lambda>_. NULL)\<rparr>" "\<lambda>_. NULL" "\<lambda>_. 0"]
    by (auto simp: shash_sample_def)
  then show "shash_rep (\<lambda>a b. int a - int b) shash_sample (\<lambda>_. [])"
    "b_base (s_store shash_sample) \<noteq> NULL" "s_size shash_sample = 0" by simp_all
  have n: "op_nfreed (b_pool (s_store h)) \<noteq> 0" using h(3) by auto
  from n show "op_nfreed (b_pool (s_store shash_sample)) \<noteq> 0" by (simp add: h)
  from n show "shash_fresh m shash_sample" by (simp add: h shash_fresh_def bk_fresh_def op_fresh_def op_growth_def)
qed

text \<open>
  C13: \<^verbatim>\<open>shash_add\<close> with the duplicate check, \<^verbatim>\<open>shash_find\<close> and \<^verbatim>\<open>shash_del\<close> implement a table of
  buckets: adding appends the value to its bucket or leaves the contents alone, and a checked
  add succeeds only when the bucket holds neither the value nor an equal one.
\<close>

theorem shash_add_correct:
  assumes "shash_rep cmp h f" "shash_fresh m h" "v \<noteq> NULL"
  shows "\<exists>r h'. shash_add m v k check h = Some (r, h') \<and>
    (let i = unat (k mod shash_nb h) in
      r = 0 \<and> (check \<longrightarrow> (\<forall>w\<in>set (f i). w \<noteq> v \<and> cmp w v \<noteq> 0)) \<and> shash_rep cmp h' (f(i := f i @ [v]))
      \<or> r = -1 \<and> shash_rep cmp h' f)"
  using shash_add_spec [OF assms refl, of k check] unfolding Let_def by blast

theorem shash_add_correct_witness: "\<exists>r h'. shash_add (NULL, NULL) 77 5 True shash_sample = Some (r, h')"
  using shash_add_correct [OF shash_sample_rep(1) shash_sample_rep(2), of 77 _ 5 True] by fastforce

text \<open>
  A value added to a bucket without an equal one is found under its hash value, and deleting
  it restores the contents; but the table's \<open>size\<close> does not come back: \<^verbatim>\<open>shash_del\<close> never
  decrements it.
\<close>

theorem shash_del_restores_but_size:
  assumes "shash_rep cmp h f" "shash_fresh m h" "v \<noteq> NULL" "cmp v v = 0"
    and "\<forall>w\<in>set (f (unat (k mod shash_nb h))). cmp w v \<noteq> 0" "shash_add m v k False h = Some (0, h')"
  shows "shash_find v k h' = Some v \<and>
    (\<exists>h2. shash_del v k h' = Some (v, h2) \<and> shash_rep cmp h2 f \<and> s_size h2 = s_size h + 1)"
proof -
  have "\<exists>h2. map_option (\<lambda>r. (r, h')) (shash_find v k h') = Some (v, h2)"
    and del: "\<exists>h2. shash_del v k h' = Some (v, h2) \<and> shash_rep cmp h2 f"
    using sh.ins_then [OF assms] by blast+
  moreover have rep: "\<exists>f'. shash_rep cmp h' f'" "s_size h' = s_size h + 1"
    using shash_add_spec [OF assms(1-3) refl, of k False] assms(6) by auto
  moreover have "s_size h2 = s_size h'" if "shash_del v k h' = Some (v, h2)" for h2
    using shash_del_spec [OF _ assms(3) refl, of cmp h' _ k] rep(1) that by auto
  ultimately show ?thesis by auto
qed

theorem shash_del_restores_but_size_witness:
  "\<exists>h' h2. shash_add (NULL, NULL) 77 5 False shash_sample = Some (0, h') \<and> shash_find 77 5 h' = Some 77 \<and>
     shash_del 77 5 h' = Some (77, h2) \<and> s_size h2 = 1"
proof -
  obtain h' where h': "shash_add (NULL, NULL) 77 5 False shash_sample = Some (0, h')"
    using shash_add_succeeds [OF shash_sample_rep(1) _ shash_sample_rep(3), of 77 "(NULL, NULL)" 5] by auto
  then show ?thesis
    using shash_del_restores_but_size [OF shash_sample_rep(1) shash_sample_rep(2) _ _ _ h'] shash_sample_rep(5) by auto
qed

text \<open>
  \<^verbatim>\<open>shash_free\<close> unlinks every item, gives every value to the free function exactly once in
  bucket order and returns all memory; it reports an invalid size once per bucket exactly when
  the table's \<open>size\<close> is not 0, since it does not count \<open>size\<close> down itself.
\<close>

theorem shash_free_correct:
  assumes "shash_rep cmp h f" "b_base (s_store h) \<noteq> NULL"
  shows "\<exists>h'. shash_free h =
    Some (if s_free h then concat (map f [0..<unat (shash_nb h)]) else [],
          if s_size h \<noteq> 0 then unat (shash_nb h) else 0, h')"
  using assms by (rule shash_free_spec)

theorem shash_free_correct_witness: "\<exists>h' vs. shash_free shash_sample = Some (vs, 0, h')"
  using shash_free_correct [OF shash_sample_rep(1,4)] shash_sample_rep(5) by auto

end
