(* ===== verification/C_Mem.thy ===== *)
theory C_Mem
  imports Fz_Prelude
begin

text \<open>
  Bytes in memory for the string and buffer code: a partial map from addresses to bytes, so that
  reading or writing outside of what is mapped is a fault; the library calls the sources make on
  memory; and the pointer loops that look for a byte, with the index each of them finds.
\<close>

subsection \<open>Memory\<close>

type_synonym mem = "addr \<Rightarrow> u8 option"

text \<open>\<open>char\<close> is signed on the targets of the code, so a character read as \<open>int\<close> is sign extended.\<close>

definition schar :: "u8 \<Rightarrow> int" where
  "schar b = sint b"

definition mem_at :: "mem \<Rightarrow> addr \<Rightarrow> u8 list \<Rightarrow> bool" where
  "mem_at m p xs \<longleftrightarrow> (\<forall>i<length xs. m (p + i) = Some (xs ! i))"

definition mem_read :: "mem \<Rightarrow> addr \<Rightarrow> nat \<Rightarrow> u8 list option" where
  "mem_read m p n = those (map (\<lambda>i. m (p + i)) [0..<n])"

definition mem_put :: "mem \<Rightarrow> addr \<Rightarrow> u8 list \<Rightarrow> mem" where
  "mem_put m p xs = (\<lambda>a. if p \<le> a \<and> a < p + length xs then Some (xs ! (a - p)) else m a)"

definition mem_write :: "mem \<Rightarrow> addr \<Rightarrow> u8 list \<Rightarrow> mem option" where
  "mem_write m p xs =
     (if list_all (\<lambda>i. m (p + i) \<noteq> None) [0..<length xs] then Some (mem_put m p xs) else None)"

text \<open>\<^verbatim>\<open>memcpy\<close>, \<^verbatim>\<open>memcmp\<close>, \<^verbatim>\<open>strncmp\<close> and \<^verbatim>\<open>strncasecmp\<close>.  The sign of a difference is that of the
  first differing bytes read as unsigned characters.\<close>

definition memcpy :: "mem \<Rightarrow> addr \<Rightarrow> addr \<Rightarrow> nat \<Rightarrow> mem option" where
  "memcpy m dst src n = do { xs \<leftarrow> mem_read m src n; mem_write m dst xs }"

fun memcmp :: "mem \<Rightarrow> addr \<Rightarrow> addr \<Rightarrow> nat \<Rightarrow> int option" where
  "memcmp m p q 0 = Some 0"
| "memcmp m p q (Suc n) =
     do {
       a \<leftarrow> m p; b \<leftarrow> m q;
       if a \<noteq> b then Some (uint a - uint b) else memcmp m (p + 1) (q + 1) n }"

definition tolower :: "u8 \<Rightarrow> u8" where
  "tolower b = (if 65 \<le> b \<and> b \<le> 90 then b + 32 else b)"

fun strn_cmp :: "(u8 \<Rightarrow> u8) \<Rightarrow> mem \<Rightarrow> addr \<Rightarrow> addr \<Rightarrow> nat \<Rightarrow> int option" where
  "strn_cmp f m p q 0 = Some 0"
| "strn_cmp f m p q (Suc n) =
     do {
       a \<leftarrow> m p; b \<leftarrow> m q;
       if f a \<noteq> f b then Some (uint (f a) - uint (f b))
       else if a = 0 then Some 0
       else strn_cmp f m (p + 1) (q + 1) n }"

abbreviation strncmp :: "mem \<Rightarrow> addr \<Rightarrow> addr \<Rightarrow> nat \<Rightarrow> int option" where
  "strncmp \<equiv> strn_cmp id"

abbreviation strncasecmp :: "mem \<Rightarrow> addr \<Rightarrow> addr \<Rightarrow> nat \<Rightarrow> int option" where
  "strncasecmp \<equiv> strn_cmp tolower"

subsection \<open>Facts\<close>

lemma mem_at_Nil [simp]: "mem_at m p []"
  by (simp add: mem_at_def)

lemma mem_at_Cons [simp]: "mem_at m p (x # xs) \<longleftrightarrow> m p = Some x \<and> mem_at m (p + 1) xs"
proof -
  have "(\<forall>i<Suc (length xs). m (p + i) = Some ((x # xs) ! i)) \<longleftrightarrow>
      m p = Some x \<and> (\<forall>i<length xs. m (p + Suc i) = Some (xs ! i))"
    by (simp only: All_less_Suc2) simp
  then show ?thesis by (simp add: mem_at_def)
qed

lemma mem_at_append [simp]: "mem_at m p (xs @ ys) \<longleftrightarrow> mem_at m p xs \<and> mem_at m (p + length xs) ys"
  by (induction xs arbitrary: p) (auto simp: add.assoc add.commute)

lemma mem_at_nth: "mem_at m p xs \<Longrightarrow> i < length xs \<Longrightarrow> m (p + i) = Some (xs ! i)"
  by (simp add: mem_at_def)

lemma mem_at_take: "mem_at m p xs \<Longrightarrow> mem_at m p (take n xs)"
  by (simp add: mem_at_def)

lemma mem_at_drop: "mem_at m p xs \<Longrightarrow> n \<le> length xs \<Longrightarrow> mem_at m (p + n) (drop n xs)"
  by (simp add: mem_at_def add.assoc)

lemma mem_read_at: "mem_at m p xs \<Longrightarrow> mem_read m p (length xs) = Some xs"
proof -
  assume "mem_at m p xs"
  then have "map (\<lambda>i. m (p + i)) [0..<length xs] = map Some xs"
    by (intro nth_equalityI) (auto simp: mem_at_def)
  moreover have "those (map Some xs) = Some xs" by (induction xs) auto
  ultimately show ?thesis by (simp add: mem_read_def)
qed

lemma mem_write_ok: "(\<forall>i<length xs. m (p + i) \<noteq> None) \<Longrightarrow> mem_write m p xs = Some (mem_put m p xs)"
  by (simp add: mem_write_def list_all_iff)

lemma mem_put_at [simp]: "mem_at (mem_put m p xs) p xs"
  by (simp add: mem_at_def mem_put_def)

lemma mem_put_other: "a < p \<or> p + length xs \<le> a \<Longrightarrow> mem_put m p xs a = m a"
  by (auto simp: mem_put_def)

lemma mem_at_put_other:
  "q + length ys \<le> p \<or> p + length xs \<le> q \<Longrightarrow> mem_at (mem_put m p xs) q ys = mem_at m q ys"
  unfolding mem_at_def by (intro all_cong1 imp_cong refl) (subst mem_put_other, auto)

lemma mem_put_dom: "m a \<noteq> None \<Longrightarrow> mem_put m p xs a \<noteq> None"
  by (simp add: mem_put_def)

lemma memcmp_at:
  assumes "mem_at m p xs" "mem_at m q ys" "length xs = length ys"
  shows "\<exists>r. memcmp m p q (length xs) = Some r \<and> (r = 0 \<longleftrightarrow> xs = ys)"
  using assms(3,1,2)
  by (induction xs ys arbitrary: p q rule: list_induct2) (auto simp flip: word_uint_eq_iff)

lemma strn_cmp_at:
  assumes "mem_at m p xs" "mem_at m q ys" "length xs = length ys" "0 \<notin> set xs"
  shows "\<exists>r. strn_cmp f m p q (length xs) = Some r \<and> (r = 0 \<longleftrightarrow> map f xs = map f ys)"
  using assms(3,1,2,4)
  by (induction xs ys arbitrary: p q rule: list_induct2) (auto simp flip: word_uint_eq_iff)

subsection \<open>Looking for a byte\<close>

text \<open>\<^verbatim>\<open>while (p < end) { if (P(*p)) return p; p++; } return NULL;\<close>\<close>

function scan_up :: "mem \<Rightarrow> (u8 \<Rightarrow> bool) \<Rightarrow> addr \<Rightarrow> addr \<Rightarrow> addr option" where
  "scan_up m P p lim =
     (if p < lim then do { b \<leftarrow> m p; if P b then Some p else scan_up m P (p + 1) lim }
      else Some NULL)"
  by pat_completeness auto
termination by (relation "measure (\<lambda>(m, P, p, lim). lim - p)") auto

text \<open>\<^verbatim>\<open>do { if (P(*p)) return p; p++; } while (p < end); return NULL;\<close>\<close>

function scan_up_do :: "mem \<Rightarrow> (u8 \<Rightarrow> bool) \<Rightarrow> addr \<Rightarrow> addr \<Rightarrow> addr option" where
  "scan_up_do m P p lim =
     do {
       b \<leftarrow> m p;
       if P b then Some p
       else if p + 1 < lim then scan_up_do m P (p + 1) lim
       else Some NULL }"
  by pat_completeness auto
termination by (relation "measure (\<lambda>(m, P, p, lim). lim - p)") auto

text \<open>
  \<^verbatim>\<open>do { if (P(*p)) return p; p--; } while (p >= begin); return NULL;\<close>, which is also the
  \<open>while\<close> loop when it starts at or above \<open>begin\<close>.
\<close>

fun scan_down :: "mem \<Rightarrow> (u8 \<Rightarrow> bool) \<Rightarrow> addr \<Rightarrow> addr \<Rightarrow> addr option" where
  "scan_down m P p lo =
     do {
       b \<leftarrow> m p;
       if P b then Some p
       else if lo < p then scan_down m P (p - 1) lo
       else Some NULL }"

declare scan_up.simps [simp del] scan_up_do.simps [simp del] scan_down.simps [simp del]

text \<open>The index of the first and of the last element with a property.\<close>

primrec first_ix :: "('a \<Rightarrow> bool) \<Rightarrow> 'a list \<Rightarrow> nat option" where
  "first_ix P [] = None"
| "first_ix P (x # xs) = (if P x then Some 0 else map_option Suc (first_ix P xs))"

definition last_ix :: "('a \<Rightarrow> bool) \<Rightarrow> 'a list \<Rightarrow> nat option" where
  "last_ix P xs = map_option (\<lambda>i. length xs - 1 - i) (first_ix P (rev xs))"

definition ix_ptr :: "addr \<Rightarrow> nat option \<Rightarrow> addr" where
  "ix_ptr p r = (case r of None \<Rightarrow> NULL | Some i \<Rightarrow> p + i)"

lemma ix_ptr_simps [simp]: "ix_ptr p None = NULL" "ix_ptr p (Some i) = p + i"
  "ix_ptr p (map_option Suc r) = ix_ptr (Suc p) r"
  by (auto simp: ix_ptr_def split: option.split)

lemma first_ix_Some:
  "first_ix P xs = Some i \<longleftrightarrow> i < length xs \<and> P (xs ! i) \<and> (\<forall>j<i. \<not> P (xs ! j))"
proof (induction xs arbitrary: i)
  case (Cons x xs)
  then show ?case by (cases i) (auto simp: All_less_Suc2)
qed simp

lemma first_ix_None: "first_ix P xs = None \<longleftrightarrow> (\<forall>x\<in>set xs. \<not> P x)"
  by (induction xs) auto

lemma last_ix_None: "last_ix P xs = None \<longleftrightarrow> (\<forall>x\<in>set xs. \<not> P x)"
  by (simp add: last_ix_def first_ix_None)

lemma last_ix_snoc [simp]: "last_ix P (xs @ [x]) = (if P x then Some (length xs) else last_ix P xs)"
proof (cases "first_ix P (rev xs)")
  case (Some i)
  then have "i < length xs" by (simp add: first_ix_Some)
  with Some show ?thesis by (simp add: last_ix_def)
qed (simp add: last_ix_def)

lemma last_ix_Nil [simp]: "last_ix P [] = None"
  by (simp add: last_ix_def)

lemma last_ix_Some:
  "last_ix P xs = Some i \<longleftrightarrow> i < length xs \<and> P (xs ! i) \<and> (\<forall>j<length xs. i < j \<longrightarrow> \<not> P (xs ! j))"
proof (induction xs rule: rev_induct)
  case (snoc x xs)
  then show ?case
    by (auto simp: nth_append less_Suc_eq)
qed simp

lemma scan_up_at: "mem_at m p xs \<Longrightarrow> scan_up m P p (p + length xs) = Some (ix_ptr p (first_ix P xs))"
proof (induction xs arbitrary: p)
  case Nil
  then show ?case by (simp add: scan_up.simps)
next
  case (Cons x xs)
  from Cons.IH [of "p + 1"] Cons.prems show ?case by (subst scan_up.simps) simp
qed

lemma scan_up_do_at:
  "mem_at m p xs \<Longrightarrow> xs \<noteq> [] \<Longrightarrow> scan_up_do m P p (p + length xs) = Some (ix_ptr p (first_ix P xs))"
proof (induction xs arbitrary: p)
  case (Cons x xs)
  from Cons.IH [of "p + 1"] Cons.prems show ?case by (cases xs) (auto simp: scan_up_do.simps [of m P p])
qed simp

lemma scan_down_at:
  "mem_at m p xs \<Longrightarrow> xs \<noteq> [] \<Longrightarrow> scan_down m P (p + length xs - 1) p = Some (ix_ptr p (last_ix P xs))"
proof (induction xs rule: rev_induct)
  case (snoc x xs)
  show ?case
  proof (cases "xs = []")
    case True
    then show ?thesis using snoc(2) last_ix_snoc [of P "[]" x] by (subst scan_down.simps) auto
  next
    case False
    then have "p < p + length (xs @ [x]) - 1" "m (p + length (xs @ [x]) - 1) = Some x"
      using snoc(2) by auto
    then show ?thesis using snoc False by (subst scan_down.simps) simp
  qed
qed simp

end
