(* ===== verification/Str_util.thy ===== *)
theory Str_util
  imports C_Mem "HOL-Library.Multiset"
begin

text \<open>
  The bounded string functions of \<^verbatim>\<open>code/basic/stdext/str_util.c\<close>.  A string is a pointer and the
  size of its buffer; \<open>str_in m p n s\<close> says that the buffer of \<open>n\<close> bytes at \<open>p\<close> holds the string
  \<open>s\<close>.  The callbacks are functions of the values they are given.  A returned pointer is an
  address, NULL is 0; \<open>None\<close> is an access outside of mapped memory.
\<close>

subsection \<open>The functions\<close>

text \<open>\<^verbatim>\<open>while (*p && p < lim) p++;\<close> reads the byte before it looks at the bound.\<close>

function STR_GET_TAIL :: "mem \<Rightarrow> addr \<Rightarrow> addr \<Rightarrow> addr option" where
  "STR_GET_TAIL m lim p =
     do { b \<leftarrow> m p; if b \<noteq> 0 \<and> p < lim then STR_GET_TAIL m lim (p + 1) else Some p }"
  by pat_completeness auto
termination by (relation "measure (\<lambda>(m, lim, p). lim - p)") auto

declare STR_GET_TAIL.simps [simp del]

text \<open>\<open>cells i\<close> is the i-th pointer of the array, \<open>live\<close> the allocated blocks; a block freed twice is a fault.\<close>

partial_function (option) str_array_from :: "(nat \<Rightarrow> addr option) \<Rightarrow> nat \<Rightarrow> addr list \<Rightarrow> addr list option" where
  "str_array_from cells i live =
     do {
       a \<leftarrow> cells i;
       if a = NULL then Some live
       else if a \<in> set live then str_array_from cells (i + 1) (remove1 a live)
       else None }"

definition str_array_free :: "addr \<Rightarrow> (nat \<Rightarrow> addr option) \<Rightarrow> addr list \<Rightarrow> (int \<times> addr list) option" where
  "str_array_free array cells live =
     (if array = NULL then Some (-1, live)
      else do {
        live \<leftarrow> str_array_from cells 0 live;
        if array \<in> set live then Some (0, remove1 array live) else None })"

definition str_len :: "mem \<Rightarrow> addr \<Rightarrow> nat \<Rightarrow> int option" where
  "str_len m str siz =
     (if str = NULL \<or> siz < 1 then Some (-1)
      else do { p \<leftarrow> STR_GET_TAIL m (str + siz) str; Some (int (p - str)) })"

definition str_copy :: "mem \<Rightarrow> addr \<Rightarrow> nat \<Rightarrow> addr \<Rightarrow> nat \<Rightarrow> (int \<times> mem) option" where
  "str_copy m src ssiz dst dsiz =
     (if dst = NULL \<or> src = NULL \<or> dsiz < 1 \<or> ssiz < 1 then Some (-1, m)
      else do {
        p \<leftarrow> STR_GET_TAIL m (src + ssiz) src;
        let ssiz = p - src;
        if dsiz \<le> ssiz then Some (-1, m)
        else do {
          m \<leftarrow> memcpy m dst src ssiz;
          m \<leftarrow> mem_write m (dst + ssiz) [0];
          Some (int ssiz, m) } })"

definition str_cat :: "mem \<Rightarrow> addr \<Rightarrow> nat \<Rightarrow> addr \<Rightarrow> nat \<Rightarrow> (int \<times> mem) option" where
  "str_cat m src ssiz dst dsiz =
     do {
       p \<leftarrow> STR_GET_TAIL m (dst + dsiz) dst;
       if p = dst + dsiz then Some (-1, m)
       else do {
         let n = (dst + dsiz) - (p + 1);
         p1 \<leftarrow> STR_GET_TAIL m (src + ssiz) src;
         let ssiz = p1 - src;
         if n < ssiz then Some (-1, m)
         else do {
           m \<leftarrow> memcpy m p src ssiz;
           m \<leftarrow> mem_write m (p + ssiz) [0];
           Some (int ssiz, m) } } }"

text \<open>The last line returns the difference of two \<open>size_t\<close> as an \<open>int\<close>.\<close>

definition str_cmp :: "mem \<Rightarrow> addr \<Rightarrow> nat \<Rightarrow> addr \<Rightarrow> nat \<Rightarrow> int option" where
  "str_cmp m str1 siz1 str2 siz2 =
     (if str1 = NULL \<or> str2 = NULL \<or> siz1 < 1 \<or> siz2 < 1 then Some (-1)
      else if str1 = str2 \<and> siz1 = siz2 then Some 0
      else do {
        p1 \<leftarrow> STR_GET_TAIL m (str1 + siz1) str1;
        let siz1 = p1 - str1;
        p2 \<leftarrow> STR_GET_TAIL m (str2 + siz2) str2;
        let siz2 = p2 - str2;
        ret \<leftarrow> memcmp m str1 str2 (if siz1 > siz2 then siz2 else siz1);
        Some (if ret = 0 then sint (word_of_int (int siz1 - int siz2) :: u32) else ret) })"

definition str_have_char :: "mem \<Rightarrow> addr \<Rightarrow> nat \<Rightarrow> int \<Rightarrow> int option" where
  "str_have_char m str siz c =
     (if str = NULL \<or> siz < 1 then Some (-1)
      else do {
        e \<leftarrow> STR_GET_TAIL m (str + siz) str;
        p \<leftarrow> scan_up_do m (\<lambda>b. schar b = c) str e;
        Some (if p \<noteq> NULL then 1 else 0) })"

definition str_chr :: "mem \<Rightarrow> addr \<Rightarrow> nat \<Rightarrow> int \<Rightarrow> addr option" where
  "str_chr m str siz c =
     (if str = NULL \<or> siz < 1 then Some NULL
      else do {
        e \<leftarrow> STR_GET_TAIL m (str + siz) str;
        scan_up_do m (\<lambda>b. schar b = c) str e })"

definition str_rchr :: "mem \<Rightarrow> addr \<Rightarrow> nat \<Rightarrow> int \<Rightarrow> addr option" where
  "str_rchr m str siz c =
     (if str = NULL \<or> siz < 1 then Some NULL
      else do {
        p \<leftarrow> STR_GET_TAIL m (str + siz) str;
        scan_down m (\<lambda>b. schar b = c) p str })"

text \<open>\<open>None\<close> for \<open>func\<close> is a NULL function pointer.\<close>

definition str_find1 :: "mem \<Rightarrow> addr \<Rightarrow> nat \<Rightarrow> (int \<Rightarrow> int) option \<Rightarrow> addr option" where
  "str_find1 m str siz func =
     (case func of None \<Rightarrow> Some NULL | Some f \<Rightarrow>
      if str = NULL \<or> siz < 1 then Some NULL
      else do {
        e \<leftarrow> STR_GET_TAIL m (str + siz) str;
        scan_up_do m (\<lambda>b. f (schar b) \<noteq> 0) str e })"

definition str_rfind1 :: "mem \<Rightarrow> addr \<Rightarrow> nat \<Rightarrow> (int \<Rightarrow> int) option \<Rightarrow> addr option" where
  "str_rfind1 m str siz func =
     (case func of None \<Rightarrow> Some NULL | Some f \<Rightarrow>
      if str = NULL \<or> siz < 1 then Some NULL
      else do {
        p \<leftarrow> STR_GET_TAIL m (str + siz) str;
        scan_down m (\<lambda>b. f (schar b) > 0) p str })"

definition str_find3 ::
  "mem \<Rightarrow> addr \<Rightarrow> nat \<Rightarrow> addr \<Rightarrow> nat \<Rightarrow> (addr \<Rightarrow> nat \<Rightarrow> int \<Rightarrow> int) option \<Rightarrow> addr option" where
  "str_find3 m str siz chrs nchr func =
     (case func of None \<Rightarrow> Some NULL | Some f \<Rightarrow>
      if str = NULL \<or> siz < 1 \<or> chrs = NULL \<or> nchr < 1 then Some NULL
      else do {
        e \<leftarrow> STR_GET_TAIL m (str + siz) str;
        scan_up_do m (\<lambda>b. f chrs nchr (schar b) > 0) str e })"

definition str_rfind3 ::
  "mem \<Rightarrow> addr \<Rightarrow> nat \<Rightarrow> addr \<Rightarrow> nat \<Rightarrow> (addr \<Rightarrow> nat \<Rightarrow> int \<Rightarrow> int) option \<Rightarrow> addr option" where
  "str_rfind3 m str siz chrs nchr func =
     (case func of None \<Rightarrow> Some NULL | Some f \<Rightarrow>
      if str = NULL \<or> siz < 1 \<or> chrs = NULL \<or> nchr < 1 then Some NULL
      else do {
        p \<leftarrow> STR_GET_TAIL m (str + siz) str;
        scan_down m (\<lambda>b. f chrs nchr (schar b) \<noteq> 0) p str })"

text \<open>The search loops of \<^verbatim>\<open>str_str\<close> and \<^verbatim>\<open>str_rstr\<close>; \<open>f\<close> is the case folding of the compare function.\<close>

function str_search :: "mem \<Rightarrow> (u8 \<Rightarrow> u8) \<Rightarrow> addr \<Rightarrow> addr \<Rightarrow> addr \<Rightarrow> nat \<Rightarrow> addr option" where
  "str_search m f p e pat n =
     do {
       r \<leftarrow> strn_cmp f m p pat n;
       if r = 0 then Some p
       else if p + 1 \<le> e then str_search m f (p + 1) e pat n
       else Some NULL }"
  by pat_completeness auto
termination by (relation "measure (\<lambda>(m, f, p, e, pat, n). e + 1 - p)") auto

fun str_rsearch :: "mem \<Rightarrow> (u8 \<Rightarrow> u8) \<Rightarrow> addr \<Rightarrow> addr \<Rightarrow> addr \<Rightarrow> nat \<Rightarrow> addr option" where
  "str_rsearch m f p str pat n =
     do {
       r \<leftarrow> strn_cmp f m p pat n;
       if r = 0 then Some p
       else if str < p then str_rsearch m f (p - 1) str pat n
       else Some NULL }"

declare str_search.simps [simp del] str_rsearch.simps [simp del]

definition str_str :: "mem \<Rightarrow> addr \<Rightarrow> nat \<Rightarrow> addr \<Rightarrow> nat \<Rightarrow> bool \<Rightarrow> addr option" where
  "str_str m str siz pat psiz case_sens =
     (if str = NULL \<or> pat = NULL \<or> siz < 1 \<or> psiz < 1 then Some NULL
      else do {
        let f = (if case_sens then id else tolower);
        p \<leftarrow> STR_GET_TAIL m (str + siz) str;
        let siz = p - str;
        p \<leftarrow> STR_GET_TAIL m (pat + psiz) pat;
        let psiz = p - pat;
        if psiz > siz then Some NULL
        else str_search m f str (str + siz - psiz) pat psiz })"

definition str_rstr :: "mem \<Rightarrow> addr \<Rightarrow> nat \<Rightarrow> addr \<Rightarrow> nat \<Rightarrow> bool \<Rightarrow> addr option" where
  "str_rstr m str siz pat psiz case_sens =
     (if str = NULL \<or> pat = NULL \<or> siz < 1 \<or> psiz < 1 then Some NULL
      else do {
        let f = (if case_sens then id else tolower);
        p \<leftarrow> STR_GET_TAIL m (str + siz) str;
        let siz = p - str;
        p \<leftarrow> STR_GET_TAIL m (pat + psiz) pat;
        let psiz = p - pat;
        if psiz > siz then Some NULL
        else str_rsearch m f (str + siz - psiz) str pat psiz })"

text \<open>
  \<^verbatim>\<open>str_token\<close>: the inner loop asks whether a byte is among the delimiters, the outer loop looks
  for the first such byte.  The result is the token, the value of \<open>*off\<close> and the memory.
\<close>

function tok_delim :: "mem \<Rightarrow> u8 \<Rightarrow> addr \<Rightarrow> addr \<Rightarrow> bool option" where
  "tok_delim m b p1 end1 =
     do {
       d \<leftarrow> m p1;
       if d \<noteq> 0 \<and> p1 < end1 then (if b = d then Some True else tok_delim m b (p1 + 1) end1)
       else Some False }"
  by pat_completeness auto
termination by (relation "measure (\<lambda>(m, b, p1, end1). end1 - p1)") auto

declare tok_delim.simps [simp del]

partial_function (option) tok_scan :: "mem \<Rightarrow> addr \<Rightarrow> addr \<Rightarrow> addr \<Rightarrow> addr option" where
  "tok_scan m delim end1 p =
     do {
       b \<leftarrow> m p;
       if b = 0 then Some NULL
       else do {
         hit \<leftarrow> tok_delim m b delim end1;
         if hit then Some p else tok_scan m delim end1 (p + 1) } }"

definition str_token ::
  "mem \<Rightarrow> addr \<Rightarrow> nat \<Rightarrow> addr \<Rightarrow> nat \<Rightarrow> addr \<Rightarrow> (addr \<times> addr \<times> mem) option" where
  "str_token m str siz delim dsiz off =
     (if delim = NULL \<or> siz < 1 \<or> dsiz < 1 then Some (NULL, off, m)
      else do {
        start \<leftarrow> (if str \<noteq> NULL then do {
                    p \<leftarrow> STR_GET_TAIL m (str + siz) str;
                    Some (if p = str + siz then None else Some (p, str)) }
                  else if off = NULL then Some None
                  else Some (Some (off, off)));
        case start of
          None \<Rightarrow> Some (NULL, off, m)
        | Some (p, ptr) \<Rightarrow>
          do {
            q \<leftarrow> tok_scan m delim (delim + dsiz) p;
            if q \<noteq> NULL then do { m \<leftarrow> mem_write m q [0]; Some (ptr, q + 1, m) }
            else Some (str, NULL, m) } })"

definition str_strip ::
  "mem \<Rightarrow> addr \<Rightarrow> nat \<Rightarrow> addr \<Rightarrow> nat \<Rightarrow> (int \<Rightarrow> int) option \<Rightarrow> (int \<times> mem) option" where
  "str_strip m src ssiz dst dsiz func =
     (if dst = NULL \<or> dsiz < 1 \<or> src = NULL \<or> ssiz < 1 \<or> func = None then Some (-1, m)
      else do {
        b \<leftarrow> str_find1 m src ssiz func;
        if b = NULL then Some (-1, m)
        else do {
          e \<leftarrow> str_rfind1 m src ssiz func;
          if e = NULL then Some (-1, m)
          else do {
            let ssiz = e - b + 1;
            if dsiz \<le> ssiz then Some (-1, m)
            else do {
              m \<leftarrow> memcpy m dst b ssiz;
              m \<leftarrow> mem_write m (dst + ssiz) [0];
              Some (0, m) } } } })"

definition mem_chr :: "mem \<Rightarrow> addr \<Rightarrow> nat \<Rightarrow> int \<Rightarrow> addr option" where
  "mem_chr m ptr siz c =
     (if ptr = NULL \<or> siz < 1 then Some NULL else scan_up m (\<lambda>b. schar b = c) ptr (ptr + siz))"

definition mem_rchr :: "mem \<Rightarrow> addr \<Rightarrow> nat \<Rightarrow> int \<Rightarrow> addr option" where
  "mem_rchr m ptr siz c =
     (if ptr = NULL \<or> siz < 1 then Some NULL else scan_down m (\<lambda>b. schar b = c) (ptr + siz - 1) ptr)"

definition mem_find1 :: "mem \<Rightarrow> addr \<Rightarrow> nat \<Rightarrow> (int \<Rightarrow> int) option \<Rightarrow> addr option" where
  "mem_find1 m ptr siz func =
     (case func of None \<Rightarrow> Some NULL | Some f \<Rightarrow>
      if ptr = NULL \<or> siz < 1 then Some NULL else scan_up m (\<lambda>b. f (schar b) > 0) ptr (ptr + siz))"

definition mem_rfind1 :: "mem \<Rightarrow> addr \<Rightarrow> nat \<Rightarrow> (int \<Rightarrow> int) option \<Rightarrow> addr option" where
  "mem_rfind1 m ptr siz func =
     (case func of None \<Rightarrow> Some NULL | Some f \<Rightarrow>
      if ptr = NULL \<or> siz < 1 then Some NULL
      else scan_down m (\<lambda>b. f (schar b) > 0) (ptr + (siz - 1)) ptr)"

definition mem_find3 ::
  "mem \<Rightarrow> addr \<Rightarrow> nat \<Rightarrow> addr \<Rightarrow> nat \<Rightarrow> (addr \<Rightarrow> nat \<Rightarrow> int \<Rightarrow> int) option \<Rightarrow> addr option" where
  "mem_find3 m ptr siz chrs nchr func =
     (case func of None \<Rightarrow> Some NULL | Some f \<Rightarrow>
      if ptr = NULL \<or> siz < 1 \<or> chrs = NULL \<or> nchr < 1 then Some NULL
      else scan_up m (\<lambda>b. f chrs nchr (schar b) > 0) ptr (ptr + siz))"

definition mem_rfind3 ::
  "mem \<Rightarrow> addr \<Rightarrow> nat \<Rightarrow> addr \<Rightarrow> nat \<Rightarrow> (addr \<Rightarrow> nat \<Rightarrow> int \<Rightarrow> int) option \<Rightarrow> addr option" where
  "mem_rfind3 m ptr siz chrs nchr func =
     (case func of None \<Rightarrow> Some NULL | Some f \<Rightarrow>
      if ptr = NULL \<or> siz < 1 \<or> chrs = NULL \<or> nchr < 1 then Some NULL
      else scan_down m (\<lambda>b. f chrs nchr (schar b) > 0) (ptr + (siz - 1)) ptr)"

subsection \<open>Strings in buffers\<close>

definition str_in :: "mem \<Rightarrow> addr \<Rightarrow> nat \<Rightarrow> u8 list \<Rightarrow> bool" where
  "str_in m p n s \<longleftrightarrow> 0 \<notin> set s \<and> length s \<le> n \<and> mem_at m p s
     \<and> (if length s < n then m (p + length s) = Some 0 else m (p + n) \<noteq> None)"

lemma STR_GET_TAIL_in: "str_in m p n s \<Longrightarrow> STR_GET_TAIL m (p + n) p = Some (p + length s)"
proof (induction s arbitrary: p n)
  case Nil
  then show ?case by (cases "n = 0") (auto simp: str_in_def STR_GET_TAIL.simps)
next
  case (Cons x s)
  then obtain k where k: "n = Suc k" by (cases n) (auto simp: str_in_def)
  then have "str_in m (Suc p) k s" using Cons.prems by (auto simp: str_in_def split: if_splits)
  from Cons.IH [OF this] show ?case
    using Cons.prems k by (subst STR_GET_TAIL.simps) (simp add: str_in_def)
qed

lemma STR_GET_TAIL_over:
  "mem_at m p xs \<Longrightarrow> 0 \<notin> set xs \<Longrightarrow> m (p + length xs) = None \<Longrightarrow> STR_GET_TAIL m (p + length xs) p = None"
proof (induction xs arbitrary: p)
  case Nil
  then show ?case by (simp add: STR_GET_TAIL.simps)
next
  case (Cons x xs)
  from Cons.IH [of "p + 1"] Cons.prems show ?case by (subst STR_GET_TAIL.simps) simp
qed

lemma str_in_mem_at: "str_in m p n s \<Longrightarrow> mem_at m p s"
  by (simp add: str_in_def)

lemma str_in_nonzero: "str_in m p n s \<Longrightarrow> 0 \<notin> set s"
  by (simp add: str_in_def)

lemma memcpy_at:
  assumes "mem_at m src s" and "\<forall>i<length s. m (dst + i) \<noteq> None"
  shows "memcpy m dst src (length s) = Some (mem_put m dst s)"
  using assms by (simp add: memcpy_def mem_read_at mem_write_ok)

text \<open>Copying a string and its terminator to a place in a mapped buffer.\<close>

lemma str_store:
  assumes "\<forall>i<Suc (length s). m (d + i) \<noteq> None"
  shows "mem_write (mem_put m d s) (d + length s) [0] = Some (mem_put m d (s @ [0]))"
proof -
  have "mem_put m d s (d + length s + i) \<noteq> None" if "i < 1" for i
    using assms that mem_put_dom by simp
  moreover have "mem_put (mem_put m d s) (d + length s) [0] = mem_put m d (s @ [0])"
    by (auto simp: mem_put_def fun_eq_iff nth_append less_Suc_eq)
  ultimately show ?thesis by (simp add: mem_write_ok)
qed

lemma str_in_put:
  assumes "0 \<notin> set s" and "length s < n"
  shows "str_in (mem_put m d (s @ [0])) d n s"
proof -
  have "mem_at (mem_put m d (s @ [0])) d (s @ [0])" by (rule mem_put_at)
  then show ?thesis using assms by (simp add: str_in_def)
qed

subsection \<open>Substrings\<close>

definition sub_at :: "(u8 \<Rightarrow> u8) \<Rightarrow> u8 list \<Rightarrow> u8 list \<Rightarrow> nat \<Rightarrow> bool" where
  "sub_at f s t i \<longleftrightarrow> i + length t \<le> length s \<and> map f (take (length t) (drop i s)) = map f t"

lemma strn_cmp_sub:
  assumes "mem_at m p s" "mem_at m q t" "0 \<notin> set s" "i + length t \<le> length s"
  shows "\<exists>r. strn_cmp f m (p + i) q (length t) = Some r \<and> (r = 0 \<longleftrightarrow> sub_at f s t i)"
proof -
  have "mem_at m (p + i) (take (length t) (drop i s))"
    using assms by (intro mem_at_take mem_at_drop) auto
  moreover have "0 \<notin> set (take (length t) (drop i s))"
    using assms(3) by (meson in_set_dropD in_set_takeD)
  moreover have "length (take (length t) (drop i s)) = length t" using assms(4) by simp
  ultimately show ?thesis
    using strn_cmp_at [of m "p + i" "take (length t) (drop i s)" q t f] assms(2,4)
    by (simp only: sub_at_def) simp
qed

lemma str_search_at:
  assumes "mem_at m p s" "mem_at m q t" "0 \<notin> set s" "i + length t \<le> length s"
  shows "str_search m f (p + i) (p + length s - length t) q (length t) =
    Some (if \<exists>j\<ge>i. sub_at f s t j then p + (LEAST j. i \<le> j \<and> sub_at f s t j) else NULL)"
  using assms(4)
proof (induction "length s - length t - i" arbitrary: i)
  case 0
  obtain r where r: "strn_cmp f m (p + i) q (length t) = Some r" "r = 0 \<longleftrightarrow> sub_at f s t i"
    using strn_cmp_sub [OF assms(1-3) 0(2)] by blast
  have "j = i" if "i \<le> j" "sub_at f s t j" for j using that 0 by (simp add: sub_at_def)
  then have "(\<exists>j\<ge>i. sub_at f s t j) = sub_at f s t i" "sub_at f s t i \<Longrightarrow> (LEAST j. i \<le> j \<and> sub_at f s t j) = i"
    by (auto intro!: Least_equality)
  then show ?case using r 0 by (subst str_search.simps) auto
next
  case (Suc n)
  obtain r where r: "strn_cmp f m (p + i) q (length t) = Some r" "r = 0 \<longleftrightarrow> sub_at f s t i"
    using strn_cmp_sub [OF assms(1-3) Suc(3)] by blast
  show ?case
  proof (cases "sub_at f s t i")
    case True
    then have "(LEAST j. i \<le> j \<and> sub_at f s t j) = i" by (auto intro!: Least_equality)
    then show ?thesis using True r by (subst str_search.simps) auto
  next
    case False
    have "(\<lambda>j. i \<le> j \<and> sub_at f s t j) = (\<lambda>j. Suc i \<le> j \<and> sub_at f s t j)"
      using False by (metis le_antisym not_less_eq_eq Suc_leD)
    then have eq: "(\<exists>j\<ge>i. sub_at f s t j) = (\<exists>j\<ge>Suc i. sub_at f s t j)"
        "(LEAST j. i \<le> j \<and> sub_at f s t j) = (LEAST j. Suc i \<le> j \<and> sub_at f s t j)"
      by metis+
    have "str_search m f (p + Suc i) (p + length s - length t) q (length t) =
        Some (if \<exists>j\<ge>Suc i. sub_at f s t j then p + (LEAST j. Suc i \<le> j \<and> sub_at f s t j) else NULL)"
      using Suc by (intro Suc(1)) auto
    moreover have "p + i + 1 \<le> p + length s - length t" using Suc(2) by simp
    ultimately show ?thesis using False r by (subst str_search.simps) (auto simp: eq)
  qed
qed

lemma str_rsearch_at:
  assumes "mem_at m p s" "mem_at m q t" "0 \<notin> set s" "i + length t \<le> length s"
  shows "str_rsearch m f (p + i) p q (length t) =
    Some (if \<exists>j\<le>i. sub_at f s t j then p + (GREATEST j. j \<le> i \<and> sub_at f s t j) else NULL)"
  using assms(4)
proof (induction i)
  case 0
  obtain r where r: "strn_cmp f m (p + 0) q (length t) = Some r" "r = 0 \<longleftrightarrow> sub_at f s t 0"
    using strn_cmp_sub [OF assms(1-3) 0] by blast
  have "sub_at f s t 0 \<Longrightarrow> (GREATEST j. j \<le> 0 \<and> sub_at f s t j) = 0" by (auto intro!: Greatest_equality)
  then show ?case using r by (subst str_rsearch.simps) auto
next
  case (Suc i)
  obtain r where r: "strn_cmp f m (p + Suc i) q (length t) = Some r" "r = 0 \<longleftrightarrow> sub_at f s t (Suc i)"
    using strn_cmp_sub [OF assms(1-3) Suc(2)] by blast
  show ?case
  proof (cases "sub_at f s t (Suc i)")
    case True
    then have "(GREATEST j. j \<le> Suc i \<and> sub_at f s t j) = Suc i" by (auto intro!: Greatest_equality)
    then show ?thesis using True r by (subst str_rsearch.simps) auto
  next
    case False
    have "(\<lambda>j. j \<le> Suc i \<and> sub_at f s t j) = (\<lambda>j. j \<le> i \<and> sub_at f s t j)"
      using False by (metis le_SucE le_SucI)
    then have "(\<exists>j\<le>Suc i. sub_at f s t j) = (\<exists>j\<le>i. sub_at f s t j)"
        "(GREATEST j. j \<le> Suc i \<and> sub_at f s t j) = (GREATEST j. j \<le> i \<and> sub_at f s t j)"
      by metis+
    then show ?thesis using False r Suc by (subst str_rsearch.simps) auto
  qed
qed

subsection \<open>Properties\<close>

text \<open>A little memory for the witnesses: the bytes of two strings and a scratch buffer.\<close>

definition mem_sample :: mem where
  "mem_sample = mem_put (mem_put (mem_put Map.empty 100 [104, 105, 108, 105, 0]) 200 [105, 0])
     300 [88, 0, 0, 0, 0, 0, 0, 0, 0, 0]"

lemma mem_sample_in:
  "str_in mem_sample 100 5 [104, 105, 108, 105]" "str_in mem_sample 200 2 [105]" "str_in mem_sample 300 10 [88]"
  "\<forall>i<10. mem_sample (300 + i) \<noteq> None"
  by (auto simp: mem_sample_def str_in_def mem_put_def)

text \<open>
  \<^verbatim>\<open>str_copy\<close> into a mapped, disjoint buffer with room for the terminator returns the length
  of the source string and leaves exactly that string in the destination; nothing else changes.
\<close>

theorem str_copy_correct:
  assumes src: "str_in m src ssiz s" "src \<noteq> NULL" "1 \<le> ssiz" and dst: "dst \<noteq> NULL" "length s < dsiz"
    and room: "\<forall>i<dsiz. m (dst + i) \<noteq> None"
  shows "\<exists>m'. str_copy m src ssiz dst dsiz = Some (int (length s), m') \<and> str_in m' dst dsiz s
    \<and> (\<forall>a. a < dst \<or> dst + dsiz \<le> a \<longrightarrow> m' a = m a)"
proof -
  have "memcpy m dst src (length s) = Some (mem_put m dst s)"
    using memcpy_at [OF str_in_mem_at [OF src(1)]] dst room by simp
  moreover have "mem_write (mem_put m dst s) (dst + length s) [0] = Some (mem_put m dst (s @ [0]))"
    using str_store dst room by simp
  ultimately have "str_copy m src ssiz dst dsiz = Some (int (length s), mem_put m dst (s @ [0]))"
    using assms STR_GET_TAIL_in [OF src(1)] by (simp add: str_copy_def)
  then show ?thesis
    using str_in_put [OF str_in_nonzero [OF src(1)] dst(2)] dst(2) mem_put_other [of _ dst "s @ [0]" m] by fastforce
qed

theorem str_copy_correct_witness:
  "\<exists>m'. str_copy mem_sample 100 5 300 10 = Some (4, m') \<and> str_in m' 300 10 [104, 105, 108, 105]"
  using str_copy_correct [OF mem_sample_in(1), of 300 10] mem_sample_in(4) by auto

text \<open>
  \<^verbatim>\<open>str_cat\<close> with enough spare space appends the source string to the string in the destination
  and terminates it.
\<close>

theorem str_cat_correct:
  assumes src: "str_in m src ssiz s" and dst: "str_in m dst dsiz t" "length t + length s < dsiz"
    and room: "\<forall>i<dsiz. m (dst + i) \<noteq> None"
  shows "\<exists>m'. str_cat m src ssiz dst dsiz = Some (int (length s), m') \<and> str_in m' dst dsiz (t @ s)
    \<and> (\<forall>a. a < dst \<or> dst + dsiz \<le> a \<longrightarrow> m' a = m a)"
proof -
  let ?p = "dst + length t"
  have r: "\<forall>i<Suc (length s). m (?p + i) \<noteq> None" using room dst(2) by (simp add: add.assoc)
  have "memcpy m ?p src (length s) = Some (mem_put m ?p s)"
    using memcpy_at [OF str_in_mem_at [OF src]] r by simp
  then have c: "str_cat m src ssiz dst dsiz = Some (int (length s), mem_put m ?p (s @ [0]))"
    using STR_GET_TAIL_in [OF src] STR_GET_TAIL_in [OF dst(1)] dst(2) str_store [OF r] by (simp add: str_cat_def Let_def)
  have "mem_at (mem_put m ?p (s @ [0])) dst t"
    using str_in_mem_at [OF dst(1)] mem_at_put_other [of dst t ?p] by simp
  moreover have "mem_at (mem_put m ?p (s @ [0])) ?p (s @ [0])" by (rule mem_put_at)
  ultimately have "str_in (mem_put m ?p (s @ [0])) dst dsiz (t @ s)"
    using src dst by (simp add: str_in_def add.assoc)
  then show ?thesis using c dst(2) mem_put_other [of _ ?p "s @ [0]" m] by fastforce
qed

theorem str_cat_correct_witness:
  "\<exists>m'. str_cat mem_sample 100 5 300 10 = Some (4, m') \<and> str_in m' 300 10 [88, 104, 105, 108, 105]"
  using str_cat_correct [OF mem_sample_in(1,3)] mem_sample_in(4) by auto

lemma u32_diff_zero:
  assumes "a < 2 ^ 31" "b < 2 ^ 31"
  shows "sint (word_of_int (int a - int b) :: u32) = 0 \<longleftrightarrow> a = b"
proof -
  have "(word_of_int (int a - int b) :: u32) = 0 \<longleftrightarrow> 2 ^ 32 dvd (int a - int b)"
    by (subst word_of_int_eq_0_iff) simp
  also have "\<dots> \<longleftrightarrow> a = b"
  proof
    assume "2 ^ 32 dvd (int a - int b)"
    then obtain k where "int a - int b = 4294967296 * k" by (auto elim: dvdE)
    then have "k = 0" using assms by (cases "k \<ge> 1"; cases "k \<le> -1") auto
    then show "a = b" using \<open>int a - int b = 4294967296 * k\<close> by simp
  qed simp
  finally show ?thesis by (simp only: signed_eq_0_iff)
qed

text \<open>
  \<^verbatim>\<open>str_cmp\<close> on two strings shorter than 2^31 is 0 exactly when they are equal.
\<close>

theorem str_cmp_correct:
  assumes "str_in m p n s" "str_in m q k t" "p \<noteq> NULL" "q \<noteq> NULL" "1 \<le> n" "1 \<le> k"
    and "length s < 2 ^ 31" "length t < 2 ^ 31"
  shows "\<exists>r. str_cmp m p n q k = Some r \<and> (r = 0 \<longleftrightarrow> s = t)"
proof (cases "p = q \<and> n = k")
  case True
  then have "s = t" using STR_GET_TAIL_in [OF assms(1)] STR_GET_TAIL_in [OF assms(2)] 
      str_in_mem_at [OF assms(1)] str_in_mem_at [OF assms(2)]
    by (intro nth_equalityI) (auto simp: mem_at_def)
  then show ?thesis using True assms by (simp add: str_cmp_def)
next
  case False
  let ?n = "min (length s) (length t)"
  obtain r where r: "memcmp m p q ?n = Some r" "r = 0 \<longleftrightarrow> take ?n s = take ?n t"
    using memcmp_at [of m p "take ?n s" q "take ?n t"] assms(1,2) by (auto simp: mem_at_take str_in_mem_at)
  have "str_cmp m p n q k =
      Some (if r = 0 then sint (word_of_int (int (length s) - int (length t)) :: u32) else r)"
    using False assms STR_GET_TAIL_in [OF assms(1)] STR_GET_TAIL_in [OF assms(2)] r(1)
    by (auto simp: str_cmp_def min_def split: if_splits)
  moreover have "s = t \<longleftrightarrow> take ?n s = take ?n t \<and> length s = length t" by (auto simp: min_def)
  ultimately show ?thesis using r(2) u32_diff_zero [OF assms(7,8)] by auto
qed

theorem str_cmp_correct_witness: "\<exists>r. str_cmp mem_sample 100 5 200 2 = Some r \<and> r \<noteq> 0"
  using str_cmp_correct [OF mem_sample_in(1,2)] by auto



text \<open>
  The first call of \<^verbatim>\<open>str_token\<close> on a terminated string returns the whole string and ends the
  tokenization, whatever the delimiters: it starts looking for a delimiter at the terminator.
\<close>

theorem str_token_never_splits:
  assumes "str_in m str siz s" "length s < siz" "str \<noteq> NULL" "delim \<noteq> NULL" "1 \<le> dsiz"
  shows "str_token m str siz delim dsiz off = Some (str, NULL, m)"
proof -
  have "tok_scan m delim (delim + dsiz) (str + length s) = Some NULL"
    using assms(1,2) by (subst tok_scan.simps) (simp add: str_in_def)
  then show ?thesis using assms STR_GET_TAIL_in [OF assms(1)] by (simp add: str_token_def)
qed

theorem str_token_never_splits_witness:
  "str_token mem_sample 100 5 200 2 NULL = Some (100, NULL, mem_sample)"
  using str_token_never_splits [OF mem_sample_in(1), of 200 2 NULL] by simp

text \<open>
  On a buffer that is full of non-zero bytes \<^verbatim>\<open>str_len\<close> reads the byte after the buffer, so
  it faults when that byte is not mapped.
\<close>

theorem str_len_overread:
  assumes "mem_at m str xs" "0 \<notin> set xs" "xs \<noteq> []" "str \<noteq> NULL" "m (str + length xs) = None"
  shows "str_len m str (length xs) = None"
  using assms STR_GET_TAIL_over [OF assms(1,2,5)] by (simp add: str_len_def Suc_le_eq)

theorem str_len_overread_witness: "str_len (mem_put Map.empty 100 [65, 66]) 100 2 = None"
  using str_len_overread [of "mem_put Map.empty 100 [65, 66]" 100 "[65, 66]"]
  by (auto simp: mem_put_def simp flip: numeral_2_eq_2)

text \<open>
  \<^verbatim>\<open>mem_chr\<close> and \<^verbatim>\<open>mem_rchr\<close> return the first and the last byte of the block that equals the
  character, where a byte counts as a signed character.
\<close>

theorem mem_chr_correct:
  assumes "mem_at m p xs" "p \<noteq> NULL" "xs \<noteq> []"
  shows "mem_chr m p (length xs) c = Some (ix_ptr p (first_ix (\<lambda>b. sint b = c) xs))
    \<and> mem_rchr m p (length xs) c = Some (ix_ptr p (last_ix (\<lambda>b. sint b = c) xs))"
  using assms scan_up_at [OF assms(1)] scan_down_at [OF assms(1)]
  by (simp add: mem_chr_def mem_rchr_def schar_def Suc_le_eq)

theorem mem_chr_correct_witness:
  "mem_chr mem_sample 100 4 105 = Some 101 \<and> mem_rchr mem_sample 100 4 105 = Some 103"
proof -
  have "length [104, 105, 108, 105 :: u8] = 4" by simp
  from mem_chr_correct [of mem_sample 100 "[104, 105, 108, 105]" 105, unfolded this] show ?thesis
    using mem_sample_in(1) by (simp add: str_in_def last_ix_def)
qed

end
