(* ===== verification/Locks.thy ===== *)
theory Locks
  imports Fz_Interfaces
begin

text \<open>
  The spin lock of \<^verbatim>\<open>datastruct/spinlock.h\<close> and the reader/writer lock of
  \<^verbatim>\<open>datastruct/rwlock.h\<close>, used by any number of threads.  The unit of interleaving is what one
  thread does between two accesses to the lock word: a load, an \<open>xchg\<close> or a locked
  \<open>cmpxchg\<close>, \<open>inc\<close> or \<open>dec\<close> instruction, each atomic.  The program counter of a thread says
  where in a lock function it is.  Every function is its atomic step on the lock word and
  the counter; the step relation lets any thread take any step its counter allows.
\<close>

subsection \<open>The spin lock\<close>

datatype spin_pc = SpIdle | SpXchg | SpWait | SpHeld

record spin_state =
  locked :: u32
  sp_pc :: "nat \<Rightarrow> spin_pc"

definition xchg :: "u32 \<Rightarrow> u32 \<Rightarrow> u32 \<times> u32" where
  "xchg dst v = (v, dst)"

definition fo_spinlock_init :: "spin_state \<Rightarrow> spin_state" where
  "fo_spinlock_init s = s\<lparr>locked := 0\<rparr>"

text \<open>Label 1: exchange and test; label 2: spin until the word is 0, then back to 1.\<close>

fun fo_spinlock_lock :: "u32 \<Rightarrow> spin_pc \<Rightarrow> u32 \<times> spin_pc" where
  "fo_spinlock_lock w SpXchg = (case xchg w 1 of (w', lv) \<Rightarrow> if lv = 0 then (w', SpHeld) else (w', SpWait))"
| "fo_spinlock_lock w SpWait = (if w \<noteq> 0 then (w, SpWait) else (w, SpXchg))"
| "fo_spinlock_lock w pc = (w, pc)"

definition fo_spinlock_unlock :: "u32 \<Rightarrow> u32" where
  "fo_spinlock_unlock w = fst (xchg w 0)"

definition fo_spinlock_trylock :: "u32 \<Rightarrow> u32 \<times> int" where
  "fo_spinlock_trylock w = (case xchg w 1 of (w', lv) \<Rightarrow> (w', of_bool (lv = 0)))"

definition fo_spinlock_is_locked :: "spin_state \<Rightarrow> int" where
  "fo_spinlock_is_locked s = sint (locked s)"

inductive spin_step :: "spin_state \<Rightarrow> spin_state \<Rightarrow> bool" where
  spin_call: "sp_pc s t = SpIdle \<Longrightarrow> spin_step s (s\<lparr>sp_pc := (sp_pc s)(t := SpXchg)\<rparr>)"
| spin_lock: "sp_pc s t \<in> {SpXchg, SpWait} \<Longrightarrow> fo_spinlock_lock (locked s) (sp_pc s t) = (w, pc) \<Longrightarrow>
    spin_step s (s\<lparr>locked := w, sp_pc := (sp_pc s)(t := pc)\<rparr>)"
| spin_unlock: "sp_pc s t = SpHeld \<Longrightarrow>
    spin_step s (s\<lparr>locked := fo_spinlock_unlock (locked s), sp_pc := (sp_pc s)(t := SpIdle)\<rparr>)"
| spin_try: "sp_pc s t = SpIdle \<Longrightarrow> fo_spinlock_trylock (locked s) = (w, r) \<Longrightarrow>
    spin_step s (s\<lparr>locked := w, sp_pc := (sp_pc s)(t := if r \<noteq> 0 then SpHeld else SpIdle)\<rparr>)"

inductive_cases spin_stepE: "spin_step s s'"

definition spin_init :: "spin_state \<Rightarrow> bool" where
  "spin_init s \<longleftrightarrow> (\<exists>s0. s = fo_spinlock_init s0) \<and> (\<forall>t. sp_pc s t = SpIdle)"

definition holders :: "spin_state \<Rightarrow> nat set" where
  "holders s = {t. sp_pc s t = SpHeld}"

definition spin_inv :: "spin_state \<Rightarrow> bool" where
  "spin_inv s \<longleftrightarrow> locked s = 0 \<and> holders s = {} \<or> locked s = 1 \<and> (\<exists>t. holders s = {t})"

lemma holders_upd [simp]:
  "holders (s\<lparr>locked := w, sp_pc := f\<rparr>) = holders (s\<lparr>sp_pc := f\<rparr>)"
  "holders (s\<lparr>sp_pc := (sp_pc s)(t := pc)\<rparr>) = (if pc = SpHeld then insert t (holders s) else holders s - {t})"
  by (auto simp: holders_def)

lemma holders_iff: "t \<in> holders s \<longleftrightarrow> sp_pc s t = SpHeld"
  by (simp add: holders_def)

lemma holders_Diff [simp]: "sp_pc s t \<noteq> SpHeld \<Longrightarrow> holders s - {t} = holders s"
  by (auto simp: holders_def)

lemma spin_step_inv:
  assumes "spin_inv s" and "spin_step s s'"
  shows "spin_inv s'"
  using assms(2)
proof cases
  case (spin_call t)
  then show ?thesis using assms(1) by (auto simp: spin_inv_def)
next
  case (spin_lock t w pc)
  then have "holders s - {t} = holders s" by (auto simp: holders_def)
  moreover have "w = 1 \<and> locked s = 0 \<and> pc = SpHeld \<or>
      w = (if locked s = 0 then 0 else if p = SpXchg then 1 else locked s) \<and> pc \<noteq> SpHeld"
    if "sp_pc s t = p" for p
    using spin_lock that by (auto simp: xchg_def split: if_splits)
  ultimately show ?thesis using spin_lock(1) assms(1)
    by (auto simp: spin_inv_def split: if_splits)
next
  case (spin_unlock t)
  then have "t \<in> holders s" by (simp add: holders_def)
  then show ?thesis
    using spin_unlock assms(1) by (auto simp: spin_inv_def fo_spinlock_unlock_def xchg_def)
next
  case (spin_try t w r)
  then show ?thesis using assms(1)
    by (auto simp: spin_inv_def fo_spinlock_trylock_def xchg_def split: if_splits)
qed

interpretation sl: lock_system spin_init spin_step spin_inv
  "\<lambda>s t. sp_pc s t = SpHeld" "\<lambda>s t. False"
proof
  show "spin_init s \<Longrightarrow> spin_inv s" for s
    by (auto simp: spin_init_def fo_spinlock_init_def spin_inv_def holders_def)
  show "spin_inv s \<Longrightarrow> spin_step s s' \<Longrightarrow> spin_inv s'" for s s'
    by (rule spin_step_inv)
  show "spin_inv s \<Longrightarrow> sp_pc s t = SpHeld \<Longrightarrow> sp_pc s u = SpHeld \<or> False \<Longrightarrow> u = t" for s t u
    using holders_iff [of t s] holders_iff [of u s] by (auto simp: spin_inv_def)
qed

subsection \<open>The reader/writer lock\<close>

datatype rw_pc = RwIdle | RdLoop | RdCas u32 | Reading | WrLoop | WrCas | Writing

record rwlock =
  cnt :: u32
  rw_pc :: "nat \<Rightarrow> rw_pc"

definition atomic32_cmpset :: "u32 \<Rightarrow> u32 \<Rightarrow> u32 \<Rightarrow> u32 \<times> u32" where
  "atomic32_cmpset dst exp src = (if dst = exp then (src, 1) else (dst, 0))"

definition atomic32_inc :: "u32 \<Rightarrow> u32" where
  "atomic32_inc c = c + 1"

definition atomic32_dec :: "u32 \<Rightarrow> u32" where
  "atomic32_dec c = c - 1"

definition rwlock_init :: "rwlock \<Rightarrow> rwlock" where
  "rwlock_init s = s\<lparr>cnt := 0\<rparr>"

text \<open>The load of the counter with the test after it, and the compare-and-set.\<close>

fun rwlock_rdlock :: "u32 \<Rightarrow> rw_pc \<Rightarrow> u32 \<times> rw_pc" where
  "rwlock_rdlock c RdLoop = (if c <s 0 then (c, RdLoop) else (c, RdCas c))"
| "rwlock_rdlock c (RdCas x) = (case atomic32_cmpset c x (x + 1) of (c', success) \<Rightarrow>
     if success = 0 then (c', RdLoop) else (c', Reading))"
| "rwlock_rdlock c pc = (c, pc)"

definition rwlock_rdunlock :: "u32 \<Rightarrow> u32" where
  "rwlock_rdunlock c = atomic32_dec c"

fun rwlock_wrlock :: "u32 \<Rightarrow> rw_pc \<Rightarrow> u32 \<times> rw_pc" where
  "rwlock_wrlock c WrLoop = (if c \<noteq> 0 then (c, WrLoop) else (c, WrCas))"
| "rwlock_wrlock c WrCas = (case atomic32_cmpset c 0 (- 1) of (c', success) \<Rightarrow>
     if success = 0 then (c', WrLoop) else (c', Writing))"
| "rwlock_wrlock c pc = (c, pc)"

definition rwlock_wrunlock :: "u32 \<Rightarrow> u32" where
  "rwlock_wrunlock c = atomic32_inc c"

text \<open>\<open>n\<close> threads, numbered from 0.\<close>

inductive rw_step :: "nat \<Rightarrow> rwlock \<Rightarrow> rwlock \<Rightarrow> bool" for n where
  rd_call: "t < n \<Longrightarrow> rw_pc s t = RwIdle \<Longrightarrow> rw_step n s (s\<lparr>rw_pc := (rw_pc s)(t := RdLoop)\<rparr>)"
| rd_lock: "t < n \<Longrightarrow> rw_pc s t = RdLoop \<or> rw_pc s t = RdCas x \<Longrightarrow>
    rwlock_rdlock (cnt s) (rw_pc s t) = (c, pc) \<Longrightarrow>
    rw_step n s (s\<lparr>cnt := c, rw_pc := (rw_pc s)(t := pc)\<rparr>)"
| rd_unlock: "t < n \<Longrightarrow> rw_pc s t = Reading \<Longrightarrow>
    rw_step n s (s\<lparr>cnt := rwlock_rdunlock (cnt s), rw_pc := (rw_pc s)(t := RwIdle)\<rparr>)"
| wr_call: "t < n \<Longrightarrow> rw_pc s t = RwIdle \<Longrightarrow> rw_step n s (s\<lparr>rw_pc := (rw_pc s)(t := WrLoop)\<rparr>)"
| wr_lock: "t < n \<Longrightarrow> rw_pc s t = WrLoop \<or> rw_pc s t = WrCas \<Longrightarrow>
    rwlock_wrlock (cnt s) (rw_pc s t) = (c, pc) \<Longrightarrow>
    rw_step n s (s\<lparr>cnt := c, rw_pc := (rw_pc s)(t := pc)\<rparr>)"
| wr_unlock: "t < n \<Longrightarrow> rw_pc s t = Writing \<Longrightarrow>
    rw_step n s (s\<lparr>cnt := rwlock_wrunlock (cnt s), rw_pc := (rw_pc s)(t := RwIdle)\<rparr>)"

definition rw_init :: "rwlock \<Rightarrow> bool" where
  "rw_init s \<longleftrightarrow> (\<exists>s0. s = rwlock_init s0) \<and> (\<forall>t. rw_pc s t = RwIdle)"

definition readers :: "rwlock \<Rightarrow> nat set" where
  "readers s = {t. rw_pc s t = Reading}"

definition writers :: "rwlock \<Rightarrow> nat set" where
  "writers s = {t. rw_pc s t = Writing}"

text \<open>
  The counter is the number of readers when nobody writes and -1 when somebody does.  With
  fewer than 2^31 threads the counter cannot overflow, and a compare-and-set whose
  expected value was read before succeeds only from a state without writer.
\<close>

definition rw_inv :: "nat \<Rightarrow> rwlock \<Rightarrow> bool" where
  "rw_inv n s \<longleftrightarrow> n < 2 ^ 31 \<and> readers s \<subseteq> {..<n} \<and> writers s \<subseteq> {..<n} \<and>
     (\<forall>t x. rw_pc s t = RdCas x \<longrightarrow> \<not> x <s 0) \<and>
     (if writers s = {} then cnt s = of_nat (card (readers s))
      else readers s = {} \<and> cnt s = - 1 \<and> (\<exists>t. writers s = {t}))"

lemma readers_upd [simp]:
  "readers (s\<lparr>cnt := c\<rparr>) = readers s"
  "readers (s\<lparr>cnt := c, rw_pc := f\<rparr>) = readers (s\<lparr>rw_pc := f\<rparr>)"
  "readers (s\<lparr>rw_pc := (rw_pc s)(t := pc)\<rparr>) = (if pc = Reading then insert t (readers s) else readers s - {t})"
  by (auto simp: readers_def)

lemma writers_upd [simp]:
  "writers (s\<lparr>cnt := c\<rparr>) = writers s"
  "writers (s\<lparr>cnt := c, rw_pc := f\<rparr>) = writers (s\<lparr>rw_pc := f\<rparr>)"
  "writers (s\<lparr>rw_pc := (rw_pc s)(t := pc)\<rparr>) = (if pc = Writing then insert t (writers s) else writers s - {t})"
  by (auto simp: writers_def)

lemma rw_inv_card: "rw_inv n s \<Longrightarrow> finite (readers s) \<and> card (readers s) \<le> n"
  unfolding rw_inv_def
  by (metis card_lessThan card_mono finite_lessThan finite_subset)

lemma of_nat_u32_nonneg: "k < 2 ^ 31 \<Longrightarrow> \<not> (of_nat k :: u32) <s 0"
  by (simp add: word_sless_alt sint_uint unsigned_of_nat take_bit_nat_eq_self
      signed_take_bit_int_eq_self flip: of_nat_take_bit)

lemma unat_of_nat_u32: "k < 2 ^ 32 \<Longrightarrow> unat (of_nat k :: u32) = k"
  by (simp add: unsigned_of_nat take_bit_nat_eq_self)

lemma minus_one_sless: "(- 1 :: u32) <s 0"
  by (simp add: word_sless_alt)

lemma readers_iff: "t \<in> readers s \<longleftrightarrow> rw_pc s t = Reading"
  by (simp add: readers_def)

lemma writers_iff: "t \<in> writers s \<longleftrightarrow> rw_pc s t = Writing"
  by (simp add: writers_def)

lemma readers_Diff [simp]: "rw_pc s t \<noteq> Reading \<Longrightarrow> readers s - {t} = readers s"
  by (auto simp: readers_def)

lemma writers_Diff [simp]: "rw_pc s t \<noteq> Writing \<Longrightarrow> writers s - {t} = writers s"
  by (auto simp: writers_def)

text \<open>Steps that do not change who holds the lock.\<close>

lemma rw_inv_quiet:
  assumes "rw_inv n s" and "rw_pc s t \<noteq> Reading" and "rw_pc s t \<noteq> Writing"
    and "pc \<noteq> Reading" and "pc \<noteq> Writing" and "\<And>x. pc = RdCas x \<Longrightarrow> \<not> x <s 0"
  shows "rw_inv n (s\<lparr>rw_pc := (rw_pc s)(t := pc)\<rparr>)" and "rw_inv n (s\<lparr>cnt := cnt s, rw_pc := (rw_pc s)(t := pc)\<rparr>)"
  using assms by (auto simp: rw_inv_def)

lemma rw_inv_enter_read:
  assumes inv: "rw_inv n s" and "t < n" and pc: "rw_pc s t = RdCas (cnt s)"
  shows "rw_inv n (s\<lparr>cnt := cnt s + 1, rw_pc := (rw_pc s)(t := Reading)\<rparr>)"
proof -
  have "\<not> cnt s <s 0" using inv pc by (auto simp: rw_inv_def)
  then have w: "writers s = {}" using inv minus_one_sless by (auto simp: rw_inv_def split: if_splits)
  moreover have "t \<notin> readers s" using pc by (simp add: readers_def)
  ultimately show ?thesis
    using inv pc \<open>t < n\<close> rw_inv_card [OF inv] by (auto simp: rw_inv_def add.commute)
qed

lemma rw_inv_leave_read:
  assumes inv: "rw_inv n s" and pc: "rw_pc s t = Reading"
  shows "rw_inv n (s\<lparr>cnt := cnt s - 1, rw_pc := (rw_pc s)(t := RwIdle)\<rparr>)"
proof -
  have t: "t \<in> readers s" using pc by (simp add: readers_def)
  then have w: "writers s = {}" using inv by (auto simp: rw_inv_def split: if_splits)
  have "0 < card (readers s)" using t rw_inv_card [OF inv] by (auto simp: card_gt_0_iff)
  then have "(of_nat (card (readers s)) :: u32) - 1 = of_nat (card (readers s - {t}))"
    using t rw_inv_card [OF inv] by (simp add: card_Diff_singleton)
  then show ?thesis using inv w pc by (auto simp: rw_inv_def)
qed

lemma rw_inv_enter_write:
  assumes inv: "rw_inv n s" and "t < n" and "rw_pc s t = WrCas" and "cnt s = 0"
  shows "rw_inv n (s\<lparr>cnt := - 1, rw_pc := (rw_pc s)(t := Writing)\<rparr>)"
proof -
  have w: "writers s = {}" using inv assms by (auto simp: rw_inv_def split: if_splits)
  have "card (readers s) < 2 ^ 31" using rw_inv_card [OF inv] inv by (simp add: rw_inv_def)
  moreover have "(of_nat (card (readers s)) :: u32) = 0" using inv w assms by (simp add: rw_inv_def)
  ultimately have "card (readers s) = 0"
    using unat_of_nat_u32 [of "card (readers s)"] by simp
  then have "readers s = {}" using rw_inv_card [OF inv] by simp
  then show ?thesis using inv w assms by (auto simp: rw_inv_def)
qed

lemma rw_inv_leave_write:
  assumes inv: "rw_inv n s" and "rw_pc s t = Writing"
  shows "rw_inv n (s\<lparr>cnt := cnt s + 1, rw_pc := (rw_pc s)(t := RwIdle)\<rparr>)"
proof -
  have "t \<in> writers s" using assms by (simp add: writers_def)
  then have "writers s = {t}" "readers s = {}" "cnt s = - 1"
    using inv by (auto simp: rw_inv_def split: if_splits)
  then show ?thesis using inv by (auto simp: rw_inv_def)
qed

lemma rw_step_inv:
  assumes inv: "rw_inv n s" and "rw_step n s s'"
  shows "rw_inv n s'"
  using assms(2)
proof cases
  case (rd_lock t x c pc)
  then show ?thesis
    using rw_inv_quiet [OF inv, of t pc] rw_inv_enter_read [OF inv, of t] inv
    by (auto simp: atomic32_cmpset_def split: if_splits)
next
  case (wr_lock t c pc)
  then have "pc = Writing \<and> cnt s = 0 \<and> c = - 1 \<and> rw_pc s t = WrCas \<or> (pc = WrLoop \<or> pc = WrCas) \<and> c = cnt s"
    by (auto simp: atomic32_cmpset_def split: if_splits)
  then show ?thesis
    using wr_lock rw_inv_quiet [OF inv, of t pc] rw_inv_enter_write [OF inv, of t] by auto
next
  case (rd_unlock t)
  then show ?thesis
    using rw_inv_leave_read [OF inv] by (simp add: rwlock_rdunlock_def atomic32_dec_def)
next
  case (wr_unlock t)
  then show ?thesis
    using rw_inv_leave_write [OF inv] by (simp add: rwlock_wrunlock_def atomic32_inc_def)
qed (auto intro!: rw_inv_quiet [OF inv])

interpretation rw: lock_system "\<lambda>s. rw_init s \<and> n < 2 ^ 31" "rw_step n" "rw_inv n"
  "\<lambda>s t. rw_pc s t = Writing" "\<lambda>s t. rw_pc s t = Reading" for n
proof
  show "rw_init s \<and> n < 2 ^ 31 \<Longrightarrow> rw_inv n s" for s
    by (auto simp: rw_init_def rwlock_init_def rw_inv_def readers_def writers_def)
  show "rw_inv n s \<Longrightarrow> rw_step n s s' \<Longrightarrow> rw_inv n s'" for s s'
    by (rule rw_step_inv)
  show "rw_inv n s \<Longrightarrow> rw_pc s t = Writing \<Longrightarrow> rw_pc s u = Writing \<or> rw_pc s u = Reading \<Longrightarrow> u = t" for s t u
    using readers_iff [of u s] writers_iff [of t s] writers_iff [of u s]
    by (auto simp: rw_inv_def split: if_splits)
qed

subsection \<open>Waiting threads can proceed\<close>

lemma rw_inv_finite: "rw_inv n s \<Longrightarrow> finite (readers s \<union> writers s)"
  unfolding rw_inv_def by (metis finite_Un finite_lessThan finite_subset)

lemma rw_release:
  assumes inv: "rw_inv n s" and t: "t \<in> readers s \<union> writers s"
  obtains s' where "rw_step n s s'" and "readers s' \<union> writers s' = (readers s \<union> writers s) - {t}"
    and "\<And>u. u \<noteq> t \<Longrightarrow> rw_pc s' u = rw_pc s u"
proof -
  have "t < n" using inv t by (auto simp: rw_inv_def)
  show thesis
  proof (cases "t \<in> readers s")
    case True
    then have "rw_step n s (s\<lparr>cnt := rwlock_rdunlock (cnt s), rw_pc := (rw_pc s)(t := RwIdle)\<rparr>)"
      using \<open>t < n\<close> by (intro rd_unlock) (simp_all add: readers_iff)
    then show thesis by (rule that) auto
  next
    case False
    then have "rw_step n s (s\<lparr>cnt := rwlock_wrunlock (cnt s), rw_pc := (rw_pc s)(t := RwIdle)\<rparr>)"
      using \<open>t < n\<close> t by (intro wr_unlock) (simp_all add: writers_iff)
    then show thesis by (rule that) auto
  qed
qed

text \<open>When the holders have released the lock the counter is 0; waiting threads stay where they are.\<close>

lemma rw_drain:
  assumes "rw_inv n s"
  shows "\<exists>s'. (rw_step n)\<^sup>*\<^sup>* s s' \<and> readers s' = {} \<and> writers s' = {} \<and>
    (\<forall>u. u \<notin> readers s \<union> writers s \<longrightarrow> rw_pc s' u = rw_pc s u)"
  using assms
proof (induction "card (readers s \<union> writers s)" arbitrary: s)
  case 0
  then show ?case using rw_inv_finite [of n s] by auto
next
  case (Suc k)
  then obtain t where t: "t \<in> readers s \<union> writers s" by (metis card_gt_0_iff ex_in_conv zero_less_Suc)
  obtain s1 where s1: "rw_step n s s1" "readers s1 \<union> writers s1 = (readers s \<union> writers s) - {t}"
    "\<And>u. u \<noteq> t \<Longrightarrow> rw_pc s1 u = rw_pc s u"
    using rw_release [OF Suc.prems t] by metis
  have "k = card (readers s1 \<union> writers s1)"
    using Suc.hyps(2) t s1(2) rw_inv_finite [OF Suc.prems] by simp
  from Suc.hyps(1) [OF this rw_step_inv [OF Suc.prems s1(1)]]
  obtain s' where s': "(rw_step n)\<^sup>*\<^sup>* s1 s'" "readers s' = {}" "writers s' = {}"
    "\<And>u. u \<notin> readers s1 \<union> writers s1 \<Longrightarrow> rw_pc s' u = rw_pc s1 u"
    by blast
  have "(rw_step n)\<^sup>*\<^sup>* s s'" using s1(1) s'(1) by (rule converse_rtranclp_into_rtranclp)
  moreover have "rw_pc s' u = rw_pc s u" if "u \<notin> readers s \<union> writers s" for u
    using that s'(4) [of u] s1(2,3) t by (metis DiffD1)
  ultimately show ?case using s'(2,3) by blast
qed

lemma rw_free_read:
  assumes "cnt s = 0" and "t < n" and "rw_pc s t = RdLoop"
  shows "\<exists>s'. (rw_step n)\<^sup>*\<^sup>* s s' \<and> rw_pc s' t = Reading"
proof -
  let ?s1 = "s\<lparr>cnt := 0, rw_pc := (rw_pc s)(t := RdCas 0)\<rparr>"
  let ?s2 = "?s1\<lparr>cnt := 1, rw_pc := (rw_pc ?s1)(t := Reading)\<rparr>"
  have "rw_step n s ?s1" by (rule rd_lock [where x = 0]) (use assms in auto)
  moreover have "rw_step n ?s1 ?s2"
    by (rule rd_lock [where x = 0]) (use assms in \<open>auto simp: atomic32_cmpset_def\<close>)
  ultimately have "(rw_step n)\<^sup>*\<^sup>* s ?s2" by (meson rtranclp.rtrancl_refl rtranclp.rtrancl_into_rtrancl)
  then show ?thesis by (intro exI [of _ ?s2]) simp
qed

lemma rw_free_write:
  assumes "cnt s = 0" and "t < n" and "rw_pc s t = WrLoop"
  shows "\<exists>s'. (rw_step n)\<^sup>*\<^sup>* s s' \<and> rw_pc s' t = Writing"
proof -
  let ?s1 = "s\<lparr>cnt := 0, rw_pc := (rw_pc s)(t := WrCas)\<rparr>"
  let ?s2 = "?s1\<lparr>cnt := - 1, rw_pc := (rw_pc ?s1)(t := Writing)\<rparr>"
  have "rw_step n s ?s1" by (rule wr_lock) (use assms in auto)
  moreover have "rw_step n ?s1 ?s2"
    by (rule wr_lock) (use assms in \<open>auto simp: atomic32_cmpset_def\<close>)
  ultimately have "(rw_step n)\<^sup>*\<^sup>* s ?s2" by (meson rtranclp.rtrancl_refl rtranclp.rtrancl_into_rtrancl)
  then show ?thesis by (intro exI [of _ ?s2]) simp
qed

lemma rw_free_cnt: "rw_inv n s \<Longrightarrow> readers s = {} \<Longrightarrow> writers s = {} \<Longrightarrow> cnt s = 0"
  by (simp add: rw_inv_def)

subsection \<open>Properties\<close>

text \<open>
  C18: in every state threads using the spin lock can get into, at most one thread holds it, and
  \<^verbatim>\<open>fo_spinlock_is_locked\<close> is 1 exactly when some thread does.
\<close>

theorem spin_mutual_exclusion:
  assumes "reach spin_init spin_step s"
  shows "(sp_pc s t = SpHeld \<longrightarrow> sp_pc s u = SpHeld \<longrightarrow> u = t) \<and>
    fo_spinlock_is_locked s = of_bool (\<exists>t. sp_pc s t = SpHeld)"
proof -
  have "(\<exists>t. sp_pc s t = SpHeld) \<longleftrightarrow> holders s \<noteq> {}" by (auto simp: holders_def)
  then show ?thesis
    using sl.mutual_exclusion [OF assms, of t u] sl.reach_inv [OF assms]
    by (auto simp: spin_inv_def fo_spinlock_is_locked_def)
qed

theorem spin_mutual_exclusion_witness:
  "fo_spinlock_is_locked \<lparr>locked = 1, sp_pc = (\<lambda>t. SpIdle)(3 := SpHeld)\<rparr> =
     of_bool (\<exists>t. sp_pc \<lparr>locked = 1, sp_pc = (\<lambda>t. SpIdle)(3 := SpHeld)\<rparr> t = SpHeld)"
proof -
  let ?s0 = "\<lparr>locked = 0, sp_pc = \<lambda>t. SpIdle\<rparr>"
  have "spin_init ?s0" by (auto simp: spin_init_def fo_spinlock_init_def intro: exI [of _ ?s0])
  moreover have "spin_step ?s0 (?s0\<lparr>locked := 1, sp_pc := (sp_pc ?s0)(3 := if (1::int) \<noteq> 0 then SpHeld else SpIdle)\<rparr>)"
    by (rule spin_try) (simp_all add: fo_spinlock_trylock_def xchg_def)
  ultimately have "reach spin_init spin_step \<lparr>locked = 1, sp_pc = (\<lambda>t. SpIdle)(3 := SpHeld)\<rparr>"
    using reach_step [OF reach_init] by simp
  from spin_mutual_exclusion [OF this] show ?thesis by blast
qed

text \<open>
  C19: in every state fewer than 2^31 threads using the reader/writer lock can get into, a writer is alone,
  and the counter is -1 with a writer and otherwise the number of readers.
\<close>

theorem rwlock_mutual_exclusion:
  assumes "reach (\<lambda>s. rw_init s \<and> n < 2 ^ 31) (rw_step n) s"
  shows "(rw_pc s t = Writing \<longrightarrow> u \<noteq> t \<longrightarrow> rw_pc s u \<noteq> Writing \<and> rw_pc s u \<noteq> Reading) \<and>
    cnt s = (if \<exists>t. rw_pc s t = Writing then - 1 else of_nat (card {t. rw_pc s t = Reading}))"
proof -
  have "(\<exists>t. rw_pc s t = Writing) \<longleftrightarrow> writers s \<noteq> {}" by (auto simp: writers_def)
  then show ?thesis
    using rw.mutual_exclusion [OF assms, of t u] rw.reach_inv [OF assms]
    by (auto simp: rw_inv_def readers_def)
qed

lemma rw_start: "rw_init \<lparr>cnt = 0, rw_pc = \<lambda>t. RwIdle\<rparr>"
  by (auto simp: rw_init_def rwlock_init_def intro: exI [of _ "\<lparr>cnt = 0, rw_pc = \<lambda>t. RwIdle\<rparr>"])

lemma rw_waiting: "reach (\<lambda>s. rw_init s \<and> (2::nat) < 2 ^ 31) (rw_step 2) \<lparr>cnt = 0, rw_pc = (\<lambda>t. RwIdle)(1 := WrLoop)\<rparr>"
proof (rule reach_step [OF reach_init])
  show "rw_init \<lparr>cnt = 0, rw_pc = \<lambda>t. RwIdle\<rparr> \<and> (2::nat) < 2 ^ 31" using rw_start by simp
  show "rw_step 2 \<lparr>cnt = 0, rw_pc = \<lambda>t. RwIdle\<rparr> \<lparr>cnt = 0, rw_pc = (\<lambda>t. RwIdle)(1 := WrLoop)\<rparr>"
    using wr_call [of 1 2 "\<lparr>cnt = 0, rw_pc = \<lambda>t. RwIdle\<rparr>"] by simp
qed

theorem rwlock_mutual_exclusion_witness:
  "cnt \<lparr>cnt = 0, rw_pc = (\<lambda>t. RwIdle)(1 := WrLoop)\<rparr> = of_nat (card {t :: nat. ((\<lambda>t. RwIdle)(1 := WrLoop)) t = Reading})"
  using rwlock_mutual_exclusion [OF rw_waiting] by (simp split: if_splits)



end
