(* ===== verification/Mempool.thy ===== *)
theory Mempool
  imports Fz_Prelude
begin

text \<open>
  The arena of \<^verbatim>\<open>datastruct/mempool.h\<close>: memory of arbitrary sizes, released all at once.  The
  record holds the fields of \<^verbatim>\<open>struct mempool\<close> together with what the functions reach
  through pointers: the address of the structure, the \<open>next\<close> field of every node, the blocks
  \<^verbatim>\<open>malloc\<close> has given to the pool and the bytes in memory.  Writing outside these blocks or freeing
  anything else is a fault.  \<open>size_t\<close> arithmetic is modulo 2^64.
\<close>

record mempool =
  mp_self :: addr
  mp_max :: u32
  mp_last :: addr
  mp_tail :: addr
  mp_nodes :: addr
  mp_next :: "addr \<Rightarrow> addr"
  mp_blocks :: "(addr \<times> nat) list"
  mp_mem :: "addr \<Rightarrow> u8"

definition SIZEOF_NODE :: nat where "SIZEOF_NODE = 8"
definition SIZEOF_POOL :: nat where "SIZEOF_POOL = 32"

text \<open>\<open>align_num\<close> on \<open>size_t\<close>, and \<open>align_ptr\<close>.\<close>

definition align_size :: "nat \<Rightarrow> nat" where
  "align_size n = ((n + 7) mod 2 ^ 64) div 8 * 8"

definition align_ptr :: "addr \<Rightarrow> addr" where
  "align_ptr a = (a + 7) div 8 * 8"

definition in_block :: "addr \<Rightarrow> nat \<Rightarrow> addr \<times> nat \<Rightarrow> bool" where
  "in_block a n b \<longleftrightarrow> fst b \<le> a \<and> a + n \<le> fst b + snd b"

text \<open>\<^verbatim>\<open>memset\<close> and \<^verbatim>\<open>memcpy\<close> on memory of the pool, and \<^verbatim>\<open>free\<close>.\<close>

definition mp_memset0 :: "addr \<Rightarrow> nat \<Rightarrow> mempool \<Rightarrow> mempool option" where
  "mp_memset0 a n p = (if list_ex (in_block a n) (mp_blocks p)
     then Some (p\<lparr>mp_mem := (\<lambda>x. if a \<le> x \<and> x < a + n then 0 else mp_mem p x)\<rparr>) else None)"

definition mp_memcpy :: "addr \<Rightarrow> addr \<Rightarrow> nat \<Rightarrow> mempool \<Rightarrow> mempool option" where
  "mp_memcpy d s n p =
    (if list_ex (in_block d n) (mp_blocks p) \<and> list_ex (in_block s n) (mp_blocks p) \<and> (d + n \<le> s \<or> s + n \<le> d)
     then Some (p\<lparr>mp_mem := (\<lambda>x. if d \<le> x \<and> x < d + n then mp_mem p (s + (x - d)) else mp_mem p x)\<rparr>) else None)"

definition mp_free :: "addr \<Rightarrow> mempool \<Rightarrow> mempool option" where
  "mp_free a p = (if list_ex (\<lambda>b. fst b = a) (mp_blocks p)
     then Some (p\<lparr>mp_blocks := filter (\<lambda>b. fst b \<noteq> a) (mp_blocks p)\<rparr>) else None)"

subsection \<open>Operations\<close>

text \<open>\<open>m\<close> is what \<^verbatim>\<open>malloc\<close> returns.\<close>

definition mp_node_max :: "mempool \<Rightarrow> nat \<Rightarrow> nat" where
  "mp_node_max p n = (if n > unat (mp_max p) then n else unat (mp_max p))"

definition mp_alloc_node :: "addr \<Rightarrow> mempool \<Rightarrow> nat \<Rightarrow> addr \<times> mempool" where
  "mp_alloc_node m p n =
    (let mx = mp_node_max p n; newsize = align_size ((mx + SIZEOF_NODE) mod 2 ^ 64) in
     if m = NULL then (NULL, p)
     else let p = p\<lparr>mp_blocks := (m, newsize) # mp_blocks p\<rparr>;
              p = p\<lparr>mp_next := (mp_next p)(m := mp_nodes p)\<rparr>;
              p = p\<lparr>mp_nodes := m\<rparr>;
              ptr = align_ptr (m + SIZEOF_NODE)
          in (ptr, p\<lparr>mp_last := ptr + n, mp_tail := m + newsize, mp_max := of_nat mx\<rparr>))"

definition mp_malloc :: "addr \<Rightarrow> mempool option \<Rightarrow> nat \<Rightarrow> bool \<Rightarrow> (addr \<times> mempool option) option" where
  "mp_malloc m pool sz zero = (case pool of None \<Rightarrow> Some (NULL, None) | Some p \<Rightarrow>
     if sz < 1 then Some (NULL, Some p)
     else let ptr = align_ptr (mp_last p) in
       if sz < unat (mp_max p) \<and> (int (mp_tail p) - int ptr) mod 2 ^ 64 > int sz then
         let p = p\<lparr>mp_last := ptr + sz\<rparr> in
         if zero then do { p \<leftarrow> mp_memset0 ptr sz p; Some (ptr, Some p) }
         else Some (ptr, Some p)
       else case mp_alloc_node m p sz of (a, p) \<Rightarrow> Some (a, Some p))"

definition mempool_create :: "addr \<Rightarrow> nat \<Rightarrow> (addr \<Rightarrow> u8) \<Rightarrow> (addr \<Rightarrow> addr) \<Rightarrow> mempool option" where
  "mempool_create m sz mem0 next0 =
    (if sz < 1 then None
     else let newsize = align_size ((sz + SIZEOF_POOL) mod 2 ^ 64) in
       if m = NULL then None
       else Some \<lparr>mp_self = m, mp_max = of_nat sz, mp_last = m + SIZEOF_POOL, mp_tail = m + newsize,
         mp_nodes = NULL, mp_next = next0, mp_blocks = [(m, newsize)], mp_mem = mem0\<rparr>)"

text \<open>The walk over the node list ends when it meets \<open>NULL\<close>; freeing a block twice is a fault.\<close>

partial_function (option) mp_free_nodes :: "addr \<Rightarrow> mempool \<Rightarrow> mempool option" where
  "mp_free_nodes n p = (if n = NULL then Some p
     else let nx = mp_next p n in do { p \<leftarrow> mp_free n p; mp_free_nodes nx p })"

definition mempool_destroy :: "mempool option \<Rightarrow> mempool option option" where
  "mempool_destroy pool = (case pool of None \<Rightarrow> Some None | Some p \<Rightarrow> do {
     p \<leftarrow> mp_free_nodes (mp_nodes p) p;
     p \<leftarrow> mp_free (mp_self p) p;
     Some (Some p) })"

definition mempool_alloc :: "addr \<Rightarrow> mempool option \<Rightarrow> nat \<Rightarrow> (addr \<times> mempool option) option" where
  "mempool_alloc m pool sz = mp_malloc m pool sz False"

definition mempool_calloc :: "addr \<Rightarrow> mempool option \<Rightarrow> nat \<Rightarrow> (addr \<times> mempool option) option" where
  "mempool_calloc m pool sz = mp_malloc m pool sz True"

definition mempool_realloc ::
  "addr \<Rightarrow> mempool option \<Rightarrow> addr \<Rightarrow> nat \<Rightarrow> nat \<Rightarrow> (addr \<times> mempool option) option" where
  "mempool_realloc m pool ptr oldsize newsize =
    (if pool = None \<or> ptr = NULL \<or> oldsize < 1 \<or> newsize < 1 then Some (NULL, pool)
     else let copysize = (if oldsize < newsize then oldsize else newsize) in do {
       (newptr, pool) \<leftarrow> mp_malloc m pool newsize False;
       if newptr = NULL then Some (NULL, pool)
       else do {
         p \<leftarrow> mp_memcpy newptr ptr copysize (the pool);
         p \<leftarrow> (if newsize > copysize then mp_memset0 (newptr + copysize) (newsize - copysize) p else Some p);
         Some (newptr, Some p) } })"

subsection \<open>Regions and the invariant\<close>

text \<open>A region is a start and a length; two regions are apart when they share no byte.\<close>

definition apart :: "addr \<times> nat \<Rightarrow> addr \<times> nat \<Rightarrow> bool" where
  "apart r q \<longleftrightarrow> fst r + snd r \<le> fst q \<or> fst q + snd q \<le> fst r"

lemma apart_sym: "apart r q \<longleftrightarrow> apart q r"
  by (auto simp: apart_def)

definition inside :: "addr \<times> nat \<Rightarrow> addr \<times> nat \<Rightarrow> bool" where
  "inside r q \<longleftrightarrow> fst q \<le> fst r \<and> fst r + snd r \<le> fst q + snd q"

lemma apart_inside: "apart r q \<Longrightarrow> inside r' r \<Longrightarrow> inside q' q \<Longrightarrow> apart r' q'"
  by (auto simp: apart_def inside_def)

text \<open>The part of a block behind its header, and the list of nodes.\<close>

definition payload :: "mempool \<Rightarrow> addr \<times> nat \<Rightarrow> addr \<times> nat" where
  "payload p b = (let h = (if fst b = mp_self p then SIZEOF_POOL else SIZEOF_NODE) in (fst b + h, snd b - h))"

fun node_chain :: "(addr \<Rightarrow> addr) \<Rightarrow> addr \<Rightarrow> addr list \<Rightarrow> bool" where
  "node_chain nx a [] \<longleftrightarrow> a = NULL"
| "node_chain nx a (n # ns) \<longleftrightarrow> a = n \<and> n \<noteq> NULL \<and> node_chain nx (nx n) ns"

lemma node_chain_upd: "m \<notin> set ns \<Longrightarrow> node_chain (nx(m := v)) a ns = node_chain nx a ns"
  by (induction ns arbitrary: a) auto

text \<open>
  \<open>rs\<close> are the regions handed out, with their requested sizes.  They lie in the payload of
  blocks, apart from one another and from the free end of the current block.
\<close>

definition mp_inv :: "mempool \<Rightarrow> (addr \<times> nat) list \<Rightarrow> bool" where
  "mp_inv p rs \<longleftrightarrow>
     mp_self p \<noteq> NULL \<and> 8 dvd mp_tail p \<and> mp_tail p < 2 ^ 64 \<and> mp_last p \<le> mp_tail p \<and>
     (\<exists>ns. node_chain (mp_next p) (mp_nodes p) ns \<and> map fst (mp_blocks p) = ns @ [mp_self p]) \<and>
     distinct (map fst (mp_blocks p)) \<and> sorted_wrt apart (mp_blocks p) \<and>
     (\<exists>b\<in>set (mp_blocks p). inside (mp_last p, mp_tail p - mp_last p) (payload p b)) \<and>
     sorted_wrt apart rs \<and>
     (\<forall>r\<in>set rs. 0 < snd r \<and> apart r (mp_last p, mp_tail p - mp_last p) \<and> (\<exists>b\<in>set (mp_blocks p). inside r (payload p b)))"

text \<open>What a successful \<^verbatim>\<open>malloc\<close> of \<open>n\<close> bytes promises.\<close>

definition malloc_fresh :: "(addr \<times> nat) list \<Rightarrow> addr \<Rightarrow> nat \<Rightarrow> bool" where
  "malloc_fresh bs m n \<longleftrightarrow> m \<noteq> NULL \<and> 8 dvd m \<and> m + n < 2 ^ 64 \<and>
     (\<forall>b\<in>set bs. apart (m, n) b \<and> fst b \<noteq> m)"

lemma align_ptr_ge: "a \<le> align_ptr a" and align_ptr_dvd: "8 dvd align_ptr a"
  and align_ptr_le: "8 dvd t \<Longrightarrow> a \<le> t \<Longrightarrow> align_ptr a \<le> t"
  unfolding align_ptr_def by presburger+

lemma align_ptr_id: "8 dvd a \<Longrightarrow> align_ptr a = a"
  unfolding align_ptr_def by presburger

lemma align_size_ge: "n + 7 < 2 ^ 64 \<Longrightarrow> n \<le> align_size n" and align_size_dvd: "8 dvd align_size n"
  by (simp_all add: align_size_def)

lemma inside_trans: "inside r q \<Longrightarrow> inside q s \<Longrightarrow> inside r s"
  by (auto simp: inside_def)

lemma inside_payload_block:
  "inside r (payload p b) \<Longrightarrow> 0 < snd r \<Longrightarrow> in_block (fst r) (snd r) b"
  by (auto simp: inside_def payload_def in_block_def Let_def split: if_splits)

lemma inside_payload: "inside r (payload p b) \<Longrightarrow> 0 < snd r \<Longrightarrow> inside r b"
  by (auto simp: inside_def payload_def Let_def split: if_splits)

text \<open>Taking a region from the free end of the current block.\<close>

lemma mp_inv_bump:
  assumes inv: "mp_inv p rs" and "align_ptr (mp_last p) + sz \<le> mp_tail p" and "0 < sz"
  shows "mp_inv (p\<lparr>mp_last := align_ptr (mp_last p) + sz\<rparr>) ((align_ptr (mp_last p), sz) # rs)"
proof -
  let ?a = "align_ptr (mp_last p)" and ?p = "p\<lparr>mp_last := align_ptr (mp_last p) + sz\<rparr>"
  have ge: "mp_last p \<le> ?a" by (rule align_ptr_ge)
  obtain b where b: "b \<in> set (mp_blocks p)" "inside (mp_last p, mp_tail p - mp_last p) (payload p b)"
    using inv by (auto simp: mp_inv_def)
  have pay: "payload ?p = payload p" by (rule ext) (simp add: payload_def)
  have "inside (?a, sz) (mp_last p, mp_tail p - mp_last p)"
    "inside (?a + sz, mp_tail p - (?a + sz)) (mp_last p, mp_tail p - mp_last p)"
    using assms ge by (auto simp: inside_def)
  then have new: "inside (?a, sz) (payload p b)" "inside (?a + sz, mp_tail p - (?a + sz)) (payload p b)"
    using b(2) inside_trans by blast+
  have old: "apart r (?a, sz)" "apart r (?a + sz, mp_tail p - (?a + sz))" if "r \<in> set rs" for r
  proof -
    have "apart r (mp_last p, mp_tail p - mp_last p)" using inv that by (auto simp: mp_inv_def)
    then show "apart r (?a, sz)" "apart r (?a + sz, mp_tail p - (?a + sz))"
      using ge assms(2) by (auto simp: apart_def)
  qed
  show ?thesis
    using inv assms(2,3) b(1) new old pay
    by (auto simp: mp_inv_def apart_sym [of "(?a, sz)"]) (auto simp: apart_def)
qed

lemma mp_inv_bump_ptr:
  assumes inv: "mp_inv p rs" and "int sz < (int (mp_tail p) - int (align_ptr (mp_last p))) mod 2 ^ 64"
  shows "align_ptr (mp_last p) + sz < mp_tail p"
proof -
  have "align_ptr (mp_last p) \<le> mp_tail p" using inv by (auto simp: mp_inv_def intro: align_ptr_le)
  moreover have "mp_tail p < 2 ^ 64" using inv by (simp add: mp_inv_def)
  ultimately have "(int (mp_tail p) - int (align_ptr (mp_last p))) mod 2 ^ 64 =
      int (mp_tail p) - int (align_ptr (mp_last p))"
    by (intro mod_pos_pos_trivial) auto
  then show ?thesis using assms(2) by simp
qed

lemma payload_mem [simp]: "payload (p\<lparr>mp_mem := f\<rparr>) = payload p"
  by (rule ext) (simp add: payload_def)

lemma mp_inv_mem [simp]: "mp_inv (p\<lparr>mp_mem := f\<rparr>) rs = mp_inv p rs"
  by (simp add: mp_inv_def)

text \<open>Adding a node and taking its first region.\<close>

lemma mp_inv_node:
  assumes inv: "mp_inv p rs" and sz: "0 < sz" "sz < 2 ^ 63"
    and m: "malloc_fresh (mp_blocks p) m (align_size ((mp_node_max p sz + SIZEOF_NODE) mod 2 ^ 64))"
  shows "\<exists>p'. mp_alloc_node m p sz = (m + 8, p') \<and> mp_inv p' ((m + 8, sz) # rs) \<and>
    mp_mem p' = mp_mem p \<and> mp_self p' = mp_self p"
proof -
  define mx where "mx = mp_node_max p sz"
  have mx: "sz \<le> mx" "mx < 2 ^ 63"
    using sz unat_u32_less [of "mp_max p"] by (auto simp: mx_def mp_node_max_def)
  define ns where "ns = align_size (mx + 8)"
  have ns: "mx + 8 \<le> ns" "8 dvd ns" unfolding ns_def
    using mx align_size_ge [of "mx + 8"] align_size_dvd by auto
  have mm: "(mx + 8) mod 2 ^ 64 = mx + 8" using mx by simp
  have f: "malloc_fresh (mp_blocks p) m ns"
    using m mm by (simp add: SIZEOF_NODE_def ns_def flip: mx_def)
  then have m8: "m \<noteq> NULL" "8 dvd m" "m + ns < 2 ^ 64" by (auto simp: malloc_fresh_def)
  then have al: "align_ptr (m + 8) = m + 8" by (intro align_ptr_id) simp
  define p' where "p' = p\<lparr>mp_blocks := (m, ns) # mp_blocks p, mp_next := (mp_next p)(m := mp_nodes p),
    mp_nodes := m, mp_last := m + 8 + sz, mp_tail := m + ns, mp_max := of_nat mx\<rparr>"
  have eq: "mp_alloc_node m p sz = (m + 8, p')"
    using m8 al mm by (simp add: mp_alloc_node_def p'_def SIZEOF_NODE_def ns_def Let_def flip: mx_def)
  obtain nodes where nodes: "node_chain (mp_next p) (mp_nodes p) nodes" "map fst (mp_blocks p) = nodes @ [mp_self p]"
    using inv by (auto simp: mp_inv_def)
  have notin: "m \<notin> fst ` set (mp_blocks p)" using f by (auto simp: malloc_fresh_def)
  have self: "m \<noteq> mp_self p" "m \<notin> set nodes"
    using notin nodes(2) by (auto simp flip: set_map)
  have pay: "payload p' b = payload p b" for b by (simp add: payload_def p'_def)
  have pm: "payload p (m, ns) = (m + 8, ns - 8)" using self by (simp add: payload_def SIZEOF_NODE_def)
  have apart_new: "apart r (m, ns)" if r: "r \<in> set rs" for r
  proof -
    obtain b where b: "b \<in> set (mp_blocks p)" "inside r (payload p b)" "0 < snd r"
      using inv r by (auto simp: mp_inv_def)
    then have "inside r b" using inside_payload by blast
    moreover have "apart b (m, ns)" using f b(1) by (auto simp: malloc_fresh_def apart_sym)
    ultimately show ?thesis by (auto simp: apart_def inside_def)
  qed
  have last: "inside (m + 8 + sz, ns - (8 + sz)) (m + 8, ns - 8)" "inside (m + 8, sz) (m + 8, ns - 8)"
    "inside (m + 8 + sz, ns - (8 + sz)) (m, ns)" "inside (m + 8, sz) (m, ns)"
    using ns mx by (auto simp: inside_def)
  have rs: "apart r (m + 8 + sz, ns - (8 + sz)) \<and> apart (m + 8, sz) r" if "r \<in> set rs" for r
    using apart_new [OF that] last(3,4) by (auto simp: apart_def inside_def)
  have chain: "node_chain (mp_next p') (mp_nodes p') (m # nodes) \<and> map fst (mp_blocks p') = (m # nodes) @ [mp_self p']"
    using nodes self m8 by (simp add: p'_def node_chain_upd)
  have blocks: "distinct (map fst (mp_blocks p')) \<and> sorted_wrt apart (mp_blocks p')"
    using inv f notin by (auto simp: mp_inv_def p'_def malloc_fresh_def)
  have regions: "sorted_wrt apart ((m + 8, sz) # rs)" using inv rs by (auto simp: mp_inv_def)
  have tail: "mp_last p' = m + 8 + sz" "mp_tail p' = m + ns" "mp_blocks p' = (m, ns) # mp_blocks p"
    "mp_self p' = mp_self p" "mp_mem p' = mp_mem p"
    by (simp_all add: p'_def)
  have sub: "m + ns - (m + 8 + sz) = ns - (8 + sz)" by simp
  have "mp_inv p' ((m + 8, sz) # rs)"
    unfolding mp_inv_def pay tail(1,2,3,4) sub
    using inv chain blocks regions rs last ns mx m8 sz pm
    by (auto simp: mp_inv_def tail apart_def)
  then show ?thesis using eq tail by blast
qed

text \<open>Freeing the node list, then the pool.\<close>

lemma mp_free_head:
  assumes "mp_blocks p = b # bs" and "fst b \<notin> fst ` set bs"
  shows "mp_free (fst b) p = Some (p\<lparr>mp_blocks := bs\<rparr>)"
proof -
  have "filter (\<lambda>c. fst c \<noteq> fst b) bs = bs"
    using assms(2) by (intro filter_True) (metis imageI)
  then show ?thesis using assms(1) by (simp add: mp_free_def)
qed

lemma mp_free_nodes_ok:
  assumes "node_chain (mp_next p) a ns" and "map fst (mp_blocks p) = ns @ [x]"
    and "distinct (map fst (mp_blocks p))"
  shows "\<exists>b. mp_free_nodes a p = Some (p\<lparr>mp_blocks := [b]\<rparr>) \<and> fst b = x"
  using assms
proof (induction ns arbitrary: a p)
  case Nil
  then obtain b where "mp_blocks p = [b]" "fst b = x" by (cases "mp_blocks p") auto
  moreover from this have "mp_free_nodes a p = Some (p\<lparr>mp_blocks := [b]\<rparr>)"
    using Nil by (subst mp_free_nodes.simps) simp
  ultimately show ?case by blast
next
  case (Cons n ns)
  then obtain b bs where b: "mp_blocks p = b # bs" "fst b = n" "map fst bs = ns @ [x]"
    by (cases "mp_blocks p") auto
  have "mp_free n p = Some (p\<lparr>mp_blocks := bs\<rparr>)"
    using mp_free_head [of p b bs] b Cons.prems by (metis distinct.simps(2) list.simps(9) set_map)
  moreover have "\<exists>c. mp_free_nodes (mp_next p n) (p\<lparr>mp_blocks := bs\<rparr>) = Some (p\<lparr>mp_blocks := [c]\<rparr>) \<and> fst c = x"
    using Cons.IH [of "p\<lparr>mp_blocks := bs\<rparr>" "mp_next p n"] Cons.prems b by simp
  ultimately show ?case using Cons.prems by (subst mp_free_nodes.simps) (auto simp: Let_def)
qed

subsection \<open>Properties\<close>

text \<open>
  C21: as long as \<^verbatim>\<open>malloc\<close> keeps its promise, allocating fewer than 2^63 bytes from a consistent pool, with or
  without zeroing, does not fault.  It returns \<open>NULL\<close> only when \<^verbatim>\<open>malloc\<close> did, leaving the pool as it was;
  otherwise the region it returns is aligned, inside a block of the pool and apart from
  every region handed out before, whose bytes do not change.
\<close>

theorem mempool_malloc_correct:
  assumes inv: "mp_inv p rs" and sz: "0 < sz" "sz < 2 ^ 63"
    and m: "m = NULL \<or> malloc_fresh (mp_blocks p) m (align_size ((mp_node_max p sz + SIZEOF_NODE) mod 2 ^ 64))"
  shows "\<exists>a p'. mp_malloc m (Some p) sz zero = Some (a, Some p') \<and>
    (a = NULL \<longrightarrow> m = NULL \<and> p' = p) \<and>
    (a \<noteq> NULL \<longrightarrow> 8 dvd a \<and> mp_inv p' ((a, sz) # rs) \<and>
       (\<forall>x. \<not> (a \<le> x \<and> x < a + sz) \<longrightarrow> mp_mem p' x = mp_mem p x))"
proof (cases "sz < unat (mp_max p) \<and> (int (mp_tail p) - int (align_ptr (mp_last p))) mod 2 ^ 64 > int sz")
  case True
  let ?a = "align_ptr (mp_last p)" and ?p = "p\<lparr>mp_last := align_ptr (mp_last p) + sz\<rparr>"
  have "?a + sz < mp_tail p" using mp_inv_bump_ptr [OF inv] True by simp
  then have inv': "mp_inv ?p ((?a, sz) # rs)" using mp_inv_bump [OF inv] sz by simp
  then have "\<exists>b\<in>set (mp_blocks ?p). inside (?a, sz) (payload ?p b)" by (auto simp: mp_inv_def)
  then have "list_ex (in_block ?a sz) (mp_blocks p)"
    using sz inside_payload_block [of "(?a, sz)" ?p] by (auto simp: list_ex_iff)
  moreover have "0 < mp_last p"
  proof -
    have "\<exists>b. inside (mp_last p, mp_tail p - mp_last p) (payload p b)" using inv by (auto simp: mp_inv_def)
    then show ?thesis by (auto simp: inside_def payload_def SIZEOF_POOL_def SIZEOF_NODE_def split: if_splits)
  qed
  ultimately show ?thesis
    using True inv' align_ptr_ge [of "mp_last p"] align_ptr_dvd [of "mp_last p"] sz
    by (auto simp: mp_malloc_def mp_memset0_def Let_def)
next
  case False
  then have "mp_malloc m (Some p) sz zero = (case mp_alloc_node m p sz of (a, p) \<Rightarrow> Some (a, Some p))"
    using sz by (auto simp: mp_malloc_def Let_def)
  note eq = this
  show ?thesis
  proof (cases "m = NULL")
    case True
    then have "mp_alloc_node m p sz = (NULL, p)" by (simp add: mp_alloc_node_def Let_def)
    then show ?thesis using eq True by simp
  next
    case False
    then have f: "malloc_fresh (mp_blocks p) m (align_size ((mp_node_max p sz + SIZEOF_NODE) mod 2 ^ 64))"
      using m by simp
    then have "8 dvd m + 8" by (simp add: malloc_fresh_def)
    then show ?thesis using eq mp_inv_node [OF inv sz f] by auto
  qed
qed

definition pool_sample :: mempool where
  "pool_sample = \<lparr>mp_self = 1000, mp_max = 64, mp_last = 1032, mp_tail = 1096, mp_nodes = NULL,
     mp_next = (\<lambda>_. NULL), mp_blocks = [(1000, 96)], mp_mem = (\<lambda>_. 7)\<rparr>"

lemma pool_sample_inv: "mp_inv pool_sample []"
  by (auto simp: mp_inv_def pool_sample_def inside_def payload_def SIZEOF_POOL_def intro: exI [of _ "[]"])

theorem mempool_malloc_correct_witness:
  "\<exists>a p'. mp_malloc 2000 (Some pool_sample) 100 False = Some (a, Some p') \<and> (a \<noteq> NULL \<longrightarrow> 8 dvd a)"
proof -
  have "malloc_fresh (mp_blocks pool_sample) 2000 (align_size ((mp_node_max pool_sample 100 + SIZEOF_NODE) mod 2 ^ 64))"
    by (simp add: malloc_fresh_def pool_sample_def apart_def align_size_def mp_node_max_def SIZEOF_NODE_def)
  then show ?thesis
    using mempool_malloc_correct [OF pool_sample_inv, of 100 2000 False] by auto
qed

text \<open>
  \<^verbatim>\<open>mempool_destroy\<close> of a consistent pool frees every block of the pool, each once, and nothing else.
\<close>

theorem mempool_destroy_correct:
  assumes "mp_inv p rs"
  shows "mempool_destroy (Some p) = Some (Some (p\<lparr>mp_blocks := []\<rparr>))"
proof -
  obtain ns where ns: "node_chain (mp_next p) (mp_nodes p) ns" "map fst (mp_blocks p) = ns @ [mp_self p]"
    "distinct (map fst (mp_blocks p))"
    using assms by (auto simp: mp_inv_def)
  obtain b where b: "mp_free_nodes (mp_nodes p) p = Some (p\<lparr>mp_blocks := [b]\<rparr>)" "fst b = mp_self p"
    using mp_free_nodes_ok [OF ns] by blast
  then show ?thesis
    using mp_free_head [of "p\<lparr>mp_blocks := [b]\<rparr>" b "[]"] by (simp add: mempool_destroy_def)
qed

theorem mempool_destroy_correct_witness:
  "mempool_destroy (Some pool_sample) = Some (Some (pool_sample\<lparr>mp_blocks := []\<rparr>))"
  by (rule mempool_destroy_correct [OF pool_sample_inv])

text \<open>
  \<^verbatim>\<open>mempool_calloc\<close> does not zero memory that comes from a new node: it keeps whatever was there.
\<close>

theorem mempool_calloc_not_zeroed:
  assumes "mp_inv p rs" and "unat (mp_max p) \<le> sz" and "0 < sz" and "sz < 2 ^ 63"
    and "malloc_fresh (mp_blocks p) m (align_size ((mp_node_max p sz + SIZEOF_NODE) mod 2 ^ 64))"
  shows "\<exists>p'. mempool_calloc m (Some p) sz = Some (m + 8, Some p') \<and> mp_mem p' = mp_mem p"
  using mp_inv_node [OF assms(1,3,4,5)] assms(2,3)
  by (auto simp: mempool_calloc_def mp_malloc_def Let_def)

theorem mempool_calloc_not_zeroed_witness:
  "\<exists>p'. mempool_calloc 2000 (Some pool_sample) 100 = Some (2008, Some p') \<and> mp_mem p' 2008 = 7"
proof -
  have "malloc_fresh (mp_blocks pool_sample) 2000 (align_size ((mp_node_max pool_sample 100 + SIZEOF_NODE) mod 2 ^ 64))"
    by (simp add: malloc_fresh_def pool_sample_def apart_def align_size_def mp_node_max_def SIZEOF_NODE_def)
  then show ?thesis
    using mempool_calloc_not_zeroed [OF pool_sample_inv, of 100 2000] by (auto simp: pool_sample_def)
qed

text \<open>
  A request close to 2^64 bytes wraps around: the node that is allocated for it is smaller than
  the node header.
\<close>

theorem mempool_alloc_wraps:
  assumes "2 ^ 64 - 8 \<le> sz" and "sz < 2 ^ 64" and "m \<noteq> NULL"
  shows "\<exists>a p'. mempool_alloc m (Some p) sz = Some (a, Some p') \<and> hd (mp_blocks p') = (m, (sz + 15 - 2 ^ 64) div 8 * 8) \<and>
    snd (hd (mp_blocks p')) \<le> SIZEOF_NODE"
proof -
  have mx: "mp_node_max p sz = sz" "\<not> sz < unat (mp_max p)"
    using assms unat_u32_less [of "mp_max p"] by (auto simp: mp_node_max_def)
  have "(sz + 8) mod 2 ^ 64 = sz + 8 - 2 ^ 64" using assms by (simp add: mod_if)
  then have "align_size ((sz + SIZEOF_NODE) mod 2 ^ 64) = (sz + 15 - 2 ^ 64) div 8 * 8"
    using assms by (simp add: align_size_def SIZEOF_NODE_def)
  moreover have "(sz + 15 - 2 ^ 64) div 8 * 8 \<le> 8" using assms by simp
  ultimately show ?thesis
    using mx assms by (simp add: mempool_alloc_def mp_malloc_def mp_alloc_node_def Let_def SIZEOF_NODE_def)
qed

theorem mempool_alloc_wraps_witness:
  "\<exists>a p'. mempool_alloc 2000 (Some pool_sample) (2 ^ 64 - 1) = Some (a, Some p') \<and> hd (mp_blocks p') = (2000, 8)"
  using mempool_alloc_wraps [of "2 ^ 64 - 1" 2000 pool_sample] by auto

end
