(* ===== verification/Dbuffer.thy ===== *)
theory Dbuffer
  imports Fz_Prelude
begin

text \<open>
  The dynamic buffer of \<^verbatim>\<open>datastruct/dbuffer.h\<close>.  Live heap blocks are byte lists; copying past
  the end of one is a fault.  \<^verbatim>\<open>malloc\<close> is the address it returns and the bytes it happens to
  hold.
\<close>

record dbuf =
  db_max :: u32
  db_len :: u32
  db_buf :: addr
  db_heap :: "addr \<rightharpoonup> u8 list"

definition dbuf_init :: "addr \<Rightarrow> (nat \<Rightarrow> u8) \<Rightarrow> dbuf \<Rightarrow> u32 \<Rightarrow> int \<times> dbuf" where
  "dbuf_init m junk b mx =
    (if mx < 1 then (- 1, b)
     else let b = b\<lparr>db_buf := m\<rparr> in
       if m = NULL then (- 1, b)
       else (0, b\<lparr>db_len := 0, db_max := mx, db_heap := (db_heap b)(m \<mapsto> map junk [0..<unat mx])\<rparr>))"

definition heap_free :: "addr \<Rightarrow> dbuf \<Rightarrow> dbuf option" where
  "heap_free a b = (if a = NULL then Some b
     else case db_heap b a of None \<Rightarrow> None | Some _ \<Rightarrow> Some (b\<lparr>db_heap := (db_heap b)(a := None)\<rparr>))"

definition dbuf_free :: "dbuf option \<Rightarrow> dbuf option option" where
  "dbuf_free buf = (case buf of None \<Rightarrow> Some None | Some b \<Rightarrow> do {
     b \<leftarrow> (if db_buf b \<noteq> NULL then heap_free (db_buf b) b else Some b);
     Some (Some (b\<lparr>db_max := 0, db_len := 0, db_buf := NULL\<rparr>)) })"

text \<open>Writing bytes into a block from an offset on.\<close>

definition put_bytes :: "u8 list \<Rightarrow> nat \<Rightarrow> u8 list \<Rightarrow> u8 list option" where
  "put_bytes bs off d = (if off + length d \<le> length bs
     then Some (take off bs @ d @ drop (off + length d) bs) else None)"

definition dbuf_resize :: "addr \<Rightarrow> (nat \<Rightarrow> u8) \<Rightarrow> dbuf option \<Rightarrow> u32 \<Rightarrow> (int \<times> dbuf option) option" where
  "dbuf_resize p junk buf mx = (case buf of None \<Rightarrow> Some (- 1, None) | Some b \<Rightarrow>
     if mx < 1 \<or> mx < db_len b then Some (- 1, Some b)
     else if mx = db_max b then Some (0, Some b)
     else if p = NULL then Some (- 1, Some b)
     else do {
       new \<leftarrow> (if db_buf b \<noteq> NULL \<and> db_len b > 0 then do {
                 bs \<leftarrow> db_heap b (db_buf b);
                 if unat (db_len b) \<le> length bs
                 then put_bytes (map junk [0..<unat mx]) 0 (take (unat (db_len b)) bs) else None }
               else Some (map junk [0..<unat mx]));
       b \<leftarrow> heap_free (db_buf b) (b\<lparr>db_heap := (db_heap b)(p \<mapsto> new)\<rparr>);
       Some (0, Some (b\<lparr>db_buf := p\<rparr>)) })"

definition dbuf_put :: "dbuf option \<Rightarrow> u8 list option \<Rightarrow> (int \<times> dbuf option) option" where
  "dbuf_put buf d = (case (buf, d) of
       (Some b, Some bytes) \<Rightarrow>
         let len = of_nat (length bytes) :: u32 in
         if len < 1 then Some (- 1, buf)
         else if db_buf b = NULL \<or> db_max b - db_len b < len then Some (- 1, buf)
         else do {
           bs \<leftarrow> db_heap b (db_buf b);
           bs \<leftarrow> put_bytes bs (unat (db_len b)) bytes;
           Some (0, Some (b\<lparr>db_heap := (db_heap b)(db_buf b \<mapsto> bs), db_len := db_len b + len\<rparr>)) }
     | _ \<Rightarrow> Some (- 1, buf))"

subsection \<open>Contents\<close>

text \<open>The buffer holds \<open>xs\<close> in a block of \<open>n\<close> bytes.\<close>

definition db_holds :: "dbuf \<Rightarrow> nat \<Rightarrow> u8 list \<Rightarrow> bool" where
  "db_holds b n xs \<longleftrightarrow> db_buf b \<noteq> NULL \<and>
     (\<exists>bs. db_heap b (db_buf b) = Some bs \<and> length bs = n \<and> length xs = unat (db_len b) \<and>
        unat (db_len b) \<le> n \<and> take (unat (db_len b)) bs = xs)"

lemma dbuf_init_holds:
  "m \<noteq> NULL \<Longrightarrow> 1 \<le> mx \<Longrightarrow> \<exists>b'. dbuf_init m junk b mx = (0, b') \<and> db_holds b' (unat mx) [] \<and> db_max b' = mx"
  by (auto simp: dbuf_init_def db_holds_def)

text \<open>
  \<^verbatim>\<open>dbuf_put\<close> into a buffer whose block has the size the buffer believes appends the bytes when
  there is room for them and otherwise refuses, leaving the buffer as it was; it never faults.
\<close>

theorem dbuf_put_correct:
  assumes "db_holds b (unat (db_max b)) xs" and "0 < length d" and "length d < 2 ^ 32"
  shows "if length xs + length d \<le> unat (db_max b)
    then \<exists>b'. dbuf_put (Some b) (Some d) = Some (0, Some b') \<and> db_holds b' (unat (db_max b')) (xs @ d) \<and>
      db_max b' = db_max b
    else dbuf_put (Some b) (Some d) = Some (- 1, Some b)"
proof -
  obtain bs where bs: "db_buf b \<noteq> NULL" "db_heap b (db_buf b) = Some bs" "length bs = unat (db_max b)"
    "length xs = unat (db_len b)" "unat (db_len b) \<le> unat (db_max b)" "take (unat (db_len b)) bs = xs"
    using assms(1) by (auto simp: db_holds_def)
  have l: "unat (of_nat (length d) :: u32) = length d"
    using assms(3) by (simp add: unsigned_of_nat take_bit_nat_eq_self)
  have room: "unat (db_max b - db_len b) = unat (db_max b) - unat (db_len b)"
    using bs(5) by (rule unat_u32_minus)
  have ge1: "\<not> (of_nat (length d) :: u32) < 1" using l assms(2) by (simp add: word_less_nat_alt)
  have cmp: "db_max b - db_len b < of_nat (length d) \<longleftrightarrow> unat (db_max b) < length xs + length d"
    using room l bs(4,5) by (auto simp: word_less_nat_alt)
  show ?thesis
  proof (cases "length xs + length d \<le> unat (db_max b)")
    case True
    then have fits: "unat (db_len b) + length d < 2 ^ 32"
      using unat_u32_less [of "db_max b"] bs(4) by linarith
    then have "unat (db_len b + of_nat (length d)) = unat (db_len b) + length d"
      using l by (simp add: unat_word_ariths)
    then show ?thesis
      using True bs cmp ge1 by (auto simp: dbuf_put_def put_bytes_def db_holds_def)
  next
    case False
    then show ?thesis using bs cmp ge1 by (auto simp: dbuf_put_def)
  qed
qed

definition dbuf_sample :: dbuf where
  "dbuf_sample = \<lparr>db_max = 8, db_len = 2, db_buf = 100, db_heap = [100 \<mapsto> [1, 2, 0, 0, 0, 0, 0, 0]]\<rparr>"

lemma dbuf_sample_holds: "db_holds dbuf_sample 8 [1, 2]"
  by (simp add: db_holds_def dbuf_sample_def)

theorem dbuf_put_correct_witness:
  "\<exists>b'. dbuf_put (Some dbuf_sample) (Some [3, 4]) = Some (0, Some b') \<and> db_holds b' (unat (db_max b')) [1, 2, 3, 4]"
  using dbuf_put_correct [of dbuf_sample "[1, 2]" "[3, 4]"] dbuf_sample_holds
  by (auto simp: dbuf_sample_def)

text \<open>
  C29: \<^verbatim>\<open>dbuf_resize\<close> to a smaller block keeps the contents but not the size the buffer believes, so a \<^verbatim>\<open>dbuf_put\<close>
  that fits the old size writes past the end of the new block.
\<close>

theorem dbuf_resize_stale_max:
  assumes "db_holds b (unat (db_max b)) xs" and "db_len b \<le> mx" and "1 \<le> mx" and "mx < db_max b"
    and "p \<noteq> NULL" and "db_heap b p = None"
    and "unat mx < length xs + length d" and "length xs + length d \<le> unat (db_max b)"
  shows "\<exists>b'. dbuf_resize p junk (Some b) mx = Some (0, Some b') \<and> db_holds b' (unat mx) xs \<and>
    db_max b' = db_max b \<and> dbuf_put (Some b') (Some d) = None"
proof -
  obtain bs where bs: "db_buf b \<noteq> NULL" "db_heap b (db_buf b) = Some bs" "length bs = unat (db_max b)"
    "length xs = unat (db_len b)" "unat (db_len b) \<le> unat (db_max b)" "take (unat (db_len b)) bs = xs"
    using assms(1) by (auto simp: db_holds_def)
  have pb: "p \<noteq> db_buf b" using bs(2) assms(6) by auto
  have le: "unat (db_len b) \<le> unat mx" using assms(2) by (simp add: word_le_nat_alt)
  define new where "new = xs @ drop (length xs) (map junk [0..<unat mx])"
  define b' where "b' = b\<lparr>db_heap := (db_heap b)(p \<mapsto> new, db_buf b := None), db_buf := p\<rparr>"
  have nz: "db_len b = 0 \<Longrightarrow> xs = []" using bs(4) by simp
  have "\<not> (mx < 1 \<or> mx < db_len b)" "mx \<noteq> db_max b" using assms(2,3,4) by auto
  then have run: "dbuf_resize p junk (Some b) mx = Some (0, Some b')"
    using bs pb le assms(5) nz
    by (auto simp: dbuf_resize_def put_bytes_def heap_free_def b'_def new_def word_gt_0)
  have holds: "db_holds b' (unat mx) xs"
    using assms(5) pb bs(4) le by (auto simp: db_holds_def b'_def new_def)
  have l: "unat (of_nat (length d) :: u32) = length d"
    using assms(8) unat_u32_less [of "db_max b"] by (simp add: unsigned_of_nat take_bit_nat_eq_self)
  have "0 < length d" using assms(7) le bs(4) by linarith
  then have ge1: "\<not> (of_nat (length d) :: u32) < 1" using l by (simp add: word_less_nat_alt)
  have "unat (db_max b - db_len b) = unat (db_max b) - unat (db_len b)" using bs(5) by (rule unat_u32_minus)
  then have "\<not> db_max b - db_len b < of_nat (length d)"
    using l assms(8) bs(4) by (auto simp: word_less_nat_alt)
  then have "dbuf_put (Some b') (Some d) = None"
    using ge1 assms(5,7) pb bs(4) le by (simp add: dbuf_put_def b'_def new_def put_bytes_def)
  then show ?thesis using run holds by (auto simp: b'_def)
qed

theorem dbuf_resize_stale_max_witness:
  "\<exists>b'. dbuf_resize 200 (\<lambda>_. 0) (Some dbuf_sample) 3 = Some (0, Some b') \<and> dbuf_put (Some b') (Some [3, 4]) = None"
  using dbuf_resize_stale_max [of dbuf_sample "[1, 2]" 3 200 "[3, 4]" "\<lambda>_. 0"] dbuf_sample_holds
  by (auto simp: dbuf_sample_def)

end
