(* ===== verification/Fz_Tree.thy ===== *)
theory Fz_Tree
  imports Fz_Prelude "HOL-Library.Tree"
begin

text \<open>
  The general tree of \<^verbatim>\<open>datastruct/tree.c\<close>: a node knows its father, its first child and
  its next sibling.  The store maps the address of a live node to its fields; following a
  pointer to no live node, or freeing one twice, is a fault.  The data a node carries is an
  address; the callbacks of the tree are the comparison, and whether a print and a free
  function were given.  The shape of a tree is a binary tree of node addresses whose left
  subtree holds the children and whose right subtree the next siblings.
\<close>

record treenode =
  magic :: int
  father :: addr
  firstchild :: addr
  nextsibling :: addr
  data :: addr

record tree_t =
  t_magic :: int
  t_size :: u32
  t_root :: addr
  find_func :: "(addr \<Rightarrow> addr \<Rightarrow> int) option"
  print_func :: bool
  free_func :: bool
  nodes :: "addr \<Rightarrow> treenode option"
  freed :: "addr list"

subsection \<open>Operations\<close>

definition tree_alloc ::
  "addr \<Rightarrow> (addr \<Rightarrow> addr \<Rightarrow> int) option \<Rightarrow> bool \<Rightarrow> bool \<Rightarrow> int \<Rightarrow> tree_t option" where
  "tree_alloc m ff pf fr mg = (if m = NULL then None
     else Some \<lparr>t_magic = mg, t_size = 0, t_root = NULL, find_func = ff, print_func = pf, free_func = fr,
       nodes = Map.empty, freed = []\<rparr>)"

definition node_free :: "addr \<Rightarrow> tree_t \<Rightarrow> tree_t option" where
  "node_free a t = (case nodes t a of None \<Rightarrow> None | Some _ \<Rightarrow> Some (t\<lparr>nodes := (nodes t)(a := None)\<rparr>))"

definition data_free :: "addr \<Rightarrow> tree_t \<Rightarrow> tree_t" where
  "data_free d t = t\<lparr>freed := freed t @ [d]\<rparr>"

partial_function (option) treenode_free :: "addr \<Rightarrow> tree_t \<Rightarrow> tree_t option" where
  "treenode_free a t = (if a = NULL then Some t else do {
     n \<leftarrow> nodes t a;
     t \<leftarrow> (if firstchild n \<noteq> NULL then treenode_free (firstchild n) t else Some t);
     n \<leftarrow> nodes t a;
     t \<leftarrow> (if nextsibling n \<noteq> NULL then treenode_free (nextsibling n) t else Some t);
     n \<leftarrow> nodes t a;
     let t = (if free_func t \<and> data n \<noteq> NULL then data_free (data n) t else t);
     node_free a t })"

definition tree_free :: "tree_t option \<Rightarrow> tree_t option option" where
  "tree_free tree = (case tree of None \<Rightarrow> Some None | Some t \<Rightarrow> do {
     t \<leftarrow> (if t_root t \<noteq> NULL then treenode_free (t_root t) t else Some t);
     Some (Some t) })"

partial_function (option) last_sibling :: "addr \<Rightarrow> tree_t \<Rightarrow> addr option" where
  "last_sibling a t = do { n \<leftarrow> nodes t a;
     if nextsibling n \<noteq> NULL then last_sibling (nextsibling n) t else Some a }"

definition new_node :: "tree_t \<Rightarrow> addr \<Rightarrow> treenode" where
  "new_node t d = \<lparr>magic = t_magic t, father = NULL, firstchild = NULL, nextsibling = NULL, data = d\<rparr>"

definition upd_node :: "addr \<Rightarrow> (treenode \<Rightarrow> treenode) \<Rightarrow> tree_t \<Rightarrow> tree_t option" where
  "upd_node a f t = (case nodes t a of None \<Rightarrow> None | Some n \<Rightarrow> Some (t\<lparr>nodes := (nodes t)(a \<mapsto> f n)\<rparr>))"

text \<open>What both insertions do without a father: the node becomes the root, or is given back.\<close>

definition add_root :: "addr \<Rightarrow> tree_t \<Rightarrow> (int \<times> tree_t) option" where
  "add_root child t = (if t_root t \<noteq> NULL then do { t \<leftarrow> node_free child t; Some (- 1, t) }
     else do { t \<leftarrow> upd_node child (father_update (\<lambda>_. child)) (t\<lparr>t_root := child\<rparr>);
       Some (0, t\<lparr>t_size := t_size t + 1\<rparr>) })"

definition tree_add_end :: "addr \<Rightarrow> tree_t option \<Rightarrow> addr \<Rightarrow> addr \<Rightarrow> (int \<times> tree_t option) option" where
  "tree_add_end child tree fa d = (case tree of None \<Rightarrow> Some (- 1, None) | Some t \<Rightarrow>
     if d = NULL \<or> child = NULL then Some (- 1, Some t)
     else let t = t\<lparr>nodes := (nodes t)(child \<mapsto> new_node t d)\<rparr> in
       if fa \<noteq> NULL then do {
         f \<leftarrow> nodes t fa;
         t \<leftarrow> (if firstchild f = NULL then upd_node fa (firstchild_update (\<lambda>_. child)) t
               else do { s \<leftarrow> last_sibling (firstchild f) t;
                         upd_node s (nextsibling_update (\<lambda>_. child)) t });
         t \<leftarrow> upd_node child (father_update (\<lambda>_. fa)) t;
         Some (0, Some (t\<lparr>t_size := t_size t + 1\<rparr>)) }
       else do { (r, t) \<leftarrow> add_root child t; Some (r, Some t) })"

definition tree_add_first :: "addr \<Rightarrow> tree_t option \<Rightarrow> addr \<Rightarrow> addr \<Rightarrow> (int \<times> tree_t option) option" where
  "tree_add_first child tree fa d = (case tree of None \<Rightarrow> Some (- 1, None) | Some t \<Rightarrow>
     if d = NULL \<or> child = NULL then Some (- 1, Some t)
     else let t = t\<lparr>nodes := (nodes t)(child \<mapsto> new_node t d)\<rparr> in
       if fa \<noteq> NULL then do {
         f \<leftarrow> nodes t fa;
         t \<leftarrow> (if firstchild f = NULL then upd_node fa (firstchild_update (\<lambda>_. child)) t
               else do { t \<leftarrow> upd_node child (nextsibling_update (\<lambda>_. firstchild f)) t;
                         upd_node fa (firstchild_update (\<lambda>_. child)) t });
         t \<leftarrow> upd_node child (father_update (\<lambda>_. fa)) t;
         Some (0, Some (t\<lparr>t_size := t_size t + 1\<rparr>)) }
       else do { (r, t) \<leftarrow> add_root child t; Some (r, Some t) })"

partial_function (option) treenode_find :: "tree_t \<Rightarrow> addr \<Rightarrow> addr \<Rightarrow> addr option" where
  "treenode_find t a d = (if a = NULL \<or> d = NULL then Some NULL else do {
     n \<leftarrow> nodes t a;
     ff \<leftarrow> find_func t;
     if ff (data n) d = 0 then Some a
     else do {
       f \<leftarrow> (if firstchild n \<noteq> NULL then treenode_find t (firstchild n) d else Some NULL);
       if f \<noteq> NULL then Some f
       else if nextsibling n \<noteq> NULL then treenode_find t (nextsibling n) d
       else Some f } })"

definition tree_find :: "tree_t option \<Rightarrow> addr \<Rightarrow> addr option" where
  "tree_find tree d = (case tree of None \<Rightarrow> Some NULL | Some t \<Rightarrow>
     if d = NULL then Some NULL
     else if find_func t \<noteq> None then treenode_find t (t_root t) d else Some NULL)"

text \<open>\<^verbatim>\<open>_treenode_del\<close> calls the print function without checking that there is one.\<close>

partial_function (option) treenode_del :: "addr \<Rightarrow> tree_t \<Rightarrow> tree_t option" where
  "treenode_del a t = (if a = NULL then Some t else do {
     n \<leftarrow> nodes t a;
     t \<leftarrow> (if firstchild n \<noteq> NULL then treenode_del (firstchild n) t else Some t);
     n \<leftarrow> nodes t a;
     t \<leftarrow> (if nextsibling n \<noteq> NULL then treenode_del (nextsibling n) t else Some t);
     n \<leftarrow> nodes t a;
     if free_func t then
       if \<not> print_func t then None
       else node_free a ((data_free (data n) t)\<lparr>t_size := t_size t - 1\<rparr>)
     else node_free a t })"

partial_function (option) sibling_before :: "addr \<Rightarrow> addr \<Rightarrow> tree_t \<Rightarrow> addr option" where
  "sibling_before a x t = do { n \<leftarrow> nodes t a;
     if nextsibling n \<noteq> NULL \<and> nextsibling n \<noteq> x then sibling_before (nextsibling n) x t else Some a }"

text \<open>The unlinking part of \<^verbatim>\<open>tree_del\<close>; the flag is whether it goes on after it.\<close>

definition tree_unlink :: "addr \<Rightarrow> treenode \<Rightarrow> tree_t \<Rightarrow> (bool \<times> tree_t) option" where
  "tree_unlink a n t =
    (if father n \<noteq> NULL then
       if father n = a then Some (True, t\<lparr>t_root := NULL\<rparr>)
       else do {
         f \<leftarrow> nodes t (father n);
         if firstchild f = a then do {
           t \<leftarrow> upd_node (father n) (firstchild_update (\<lambda>_. nextsibling n)) t; Some (True, t) }
         else do {
           s \<leftarrow> sibling_before (firstchild f) a t;
           sn \<leftarrow> nodes t s;
           if nextsibling sn = NULL then Some (False, t)
           else do { t \<leftarrow> upd_node s (nextsibling_update (\<lambda>_. nextsibling n)) t; Some (True, t) } } }
     else if t_root t \<noteq> a then Some (False, t)
     else Some (True, t\<lparr>t_root := NULL\<rparr>))"

definition tree_del :: "tree_t option \<Rightarrow> addr \<Rightarrow> (addr \<times> tree_t option) option" where
  "tree_del tree d = (case tree of None \<Rightarrow> Some (NULL, None) | Some t \<Rightarrow>
     if d = NULL then Some (NULL, Some t)
     else do {
       a \<leftarrow> tree_find tree d;
       if a = NULL then Some (NULL, Some t)
       else do {
         n \<leftarrow> nodes t a;
         (go, t) \<leftarrow> tree_unlink a n t;
         if \<not> go then Some (NULL, Some t)
         else do {
           t \<leftarrow> upd_node a (\<lambda>n. n\<lparr>father := NULL, nextsibling := NULL\<rparr>) t;
           t \<leftarrow> treenode_del a t;
           Some (a, Some t) } } })"

subsection \<open>Shape\<close>

fun shape :: "(addr \<Rightarrow> treenode option) \<Rightarrow> addr \<Rightarrow> addr tree \<Rightarrow> bool" where
  "shape st a Leaf \<longleftrightarrow> a = NULL"
| "shape st a (Node l n r) \<longleftrightarrow> a = n \<and> n \<noteq> NULL \<and>
     (case st n of None \<Rightarrow> False | Some nd \<Rightarrow> shape st (firstchild nd) l \<and> shape st (nextsibling nd) r)"

definition tree_inv :: "tree_t \<Rightarrow> addr tree \<Rightarrow> bool" where
  "tree_inv t s \<longleftrightarrow> shape (nodes t) (t_root t) s \<and> distinct (inorder s) \<and> t_size t = of_nat (size s)"

lemma shape_frame: "(\<And>x. x \<in> set_tree s \<Longrightarrow> st' x = st x) \<Longrightarrow> shape st' a s = shape st a s"
  by (induction s arbitrary: a) (auto split: option.splits)

lemma shape_fun_upd [simp]: "x \<notin> set_tree s \<Longrightarrow> shape (st(x := v)) a s = shape st a s"
  by (rule shape_frame) auto

lemma shape_null: "shape st a s \<Longrightarrow> a = NULL \<longleftrightarrow> s = Leaf"
  by (cases s) auto

lemma shape_not_null: "shape st a s \<Longrightarrow> NULL \<notin> set_tree s"
  by (induction s arbitrary: a) (auto split: option.splits)

lemma shape_live: "shape st a s \<Longrightarrow> x \<in> set_tree s \<Longrightarrow> st x \<noteq> None"
  by (induction s arbitrary: a) (auto split: option.splits)

lemma set_postorder: "set (postorder s) = set_tree s"
  by (induction s) auto

lemma shapeE:
  assumes "shape st a (Node l n r)"
  obtains nd where "a = n" "n \<noteq> NULL" "st n = Some nd" "shape st (firstchild nd) l" "shape st (nextsibling nd) r"
  using assms by (auto split: option.splits)

subsection \<open>Searching\<close>

definition first_match :: "tree_t \<Rightarrow> (addr \<Rightarrow> addr \<Rightarrow> int) \<Rightarrow> addr \<Rightarrow> addr list \<Rightarrow> addr" where
  "first_match t ff d xs = (case List.find (\<lambda>x. ff (data (the (nodes t x))) d = 0) xs of None \<Rightarrow> NULL | Some x \<Rightarrow> x)"

lemma find_append: "List.find P (xs @ ys) = (case List.find P xs of None \<Rightarrow> List.find P ys | Some x \<Rightarrow> Some x)"
  by (induction xs) auto

lemma treenode_find_shape:
  assumes "shape (nodes t) a s" and "find_func t = Some ff" and "d \<noteq> NULL"
  shows "treenode_find t a d = Some (first_match t ff d (preorder s))"
  using assms
proof (induction s arbitrary: a)
  case Leaf
  then show ?case by (subst treenode_find.simps) (simp add: first_match_def)
next
  case (Node l n r)
  from Node.prems(1) obtain nd where nd: "a = n" "n \<noteq> NULL" "nodes t n = Some nd"
    "shape (nodes t) (firstchild nd) l" "shape (nodes t) (nextsibling nd) r"
    by (rule shapeE)
  have l: "treenode_find t (firstchild nd) d = Some (first_match t ff d (preorder l))"
    and r: "treenode_find t (nextsibling nd) d = Some (first_match t ff d (preorder r))"
    using Node nd by auto
  have nz: "List.find P (preorder u) = Some x \<Longrightarrow> shape (nodes t) b u \<Longrightarrow> x \<noteq> NULL" for P u x b
    using shape_not_null [of "nodes t" b u] by (metis find_Some_iff nth_mem set_preorder)
  show ?case
    using nd Node.prems(2,3) l r nz [of _ l _ "firstchild nd"] shape_null [OF nd(4)] shape_null [OF nd(5)]
    by (subst treenode_find.simps) (auto simp: first_match_def find_append split: option.splits)
qed

subsection \<open>Freeing\<close>

definition free_data :: "tree_t \<Rightarrow> addr list \<Rightarrow> addr list" where
  "free_data t xs = (if free_func t then filter (\<lambda>d. d \<noteq> NULL) (map (\<lambda>x. data (the (nodes t x))) xs) else [])"

lemma free_data_cong:
  "free_func t' = free_func t \<Longrightarrow> (\<And>x. x \<in> set xs \<Longrightarrow> nodes t' x = nodes t x) \<Longrightarrow> free_data t' xs = free_data t xs"
  by (simp add: free_data_def cong: map_cong)

definition drop_nodes :: "tree_t \<Rightarrow> addr tree \<Rightarrow> tree_t" where
  "drop_nodes t s = t\<lparr>nodes := (nodes t) |` (- set_tree s), freed := freed t @ free_data t (postorder s)\<rparr>"

lemma restrict_UNIV [simp]: "m |` UNIV = m"
  by (rule ext) simp

lemma drop_nodes_Leaf [simp]: "drop_nodes t Leaf = t"
  by (simp add: drop_nodes_def free_data_def)

lemma drop_nodes_simps [simp]:
  "nodes (drop_nodes t s) = (nodes t) |` (- set_tree s)"
  "freed (drop_nodes t s) = freed t @ free_data t (postorder s)"
  "free_func (drop_nodes t s) = free_func t"
  by (simp_all add: drop_nodes_def)

lemma drop_nodes_twice:
  assumes "set_tree l \<inter> set_tree r = {}"
  shows "drop_nodes (drop_nodes t l) r = t\<lparr>nodes := (nodes t) |` (- (set_tree l \<union> set_tree r)),
    freed := freed t @ free_data t (postorder l) @ free_data t (postorder r)\<rparr>"
proof -
  have "free_data (drop_nodes t l) (postorder r) = free_data t (postorder r)"
    using assms by (intro free_data_cong) (auto simp: restrict_map_def set_postorder)
  then show ?thesis by (simp add: drop_nodes_def [of "drop_nodes t l"]) (simp add: drop_nodes_def)
qed

lemma treenode_free_shape:
  assumes "shape (nodes t) a s" and "distinct (inorder s)" and "s \<noteq> Leaf"
  shows "treenode_free a t = Some (drop_nodes t s)"
  using assms
proof (induction s arbitrary: a t)
  case (Node l n r)
  from Node.prems(1) obtain nd where nd: "a = n" "n \<noteq> NULL" "nodes t n = Some nd"
    "shape (nodes t) (firstchild nd) l" "shape (nodes t) (nextsibling nd) r"
    by (rule shapeE)
  have d: "distinct (inorder l)" "distinct (inorder r)" "n \<notin> set_tree l" "n \<notin> set_tree r"
    "set_tree l \<inter> set_tree r = {}"
    using Node.prems(2) by auto
  define t1 where "t1 = drop_nodes t l"
  define t2 where "t2 = drop_nodes t1 r"
  have 1: "(if firstchild nd \<noteq> NULL then treenode_free (firstchild nd) t else Some t) = Some t1"
    using Node.IH(1) [OF nd(4) d(1)] shape_null [OF nd(4)] by (cases "l = Leaf") (simp_all add: t1_def)
  have t1: "nodes t1 = (nodes t) |` (- set_tree l)" by (simp add: t1_def)
  have "shape (nodes t1) (nextsibling nd) r"
    using nd(5) d(5) by (subst shape_frame [of r _ "nodes t"]) (auto simp: t1 restrict_map_def)
  then have 2: "(if nextsibling nd \<noteq> NULL then treenode_free (nextsibling nd) t1 else Some t1) = Some t2"
    using Node.IH(2) [of t1 "nextsibling nd"] d(2) shape_null [OF nd(5)]
    by (cases "r = Leaf") (simp_all add: t2_def)
  have t2: "t2 = t\<lparr>nodes := (nodes t) |` (- (set_tree l \<union> set_tree r)),
      freed := freed t @ free_data t (postorder l) @ free_data t (postorder r)\<rparr>"
    unfolding t2_def t1_def by (rule drop_nodes_twice [OF d(5)])
  have n1: "nodes t1 n = Some nd" "nodes t2 n = Some nd" using nd d by (simp_all add: t1 t2)
  have "treenode_free a t = node_free n (if free_func t2 \<and> data nd \<noteq> NULL then data_free (data nd) t2 else t2)"
    using nd 1 2 n1 by (subst treenode_free.simps) (simp add: Let_def)
  also have "\<dots> = Some (drop_nodes t (Node l n r))"
    using n1 nd(3) by (auto simp: t2 node_free_def data_free_def drop_nodes_def free_data_def
        restrict_map_def fun_eq_iff)
  finally show ?case .
qed simp

subsection \<open>Inserting\<close>

text \<open>Putting \<open>c\<close> in front of the children of \<open>f\<close>, and behind them.\<close>

fun graft_first :: "addr \<Rightarrow> addr \<Rightarrow> addr tree \<Rightarrow> addr tree" where
  "graft_first f c Leaf = Leaf"
| "graft_first f c (Node l n r) =
    (if n = f then Node (Node Leaf c l) n r else Node (graft_first f c l) n (graft_first f c r))"

fun append_sibling :: "addr \<Rightarrow> addr tree \<Rightarrow> addr tree" where
  "append_sibling c Leaf = Node Leaf c Leaf"
| "append_sibling c (Node l n r) = Node l n (append_sibling c r)"

fun graft_end :: "addr \<Rightarrow> addr \<Rightarrow> addr tree \<Rightarrow> addr tree" where
  "graft_end f c Leaf = Leaf"
| "graft_end f c (Node l n r) =
    (if n = f then Node (append_sibling c l) n r else Node (graft_end f c l) n (graft_end f c r))"

fun sib_last :: "addr tree \<Rightarrow> addr" where
  "sib_last Leaf = NULL"
| "sib_last (Node l n r) = (if r = Leaf then n else sib_last r)"

lemma graft_first_id [simp]: "f \<notin> set_tree s \<Longrightarrow> graft_first f c s = s"
  by (induction s) auto

lemma graft_end_id [simp]: "f \<notin> set_tree s \<Longrightarrow> graft_end f c s = s"
  by (induction s) auto

lemma sib_last_in: "s \<noteq> Leaf \<Longrightarrow> sib_last s \<in> set_tree s"
  by (induction s) auto

lemma append_sibling_facts:
  "set_tree (append_sibling c s) = insert c (set_tree s)" "size (append_sibling c s) = size s + 1"
  "inorder (append_sibling c s) = inorder s @ [c]"
  by (induction s) auto

lemma graft_first_facts:
  assumes "f \<in> set_tree s" and "c \<notin> set_tree s" and "distinct (inorder s)"
  shows "size (graft_first f c s) = size s + 1 \<and> distinct (inorder (graft_first f c s)) \<and>
    set_tree (graft_first f c s) = insert c (set_tree s)"
  using assms
proof (induction s)
  case (Node l n r)
  consider "n = f" | "n \<noteq> f" "f \<in> set_tree l" "f \<notin> set_tree r" | "n \<noteq> f" "f \<notin> set_tree l" "f \<in> set_tree r"
    using Node.prems by auto
  then show ?case by cases (use Node in auto)
qed simp

lemma graft_end_facts:
  assumes "f \<in> set_tree s" and "c \<notin> set_tree s" and "distinct (inorder s)"
  shows "size (graft_end f c s) = size s + 1 \<and> distinct (inorder (graft_end f c s)) \<and>
    set_tree (graft_end f c s) = insert c (set_tree s)"
  using assms
proof (induction s)
  case (Node l n r)
  consider "n = f" | "n \<noteq> f" "f \<in> set_tree l" "f \<notin> set_tree r" | "n \<noteq> f" "f \<notin> set_tree l" "f \<in> set_tree r"
    using Node.prems by auto
  then show ?case by cases (use Node in \<open>auto simp: append_sibling_facts\<close>)
qed simp

lemma shape_frame2:
  "(\<And>x. x \<noteq> c \<Longrightarrow> x \<noteq> f \<Longrightarrow> st' x = st x) \<Longrightarrow> c \<notin> set_tree s \<Longrightarrow> f \<notin> set_tree s \<Longrightarrow> shape st' a s = shape st a s"
  by (rule shape_frame) metis

lemma shape_unique: "shape st a s \<Longrightarrow> shape st a s' \<Longrightarrow> s' = s"
proof (induction s arbitrary: a s')
  case (Node l n r)
  then show ?case by (cases s') (auto split: option.splits)
qed (metis shape_null shape.simps(1))

text \<open>The two ways a node gets a new first child, and a child list a new end.\<close>

lemma shape_graft_first:
  assumes "shape st a s" and "distinct (inorder s)" and "f \<in> set_tree s" and "c \<notin> set_tree s" and "c \<noteq> NULL"
    and "st f = Some nf" and "st' f = Some nf'" and "st' c = Some nc"
    and "firstchild nf' = c" and "nextsibling nf' = nextsibling nf"
    and "firstchild nc = NULL" and "nextsibling nc = firstchild nf"
    and frame: "\<And>x. x \<noteq> c \<Longrightarrow> x \<noteq> f \<Longrightarrow> st' x = st x"
  shows "shape st' a (graft_first f c s)"
  using assms(1-12)
proof (induction s arbitrary: a)
  case (Node l n r)
  from Node.prems(1) obtain nd where nd: "a = n" "n \<noteq> NULL" "st n = Some nd"
    "shape st (firstchild nd) l" "shape st (nextsibling nd) r" by (rule shapeE)
  note fr = shape_frame2 [of c f st' st, OF frame]
  consider "n = f" | "n \<noteq> f" "f \<in> set_tree l" "f \<notin> set_tree r" | "n \<noteq> f" "f \<notin> set_tree l" "f \<in> set_tree r"
    using Node.prems by auto
  then show ?case
  proof cases
    case 1
    then show ?thesis using Node.prems nd fr [of l] fr [of r] by auto
  next
    case 2
    then show ?thesis using Node.prems Node.IH(1) [OF nd(4)] nd fr [of r] frame [of n] by auto
  next
    case 3
    then show ?thesis using Node.prems Node.IH(2) [OF nd(5)] nd fr [of l] frame [of n] by auto
  qed
qed simp

lemma shape_append_sibling:
  assumes "shape st a s" and "distinct (inorder s)" and "s \<noteq> Leaf" and "c \<notin> set_tree s" and "c \<noteq> NULL"
    and "st e = Some ns" and "e = sib_last s" and "st' e = Some ns'" and "st' c = Some nc"
    and "firstchild ns' = firstchild ns" and "nextsibling ns' = c"
    and "firstchild nc = NULL" and "nextsibling nc = NULL"
    and frame: "\<And>x. x \<noteq> c \<Longrightarrow> x \<noteq> e \<Longrightarrow> st' x = st x"
  shows "shape st' a (append_sibling c s)"
  using assms(1-13)
proof (induction s arbitrary: a)
  case (Node l n r)
  from Node.prems(1) obtain nd where nd: "a = n" "n \<noteq> NULL" "st n = Some nd"
    "shape st (firstchild nd) l" "shape st (nextsibling nd) r" by (rule shapeE)
  note fr = shape_frame2 [of c e st' st, OF frame]
  show ?case
  proof (cases "r = Leaf")
    case True
    then show ?thesis using Node.prems nd fr [of l] by auto
  next
    case False
    then have "sib_last r \<in> set_tree r" by (rule sib_last_in)
    then have "e \<noteq> n" "e \<notin> set_tree l" using Node.prems False by auto
    then show ?thesis
      using Node.IH(2) [OF nd(5)] Node.prems nd False fr [of l] frame [of n] by auto
  qed
qed simp

lemma shape_graft_end:
  assumes "shape st a s" and "distinct (inorder s)" and "f \<in> set_tree s" and "c \<notin> set_tree s" and "c \<noteq> NULL"
    and "st f = Some nf" and "shape st (firstchild nf) cs" and "cs \<noteq> Leaf"
    and "st e = Some ns" and "e = sib_last cs" and "st' e = Some ns'" and "st' c = Some nc"
    and "firstchild ns' = firstchild ns" and "nextsibling ns' = c"
    and "firstchild nc = NULL" and "nextsibling nc = NULL"
    and frame: "\<And>x. x \<noteq> c \<Longrightarrow> x \<noteq> e \<Longrightarrow> st' x = st x"
  shows "shape st' a (graft_end f c s) \<and> e \<in> set_tree s"
  using assms(1-16)
proof (induction s arbitrary: a)
  case (Node l n r)
  from Node.prems(1) obtain nd where nd: "a = n" "n \<noteq> NULL" "st n = Some nd"
    "shape st (firstchild nd) l" "shape st (nextsibling nd) r" by (rule shapeE)
  note fr = shape_frame2 [of c e st' st, OF frame]
  consider "n = f" | "n \<noteq> f" "f \<in> set_tree l" "f \<notin> set_tree r" | "n \<noteq> f" "f \<notin> set_tree l" "f \<in> set_tree r"
    using Node.prems by auto
  then show ?case
  proof cases
    case 1
    then have cs: "cs = l" using nd Node.prems shape_unique by auto
    have e: "e \<in> set_tree l" using sib_last_in [OF \<open>cs \<noteq> Leaf\<close>] Node.prems cs by simp
    have "shape st' (firstchild nd) (append_sibling c l)"
      by (rule shape_append_sibling [OF nd(4)]) (use Node.prems cs frame in auto)
    moreover have "e \<noteq> n" "e \<notin> set_tree r" using e Node.prems(2) by auto
    ultimately show ?thesis using Node.prems nd 1 e fr [of r] frame [of n] by auto
  next
    case 2
    then have IH: "shape st' (firstchild nd) (graft_end f c l) \<and> e \<in> set_tree l"
      using Node.IH(1) [OF nd(4)] Node.prems by simp
    then have "e \<noteq> n" "e \<notin> set_tree r" using Node.prems(2) by auto
    then show ?thesis using Node.prems nd 2 IH fr [of r] frame [of n] by auto
  next
    case 3
    then have IH: "shape st' (nextsibling nd) (graft_end f c r) \<and> e \<in> set_tree r"
      using Node.IH(2) [OF nd(5)] Node.prems by simp
    then have "e \<noteq> n" "e \<notin> set_tree l" using Node.prems(2) by auto
    then show ?thesis using Node.prems nd 3 IH fr [of l] frame [of n] by auto
  qed
qed simp

lemma last_sibling_shape:
  assumes "shape (nodes t) a s" and "s \<noteq> Leaf"
  shows "last_sibling a t = Some (sib_last s)"
  using assms
proof (induction s arbitrary: a)
  case (Node l n r)
  from Node.prems(1) obtain nd where nd: "a = n" "n \<noteq> NULL" "nodes t n = Some nd"
    "shape (nodes t) (firstchild nd) l" "shape (nodes t) (nextsibling nd) r" by (rule shapeE)
  then show ?case
    using Node.IH(2) [OF nd(5)] shape_null [OF nd(5)] by (subst last_sibling.simps) auto
qed simp

lemma graft_end_no_children:
  assumes "shape st a s" and "distinct (inorder s)" and "st f = Some nf" and "firstchild nf = NULL"
  shows "graft_end f c s = graft_first f c s"
  using assms
proof (induction s arbitrary: a)
  case (Node l n r)
  from Node.prems(1) obtain nd where nd: "a = n" "n \<noteq> NULL" "st n = Some nd"
    "shape st (firstchild nd) l" "shape st (nextsibling nd) r" by (rule shapeE)
  then show ?case
    using Node.prems Node.IH(1) [OF nd(4)] Node.IH(2) [OF nd(5)] shape_null [OF nd(4)] by auto
qed simp

lemma shape_children: "shape st a s \<Longrightarrow> f \<in> set_tree s \<Longrightarrow> st f = Some nf \<Longrightarrow>
    \<exists>cs. shape st (firstchild nf) cs \<and> set_tree cs \<subseteq> set_tree s"
proof (induction s arbitrary: a)
  case (Node l n r)
  from Node.prems(1) obtain nd where nd: "a = n" "n \<noteq> NULL" "st n = Some nd"
    "shape st (firstchild nd) l" "shape st (nextsibling nd) r" by (rule shapeE)
  show ?case
    using Node.prems(2,3) nd Node.IH(1) [OF nd(4)] Node.IH(2) [OF nd(5)] by (fastforce dest: subsetD)
qed simp

lemma tree_add_first_ok:
  assumes inv: "tree_inv t s" and f: "fa \<in> set_tree s" and c: "nodes t c = None" "c \<noteq> NULL" and d: "d \<noteq> NULL"
  shows "\<exists>t'. tree_add_first c (Some t) fa d = Some (0, Some t') \<and> tree_inv t' (graft_first fa c s) \<and>
    (\<exists>n. nodes t' c = Some n \<and> father n = fa \<and> data n = d)"
proof -
  have sh: "shape (nodes t) (t_root t) s" and ds: "distinct (inorder s)" and sz: "t_size t = of_nat (size s)"
    using inv by (auto simp: tree_inv_def)
  have cn: "c \<notin> set_tree s" using shape_live [OF sh, of c] c by auto
  obtain nf where nf: "nodes t fa = Some nf" using shape_live [OF sh f] by auto
  have fa: "fa \<noteq> NULL" "fa \<noteq> c" using shape_not_null [OF sh] f cn by (metis, metis)
  define nc where "nc = (new_node t d)\<lparr>nextsibling := firstchild nf, father := fa\<rparr>"
  define st' where "st' = (nodes t)(c \<mapsto> nc, fa \<mapsto> nf\<lparr>firstchild := c\<rparr>)"
  define t' where "t' = t\<lparr>nodes := st', t_size := t_size t + 1\<rparr>"
  have nn: "nextsibling (new_node t d) = NULL" by (simp add: new_node_def)
  have run: "tree_add_first c (Some t) fa d = Some (0, Some t')"
    using fa c d nf nn by (cases "firstchild nf = NULL")
      (auto simp: tree_add_first_def upd_node_def t'_def st'_def nc_def Let_def new_node_def fun_upd_twist)
  have "shape st' (t_root t) (graft_first fa c s)"
    by (rule shape_graft_first [OF sh ds f cn c(2) nf, of st' "nf\<lparr>firstchild := c\<rparr>" nc])
      (use fa in \<open>auto simp: st'_def nc_def new_node_def\<close>)
  then have "tree_inv t' (graft_first fa c s)"
    using graft_first_facts [OF f cn ds] sz by (simp add: tree_inv_def t'_def)
  moreover have "nodes t' c = Some nc" using fa by (simp add: t'_def st'_def)
  ultimately show ?thesis using run by (auto simp: nc_def new_node_def)
qed

lemma tree_add_end_ok:
  assumes inv: "tree_inv t s" and f: "fa \<in> set_tree s" and c: "nodes t c = None" "c \<noteq> NULL" and d: "d \<noteq> NULL"
  shows "\<exists>t'. tree_add_end c (Some t) fa d = Some (0, Some t') \<and> tree_inv t' (graft_end fa c s) \<and>
    (\<exists>n. nodes t' c = Some n \<and> father n = fa \<and> data n = d)"
proof -
  have sh: "shape (nodes t) (t_root t) s" and ds: "distinct (inorder s)" and sz: "t_size t = of_nat (size s)"
    using inv by (auto simp: tree_inv_def)
  have cn: "c \<notin> set_tree s" using shape_live [OF sh, of c] c by auto
  obtain nf where nf: "nodes t fa = Some nf" using shape_live [OF sh f] by auto
  have fa: "fa \<noteq> NULL" "fa \<noteq> c" using shape_not_null [OF sh] f cn by (metis, metis)
  show ?thesis
  proof (cases "firstchild nf = NULL")
    case True
    have "tree_add_end c (Some t) fa d = tree_add_first c (Some t) fa d"
      using True nf fa c d by (simp add: tree_add_end_def tree_add_first_def Let_def)
    then show ?thesis
      using tree_add_first_ok [OF assms] graft_end_no_children [OF sh ds nf True, of c] by simp
  next
    case False
    obtain cs where cs: "shape (nodes t) (firstchild nf) cs" "set_tree cs \<subseteq> set_tree s"
      using shape_children [OF sh f nf] by auto
    then have ne: "cs \<noteq> Leaf" using False shape_null by auto
    define e where "e = sib_last cs"
    have e: "e \<in> set_tree cs" unfolding e_def by (rule sib_last_in [OF ne])
    then obtain ns where ns: "nodes t e = Some ns" using shape_live [OF cs(1)] by auto
    have ec: "e \<noteq> c" using e cs(2) cn by auto
    define nc where "nc = (new_node t d)\<lparr>father := fa\<rparr>"
    define st' where "st' = (nodes t)(c \<mapsto> nc, e \<mapsto> ns\<lparr>nextsibling := c\<rparr>)"
    define t' where "t' = t\<lparr>nodes := st', t_size := t_size t + 1\<rparr>"
    have "c \<notin> set_tree cs" using cs(2) cn by auto
    then have "last_sibling (firstchild nf) (t\<lparr>nodes := (nodes t)(c \<mapsto> new_node t d)\<rparr>) = Some e"
      using last_sibling_shape [of "t\<lparr>nodes := (nodes t)(c \<mapsto> new_node t d)\<rparr>" "firstchild nf" cs] cs(1) ne
      by (simp add: e_def)
    then have run: "tree_add_end c (Some t) fa d = Some (0, Some t')"
      using fa c d nf ns ec False
      by (auto simp: tree_add_end_def upd_node_def t'_def st'_def nc_def Let_def fun_upd_twist)
    have "shape st' (t_root t) (graft_end fa c s)"
      using shape_graft_end [OF sh ds f cn c(2) nf cs(1) ne ns e_def, of st' "ns\<lparr>nextsibling := c\<rparr>" nc] ec
      by (auto simp: st'_def nc_def new_node_def)
    then have "tree_inv t' (graft_end fa c s)"
      using graft_end_facts [OF f cn ds] sz by (simp add: tree_inv_def t'_def)
    moreover have "nodes t' c = Some nc" using ec by (simp add: t'_def st'_def)
    ultimately show ?thesis using run by (auto simp: nc_def new_node_def)
  qed
qed

subsection \<open>Properties\<close>

definition tree_sample :: tree_t where
  "tree_sample = \<lparr>t_magic = 0, t_size = 2, t_root = 10, find_func = Some (\<lambda>a b. int a - int b),
     print_func = True, free_func = True,
     nodes = [10 \<mapsto> \<lparr>magic = 0, father = 10, firstchild = 20, nextsibling = 0, data = 5\<rparr>,
              20 \<mapsto> \<lparr>magic = 0, father = 10, firstchild = 0, nextsibling = 0, data = 6\<rparr>],
     freed = []\<rparr>"

lemma tree_sample_inv: "tree_inv tree_sample (Node (Node Leaf 20 Leaf) 10 Leaf)"
  by (simp add: tree_inv_def tree_sample_def)

text \<open>
  C22: adding a fresh node below a node of the tree succeeds: \<^verbatim>\<open>tree_add_first\<close> makes it the first child and
  \<^verbatim>\<open>tree_add_end\<close> the last, every other node keeps its place, and the size grows by one.
\<close>

theorem tree_add_correct:
  assumes "tree_inv t s" and "fa \<in> set_tree s" and "nodes t c = None" and "c \<noteq> NULL" and "d \<noteq> NULL"
  shows "(\<exists>t'. tree_add_first c (Some t) fa d = Some (0, Some t') \<and> tree_inv t' (graft_first fa c s) \<and>
      (\<exists>n. nodes t' c = Some n \<and> father n = fa \<and> data n = d)) \<and>
    (\<exists>t'. tree_add_end c (Some t) fa d = Some (0, Some t') \<and> tree_inv t' (graft_end fa c s) \<and>
      (\<exists>n. nodes t' c = Some n \<and> father n = fa \<and> data n = d))"
  using tree_add_first_ok [OF assms] tree_add_end_ok [OF assms] by blast

theorem tree_add_correct_witness:
  "\<exists>t'. tree_add_end 30 (Some tree_sample) 10 7 = Some (0, Some t') \<and>
    tree_inv t' (Node (Node Leaf 20 (Node Leaf 30 Leaf)) 10 Leaf)"
  using tree_add_correct [OF tree_sample_inv, of 10 30 7] by (auto simp: tree_sample_def)

text \<open>
  \<^verbatim>\<open>tree_find\<close> returns the first node, in the order a node comes before its children and these before its
  siblings, whose data the comparison function finds equal, and \<open>NULL\<close> when there is none.
\<close>

theorem tree_find_correct:
  assumes "tree_inv t s" and "find_func t = Some ff" and "d \<noteq> NULL"
  shows "tree_find (Some t) d = Some (first_match t ff d (preorder s))"
  using assms treenode_find_shape [of t "t_root t" s ff d] by (simp add: tree_find_def tree_inv_def)

theorem tree_find_correct_witness: "tree_find (Some tree_sample) 6 = Some 20"
  using tree_find_correct [OF tree_sample_inv, of "\<lambda>a b. int a - int b" 6]
  by (simp add: tree_sample_def first_match_def)

text \<open>
  \<^verbatim>\<open>tree_free\<close> gives back every node of the tree exactly once and no other memory, and hands the data of
  every node to the free function, children and siblings before the node.
\<close>

theorem tree_free_correct:
  assumes "tree_inv t s"
  shows "tree_free (Some t) = Some (Some (t\<lparr>nodes := (nodes t) |` (- set_tree s),
    freed := freed t @ free_data t (postorder s)\<rparr>))"
proof (cases "s = Leaf")
  case True
  then have "t_root t = NULL" using assms by (simp add: tree_inv_def)
  then show ?thesis using True drop_nodes_Leaf [of t] by (simp add: tree_free_def drop_nodes_def)
next
  case False
  then have "treenode_free (t_root t) t = Some (drop_nodes t s)" "t_root t \<noteq> NULL"
    using assms treenode_free_shape [of t "t_root t" s] shape_null [of "nodes t" "t_root t" s]
    by (auto simp: tree_inv_def)
  then show ?thesis by (simp add: tree_free_def drop_nodes_def)
qed

theorem tree_free_correct_witness:
  "\<exists>t. tree_free (Some tree_sample) = Some (Some t) \<and> nodes t 10 = None \<and> nodes t 20 = None \<and> freed t = [6, 5]"
  using tree_free_correct [OF tree_sample_inv] by (simp add: tree_sample_def free_data_def)

end
