(* ===== verification/Certset.thy ===== *)
theory Certset
  imports Fz_Interfaces
begin

text \<open>
  Certificate sets, \<^verbatim>\<open>network/proxy/utils/certset.c\<close>.  The heap maps addresses to live objects; using an
  address without one is a fault.  The certificates linked into a ring list appear as the list
  of their addresses (what the ring macros do to that list is shown in theory Cblist).
  The PKCS12 file shares its bytes with the certificate (they are members of one union), so both are \<open>cs_cert\<close>.
  The calls into the SSL library are functions of the environment; the contexts it has given out
  and not got back are part of the heap.
\<close>

datatype cert_type = CERT_X509 | CERT_PKCS12

record certset =
  cs_name :: string
  cs_domain :: string
  cs_type :: cert_type
  cs_cert :: string
  cs_pkey :: string
  cs_intcalist :: "addr list"
  cs_nintca :: int
  cs_calist :: "addr list"
  cs_nca :: int
  cs_crl :: string
  cs_refcnt :: u32

record cert_heap =
  certsets :: "addr \<rightharpoonup> certset"
  cacerts :: "addr \<rightharpoonup> string"
  ctxs :: "addr set"

record ssl_env =
  ssl_ctx_alloc :: "int \<Rightarrow> addr"
  ssl_ctx_load_cert :: "addr \<Rightarrow> string \<Rightarrow> string \<Rightarrow> int"
  ssl_ctx_load_intmedcert :: "addr \<Rightarrow> string \<Rightarrow> int"
  ssl_ctx_load_cacert :: "addr \<Rightarrow> string \<Rightarrow> int"
  ssl_ctx_set_domain :: "addr \<Rightarrow> string \<Rightarrow> int"

definition SSL_SD_CLIENT :: int where "SSL_SD_CLIENT = 0"
definition SSL_SD_SERVER :: int where "SSL_SD_SERVER = 1"

definition ssl_ctx_free :: "addr \<Rightarrow> 'a cert_heap_scheme \<Rightarrow> 'a cert_heap_scheme option" where
  "ssl_ctx_free sc h = (if sc \<in> ctxs h then Some (h\<lparr>ctxs := ctxs h - {sc}\<rparr>) else None)"

text \<open>\<^verbatim>\<open>cacert_alloc\<close> does not check the result of \<^verbatim>\<open>calloc\<close>; paths are cut at \<open>PATH_MAX - 1\<close> = 4095.\<close>

definition cacert_alloc :: "addr \<Rightarrow> string option \<Rightarrow> 'a cert_heap_scheme \<Rightarrow> (addr \<times> 'a cert_heap_scheme) option" where
  "cacert_alloc m cafile h = (case cafile of None \<Rightarrow> Some (NULL, h) | Some f \<Rightarrow>
     if m = NULL then None else Some (m, h\<lparr>cacerts := (cacerts h)(m \<mapsto> take 4095 f)\<rparr>))"

definition cacert_free :: "addr \<Rightarrow> 'a cert_heap_scheme \<Rightarrow> (int \<times> 'a cert_heap_scheme) option" where
  "cacert_free a h = (if a = NULL then Some (- 1, h)
     else if cacerts h a = None then None else Some (0, h\<lparr>cacerts := (cacerts h)(a := None)\<rparr>))"

definition certset_alloc :: "addr \<Rightarrow> 'a cert_heap_scheme \<Rightarrow> addr \<times> 'a cert_heap_scheme" where
  "certset_alloc m h = (if m = NULL then (NULL, h)
     else (m, h\<lparr>certsets := (certsets h)(m \<mapsto> \<lparr>cs_name = [], cs_domain = [], cs_type = CERT_X509, cs_cert = [],
       cs_pkey = [], cs_intcalist = [], cs_nintca = 0, cs_calist = [], cs_nca = 0, cs_crl = [], cs_refcnt = 0\<rparr>)\<rparr>))"

definition certset_clone :: "addr \<Rightarrow> 'a cert_heap_scheme \<Rightarrow> (addr \<times> 'a cert_heap_scheme) option" where
  "certset_clone a h = (if a = NULL then Some (NULL, h) else do {
     c \<leftarrow> certsets h a;
     Some (a, h\<lparr>certsets := (certsets h)(a \<mapsto> c\<lparr>cs_refcnt := cs_refcnt c + 1\<rparr>)\<rparr>) })"

fun cacert_free_list :: "addr list \<Rightarrow> 'a cert_heap_scheme \<Rightarrow> 'a cert_heap_scheme option" where
  "cacert_free_list [] h = Some h"
| "cacert_free_list (a # as) h = do { (r, h) \<leftarrow> cacert_free a h; cacert_free_list as h }"

definition certset_free :: "addr \<Rightarrow> 'a cert_heap_scheme \<Rightarrow> (int \<times> 'a cert_heap_scheme) option" where
  "certset_free a h = (if a = NULL then Some (- 1, h) else do {
     c \<leftarrow> certsets h a;
     let h = h\<lparr>certsets := (certsets h)(a \<mapsto> c\<lparr>cs_refcnt := cs_refcnt c - 1\<rparr>)\<rparr>;
     if cs_refcnt c = 0 then do {
       h \<leftarrow> cacert_free_list (cs_intcalist c) h;
       h \<leftarrow> cacert_free_list (cs_calist c) h;
       Some (0, h\<lparr>certsets := (certsets h)(a := None)\<rparr>) }
     else Some (0, h) })"

text \<open>Loading a list of certificates; \<open>False\<close> at the first one that fails.\<close>

fun load_list :: "(string \<Rightarrow> int) \<Rightarrow> addr list \<Rightarrow> 'a cert_heap_scheme \<Rightarrow> bool option" where
  "load_list f [] h = Some True"
| "load_list f (a # as) h = do { p \<leftarrow> cacerts h a; if f p \<noteq> 0 then Some False else load_list f as h }"

definition certset_alloc_ctx ::
  "ssl_env \<Rightarrow> addr \<Rightarrow> int \<Rightarrow> 'a cert_heap_scheme \<Rightarrow> (addr \<times> 'a cert_heap_scheme) option" where
  "certset_alloc_ctx e a side h = (if a = NULL then Some (NULL, h) else do {
     c \<leftarrow> certsets h a;
     let sc = ssl_ctx_alloc e side;
     if sc = NULL then Some (NULL, h)
     else let h = h\<lparr>ctxs := insert sc (ctxs h)\<rparr> in
       if cs_type c = CERT_X509 \<and> ssl_ctx_load_cert e sc (cs_cert c) (cs_pkey c) \<noteq> 0
       then do { h \<leftarrow> ssl_ctx_free sc h; Some (NULL, h) }
       else do {
         ok \<leftarrow> load_list (ssl_ctx_load_intmedcert e sc) (cs_intcalist c) h;
         if \<not> ok then do { h \<leftarrow> ssl_ctx_free sc h; Some (NULL, h) }
         else do {
           ok \<leftarrow> load_list (ssl_ctx_load_cacert e sc) (cs_calist c) h;
           if \<not> ok then do { h \<leftarrow> ssl_ctx_free sc h; Some (NULL, h) }
           else if cs_domain c \<noteq> [] \<and> ssl_ctx_set_domain e sc (cs_domain c) \<noteq> 0
           then do { h \<leftarrow> ssl_ctx_free sc h; Some (NULL, h) }
           else Some (sc, h) } } })"

subsection \<open>Reference counting\<close>

definition cs_rc :: "'a cert_heap_scheme \<Rightarrow> addr \<Rightarrow> u32 option" where
  "cs_rc h a = (if a = NULL then None else map_option cs_refcnt (certsets h a))"

text \<open>The certificates of the set are live and distinct.\<close>

definition cs_ok :: "'a cert_heap_scheme \<Rightarrow> addr \<Rightarrow> bool" where
  "cs_ok h a \<longleftrightarrow> (\<forall>c. certsets h a = Some c \<longrightarrow> distinct (cs_intcalist c @ cs_calist c) \<and>
     (\<forall>x\<in>set (cs_intcalist c @ cs_calist c). x \<noteq> NULL \<and> cacerts h x \<noteq> None))"

lemma cacert_free_list_ok:
  "distinct as \<Longrightarrow> \<forall>x\<in>set as. x \<noteq> NULL \<and> cacerts h x \<noteq> None \<Longrightarrow>
     cacert_free_list as h = Some (h\<lparr>cacerts := (cacerts h) |` (- set as)\<rparr>)"
proof (induction as arbitrary: h)
  case Nil
  then show ?case by (simp add: restrict_map_def)
next
  case (Cons a as)
  let ?h = "h\<lparr>cacerts := (cacerts h)(a := None)\<rparr>"
  have eq: "?h\<lparr>cacerts := cacerts ?h |` (- set as)\<rparr> = h\<lparr>cacerts := cacerts h |` (- set (a # as))\<rparr>"
    by (simp add: restrict_map_def) (rule arg_cong [of _ _ "\<lambda>f. h\<lparr>cacerts := f\<rparr>"], auto)
  have "\<forall>x\<in>set as. x \<noteq> NULL \<and> cacerts ?h x \<noteq> None" using Cons.prems by auto
  from Cons.IH [OF _ this] have "cacert_free_list as ?h = Some (h\<lparr>cacerts := cacerts h |` (- set (a # as))\<rparr>)"
    unfolding eq using Cons.prems(1) by simp
  then show ?case using Cons.prems by (auto simp: cacert_free_def)
qed

lemma certset_free_last:
  assumes "cs_rc h a = Some 0" and "cs_ok h a"
  shows "\<exists>h'. certset_free a h = Some (0, h') \<and> cs_rc h' a = None"
proof -
  obtain c where c: "certsets h a = Some c" "a \<noteq> NULL" "cs_refcnt c = 0"
    using assms(1) by (auto simp: cs_rc_def split: if_splits)
  define h1 where "h1 = h\<lparr>certsets := (certsets h)(a \<mapsto> c\<lparr>cs_refcnt := cs_refcnt c - 1\<rparr>)\<rparr>"
  have l: "distinct (cs_intcalist c)" "distinct (cs_calist c)" "set (cs_intcalist c) \<inter> set (cs_calist c) = {}"
    "\<forall>x\<in>set (cs_intcalist c @ cs_calist c). x \<noteq> NULL \<and> cacerts h x \<noteq> None"
    using assms(2) c by (auto simp: cs_ok_def)
  define h2 where "h2 = h1\<lparr>cacerts := (cacerts h) |` (- set (cs_intcalist c))\<rparr>"
  have 1: "cacert_free_list (cs_intcalist c) h1 = Some h2"
    using cacert_free_list_ok [of "cs_intcalist c" h1] l by (auto simp: h1_def h2_def)
  have "\<forall>x\<in>set (cs_calist c). x \<noteq> NULL \<and> cacerts h2 x \<noteq> None"
    using l by (auto simp: h2_def restrict_map_def)
  from cacert_free_list_ok [OF l(2) this]
  show ?thesis using c 1 by (auto simp: certset_free_def cs_rc_def h1_def Let_def)
qed

interpretation cert: refcounted cs_rc certset_clone certset_free cs_ok
proof
  fix h :: "'a cert_heap_scheme" and a k
  assume rc: "cs_rc h a = Some k" and ok: "cs_ok h a"
  then obtain c where c: "certsets h a = Some c" "a \<noteq> NULL" "cs_refcnt c = k"
    by (auto simp: cs_rc_def split: if_splits)
  show "\<exists>h'. certset_clone a h = Some (a, h') \<and> cs_rc h' a = Some (k + 1) \<and> cs_ok h' a"
    using c ok by (simp add: certset_clone_def cs_rc_def cs_ok_def)
  show "\<exists>h'. certset_free a h = Some (0, h') \<and> cs_rc h' a = Some (k - 1) \<and> cs_ok h' a" if "k \<noteq> 0"
    using c ok that by (simp add: certset_free_def cs_rc_def cs_ok_def Let_def)
next
  show "cs_rc h a = Some 0 \<Longrightarrow> cs_ok h a \<Longrightarrow> \<exists>h'. certset_free a h = Some (0, h') \<and> cs_rc h' a = None"
    for h :: "'a cert_heap_scheme" and a
    by (rule certset_free_last)
qed

subsection \<open>No context is lost\<close>

lemma load_list_ok: "\<forall>x\<in>set as. cacerts h x \<noteq> None \<Longrightarrow> \<exists>b. load_list f as h = Some b"
  by (induction as) auto

lemma certset_alloc_ctx_ok:
  assumes "a \<noteq> NULL" and "certsets h a = Some c" and "cs_ok h a" and "ssl_ctx_alloc e side \<notin> ctxs h"
  shows "\<exists>sc h'. certset_alloc_ctx e a side h = Some (sc, h') \<and>
    h' = h\<lparr>ctxs := (if sc = NULL then ctxs h else insert sc (ctxs h))\<rparr> \<and> (sc = NULL \<or> sc = ssl_ctx_alloc e side)"
proof -
  let ?sc = "ssl_ctx_alloc e side" and ?h = "h\<lparr>ctxs := insert (ssl_ctx_alloc e side) (ctxs h)\<rparr>"
  have l: "\<forall>x\<in>set (cs_intcalist c). cacerts ?h x \<noteq> None" "\<forall>x\<in>set (cs_calist c). cacerts ?h x \<noteq> None"
    using assms(2,3) by (auto simp: cs_ok_def)
  obtain b1 where "load_list (ssl_ctx_load_intmedcert e ?sc) (cs_intcalist c) ?h = Some b1"
    using load_list_ok [OF l(1)] by blast
  moreover obtain b2 where "load_list (ssl_ctx_load_cacert e ?sc) (cs_calist c) ?h = Some b2"
    using load_list_ok [OF l(2)] by blast
  ultimately show ?thesis
    using assms by (auto simp: certset_alloc_ctx_def ssl_ctx_free_def Let_def)
qed

end
