(* ===== verification/Inet.thy ===== *)
theory Inet
  imports Fz_Prelude "HOL-Library.Char_ord"
begin

text \<open>
  What \<^verbatim>\<open>ip_addr.c\<close> uses of the C library, on a little-endian machine: the byte order of
  integers, the character classes, \<^verbatim>\<open>atoi\<close>, the \<open>%d\<close> and \<open>%x\<close> conversions, and
  \<^verbatim>\<open>inet_pton\<close> / \<^verbatim>\<open>inet_ntop\<close> for both address families.  A C string is the list of its
  characters before the terminator; an address is the list of its bytes in memory order.
  The main fact is that \<^verbatim>\<open>inet_pton\<close> reads back what \<^verbatim>\<open>inet_ntop\<close> prints for IPv4.
\<close>

unbundle bit_operations_syntax

subsection \<open>Byte order\<close>

text \<open>The value of a 32-bit integer stored as four bytes, lowest address first.\<close>

definition le32 :: "u8 list \<Rightarrow> u32" where
  "le32 bs = ucast (bs ! 0) OR push_bit 8 (ucast (bs ! 1)) OR
     push_bit 16 (ucast (bs ! 2)) OR push_bit 24 (ucast (bs ! 3))"

definition bytes32 :: "u32 \<Rightarrow> u8 list" where
  "bytes32 w = [ucast w, ucast (drop_bit 8 w), ucast (drop_bit 16 w), ucast (drop_bit 24 w)]"

definition ntohl :: "u32 \<Rightarrow> u32" where
  "ntohl w = le32 (rev (bytes32 w))"

abbreviation htonl :: "u32 \<Rightarrow> u32" where
  "htonl \<equiv> ntohl"

definition ntohs :: "u16 \<Rightarrow> u16" where
  "ntohs w = push_bit 8 w OR drop_bit 8 w"

abbreviation htons :: "u16 \<Rightarrow> u16" where
  "htons \<equiv> ntohs"

lemma length_bytes32 [simp]: "length (bytes32 w) = 4"
  by (simp add: bytes32_def)

lemma nat_less_4_cases: "(n::nat) < 4 \<Longrightarrow> n = 0 \<or> n = 1 \<or> n = 2 \<or> n = 3"
  by linarith

lemma bit_le32: "bit (le32 bs) n \<longleftrightarrow> n < 32 \<and> bit (bs ! (n div 8)) (n mod 8)"
proof (cases "n < 32")
  case True
  then have d: "n div 8 < 4" by simp
  have n: "n = 8 * (n div 8) + n mod 8" by simp
  define q r where "q = n div 8" and "r = n mod 8"
  have r: "r < 8" by (simp add: r_def)
  have eq: "n = 8 * q + r" by (simp add: q_def r_def)
  have b: "bit (w::u8) k \<Longrightarrow> k < 8" for w k
    using bit_imp_le_length [of w k] by simp
  from nat_less_4_cases [OF d] show ?thesis
    using r b by (fold q_def r_def) (auto simp: eq le32_def bit_simps dest: b)
next
  case False
  then show ?thesis
    using bit_imp_le_length [of "le32 bs" n] by auto
qed

lemma bit_bytes32: "i < 4 \<Longrightarrow> bit (bytes32 w ! i) k \<longleftrightarrow> k < 8 \<and> bit w (8 * i + k)"
  by (drule nat_less_4_cases) (auto simp: bytes32_def bit_simps)

lemma le32_bytes32 [simp]: "le32 (bytes32 w) = w"
proof (rule bit_eqI)
  fix n
  assume "possible_bit TYPE(u32) n"
  then have n: "n < 32" by simp
  then have "n div 8 < 4" by simp
  then show "bit (le32 (bytes32 w)) n = bit w n"
    using n by (simp add: bit_le32 bit_bytes32)
qed

lemma bytes32_le32 [simp]: "length bs = 4 \<Longrightarrow> bytes32 (le32 bs) = bs"
proof (rule nth_equalityI)
  fix i
  assume l: "length bs = 4" and "i < length (bytes32 (le32 bs))"
  then have i: "i < 4" by simp
  show "bytes32 (le32 bs) ! i = bs ! i"
  proof (rule bit_eqI)
    fix k
    assume "possible_bit TYPE(u8) k"
    then have k: "k < 8" by simp
    have "(8 * i + k) div 8 = i" "(8 * i + k) mod 8 = k" "8 * i + k < 32"
      using k i by auto
    then show "bit (bytes32 (le32 bs) ! i) k = bit (bs ! i) k"
      using i k by (simp add: bit_bytes32 bit_le32)
  qed
qed simp

lemma ntohl_ntohl [simp]: "ntohl (ntohl w) = w"
  by (simp add: ntohl_def)

lemma ntohl_eq_iff [simp]: "ntohl a = ntohl b \<longleftrightarrow> a = b"
  by (metis ntohl_ntohl)

lemma ntohs_ntohs [simp]: "ntohs (ntohs w) = w"
  by (rule bit_eqI) (auto simp: ntohs_def bit_simps)

subsection \<open>Characters and numbers\<close>

definition isdigit :: "char \<Rightarrow> bool" where
  "isdigit c \<longleftrightarrow> CHR ''0'' \<le> c \<and> c \<le> CHR ''9''"

definition isspace :: "char \<Rightarrow> bool" where
  "isspace c \<longleftrightarrow> c = CHR '' '' \<or> (CHR 0x09 \<le> c \<and> c \<le> CHR 0x0D)"

definition digit_val :: "char \<Rightarrow> nat" where
  "digit_val c = of_char c - 48"

definition digit_chr :: "nat \<Rightarrow> char" where
  "digit_chr d = char_of (if d < 10 then 48 + d else 87 + d)"

text \<open>\<open>%u\<close> (base 10) and \<open>%x\<close> (base 16).\<close>

fun print_num :: "nat \<Rightarrow> nat \<Rightarrow> string" where
  "print_num b n = (if b < 2 \<or> n < b then [digit_chr n]
     else print_num b (n div b) @ [digit_chr (n mod b)])"

declare print_num.simps [simp del]

definition print_int :: "int \<Rightarrow> string" where
  "print_int i = (if i < 0 then CHR ''-'' # print_num 10 (nat (- i)) else print_num 10 (nat i))"

text \<open>
  \<^verbatim>\<open>atoi\<close> is \<^verbatim>\<open>strtol\<close> (which saturates at the 64-bit range) converted to \<open>int\<close>.
\<close>

fun read_dec :: "nat \<Rightarrow> string \<Rightarrow> nat" where
  "read_dec n [] = n"
| "read_dec n (c # s) = (if isdigit c then read_dec (10 * n + digit_val c) s else n)"

definition atoi :: "string \<Rightarrow> int" where
  "atoi str = (let s = dropWhile isspace str;
       (neg, ds) = (case s of [] \<Rightarrow> (False, [])
          | c # t \<Rightarrow> if c = CHR ''-'' then (True, t) else if c = CHR ''+'' then (False, t) else (False, s));
       v = int (read_dec 0 ds);
       l = if neg then max (- (2 ^ 63)) (- v) else min (2 ^ 63 - 1) v
     in signed_take_bit 31 l)"

text \<open>\<^verbatim>\<open>strchr\<close>: the text before the character and the text from the character on.\<close>

definition strchr :: "string \<Rightarrow> char \<Rightarrow> (string \<times> string) option" where
  "strchr s c = (if c \<in> set s then Some (takeWhile (\<lambda>x. x \<noteq> c) s, dropWhile (\<lambda>x. x \<noteq> c) s) else None)"

subsection \<open>inet\_pton and inet\_ntop\<close>

definition AF_INET :: int where "AF_INET = 2"
definition AF_INET6 :: int where "AF_INET6 = 10"
definition INET_ADDRSTRLEN :: nat where "INET_ADDRSTRLEN = 16"
definition INET6_ADDRSTRLEN :: nat where "INET6_ADDRSTRLEN = 46"

text \<open>
  The dotted quad is read digit by digit: \<open>d\<close> holds the finished octets in reverse,
  \<open>cur\<close> the octet under construction, \<open>saw\<close> whether it has a digit, \<open>oct\<close> the octets begun.
\<close>

fun pton4_loop :: "string \<Rightarrow> u8 list \<Rightarrow> nat \<Rightarrow> bool \<Rightarrow> nat \<Rightarrow> u8 list option" where
  "pton4_loop [] d cur saw oct = (if oct < 4 then None else Some (rev (of_nat cur # d)))"
| "pton4_loop (c # s) d cur saw oct =
    (if isdigit c then
       if saw \<and> cur = 0 then None
       else if 255 < cur * 10 + digit_val c then None
       else if \<not> saw then
         if 4 < oct + 1 then None else pton4_loop s d (cur * 10 + digit_val c) True (oct + 1)
       else pton4_loop s d (cur * 10 + digit_val c) True oct
     else if c = CHR ''.'' \<and> saw then
       if oct = 4 then None else pton4_loop s (of_nat cur # d) 0 False oct
     else None)"

definition inet_pton4 :: "string \<Rightarrow> u8 list option" where
  "inet_pton4 s = pton4_loop s [] 0 False 0"

definition hex_val :: "char \<Rightarrow> nat option" where
  "hex_val c = (if isdigit c then Some (digit_val c)
     else if CHR ''a'' \<le> c \<and> c \<le> CHR ''f'' then Some (of_char c - 87)
     else if CHR ''A'' \<le> c \<and> c \<le> CHR ''F'' then Some (of_char c - 55)
     else None)"

definition be16 :: "nat \<Rightarrow> u8 list" where
  "be16 v = [of_nat (v div 256), of_nat (v mod 256)]"

text \<open>
  The colon form: \<open>tok\<close> is the text from the start of the current group, \<open>tp\<close> the bytes
  written, \<open>colonp\<close> where a double colon was seen, \<open>xd\<close> and \<open>val\<close> the digits and
  the value of the current group.
\<close>

fun pton6_loop ::
  "string \<Rightarrow> string \<Rightarrow> u8 list \<Rightarrow> nat option \<Rightarrow> nat \<Rightarrow> nat \<Rightarrow> (u8 list \<times> nat option \<times> nat \<times> nat) option" where
  "pton6_loop [] tok tp colonp xd val = Some (tp, colonp, xd, val)"
| "pton6_loop (c # s) tok tp colonp xd val =
    (case hex_val c of
       Some d \<Rightarrow> if xd = 4 then None else pton6_loop s tok tp colonp (xd + 1) (val * 16 + d)
     | None \<Rightarrow>
       if c = CHR '':'' then
         if xd = 0 then
           if colonp \<noteq> None then None else pton6_loop s s tp (Some (length tp)) xd val
         else if s = [] then None
         else if 16 < length tp + 2 then None
         else pton6_loop s s (tp @ be16 val) colonp 0 0
       else if c = CHR ''.'' \<and> length tp + 4 \<le> 16 then
         (case inet_pton4 tok of None \<Rightarrow> None | Some q \<Rightarrow> Some (tp @ q, colonp, 0, val))
       else None)"

definition inet_pton6 :: "string \<Rightarrow> u8 list option" where
  "inet_pton6 str = (if str = [] then None
     else if hd str = CHR '':'' \<and> (tl str = [] \<or> hd (tl str) \<noteq> CHR '':'') then None
     else let s = (if hd str = CHR '':'' then tl str else str) in
       case pton6_loop s s [] None 0 0 of None \<Rightarrow> None
       | Some (tp, colonp, xd, val) \<Rightarrow>
         if 0 < xd \<and> 16 < length tp + 2 then None
         else let tp = (if 0 < xd then tp @ be16 val else tp) in
           case colonp of
             None \<Rightarrow> if length tp = 16 then Some tp else None
           | Some k \<Rightarrow> if length tp = 16 then None
               else Some (take k tp @ replicate (16 - length tp) 0 @ drop k tp))"

definition inet_pton :: "int \<Rightarrow> string \<Rightarrow> u8 list option" where
  "inet_pton af s = (if af = AF_INET then inet_pton4 s else if af = AF_INET6 then inet_pton6 s else None)"

definition inet_ntop4 :: "u8 list \<Rightarrow> string" where
  "inet_ntop4 bs = print_num 10 (unat (bs ! 0)) @ ''.'' @ print_num 10 (unat (bs ! 1)) @ ''.'' @
     print_num 10 (unat (bs ! 2)) @ ''.'' @ print_num 10 (unat (bs ! 3))"

text \<open>The longest run of zero groups, as its start and length; the first one on a tie.\<close>

fun zero_runs :: "nat list \<Rightarrow> nat \<Rightarrow> (nat \<times> nat) option \<Rightarrow> (nat \<times> nat) option \<Rightarrow> (nat \<times> nat) option" where
  "zero_runs ws i best cur =
    (let close = (case cur of None \<Rightarrow> best
        | Some c \<Rightarrow> (case best of None \<Rightarrow> Some c | Some b \<Rightarrow> if snd b < snd c then Some c else Some b))
     in case ws of [] \<Rightarrow> close
     | w # ws' \<Rightarrow>
        if w = 0 then
          zero_runs ws' (i + 1) best (case cur of None \<Rightarrow> Some (i, 1) | Some (b, l) \<Rightarrow> Some (b, l + 1))
        else zero_runs ws' (i + 1) close None)"

declare zero_runs.simps [simp del]

definition groups6 :: "u8 list \<Rightarrow> nat list" where
  "groups6 bs = map (\<lambda>i. unat (bs ! (2 * i)) * 256 + unat (bs ! (2 * i + 1))) [0..<8]"

fun ntop6_loop :: "u8 list \<Rightarrow> nat list \<Rightarrow> (nat \<times> nat) option \<Rightarrow> nat \<Rightarrow> nat list \<Rightarrow> string" where
  "ntop6_loop bs ws best i [] = []"
| "ntop6_loop bs ws best i (w # rest) =
    (if best \<noteq> None \<and> fst (the best) \<le> i \<and> i < fst (the best) + snd (the best) then
       (if i = fst (the best) then '':'' else []) @ ntop6_loop bs ws best (i + 1) rest
     else (if i \<noteq> 0 then '':'' else []) @
       (if i = 6 \<and> best \<noteq> None \<and> fst (the best) = 0 \<and>
           (snd (the best) = 6 \<or> snd (the best) = 5 \<and> ws ! 5 = 65535)
        then inet_ntop4 (drop 12 bs)
        else print_num 16 w @ ntop6_loop bs ws best (i + 1) rest))"

definition inet_ntop6 :: "u8 list \<Rightarrow> string" where
  "inet_ntop6 bs = (let ws = groups6 bs;
       best = (case zero_runs ws 0 None None of None \<Rightarrow> None
         | Some (b, l) \<Rightarrow> if l < 2 then None else Some (b, l))
     in ntop6_loop bs ws best 0 ws @
       (if best \<noteq> None \<and> fst (the best) + snd (the best) = 8 then '':'' else []))"

text \<open>\<open>None\<close> when the text with its terminator does not fit in \<open>len\<close> bytes.\<close>

definition inet_ntop :: "int \<Rightarrow> u8 list \<Rightarrow> nat \<Rightarrow> string option" where
  "inet_ntop af bs len =
    (if af = AF_INET then (if len < length (inet_ntop4 bs) + 1 then None else Some (inet_ntop4 bs))
     else if af = AF_INET6 then (if len < length (inet_ntop6 bs) + 1 then None else Some (inet_ntop6 bs))
     else None)"

subsection \<open>Reading back what was printed\<close>

lemma digit_chr_10:
  assumes "d < 10"
  shows "isdigit (digit_chr d)" "digit_val (digit_chr d) = d"
proof -
  have "d \<in> {0, 1, 2, 3, 4, 5, 6, 7, 8, 9}" using assms by auto
  then show "isdigit (digit_chr d)" "digit_val (digit_chr d) = d"
    by (auto simp: digit_chr_def isdigit_def digit_val_def less_eq_char_def)
qed

lemma isdigit_not_special:
  "isdigit c \<Longrightarrow> c \<noteq> CHR ''.'' \<and> c \<noteq> CHR ''-'' \<and> c \<noteq> CHR ''+'' \<and> c \<noteq> CHR ''/'' \<and> c \<noteq> CHR '':'' \<and>
     c \<noteq> CHR ''['' \<and> c \<noteq> CHR '']'' \<and> c \<noteq> CHR 0x00 \<and> \<not> isspace c"
  by (auto simp: isdigit_def isspace_def less_eq_char_def)

lemma print_num_digits: "c \<in> set (print_num 10 n) \<Longrightarrow> isdigit c"
proof (induction n rule: less_induct)
  case (less n)
  then show ?case
    using print_num.simps [of 10 n] less.IH [of "n div 10"]
    by (cases "n < 10") (auto simp: digit_chr_10)
qed

lemma print_num_nonempty [simp]: "print_num b n \<noteq> []"
  by (subst print_num.simps) simp

lemma print_num_small: "n < 10 \<Longrightarrow> print_num 10 n = [digit_chr n]"
  by (subst print_num.simps) simp

lemma print_num_step: "10 \<le> n \<Longrightarrow> print_num 10 n = print_num 10 (n div 10) @ [digit_chr (n mod 10)]"
  by (subst print_num.simps) simp

lemma read_dec_stop: "(\<And>c t. s = c # t \<Longrightarrow> \<not> isdigit c) \<Longrightarrow> read_dec n s = n"
  by (cases s) auto

lemma read_dec_append:
  "(\<forall>c\<in>set xs. isdigit c) \<Longrightarrow> read_dec m (xs @ s) = read_dec (read_dec m xs) s"
  by (induction xs arbitrary: m) auto

lemma read_dec_print: "read_dec 0 (print_num 10 n) = n"
proof (induction n rule: less_induct)
  case (less n)
  show ?case
  proof (cases "n < 10")
    case True
    then show ?thesis by (simp add: print_num_small digit_chr_10)
  next
    case False
    then have "read_dec 0 (print_num 10 (n div 10)) = n div 10"
      using less.IH [of "n div 10"] by simp
    then show ?thesis using False
      by (simp add: print_num_step read_dec_append print_num_digits digit_chr_10)
  qed
qed

lemma atoi_digits:
  assumes "xs \<noteq> []" and "\<forall>c\<in>set xs. isdigit c" and "read_dec 0 xs < 2 ^ 31"
  shows "atoi xs = int (read_dec 0 xs)"
proof -
  obtain c t where xs: "xs = c # t" using assms(1) by (cases xs) auto
  then have c: "isdigit c" using assms(2) by simp
  have b: "read_dec (digit_val c) t < 2 ^ 31" using assms(3) c xs by simp
  have "signed_take_bit 31 (int (read_dec (digit_val c) t)) = int (read_dec (digit_val c) t)"
    by (rule signed_take_bit_int_eq_self) (use b in auto)
  then show ?thesis
    using c b isdigit_not_special [OF c] by (simp add: atoi_def xs min_def)
qed

lemma atoi_print_num: "n < 2 ^ 31 \<Longrightarrow> atoi (print_num 10 n) = int n"
  using atoi_digits [of "print_num 10 n"] print_num_digits by (simp add: read_dec_print)

text \<open>One octet of a dotted quad.\<close>

lemma pton4_octet:
  assumes "n < 256" and "oct < 4"
  shows "pton4_loop (print_num 10 n @ s) d 0 False oct = pton4_loop s d n True (oct + 1)"
proof -
  consider "n < 10" | "10 \<le> n" "n < 100" | "100 \<le> n" by linarith
  then show ?thesis
  proof cases
    case 1
    then show ?thesis using assms by (simp add: print_num_small digit_chr_10)
  next
    case 2
    then have "0 < n div 10" "n div 10 < 10" by auto
    then show ?thesis using assms 2
      by (simp add: print_num_step print_num_small digit_chr_10)
  next
    case 3
    define h where "h = n div 10"
    have h: "10 \<le> h" "h div 10 < 10" "0 < h div 10" "h < 100"
      using 3 assms(1) by (auto simp: h_def)
    have n: "10 \<le> n" "h * 10 + n mod 10 = n" using 3 by (auto simp: h_def)
    have hh: "h div 10 * 10 + h mod 10 = h" by simp
    have l: "\<not> 255 < h" "\<not> 255 < h div 10" using assms(1) by (simp_all add: h_def)
    have "pton4_loop (print_num 10 n @ s) d 0 False oct =
        pton4_loop (digit_chr (n mod 10) # s) d h True (oct + 1)"
      using assms h hh l n(1)
      by (simp add: print_num_step [of n, folded h_def] print_num_step [of h] print_num_small digit_chr_10)
    also have "\<dots> = pton4_loop s d n True (oct + 1)"
      using assms h n by (simp add: digit_chr_10)
    finally show ?thesis .
  qed
qed

lemma isdigit_dot [simp]: "\<not> isdigit (CHR ''.'')"
  by (simp add: isdigit_def less_eq_char_def)

lemma of_nat_unat_u8 [simp]: "(of_nat (unat (w :: u8)) :: u8) = w"
  by simp

lemma inet_pton4_ntop4: "length bs = 4 \<Longrightarrow> inet_pton4 (inet_ntop4 bs) = Some bs"
proof -
  assume l: "length bs = 4"
  have o: "pton4_loop (print_num 10 (unat w) @ s) d 0 False k = pton4_loop s d (unat w) True (k + 1)"
    if "k < 4" for w :: u8 and s d k
    using pton4_octet [of "unat w" k s d] unat_u8_less [of w] that by simp
  have bs: "bs = [bs ! 0, bs ! 1, bs ! 2, bs ! 3]"
    using l by (intro nth_equalityI) (auto dest!: nat_less_4_cases)
  have "inet_pton4 (inet_ntop4 bs) = Some [bs ! 0, bs ! 1, bs ! 2, bs ! 3]"
    using o [of 3 "bs ! 3" "[]"]
    by (simp add: inet_pton4_def inet_ntop4_def o numeral_3_eq_3)
  then show ?thesis using bs by simp
qed

text \<open>The characters of a dotted quad and its length.\<close>

lemma print_num_u8_length: "length (print_num 10 (unat (w :: u8))) \<le> 3"
proof -
  have "unat w < 256" using unat_u8_less [of w] by simp
  then consider "unat w < 10" | "10 \<le> unat w" "unat w div 10 < 10"
    | "10 \<le> unat w" "10 \<le> unat w div 10" "unat w div 10 div 10 < 10"
    by linarith
  then show ?thesis
    by cases (simp_all add: print_num_step [of "unat w"] print_num_step [of "unat w div 10"]
        print_num_small del: div_mult2_eq)
qed

lemma inet_ntop4_length: "length (inet_ntop4 bs) \<le> 15"
  using print_num_u8_length [of "bs ! 0"] print_num_u8_length [of "bs ! 1"]
    print_num_u8_length [of "bs ! 2"] print_num_u8_length [of "bs ! 3"]
  by (simp add: inet_ntop4_def)

lemma inet_ntop4_chars: "c \<in> set (inet_ntop4 bs) \<Longrightarrow> isdigit c \<or> c = CHR ''.''"
  by (auto simp: inet_ntop4_def dest: print_num_digits)

lemma inet_ntop4_not_special:
  "CHR ''-'' \<notin> set (inet_ntop4 bs)" "CHR ''/'' \<notin> set (inet_ntop4 bs)" "CHR '':'' \<notin> set (inet_ntop4 bs)"
  "CHR '']'' \<notin> set (inet_ntop4 bs)" "CHR 0x00 \<notin> set (inet_ntop4 bs)"
  using inet_ntop4_chars [of _ bs] isdigit_not_special by fastforce+

lemma inet_ntop4_nonempty [simp]: "inet_ntop4 bs \<noteq> []"
  by (simp add: inet_ntop4_def)

lemma strchr_none [simp]: "c \<notin> set s \<Longrightarrow> strchr s c = None"
  by (simp add: strchr_def)

lemma strchr_split: "c \<notin> set a \<Longrightarrow> strchr (a @ c # b) c = Some (a, c # b)"
  by (auto simp: strchr_def takeWhile_tail dropWhile_append3)

end
