(* ===== verification/Ip_addr.thy ===== *)
theory Ip_addr
  imports Inet
begin

text \<open>
  The address library \<^verbatim>\<open>network/netutil/ip_addr.c\<close>: IPv4 and IPv6 addresses, addresses with a
  netmask and addresses with a port.  The three structures share their head
  (\<^verbatim>\<open>IP_COMMON_STRUCT\<close>), so \<^verbatim>\<open>ip_mask\<close> and \<^verbatim>\<open>ip_port\<close> extend the record of \<^verbatim>\<open>ip_addr\<close>, and a
  function the code calls through a pointer cast takes any extension.  The union \<open>_addr\<close>
  is its 16 bytes in memory order; the IPv4 view is the first four.

  A pointer argument is an \<open>option\<close> (\<open>None\<close> is \<open>NULL\<close>); a result of type \<open>option\<close> whose
  \<open>None\<close> is a fault is an access outside an array.  Text a function writes to a buffer of
  the caller is its result; the \<open>None\<close> of such a result is the \<open>NULL\<close> it returns.
\<close>

record ip_addr =
  family :: int
  addr_bytes :: "u8 list"

record ip_mask = ip_addr +
  cidr :: u32

record ip_port = ip_addr +
  port :: u16

definition ip_wf :: "'a ip_addr_scheme \<Rightarrow> bool" where
  "ip_wf ip \<longleftrightarrow> length (addr_bytes ip) = 16"

definition IP_STR_LEN :: nat where "IP_STR_LEN = 128"

text \<open>The IPv4 view and the 32-bit words of the union.\<close>

definition s_addr :: "'a ip_addr_scheme \<Rightarrow> u32" where
  "s_addr ip = le32 (take 4 (addr_bytes ip))"

definition set_s_addr :: "u32 \<Rightarrow> 'a ip_addr_scheme \<Rightarrow> 'a ip_addr_scheme" where
  "set_s_addr w ip = ip\<lparr>addr_bytes := bytes32 w @ drop 4 (addr_bytes ip)\<rparr>"

definition s6_addr32 :: "u8 list \<Rightarrow> nat \<Rightarrow> u32" where
  "s6_addr32 bs i = le32 (take 4 (drop (4 * i) bs))"

definition IP_ADDR_SET_V4 :: "'a ip_addr_scheme \<Rightarrow> u32 \<Rightarrow> 'a ip_addr_scheme" where
  "IP_ADDR_SET_V4 ip val = set_s_addr val (ip\<lparr>family := AF_INET\<rparr>)"

definition IP_ADDR_IS_V4MAPPED :: "'a ip_addr_scheme \<Rightarrow> bool" where
  "IP_ADDR_IS_V4MAPPED ip \<longleftrightarrow> family ip = AF_INET6 \<and>
     (let w = s6_addr32 (addr_bytes ip) in
       (w 0 = 0 \<and> w 1 = 0 \<and> w 2 = htonl 0xffff) \<or>
       (w 0 = 0 \<and> w 1 = 0 \<and> w 2 = 0 \<and> 1 < ntohl (w 3)))"

definition IP_MASK_CIDR_IS_VALID :: "ip_mask \<Rightarrow> bool" where
  "IP_MASK_CIDR_IS_VALID mk \<longleftrightarrow>
     (family mk = AF_INET \<and> cidr mk < 33) \<or> (family mk = AF_INET6 \<and> cidr mk < 129)"

definition IP_PORT_SET_V4 :: "ip_port \<Rightarrow> u32 \<Rightarrow> u16 \<Rightarrow> ip_port" where
  "IP_PORT_SET_V4 ip v4 p = (set_s_addr v4 (ip\<lparr>family := AF_INET\<rparr>))\<lparr>port := p\<rparr>"

definition s_mask_partial :: "u8 list" where
  "s_mask_partial = [0x00, 0x80, 0xc0, 0xe0, 0xf0, 0xf8, 0xfc, 0xfe, 0xff]"

text \<open>\<^verbatim>\<open>memcmp\<close> on byte arrays; reading past the end of either is a fault.\<close>

fun memcmp_bytes :: "u8 list \<Rightarrow> u8 list \<Rightarrow> int" where
  "memcmp_bytes (x # xs) (y # ys) = (if x = y then memcmp_bytes xs ys else uint x - uint y)"
| "memcmp_bytes _ _ = 0"

definition memcmp_arr :: "u8 list \<Rightarrow> u8 list \<Rightarrow> nat \<Rightarrow> int option" where
  "memcmp_arr xs ys n =
    (if n \<le> length xs \<and> n \<le> length ys then Some (memcmp_bytes (take n xs) (take n ys)) else None)"

subsection \<open>Netmasks\<close>

text \<open>The byte operations of the two mask functions; an index outside the union is a fault.\<close>

definition and_byte :: "u8 list \<Rightarrow> nat \<Rightarrow> u8 \<Rightarrow> u8 list option" where
  "and_byte bs i m = (if i < length bs then Some (bs[i := bs ! i AND m]) else None)"

definition zero_from :: "u8 list \<Rightarrow> nat \<Rightarrow> u8 list" where
  "zero_from bs i = map (\<lambda>j. if i \<le> j \<and> j < 16 then 0 else bs ! j) [0..<length bs]"

definition apply_mask_bytes :: "u8 list \<Rightarrow> int \<Rightarrow> u8 list option" where
  "apply_mask_bytes bs n =
    (let whole = nat (n div 8); partial = nat (n mod 8) in
     if partial \<noteq> 0 then
       do { bs \<leftarrow> and_byte bs (whole + 1) (s_mask_partial ! partial);
            Some (zero_from bs (whole + 1)) }
     else Some (zero_from bs whole))"

definition ip4_apply_mask :: "u8 list \<Rightarrow> int \<Rightarrow> (int \<times> u8 list) option" where
  "ip4_apply_mask bs n =
    (if n < 1 \<or> n > 31 then Some (- 1, bs)
     else do { bs \<leftarrow> apply_mask_bytes bs n; Some (0, bs) })"

definition ip6_apply_mask :: "u8 list \<Rightarrow> int \<Rightarrow> (int \<times> u8 list) option" where
  "ip6_apply_mask bs n =
    (if n < 1 \<or> n > 128 then Some (- 1, bs)
     else do { bs \<leftarrow> apply_mask_bytes bs n; Some (0, bs) })"

definition ip4_cidr_to_mask :: "int \<Rightarrow> u32" where
  "ip4_cidr_to_mask n =
    (if n \<le> 0 \<or> n > 32 then 0 else htonl (NOT (push_bit (nat (32 - n)) 1 - 1)))"

function low_bit_from :: "u32 \<Rightarrow> nat \<Rightarrow> nat" where
  "low_bit_from m i = (if i < 32 then if m AND push_bit i 1 \<noteq> 0 then i else low_bit_from m (i + 1) else i)"
  by auto
termination
  by (relation "measure (\<lambda>(m, i). 32 - i)") auto

declare low_bit_from.simps [simp del]

definition ip4_mask_to_cidr :: "u32 \<Rightarrow> int" where
  "ip4_mask_to_cidr m = 32 - int (low_bit_from (ntohl m) 0)"

subsection \<open>IPv4 addresses\<close>

definition ip4_from_str :: "u32 option \<Rightarrow> string option \<Rightarrow> int \<times> u32 option" where
  "ip4_from_str ip str = (case (ip, str) of
       (Some v, Some s) \<Rightarrow> (case inet_pton AF_INET s of
            Some bs \<Rightarrow> (0, Some (le32 bs))
          | None \<Rightarrow> (- 1, Some v))
     | _ \<Rightarrow> (- 1, ip))"

definition ip4_to_str :: "u32 \<Rightarrow> addr \<Rightarrow> nat \<Rightarrow> string option" where
  "ip4_to_str ip buf len = (if buf = NULL \<or> len < INET_ADDRSTRLEN then None
     else inet_ntop AF_INET (bytes32 ip) len)"

definition ip4_in_range :: "u32 \<Rightarrow> u32 \<Rightarrow> u32 \<Rightarrow> int" where
  "ip4_in_range ip bg en =
    (let ip = ntohl ip; bg = ntohl bg; en = ntohl en in of_bool (bg \<le> ip \<and> ip \<le> en))"

fun or_low_bits :: "nat \<Rightarrow> u32 \<Rightarrow> u32" where
  "or_low_bits 0 e = e"
| "or_low_bits (Suc c) e = or_low_bits c (e OR push_bit c 1)"

text \<open>The value a failed or successful \<^verbatim>\<open>ip4_from_str(&v, s)\<close> leaves in \<open>v\<close>.\<close>

definition ip4_parse_into :: "u32 \<Rightarrow> string \<Rightarrow> u32" where
  "ip4_parse_into v s = the (snd (ip4_from_str (Some v) (Some s)))"

definition ip4_match_subnet :: "u32 \<Rightarrow> u32 \<Rightarrow> int \<Rightarrow> int" where
  "ip4_match_subnet ip val n =
    (if n \<le> 0 \<or> n \<ge> 32 then of_bool (val = ip)
     else let v = ntohl val in
       if drop_bit (nat n) (push_bit (nat n) v) \<noteq> 0 then of_bool (v = ntohl ip)
       else let c = nat (32 - n);
                bg = htonl (push_bit c (drop_bit c v));
                en = or_low_bits c (htonl v)
            in of_bool (ip4_in_range ip bg en \<noteq> 0))"

definition ip4_match_range :: "u32 \<Rightarrow> string option \<Rightarrow> int" where
  "ip4_match_range ip ip_or_range = (case ip_or_range of None \<Rightarrow> 0 | Some str \<Rightarrow>
     let rc = take (IP_STR_LEN - 1) str in
     case strchr rc (CHR ''-'') of
       None \<Rightarrow>
         (case strchr rc (CHR ''/'') of
            None \<Rightarrow> (case ip4_from_str (Some 0) (Some rc) of
                (r, v) \<Rightarrow> of_bool (r = 0 \<and> v = Some ip))
          | Some (host, rest) \<Rightarrow>
              let n = atoi (tl rest);
                  val = ip4_parse_into 0 host;
                  n = (if CHR ''.'' \<in> set (tl rest)
                       then ip4_mask_to_cidr (ip4_parse_into 0 (tl rest)) else n)
              in ip4_match_subnet ip val n)
     | Some (lo, rest) \<Rightarrow>
         let bg = (if lo = [] then 0 else ip4_parse_into 0 lo);
             en = (if tl rest = [] then 0xffffffff else ip4_parse_into 0 (tl rest))
         in of_bool (ip4_in_range ip bg en \<noteq> 0))"

definition ip4_is_zero :: "u32 \<Rightarrow> int" where
  "ip4_is_zero ip = of_bool (ip = 0)"

definition ip4_is_loopback :: "u32 \<Rightarrow> int" where
  "ip4_is_loopback ip = (if ip AND 0x7f000000 = 0x7f000000 then 1 else 0)"

definition ip4_is_multicast :: "u32 \<Rightarrow> int" where
  "ip4_is_multicast ip = ip4_match_range ip (Some ''224.0.0.0-239.255.255.255'')"

definition ip4_is_linklocal :: "u32 \<Rightarrow> int" where
  "ip4_is_linklocal ip = (if ip AND 0xfe800000 = 0xfe80000 then 1 else 0)"

definition ip4_is_sitelocal :: "u32 \<Rightarrow> int" where
  "ip4_is_sitelocal ip =
    (if ip4_match_range ip (Some ''10.0.0.0-10.255.255.255'') \<noteq> 0 then 1
     else if ip4_match_range ip (Some ''172.16.0.0-172.31.255.255'') \<noteq> 0 then 1
     else if ip4_match_range ip (Some ''192.168.0.0-192.168.255.255'') \<noteq> 0 then 1
     else 0)"

subsection \<open>IPv6 addresses\<close>

definition ip6_from_str :: "u8 list option \<Rightarrow> string option \<Rightarrow> int \<times> u8 list option" where
  "ip6_from_str ip6 str = (case (ip6, str) of
       (Some b, Some s) \<Rightarrow> (case inet_pton AF_INET6 s of Some bs \<Rightarrow> (0, Some bs) | None \<Rightarrow> (- 1, Some b))
     | _ \<Rightarrow> (- 1, ip6))"

definition ip6_to_str :: "u8 list option \<Rightarrow> addr \<Rightarrow> nat \<Rightarrow> string option" where
  "ip6_to_str ip6 buf len = (case ip6 of None \<Rightarrow> None | Some bs \<Rightarrow>
     if buf = NULL \<or> len < INET6_ADDRSTRLEN then None else inet_ntop AF_INET6 bs len)"

definition ip6_is_netaddr :: "u8 list option \<Rightarrow> int \<Rightarrow> int option" where
  "ip6_is_netaddr ip6 n = (case ip6 of None \<Rightarrow> Some 0 | Some bs \<Rightarrow>
     if n < 0 \<or> n > 128 then Some 0
     else if n = 128 then Some 1
     else do {
       (r, net) \<leftarrow> ip6_apply_mask bs n;
       if r \<noteq> 0 then Some 0
       else do { d \<leftarrow> memcmp_arr bs net 16; Some (if d = 0 then 1 else 0) } })"

definition ip6_is_zero :: "u8 list option \<Rightarrow> int" where
  "ip6_is_zero ip6 = (case ip6 of None \<Rightarrow> 0 | Some bs \<Rightarrow>
     if s6_addr32 bs 0 = 0 \<and> s6_addr32 bs 1 = 0 \<and> s6_addr32 bs 2 = 0 \<and> s6_addr32 bs 3 = 0
     then 1 else 0)"

subsection \<open>Addresses of either family\<close>

definition str_family :: "string \<Rightarrow> int" where
  "str_family s = (if CHR '':'' \<in> set s then AF_INET6 else AF_INET)"

definition ip_addr_str_is_valid :: "string option \<Rightarrow> int" where
  "ip_addr_str_is_valid str = (case str of None \<Rightarrow> 0 | Some s \<Rightarrow>
     if \<exists>c\<in>set s. isspace c then 0
     else if inet_pton (str_family s) s \<noteq> None then 1 else 0)"

text \<open>The bytes \<^verbatim>\<open>inet_pton\<close> writes overlay the union from its start.\<close>

definition ip_addr_from_str :: "'a ip_addr_scheme option \<Rightarrow> string option \<Rightarrow> int \<times> 'a ip_addr_scheme option" where
  "ip_addr_from_str ip str = (case (ip, str) of
       (Some a, Some s) \<Rightarrow>
         let a = a\<lparr>family := str_family s\<rparr> in
         (case inet_pton (str_family s) s of
            Some bs \<Rightarrow> (0, Some (a\<lparr>addr_bytes := bs @ drop (length bs) (addr_bytes a)\<rparr>))
          | None \<Rightarrow> (- 1, Some a))
     | _ \<Rightarrow> (- 1, ip))"

definition ip_addr_to_str :: "'a ip_addr_scheme option \<Rightarrow> addr \<Rightarrow> nat \<Rightarrow> string option" where
  "ip_addr_to_str ip buf len = (case ip of None \<Rightarrow> None | Some a \<Rightarrow>
     if buf = NULL \<or> len < IP_STR_LEN then None else inet_ntop (family a) (addr_bytes a) len)"

definition ip_addr_apply_mask :: "'a ip_addr_scheme option \<Rightarrow> int \<Rightarrow> (int \<times> 'a ip_addr_scheme option) option" where
  "ip_addr_apply_mask ip n = (case ip of None \<Rightarrow> Some (- 1, None) | Some a \<Rightarrow>
     if family a = AF_INET then
       do { (r, bs) \<leftarrow> ip4_apply_mask (addr_bytes a) n; Some (r, Some (a\<lparr>addr_bytes := bs\<rparr>)) }
     else if family a = AF_INET6 then
       do { (r, bs) \<leftarrow> ip6_apply_mask (addr_bytes a) n; Some (r, Some (a\<lparr>addr_bytes := bs\<rparr>)) }
     else Some (- 1, Some a))"

text \<open>
  The socket calls are arguments: the return value of \<^verbatim>\<open>getpeername\<close> or \<^verbatim>\<open>getsockname\<close>, the
  family and the data bytes that follow it in the \<^verbatim>\<open>struct sockaddr\<close>.  That structure has 14
  of them; \<open>sin_addr\<close> starts at the third, \<open>sin6_addr\<close> at the seventh.
\<close>

record sockaddr =
  sa_family :: int
  sa_data :: "u8 list"

definition sock_field :: "sockaddr \<Rightarrow> nat \<Rightarrow> nat \<Rightarrow> u8 list option" where
  "sock_field sa off n = (if off + n \<le> length (sa_data sa) then Some (take n (drop off (sa_data sa))) else None)"

definition ip_addr_from_socket ::
  "(int \<Rightarrow> int \<times> sockaddr) \<Rightarrow> (int \<Rightarrow> int \<times> sockaddr) \<Rightarrow> 'a ip_addr_scheme option \<Rightarrow> int \<Rightarrow> bool \<Rightarrow>
     (int \<times> 'a ip_addr_scheme option) option" where
  "ip_addr_from_socket getpeername getsockname ip fd get_remote = (case ip of None \<Rightarrow> Some (- 1, None) | Some a \<Rightarrow>
     if fd < 0 then Some (- 1, Some a)
     else case (if get_remote then getpeername fd else getsockname fd) of (ret, sa) \<Rightarrow>
       if ret < 0 then Some (- 1, Some a)
       else if sa_family sa = AF_INET then
         do { q \<leftarrow> sock_field sa 2 4; Some (0, Some (set_s_addr (le32 q) (a\<lparr>family := AF_INET\<rparr>))) }
       else if sa_family sa = AF_INET6 then
         do { q \<leftarrow> sock_field sa 6 16; Some (0, Some (a\<lparr>family := AF_INET6, addr_bytes := q\<rparr>)) }
       else Some (- 1, Some a))"

text \<open>\<^verbatim>\<open>gethostbyname_r\<close>: its return value and, when it found the host, the first entry of
  \<open>h_addr_list\<close> read as a C string.\<close>

definition ip_addr_from_dns ::
  "(string \<Rightarrow> int \<times> string option) \<Rightarrow> 'a ip_addr_scheme option \<Rightarrow> string option \<Rightarrow> int \<times> 'a ip_addr_scheme option" where
  "ip_addr_from_dns gethostbyname ip name = (case (ip, name) of
       (Some a, Some nm) \<Rightarrow> (case gethostbyname nm of
           (ret, None) \<Rightarrow> (- 1, ip)
         | (ret, Some h) \<Rightarrow> if ret \<noteq> 0 then (- 1, ip) else ip_addr_from_str ip (Some h))
     | _ \<Rightarrow> (- 1, ip))"

definition ip_addr_v4_to_v6 :: "'a ip_addr_scheme option \<Rightarrow> 'b ip_addr_scheme option \<Rightarrow> int \<times> 'b ip_addr_scheme option" where
  "ip_addr_v4_to_v6 v4 v6 = (case (v4, v6) of
       (Some a, Some b) \<Rightarrow>
         if family a \<noteq> AF_INET then (- 1, v6)
         else (0, Some (b\<lparr>family := AF_INET6,
            addr_bytes := replicate 10 0 @ [0xff, 0xff] @ bytes32 (s_addr a)\<rparr>))
     | _ \<Rightarrow> (- 1, v6))"

definition ip_addr_v6_to_v4 :: "'a ip_addr_scheme option \<Rightarrow> 'b ip_addr_scheme option \<Rightarrow> int \<times> 'b ip_addr_scheme option" where
  "ip_addr_v6_to_v4 v6 v4 = (case (v6, v4) of
       (Some a, Some b) \<Rightarrow>
         if IP_ADDR_IS_V4MAPPED a
         then (0, Some (set_s_addr (s6_addr32 (addr_bytes a) 3) (b\<lparr>family := AF_INET\<rparr>)))
         else (- 1, v4)
     | _ \<Rightarrow> (- 1, v4))"

text \<open>
  Two equal pointers to an address compare equal because their contents do, so the early
  return on \<open>ip1 == ip2\<close> matters for two null pointers only.
\<close>

definition cmp_u32 :: "u32 \<Rightarrow> u32 \<Rightarrow> int" where
  "cmp_u32 lv rv = (if lv = rv then 0 else if lv < rv then - 1 else 1)"

definition ip_addr_compare :: "'a ip_addr_scheme option \<Rightarrow> 'b ip_addr_scheme option \<Rightarrow> int" where
  "ip_addr_compare ip1 ip2 = (case (ip1, ip2) of
       (Some _, None) \<Rightarrow> 1
     | (None, Some _) \<Rightarrow> - 1
     | (None, None) \<Rightarrow> 0
     | (Some a, Some b) \<Rightarrow>
        let v6 = \<lparr>family = 0, addr_bytes = replicate 16 0\<rparr> in
        if family a = family b then
          if family a = AF_INET then cmp_u32 (ntohl (s_addr a)) (ntohl (s_addr b))
          else memcmp_bytes (addr_bytes a) (addr_bytes b)
        else if family a = AF_INET then
          (case ip_addr_v4_to_v6 ip2 (Some v6) of (r, t) \<Rightarrow>
             if r \<noteq> 0 then - 1 else memcmp_bytes (addr_bytes (the t)) (addr_bytes b))
        else if family b = AF_INET then
          (case ip_addr_v4_to_v6 ip2 (Some v6) of (r, t) \<Rightarrow>
             if r \<noteq> 0 then - 1 else memcmp_bytes (addr_bytes a) (addr_bytes (the t)))
        else - 1)"

subsection \<open>Addresses with a netmask\<close>

text \<open>\<^verbatim>\<open>_ip_get_cidr\<close>; the local address it parses into starts with arbitrary contents, of which
  only what a successful parse wrote is used.\<close>

definition ip_get_cidr :: "string option \<Rightarrow> int" where
  "ip_get_cidr str = (case str of None \<Rightarrow> - 1 | Some s \<Rightarrow>
     if CHR ''.'' \<in> set s then
       (case ip_addr_from_str (Some \<lparr>family = 0, addr_bytes = replicate 16 0\<rparr>) (Some s) of (r, t) \<Rightarrow>
          if r = 0 \<and> family (the t) = AF_INET then ip4_mask_to_cidr (s_addr (the t)) else - 1)
     else atoi s)"

definition ip_mask_from_str :: "ip_mask option \<Rightarrow> string option \<Rightarrow> int \<times> ip_mask option" where
  "ip_mask_from_str mk str = (case (mk, str) of
       (Some m, Some s) \<Rightarrow>
         (case strchr s (CHR ''/'') of
            None \<Rightarrow> (- 1, Some m)
          | Some (pre, sep) \<Rightarrow>
              if tl sep = [] then (- 1, Some m)
              else let m = m\<lparr>cidr := of_int (ip_get_cidr (Some (tl sep)))\<rparr> in
                if length pre > INET6_ADDRSTRLEN then (- 1, Some m)
                else case ip_addr_from_str (Some m) (Some pre) of (r, t) \<Rightarrow>
                  if r \<noteq> 0 then (- 1, t)
                  else if \<not> IP_MASK_CIDR_IS_VALID (the t) then (- 1, t)
                  else (0, t))
     | _ \<Rightarrow> (- 1, mk))"

definition ip_mask_to_str :: "ip_mask option \<Rightarrow> addr \<Rightarrow> nat \<Rightarrow> string option" where
  "ip_mask_to_str mk buf len = (case mk of None \<Rightarrow> None | Some m \<Rightarrow>
     if buf = NULL \<or> len < IP_STR_LEN then None
     else case ip_addr_to_str mk 1 IP_STR_LEN of None \<Rightarrow> None
     | Some ip \<Rightarrow> if \<not> IP_MASK_CIDR_IS_VALID m then None
         else Some (take (len - 1) (ip @ ''/'' @ print_int (sint (cidr m)))))"

definition ip_mask_compare :: "ip_mask option \<Rightarrow> ip_mask option \<Rightarrow> int" where
  "ip_mask_compare m1 m2 = (case (m1, m2) of
       (Some _, None) \<Rightarrow> 1
     | (None, Some _) \<Rightarrow> - 1
     | (None, None) \<Rightarrow> 0
     | (Some a, Some b) \<Rightarrow>
        let ret = ip_addr_compare m1 m2 in if ret \<noteq> 0 then ret else sint (cidr a - cidr b))"

definition ip_mask_is_wildcard :: "ip_mask option \<Rightarrow> int" where
  "ip_mask_is_wildcard mk = (case mk of None \<Rightarrow> 0 | Some m \<Rightarrow>
     if cidr m \<noteq> 0 then 0
     else if family m = AF_INET then of_bool (s_addr m = 0)
     else if family m = AF_INET6 then
       of_bool (\<forall>i\<in>{0..<4}. s6_addr32 (addr_bytes m) i = 0)
     else 0)"

definition ip_mask_match :: "ip_mask option \<Rightarrow> 'a ip_addr_scheme option \<Rightarrow> int option" where
  "ip_mask_match mk ip = (case (mk, ip) of
       (Some m, Some a) \<Rightarrow>
         if family m \<noteq> family a then Some 0
         else if cidr m = 0 then Some 1
         else let whole = unat (cidr m) div 8; partial = unat (cidr m) mod 8 in do {
           d \<leftarrow> memcmp_arr (addr_bytes m) (addr_bytes a) whole;
           if d \<noteq> 0 then Some 0
           else if whole < 16 then
             (let pm = s_mask_partial ! partial in
              Some (of_bool (addr_bytes m ! whole AND pm = addr_bytes a ! whole AND pm)))
           else None }
     | _ \<Rightarrow> Some 0)"

subsection \<open>Addresses with a port\<close>

text \<open>The loops that look at the port; \<open>False\<close> is the early \<open>return -1\<close>.\<close>

fun port_scan6 :: "string \<Rightarrow> bool" where
  "port_scan6 [] = True"
| "port_scan6 (c # s) = (if isspace c then True else if \<not> isdigit c then False else port_scan6 s)"

fun port_scan4 :: "string \<Rightarrow> bool" where
  "port_scan4 [] = True"
| "port_scan4 (c # s) = (if \<not> isspace c then True else if \<not> isdigit c then False else port_scan4 s)"

definition set_port :: "string \<Rightarrow> ip_port \<Rightarrow> int \<times> ip_port option" where
  "set_port s t = (let p = atoi s in
     if p < 0 \<or> p > 65535 then (- 1, Some t) else (0, Some (t\<lparr>port := htons (of_int p)\<rparr>)))"

text \<open>
  The text is copied to a zeroed buffer of 128 bytes.  After a closing bracket at index
  \<open>i\<close> the port is read from index \<open>i + 2\<close>, a fault when that is outside the buffer; the text
  there is what follows the bracket and one more character, if anything.
\<close>

definition ip_port_from_str :: "ip_port option \<Rightarrow> string option \<Rightarrow> (int \<times> ip_port option) option" where
  "ip_port_from_str ip str = (case (ip, str) of
       (Some a, Some st) \<Rightarrow>
         let buf = take (IP_STR_LEN - 1) st in
         if buf \<noteq> [] \<and> hd buf = CHR ''['' then
           (case strchr buf (CHR '']'') of
              None \<Rightarrow> Some (- 1, ip)
            | Some (pre, rest) \<Rightarrow>
                (case ip_addr_from_str ip (Some (tl pre)) of (r, t) \<Rightarrow>
                   if r \<noteq> 0 then Some (- 1, t)
                   else if IP_STR_LEN \<le> length pre + 2 then None
                   else let p = drop 2 rest in
                     if \<not> port_scan6 p then Some (- 1, t) else Some (set_port p (the t))))
         else
           (case strchr buf (CHR '':'') of
              None \<Rightarrow> Some (- 1, ip)
            | Some (pre, rest) \<Rightarrow>
                (case ip_addr_from_str ip (Some pre) of (r, t) \<Rightarrow>
                   if r \<noteq> 0 then Some (- 1, t)
                   else let p = tl rest in
                     if \<not> port_scan4 p then Some (- 1, t) else Some (set_port p (the t))))
     | _ \<Rightarrow> Some (- 1, ip))"

definition ip_port_to_str :: "ip_port option \<Rightarrow> addr \<Rightarrow> nat \<Rightarrow> string option" where
  "ip_port_to_str ip buf len = (case ip of None \<Rightarrow> None | Some a \<Rightarrow>
     if buf = NULL \<or> len < IP_STR_LEN then None
     else case ip_addr_to_str ip 1 IP_STR_LEN of None \<Rightarrow> None
     | Some s \<Rightarrow> Some (take (len - 2) (''['' @ s @ '']:'' @ print_num 10 (unat (ntohs (port a))))))"

definition ip_port_compare :: "ip_port option \<Rightarrow> ip_port option \<Rightarrow> int" where
  "ip_port_compare p1 p2 = (case (p1, p2) of
       (Some _, None) \<Rightarrow> 1
     | (None, Some _) \<Rightarrow> - 1
     | (None, None) \<Rightarrow> 0
     | (Some a, Some b) \<Rightarrow>
        let ret = ip_addr_compare p1 p2 in
        if ret \<noteq> 0 then ret else uint (ntohs (port a)) - uint (ntohs (port b)))"

end
