(* ===== verification/Ip_addr_Correct.thy ===== *)
theory Ip_addr_Correct
  imports Ip_addr Fz_Interfaces
begin

text \<open>
  Properties of the address library: the netmask conversions invert each other, matching
  against a netmask compares exactly the masked bits, the comparison functions are orders on
  addresses of one family, IPv4 text forms read back, and the places where the code departs
  from what it means to do.
\<close>

subsection \<open>Netmask and prefix length\<close>

lemma bit_prefix_mask:
  "bit (NOT (push_bit k 1 - 1 :: u32)) i \<longleftrightarrow> k \<le> i \<and> i < 32"
proof -
  have "push_bit k 1 - 1 = (mask k :: u32)"
    by (simp add: mask_eq_exp_minus_1 push_bit_eq_mult)
  then show ?thesis by (auto simp: bit_simps)
qed

lemma low_bit_from_first:
  assumes "i \<le> k" and "k \<le> 32" and "\<And>j. i \<le> j \<Longrightarrow> j < k \<Longrightarrow> \<not> bit m j" and "k < 32 \<Longrightarrow> bit m k"
  shows "low_bit_from m i = k"
  using assms
proof (induction m i rule: low_bit_from.induct)
  case (1 m i)
  show ?case
  proof (cases "i = k")
    case True
    then show ?thesis using 1 by (subst low_bit_from.simps) (auto simp: and_exp_eq_0_iff_not_bit)
  next
    case False
    then have "\<not> bit m i" "i < 32" using 1 by auto
    then have "low_bit_from m (i + 1) = k"
      using 1 False by (intro "1.IH") (auto simp: and_exp_eq_0_iff_not_bit)
    then show ?thesis
      using \<open>\<not> bit m i\<close> \<open>i < 32\<close> by (subst low_bit_from.simps) (simp add: and_exp_eq_0_iff_not_bit)
  qed
qed

subsection \<open>Bits of an address\<close>

definition addr_bit :: "u8 list \<Rightarrow> nat \<Rightarrow> bool" where
  "addr_bit bs k = bit (bs ! (k div 8)) (7 - k mod 8)"

lemma memcmp_bytes_zero: "length xs = length ys \<Longrightarrow> memcmp_bytes xs ys = 0 \<longleftrightarrow> xs = ys"
  by (induction xs ys rule: memcmp_bytes.induct) (auto simp: word_uint_eq_iff)

lemma nat_less_8_cases: "(n::nat) < 8 \<Longrightarrow> n \<in> {0, 1, 2, 3, 4, 5, 6, 7}"
  by auto

lemma bit_partial_mask:
  assumes "p < 8"
  shows "bit (s_mask_partial ! p) j \<longleftrightarrow> 8 - p \<le> j \<and> j < 8"
proof -
  have "s_mask_partial ! p = NOT (mask (8 - p))"
    using nat_less_8_cases [OF assms] by (auto simp: s_mask_partial_def mask_eq_exp_minus_1)
  then show ?thesis by (auto simp: bit_simps)
qed

lemma and_partial_mask_eq:
  assumes "p < 8"
  shows "(x AND s_mask_partial ! p = y AND s_mask_partial ! p) \<longleftrightarrow> (\<forall>i<p. bit x (7 - i) = bit y (7 - i))"
proof
  assume eq: "x AND s_mask_partial ! p = y AND s_mask_partial ! p"
  show "\<forall>i<p. bit x (7 - i) = bit y (7 - i)"
  proof (intro allI impI)
    fix i assume "i < p"
    then have "bit (s_mask_partial ! p) (7 - i)" using assms by (auto simp: bit_partial_mask)
    then show "bit x (7 - i) = bit y (7 - i)"
      using arg_cong [OF eq, of "\<lambda>w. bit w (7 - i)"] by (simp add: bit_and_iff)
  qed
next
  assume all: "\<forall>i<p. bit x (7 - i) = bit y (7 - i)"
  show "x AND s_mask_partial ! p = y AND s_mask_partial ! p"
  proof (rule bit_eqI)
    fix j
    have "8 - p \<le> j \<Longrightarrow> j < 8 \<Longrightarrow> bit x j = bit y j"
      using all [rule_format, of "7 - j"] by simp
    then show "bit (x AND s_mask_partial ! p) j = bit (y AND s_mask_partial ! p) j"
      using assms by (auto simp: bit_and_iff bit_partial_mask)
  qed
qed

lemma byte_eq_bits: "(x :: u8) = y \<longleftrightarrow> (\<forall>i<8. bit x (7 - i) = bit y (7 - i))"
proof
  assume all: "\<forall>i<8. bit x (7 - i) = bit y (7 - i)"
  show "x = y"
  proof (rule bit_eqI)
    fix j assume "possible_bit TYPE(u8) j"
    then show "bit x j = bit y j" using all [rule_format, of "7 - j"] by simp
  qed
qed simp

lemma prefix_bits:
  assumes "length xs = 16" and "length ys = 16" and "w < 16" and "p < 8"
  shows "(\<forall>k<8 * w + p. addr_bit xs k = addr_bit ys k) \<longleftrightarrow>
    take w xs = take w ys \<and> (\<forall>i<p. bit (xs ! w) (7 - i) = bit (ys ! w) (7 - i))" (is "?L \<longleftrightarrow> ?R")
proof
  assume L: ?L
  have "xs ! j = ys ! j" if "j < w" for j
    unfolding byte_eq_bits
  proof (intro allI impI)
    fix i :: nat assume "i < 8"
    then show "bit (xs ! j) (7 - i) = bit (ys ! j) (7 - i)"
      using L [rule_format, of "8 * j + i"] that by (simp add: addr_bit_def)
  qed
  moreover have "bit (xs ! w) (7 - i) = bit (ys ! w) (7 - i)" if "i < p" for i
    using L [rule_format, of "8 * w + i"] that assms by (simp add: addr_bit_def)
  ultimately show ?R using assms by (auto intro: nth_take_lemma)
next
  assume R: ?R
  show ?L
  proof (intro allI impI)
    fix k assume k: "k < 8 * w + p"
    show "addr_bit xs k = addr_bit ys k"
    proof (cases "k div 8 < w")
      case True
      then have "xs ! (k div 8) = ys ! (k div 8)"
        using R nth_take [of "k div 8" w xs] nth_take [of "k div 8" w ys] by simp
      then show ?thesis by (simp add: addr_bit_def)
    next
      case False
      then have "k div 8 = w" using k assms by auto
      moreover from this have "k mod 8 < p" using k mult_div_mod_eq [of 8 k] by auto
      ultimately show ?thesis using R by (simp add: addr_bit_def)
    qed
  qed
qed

subsection \<open>The comparison functions are orders\<close>

lemma sgn_diff_swap: "sgn (b - a :: int) = - sgn (a - b)"
  by (simp add: sgn_if)

lemma memcmp_bytes_anti: "sgn (memcmp_bytes ys xs) = - sgn (memcmp_bytes xs ys)"
  by (induction xs ys rule: memcmp_bytes.induct) (auto intro: sgn_diff_swap)

lemma memcmp_bytes_le_trans:
  assumes "length xs = length ys" and "length ys = length zs"
    and "memcmp_bytes xs ys \<le> 0" and "memcmp_bytes ys zs \<le> 0"
  shows "memcmp_bytes xs zs \<le> 0"
  using assms
proof (induction xs ys zs rule: list_induct3)
  case (Cons x xs y ys z zs)
  then have "uint x \<le> uint y" "uint y \<le> uint z" by (auto split: if_splits)
  moreover have "uint x = uint y \<longleftrightarrow> x = y" "uint y = uint z \<longleftrightarrow> y = z" "uint x = uint z \<longleftrightarrow> x = z"
    by (simp_all add: word_uint_eq_iff)
  ultimately show ?case using Cons by (auto split: if_splits)
qed simp

lemma cmp_u32_anti: "sgn (cmp_u32 b a) = - sgn (cmp_u32 a b)"
  by (auto simp: cmp_u32_def)

lemma cmp_u32_le_trans: "cmp_u32 a b \<le> 0 \<Longrightarrow> cmp_u32 b c \<le> 0 \<Longrightarrow> cmp_u32 a c \<le> 0"
  by (auto simp: cmp_u32_def split: if_splits)

lemma ip_addr_compare_same_family:
  "family a = family b \<Longrightarrow> ip_addr_compare (Some a) (Some b) =
     (if family a = AF_INET then cmp_u32 (ntohl (s_addr a)) (ntohl (s_addr b))
      else memcmp_bytes (addr_bytes a) (addr_bytes b))"
  by (simp add: ip_addr_compare_def)

definition same_addr :: "'a ip_addr_scheme \<Rightarrow> 'b ip_addr_scheme \<Rightarrow> bool" where
  "same_addr a b \<longleftrightarrow> (if family a = AF_INET then s_addr a = s_addr b else addr_bytes a = addr_bytes b)"

interpretation ao: c_order "\<lambda>a. ip_wf a \<and> family a = f"
  "\<lambda>a b. ip_addr_compare (Some a) (Some b)" same_addr for f
proof
  fix a b :: "'a ip_addr_scheme"
  assume a: "ip_wf a \<and> family a = f" and b: "ip_wf b \<and> family b = f"
  then show "(ip_addr_compare (Some a) (Some b) = 0) = same_addr a b"
    by (auto simp: ip_addr_compare_same_family same_addr_def cmp_u32_def memcmp_bytes_zero ip_wf_def)
  show "sgn (ip_addr_compare (Some b) (Some a)) = - sgn (ip_addr_compare (Some a) (Some b))"
    using a b cmp_u32_anti [of "ntohl (s_addr b)" "ntohl (s_addr a)"]
      memcmp_bytes_anti [of "addr_bytes b" "addr_bytes a"]
    by (simp add: ip_addr_compare_same_family)
  fix c :: "'a ip_addr_scheme"
  assume "ip_wf c \<and> family c = f"
    and "ip_addr_compare (Some a) (Some b) \<le> 0" "ip_addr_compare (Some b) (Some c) \<le> 0"
  then show "ip_addr_compare (Some a) (Some c) \<le> 0"
    using a b by (auto simp: ip_addr_compare_same_family ip_wf_def intro: cmp_u32_le_trans
        memcmp_bytes_le_trans [of "addr_bytes a" "addr_bytes b"] split: if_splits)
qed

interpretation po: c_order_lex "\<lambda>a. ip_wf a \<and> family a = f"
  "\<lambda>a b. ip_addr_compare (Some a) (Some b)" same_addr "\<lambda>a. uint (ntohs (port a))" for f
  by unfold_locales

lemma ip_port_compare_lex:
  "ip_port_compare (Some a) (Some b) =
    (if ip_addr_compare (Some a) (Some b) \<noteq> 0 then ip_addr_compare (Some a) (Some b)
     else uint (ntohs (port a)) - uint (ntohs (port b)))"
  by (simp add: ip_port_compare_def)

lemma ntohs_eq_iff [simp]: "ntohs a = ntohs b \<longleftrightarrow> a = b"
  by (metis ntohs_ntohs)

text \<open>
  C16: on addresses of one family \<^verbatim>\<open>ip_port_compare\<close> is an order: it is 0 exactly on the same
  address with the same port, exchanging the arguments exchanges the sign, and it is transitive.
\<close>

theorem ip_port_compare_order:
  assumes "ip_wf a" and "ip_wf b" and "ip_wf c" and "family a = family b" and "family b = family c"
  shows "(ip_port_compare (Some a) (Some b) = 0 \<longleftrightarrow> same_addr a b \<and> port a = port b) \<and>
    sgn (ip_port_compare (Some b) (Some a)) = - sgn (ip_port_compare (Some a) (Some b)) \<and>
    (ip_port_compare (Some a) (Some b) \<le> 0 \<longrightarrow> ip_port_compare (Some b) (Some c) \<le> 0 \<longrightarrow>
       ip_port_compare (Some a) (Some c) \<le> 0)"
  using po.lex.zero_iff [of a "family c" b] po.lex.anti [of a "family c" b]
    po.lex.le_trans [of a "family c" b c] assms
  by (simp add: ip_port_compare_lex flip: word_uint_eq_iff)

theorem ip_port_compare_order_witness:
  "sgn (ip_port_compare (Some \<lparr>family = AF_INET, addr_bytes = [10,0,0,2] @ replicate 12 0, port = 80\<rparr>)
      (Some \<lparr>family = AF_INET, addr_bytes = [10,0,0,1] @ replicate 12 0, port = 81\<rparr>)) =
    - sgn (ip_port_compare (Some \<lparr>family = AF_INET, addr_bytes = [10,0,0,1] @ replicate 12 0, port = 81\<rparr>)
      (Some \<lparr>family = AF_INET, addr_bytes = [10,0,0,2] @ replicate 12 0, port = 80\<rparr>))"
  using ip_port_compare_order
    [of "\<lparr>family = AF_INET, addr_bytes = [10,0,0,1] @ replicate 12 0, port = 81\<rparr>"
        "\<lparr>family = AF_INET, addr_bytes = [10,0,0,2] @ replicate 12 0, port = 80\<rparr>"
        "\<lparr>family = AF_INET, addr_bytes = [10,0,0,2] @ replicate 12 0, port = 80\<rparr>"]
  by (simp add: ip_wf_def)

text \<open>
  Comparing an IPv4 address with an IPv6 address gives -1 whatever the addresses are, since the code
  converts the wrong operand; with the arguments exchanged the mapped form of the address compares equal.
\<close>

theorem ip_addr_compare_mixed:
  assumes "ip_wf a" and "family a = AF_INET"
    and "ip_addr_v4_to_v6 (Some a) (Some v) = (0, Some b)"
  shows "ip_addr_compare (Some a) (Some b) = - 1 \<and> ip_addr_compare (Some b) (Some a) = 0"
proof -
  have b: "family b = AF_INET6" "addr_bytes b = replicate 10 0 @ [0xff, 0xff] @ bytes32 (s_addr a)"
    using assms by (auto simp: ip_addr_v4_to_v6_def)
  then show ?thesis
    using assms(2) by (simp add: ip_addr_compare_def ip_addr_v4_to_v6_def AF_INET_def AF_INET6_def
        memcmp_bytes_zero)
qed

theorem ip_addr_compare_mixed_witness:
  "\<exists>b. ip_addr_compare (Some \<lparr>family = AF_INET, addr_bytes = [10,0,0,2] @ replicate 12 0\<rparr>) (Some b) = - 1 \<and>
    ip_addr_compare (Some (b :: ip_addr)) (Some \<lparr>family = AF_INET, addr_bytes = [10,0,0,2] @ replicate 12 0\<rparr>) = 0"
  using ip_addr_compare_mixed
    [of "\<lparr>family = AF_INET, addr_bytes = [10,0,0,2] @ replicate 12 0\<rparr>"
        "\<lparr>family = 0, addr_bytes = replicate 16 0\<rparr>"
        "\<lparr>family = AF_INET6, addr_bytes = replicate 10 0 @ [0xff, 0xff, 10, 0, 0, 2]\<rparr>"]
  by (auto simp: ip_wf_def ip_addr_v4_to_v6_def s_addr_def)

subsection \<open>Netmasks\<close>

text \<open>
  For every prefix length from 1 to 32 \<^verbatim>\<open>ip4_mask_to_cidr\<close> inverts \<^verbatim>\<open>ip4_cidr_to_mask\<close>,
  and in host byte order the mask has exactly the leading bits set.
\<close>

theorem ip4_cidr_mask_roundtrip:
  assumes "0 < n" and "n \<le> 32"
  shows "ip4_mask_to_cidr (ip4_cidr_to_mask n) = n \<and>
    (\<forall>i. bit (ntohl (ip4_cidr_to_mask n)) i \<longleftrightarrow> 32 - n \<le> int i \<and> i < 32)"
proof -
  have m: "ntohl (ip4_cidr_to_mask n) = NOT (push_bit (nat (32 - n)) 1 - 1)"
    using assms by (simp add: ip4_cidr_to_mask_def)
  have "low_bit_from (NOT (push_bit (nat (32 - n)) 1 - 1)) 0 = nat (32 - n)"
    by (rule low_bit_from_first) (use assms in \<open>auto simp only: bit_prefix_mask\<close>)
  then show ?thesis
    using assms by (auto simp only: ip4_mask_to_cidr_def m bit_prefix_mask)
qed

theorem ip4_cidr_mask_roundtrip_witness: "ip4_mask_to_cidr (ip4_cidr_to_mask 24) = 24"
  using ip4_cidr_mask_roundtrip [of 24] by simp



lemma zero_from_eq: "length bs = 16 \<Longrightarrow> k \<le> 16 \<Longrightarrow> zero_from bs k = take k bs @ replicate (16 - k) 0"
  by (rule nth_equalityI) (auto simp: zero_from_def nth_append)

lemma apply_mask_bytes_eq:
  assumes "length bs = 16" and "0 < n" and "n \<le> 120 \<or> n = 128"
  shows "apply_mask_bytes bs n =
    Some (take (nat ((n + 7) div 8)) bs @ replicate (16 - nat ((n + 7) div 8)) 0)"
proof (cases "n mod 8 = 0")
  case True
  then have "(n + 7) div 8 = n div 8" by presburger
  moreover have "nat (n div 8) \<le> 16" using assms(3) by linarith
  ultimately show ?thesis
    using True assms(1) by (simp add: apply_mask_bytes_def zero_from_eq)
next
  case False
  have "n \<noteq> 128" using False by auto
  then have "n \<le> 120" using assms(3) by simp
  then have d: "n div 8 \<le> 15" by linarith
  have "0 < n mod 8" using False pos_mod_sign [of 8 n] by linarith
  moreover have "n div 8 \<noteq> 15" using \<open>n \<le> 120\<close> mult_div_mod_eq [of 8 n] calculation by linarith
  moreover have "(n + 7) div 8 = n div 8 + 1" using False by presburger
  moreover have "0 \<le> n div 8" using assms(2) by simp
  ultimately have "(n + 7) div 8 = n div 8 + 1" "n div 8 < 15" "0 \<le> n div 8" "0 < n mod 8"
    using d by auto
  then have k: "nat ((n + 7) div 8) = nat (n div 8) + 1" "nat (n div 8) + 1 < 16" "0 < nat (n mod 8)"
    by auto
  show ?thesis
    using k assms zero_from_eq [of "bs[nat (n div 8) + 1 := x]" "nat (n div 8) + 1" for x]
    by (simp add: apply_mask_bytes_def and_byte_def Let_def)
qed

text \<open>
  \<^verbatim>\<open>ip_addr_apply_mask\<close> with a prefix length the family admits rounds it up to whole bytes: the byte
  the prefix ends in is kept entirely, because the code masks the byte after it and then clears
  that one.
\<close>

theorem ip_addr_apply_mask_rounds_up:
  assumes "ip_wf a" and "0 < n"
    and "family a = AF_INET \<and> n < 32 \<or> family a = AF_INET6 \<and> n \<le> 120"
  shows "ip_addr_apply_mask (Some a) n = Some (0, Some (a\<lparr>addr_bytes :=
    take (nat ((n + 7) div 8)) (addr_bytes a) @ replicate (16 - nat ((n + 7) div 8)) 0\<rparr>))"
  using assms apply_mask_bytes_eq [of "addr_bytes a" n]
  by (auto simp: ip_addr_apply_mask_def ip4_apply_mask_def ip6_apply_mask_def ip_wf_def
      AF_INET_def AF_INET6_def)

theorem ip_addr_apply_mask_rounds_up_witness:
  "ip_addr_apply_mask (Some \<lparr>family = AF_INET, addr_bytes = [10,1,15,7] @ replicate 12 0\<rparr>) 20 =
    Some (0, Some \<lparr>family = AF_INET, addr_bytes = [10,1,15,0] @ replicate 12 0\<rparr>)"
  using ip_addr_apply_mask_rounds_up
    [of "\<lparr>family = AF_INET, addr_bytes = [10,1,15,7] @ replicate 12 0\<rparr>" 20]
  by (simp add: ip_wf_def numeral_eq_Suc)

text \<open>
  Prefix lengths from 121 to 127 make \<^verbatim>\<open>ip6_is_netaddr\<close> and \<^verbatim>\<open>ip_addr_apply_mask\<close> write past
  the sixteen bytes of an IPv6 address.
\<close>

theorem ip6_mask_out_of_bounds:
  assumes "length bs = 16" and "120 < n" and "n < 128"
  shows "ip6_apply_mask bs n = None \<and> ip6_is_netaddr (Some bs) n = None"
proof -
  have "n div 8 = 15" "n mod 8 \<noteq> 0" "0 \<le> n mod 8" using assms by presburger+
  then have "apply_mask_bytes bs n = None"
    using assms by (simp add: apply_mask_bytes_def and_byte_def)
  then show ?thesis using assms by (simp add: ip6_is_netaddr_def ip6_apply_mask_def)
qed

theorem ip6_mask_out_of_bounds_witness: "ip6_is_netaddr (Some (replicate 16 0)) 124 = None"
  using ip6_mask_out_of_bounds [of "replicate 16 0" 124] by simp

subsection \<open>Text forms\<close>

text \<open>
  An IPv4 address converted to IPv6 by \<^verbatim>\<open>ip_addr_v4_to_v6\<close> is recognised as mapped and
  \<^verbatim>\<open>ip_addr_v6_to_v4\<close> gives the same IPv4 address back.
\<close>

theorem ip_addr_v4_v6_roundtrip:
  assumes "ip_wf a" and "family a = AF_INET" and "ip_wf t"
  shows "\<exists>b c. ip_addr_v4_to_v6 (Some a) (Some v) = (0, Some b) \<and> ip_wf b \<and>
    ip_addr_v6_to_v4 (Some b) (Some t) = (0, Some c) \<and> ip_wf c \<and> family c = AF_INET \<and> s_addr c = s_addr a"
proof -
  have "le32 [0, 0, 255, 255] = ntohl 0xffff" "le32 [0, 0, 0, 0] = 0"
    by (simp_all add: ntohl_def le32_def bytes32_def)
  then show ?thesis
    using assms by (simp add: ip_addr_v4_to_v6_def ip_addr_v6_to_v4_def IP_ADDR_IS_V4MAPPED_def
        s6_addr32_def ip_wf_def set_s_addr_def s_addr_def numeral_eq_Suc)
qed

theorem ip_addr_v4_v6_roundtrip_witness:
  "\<exists>b c. ip_addr_v4_to_v6 (Some \<lparr>family = AF_INET, addr_bytes = [10,1,15,7] @ replicate 12 0\<rparr>)
      (Some \<lparr>family = 0, addr_bytes = []\<rparr>) = (0, Some (b :: ip_addr)) \<and>
    ip_addr_v6_to_v4 (Some b) (Some \<lparr>family = 0, addr_bytes = replicate 16 0\<rparr>) = (0, Some (c :: ip_addr)) \<and>
    s_addr c = le32 [10,1,15,7]"
  using ip_addr_v4_v6_roundtrip
    [of "\<lparr>family = AF_INET, addr_bytes = [10,1,15,7] @ replicate 12 0\<rparr>"
        "\<lparr>family = 0, addr_bytes = replicate 16 0\<rparr> :: ip_addr" "\<lparr>family = 0, addr_bytes = []\<rparr> :: ip_addr"]
  by (auto simp: ip_wf_def s_addr_def)

lemma inet_ntop4_take: "inet_ntop4 (take 4 bs) = inet_ntop4 bs"
  by (simp add: inet_ntop4_def)

lemma str_family_ntop4: "str_family (inet_ntop4 bs) = AF_INET"
  by (simp add: str_family_def inet_ntop4_not_special)

lemma ip_addr_from_str_ntop4:
  assumes "length bs = 16"
  shows "ip_addr_from_str (Some a) (Some (inet_ntop4 bs)) =
    (0, Some (a\<lparr>family := AF_INET, addr_bytes := take 4 bs @ drop 4 (addr_bytes a)\<rparr>))"
proof -
  have "inet_pton4 (inet_ntop4 bs) = Some (take 4 bs)"
    using inet_pton4_ntop4 [of "take 4 bs"] assms by (simp add: inet_ntop4_take)
  then show ?thesis using assms
    by (simp add: ip_addr_from_str_def str_family_ntop4 inet_pton_def)
qed

lemma port_scan6_digits: "\<forall>c\<in>set s. isdigit c \<Longrightarrow> port_scan6 s"
  by (induction s) (auto dest: isdigit_not_special)

lemma set_port_print: "set_port (print_num 10 (unat (ntohs p))) t = (0, Some (t\<lparr>port := p\<rparr>))"
proof -
  have b: "unat (ntohs p) < 65536" using unat_u16_less [of "ntohs p"] by simp
  then have "atoi (print_num 10 (unat (ntohs p))) = int (unat (ntohs p))"
    by (simp add: atoi_print_num)
  moreover have "uint (ntohs p) < 65536" using unsigned_less [where 'a = int, of "ntohs p"] by simp
  ultimately show ?thesis by (simp add: set_port_def)
qed

lemma print_num_u16_length: "length (print_num 10 (unat (w :: u16))) \<le> 5"
proof -
  have l: "length (print_num 10 n) \<le> Suc k" if "n < 10 ^ Suc k" for n k
    using that
  proof (induction k arbitrary: n)
    case (Suc k)
    then show ?case using Suc.IH [of "n div 10"] print_num_step [of n] print_num_small [of n]
      by (cases "n < 10") auto
  qed (simp add: print_num_small)
  have "unat w < 10 ^ Suc 4" using unat_u16_less [of w] by simp
  then show ?thesis using l [of "unat w" 4] by simp
qed

text \<open>
  C17: what \<^verbatim>\<open>ip_port_to_str\<close> prints for an IPv4 address and port, \<^verbatim>\<open>ip_port_from_str\<close> reads back as
  the same address and port.
\<close>

theorem ip_port_str_roundtrip:
  assumes "ip_wf a" and "family a = AF_INET" and "buf \<noteq> NULL" and "128 \<le> len"
  shows "\<exists>s. ip_port_to_str (Some a) buf len = Some s \<and>
    ip_port_from_str (Some t) (Some s) = Some (0, Some (t\<lparr>family := AF_INET,
      addr_bytes := take 4 (addr_bytes a) @ drop 4 (addr_bytes t), port := port a\<rparr>))"
proof -
  define h where "h = inet_ntop4 (addr_bytes a)"
  define q where "q = print_num 10 (unat (ntohs (port a)))"
  define s where "s = ''['' @ h @ '']:'' @ q"
  have hl: "length h \<le> 15" and ql: "length q \<le> 5"
    unfolding h_def q_def by (rule inet_ntop4_length, rule print_num_u16_length)
  have sl: "length s \<le> 23" using hl ql by (simp add: s_def)
  have to: "ip_port_to_str (Some a) buf len = Some s"
    using assms hl sl by (simp add: ip_port_to_str_def ip_addr_to_str_def inet_ntop_def
        IP_STR_LEN_def s_def h_def q_def)
  have split: "strchr s (CHR '']'') = Some (CHR ''['' # h, CHR '']'' # CHR '':'' # q)"
    using strchr_split [of "CHR '']''" "CHR ''['' # h" "CHR '':'' # q"]
    by (simp add: s_def h_def inet_ntop4_not_special)
  have "ip_port_from_str (Some t) (Some s) = Some (set_port q
      (t\<lparr>family := AF_INET, addr_bytes := take 4 (addr_bytes a) @ drop 4 (addr_bytes t)\<rparr>))"
    using split sl hl assms(1) ip_addr_from_str_ntop4 [of "addr_bytes a" t, folded h_def]
      port_scan6_digits [of q] print_num_digits
    by (auto simp: ip_port_from_str_def IP_STR_LEN_def s_def ip_wf_def q_def)
  then show ?thesis using to by (simp add: q_def set_port_print)
qed

theorem ip_port_str_roundtrip_witness:
  "\<exists>s. ip_port_to_str (Some \<lparr>family = AF_INET, addr_bytes = [10,1,15,7] @ replicate 12 0, port = 80\<rparr>) 1 128 = Some s \<and>
    ip_port_from_str (Some \<lparr>family = 0, addr_bytes = replicate 16 0, port = 0\<rparr>) (Some s) =
      Some (0, Some \<lparr>family = AF_INET, addr_bytes = [10,1,15,7] @ replicate 12 0, port = 80\<rparr>)"
  using ip_port_str_roundtrip
    [of "\<lparr>family = AF_INET, addr_bytes = [10,1,15,7] @ replicate 12 0, port = 80\<rparr>" 1 128
        "\<lparr>family = 0, addr_bytes = replicate 16 0, port = 0\<rparr>"]
  by (simp add: ip_wf_def)

lemma ip4_parse_ntop4: "ip4_parse_into v (inet_ntop4 (bytes32 w)) = w"
  by (simp add: ip4_parse_into_def ip4_from_str_def inet_pton_def inet_pton4_ntop4)

text \<open>
  \<^verbatim>\<open>ip4_match_range\<close> on a range written as two addresses with a dash accepts exactly the addresses
  between them in host order; on a subnet the upper bound is wrong, as the host bits are set in
  network byte order: 172.16.0.0/16 reaches up to 255.255.0.0.
\<close>

theorem ip4_match_range_correct:
  "(ip4_match_range ip (Some (inet_ntop4 (bytes32 bg) @ ''-'' @ inet_ntop4 (bytes32 en))) = 1 \<longleftrightarrow>
      ntohl bg \<le> ntohl ip \<and> ntohl ip \<le> ntohl en) \<and>
   (ip4_match_range ip (Some ''172.16.0.0/16'') = 1 \<longleftrightarrow>
      0xAC100000 \<le> ntohl ip \<and> ntohl ip \<le> 0xFFFF0000)"
proof
  let ?b = "inet_ntop4 (bytes32 bg)" and ?e = "inet_ntop4 (bytes32 en)"
  have "length (?b @ ''-'' @ ?e) \<le> 31"
    using inet_ntop4_length [of "bytes32 bg"] inet_ntop4_length [of "bytes32 en"] by simp
  then have t: "take (IP_STR_LEN - Suc 0) (?b @ CHR ''-'' # ?e) = ?b @ CHR ''-'' # ?e"
    by (simp add: IP_STR_LEN_def)
  have "strchr (?b @ CHR ''-'' # ?e) (CHR ''-'') = Some (?b, CHR ''-'' # ?e)"
    by (rule strchr_split) (rule inet_ntop4_not_special)
  then show "ip4_match_range ip (Some (?b @ ''-'' @ ?e)) = 1 \<longleftrightarrow>
      ntohl bg \<le> ntohl ip \<and> ntohl ip \<le> ntohl en"
    by (simp add: ip4_match_range_def t ip4_parse_ntop4 ip4_in_range_def Let_def del: take_append)
next
  have p: "ip4_parse_into 0 ''172.16.0.0'' = le32 [172, 16, 0, 0]"
    by (simp add: ip4_parse_into_def ip4_from_str_def inet_pton_def inet_pton4_def isdigit_def
        less_eq_char_def digit_val_def)
  have a: "atoi ''16'' = 16"
    by (simp add: atoi_def isspace_def isdigit_def less_eq_char_def digit_val_def min_def)
  have n: "ntohl (le32 [172, 16, 0, 0]) = 0xAC100000" "ntohl 0xAC100000 = 0x10AC" "ntohl 0xFFFF = 0xFFFF0000"
    by (simp_all add: ntohl_def bytes32_def le32_def)
  have o: "or_low_bits 16 0x10AC = 0xFFFF"
    by (simp add: numeral_eq_Suc)
  show "ip4_match_range ip (Some ''172.16.0.0/16'') = 1 \<longleftrightarrow>
      0xAC100000 \<le> ntohl ip \<and> ntohl ip \<le> 0xFFFF0000"
    using n by (simp add: ip4_match_range_def IP_STR_LEN_def strchr_def p a ip4_match_subnet_def n o
        ip4_in_range_def Let_def)
qed

end
