(* ===== verification/Svrpool.thy ===== *)
theory Svrpool
  imports Certset Ip_addr_Correct
begin

text \<open>
  Servers, server pools and their running data, \<^verbatim>\<open>network/proxy/utils/svrpool.c\<close>.  The heap extends
  that of the certificate sets with the live objects of this component; ring lists appear as the
  lists of their members.  \<open>int\<close> counters that the code updates with \<^verbatim>\<open>__sync_fetch_and_add\<close> are
  32-bit words.
\<close>

record server =
  sv_address :: ip_port
  sv_weight :: int
  sv_ssl :: int
  sv_cert :: addr
  sv_nconn :: u32
  sv_refcnt :: u32

record server_data =
  sd_server :: addr
  sd_sslctx :: addr
  sd_ssnlist :: "addr list"
  sd_nconn :: u32
  sd_refcnt :: u32

datatype svrpool_algo = SP_ALGO_RR | SP_ALGO_WRR | SP_ALGO_LC | SP_ALGO_HASH | SP_ALGO_MAX

record svrpool =
  sp_name :: string
  sp_algo :: svrpool_algo
  sp_svrlist :: "addr list"
  sp_nserver :: int
  sp_refcnt :: u32

record svrpool_data =
  pd_servers :: "addr list"
  pd_nserver :: int
  pd_gcd :: u32
  pd_rrpos :: u32
  pd_wrrpos :: u32
  pd_refcnt :: u32

definition MAX_SERVER :: nat where "MAX_SERVER = 256"

record sp_heap = cert_heap +
  servers :: "addr \<rightharpoonup> server"
  svrdatas :: "addr \<rightharpoonup> server_data"
  svrpools :: "addr \<rightharpoonup> svrpool"
  spdatas :: "addr \<rightharpoonup> svrpool_data"

subsection \<open>The greatest common divisor of the weights\<close>

text \<open>The remainder of C truncates towards zero; dividing by zero is a fault.\<close>

definition c_rem :: "int \<Rightarrow> int \<Rightarrow> int" where
  "c_rem a b = sgn a * (\<bar>a\<bar> mod \<bar>b\<bar>)"

lemma c_rem_less: "b \<noteq> 0 \<Longrightarrow> \<bar>c_rem a b\<bar> < \<bar>b\<bar>"
  by (simp add: c_rem_def abs_mult sgn_if)

lemma c_rem_nonneg: "0 \<le> a \<Longrightarrow> 0 < b \<Longrightarrow> c_rem a b = a mod b"
  by (simp add: c_rem_def sgn_if)

function gcd_loop :: "int \<Rightarrow> int \<Rightarrow> int option" where
  "gcd_loop a b = (if b = 0 then None else if c_rem a b = 0 then Some b else gcd_loop b (c_rem a b))"
  by auto
termination
  by (relation "measure (\<lambda>(a, b). nat \<bar>b\<bar>)") (auto simp: c_rem_less)

declare gcd_loop.simps [simp del]

lemma gcd_loop_gcd: "0 \<le> a \<Longrightarrow> 0 < b \<Longrightarrow> gcd_loop a b = Some (gcd a b)"
proof (induction a b rule: gcd_loop.induct)
  case (1 a b)
  have r: "c_rem a b = a mod b" using "1.prems" by (rule c_rem_nonneg)
  show ?case
  proof (cases "a mod b = 0")
    case True
    then have "gcd a b = b" using "1.prems" by (simp add: gcd_proj2_iff dvd_eq_mod_eq_0)
    then show ?thesis using True r "1.prems" by (subst gcd_loop.simps) simp
  next
    case False
    then have "0 < a mod b" using "1.prems" pos_mod_sign [of b a] by linarith
    then have "gcd_loop b (a mod b) = Some (gcd b (a mod b))" using "1.IH" "1.prems" r False by simp
    moreover have "gcd b (a mod b) = gcd a b" by (simp add: gcd.commute flip: gcd_red_int)
    ultimately show ?thesis using False r "1.prems" by (subst gcd_loop.simps) simp
  qed
qed

text \<open>The loop of \<^verbatim>\<open>_spdata_calc_gcd\<close> over the first \<open>nserver\<close> entries of the array.\<close>

fun calc_gcd_loop :: "'a sp_heap_scheme \<Rightarrow> addr list \<Rightarrow> int \<Rightarrow> int option" where
  "calc_gcd_loop h [] g = Some g"
| "calc_gcd_loop h (a # as) g = do {
     sd \<leftarrow> svrdatas h a;
     sv \<leftarrow> servers h (sd_server sd);
     g \<leftarrow> (if g > 0 then gcd_loop (sv_weight sv) g else Some (sv_weight sv));
     calc_gcd_loop h as g }"

definition spdata_calc_gcd :: "addr \<Rightarrow> 'a sp_heap_scheme \<Rightarrow> (int \<times> 'a sp_heap_scheme) option" where
  "spdata_calc_gcd a h = (if a = NULL then Some (- 1, h) else do {
     pd \<leftarrow> spdatas h a;
     g \<leftarrow> calc_gcd_loop h (take (nat (pd_nserver pd)) (pd_servers pd)) 0;
     Some (0, h\<lparr>spdatas := (spdatas h)(a \<mapsto> pd\<lparr>pd_gcd := of_int (if g \<noteq> 0 then g else 1)\<rparr>)\<rparr>) })"

subsection \<open>Servers\<close>

definition zero_port :: ip_port where
  "zero_port = \<lparr>family = 0, addr_bytes = replicate 16 0, port = 0\<rparr>"

definition server_alloc :: "addr \<Rightarrow> 'a sp_heap_scheme \<Rightarrow> addr \<times> 'a sp_heap_scheme" where
  "server_alloc m h = (if m = NULL then (NULL, h)
     else (m, h\<lparr>servers := (servers h)(m \<mapsto> \<lparr>sv_address = zero_port, sv_weight = 0, sv_ssl = 0, sv_cert = NULL,
       sv_nconn = 0, sv_refcnt = 0\<rparr>)\<rparr>))"

definition server_clone :: "addr \<Rightarrow> 'a sp_heap_scheme \<Rightarrow> (addr \<times> 'a sp_heap_scheme) option" where
  "server_clone a h = (if a = NULL then Some (NULL, h) else do {
     s \<leftarrow> servers h a;
     Some (a, h\<lparr>servers := (servers h)(a \<mapsto> s\<lparr>sv_refcnt := sv_refcnt s + 1\<rparr>)\<rparr>) })"

definition server_free :: "addr \<Rightarrow> 'a sp_heap_scheme \<Rightarrow> (int \<times> 'a sp_heap_scheme) option" where
  "server_free a h = (if a = NULL then Some (- 1, h) else do {
     s \<leftarrow> servers h a;
     if sv_refcnt s = 0 then Some (0, h\<lparr>servers := (servers h)(a := None)\<rparr>)
     else Some (0, h\<lparr>servers := (servers h)(a \<mapsto> s\<lparr>sv_refcnt := sv_refcnt s - 1\<rparr>)\<rparr>) })"

text \<open>The context a server with SSL uses: from its certificate set, or a bare one.\<close>

definition server_ctx :: "ssl_env \<Rightarrow> server \<Rightarrow> 'a sp_heap_scheme \<Rightarrow> (addr \<times> 'a sp_heap_scheme) option" where
  "server_ctx e s h = (if sv_cert s \<noteq> NULL then certset_alloc_ctx e (sv_cert s) SSL_SD_CLIENT h
     else let sc = ssl_ctx_alloc e SSL_SD_CLIENT in
       Some (sc, if sc = NULL then h else h\<lparr>ctxs := insert sc (ctxs h)\<rparr>))"

definition server_alloc_data :: "addr \<Rightarrow> ssl_env \<Rightarrow> addr \<Rightarrow> 'a sp_heap_scheme \<Rightarrow> (addr \<times> 'a sp_heap_scheme) option" where
  "server_alloc_data m e a h = (if a = NULL then Some (NULL, h)
     else if m = NULL then Some (NULL, h)
     else do {
       (sv, h) \<leftarrow> server_clone a h;
       let h = h\<lparr>svrdatas := (svrdatas h)(m \<mapsto> \<lparr>sd_server = sv, sd_sslctx = NULL, sd_ssnlist = [], sd_nconn = 0, sd_refcnt = 0\<rparr>)\<rparr>;
       s \<leftarrow> servers h a;
       if sv_ssl s \<noteq> 0 then do {
         (sc, h) \<leftarrow> server_ctx e s h;
         if sc = NULL then do {
           (r, h) \<leftarrow> server_free a h;
           Some (NULL, h\<lparr>svrdatas := (svrdatas h)(m := None)\<rparr>) }
         else do {
           sd \<leftarrow> svrdatas h m;
           Some (m, h\<lparr>svrdatas := (svrdatas h)(m \<mapsto> sd\<lparr>sd_sslctx := sc\<rparr>)\<rparr>) } }
       else Some (m, h) })"

definition server_clone_data :: "addr \<Rightarrow> 'a sp_heap_scheme \<Rightarrow> (addr \<times> 'a sp_heap_scheme) option" where
  "server_clone_data a h = (if a = NULL then Some (NULL, h) else do {
     s \<leftarrow> svrdatas h a;
     Some (a, h\<lparr>svrdatas := (svrdatas h)(a \<mapsto> s\<lparr>sd_refcnt := sd_refcnt s + 1\<rparr>)\<rparr>) })"

definition server_free_data :: "addr \<Rightarrow> 'a sp_heap_scheme \<Rightarrow> (int \<times> 'a sp_heap_scheme) option" where
  "server_free_data a h = (if a = NULL then Some (- 1, h) else do {
     s \<leftarrow> svrdatas h a;
     if sd_refcnt s = 0 then do {
       (r, h) \<leftarrow> server_free (sd_server s) h;
       Some (0, h\<lparr>svrdatas := (svrdatas h)(a := None)\<rparr>) }
     else Some (0, h\<lparr>svrdatas := (svrdatas h)(a \<mapsto> s\<lparr>sd_refcnt := sd_refcnt s - 1\<rparr>)\<rparr>) })"

text \<open>Both connection counters, of the running data and of the server, move together.\<close>

definition conn_count :: "u32 \<Rightarrow> addr \<Rightarrow> 'a sp_heap_scheme \<Rightarrow> (int \<times> 'a sp_heap_scheme) option" where
  "conn_count d a h = (if a = NULL then Some (- 1, h) else do {
     sd \<leftarrow> svrdatas h a;
     let h = h\<lparr>svrdatas := (svrdatas h)(a \<mapsto> sd\<lparr>sd_nconn := sd_nconn sd + d\<rparr>)\<rparr>;
     s \<leftarrow> servers h (sd_server sd);
     Some (0, h\<lparr>servers := (servers h)(sd_server sd \<mapsto> s\<lparr>sv_nconn := sv_nconn s + d\<rparr>)\<rparr>) })"

definition server_inc_conn :: "addr \<Rightarrow> 'a sp_heap_scheme \<Rightarrow> (int \<times> 'a sp_heap_scheme) option" where
  "server_inc_conn a h = conn_count 1 a h"

definition server_dec_conn :: "addr \<Rightarrow> 'a sp_heap_scheme \<Rightarrow> (int \<times> 'a sp_heap_scheme) option" where
  "server_dec_conn a h = conn_count (- 1) a h"

subsection \<open>Server pools\<close>

definition svrpool_alloc :: "addr \<Rightarrow> 'a sp_heap_scheme \<Rightarrow> addr \<times> 'a sp_heap_scheme" where
  "svrpool_alloc m h = (if m = NULL then (NULL, h)
     else (m, h\<lparr>svrpools := (svrpools h)(m \<mapsto> \<lparr>sp_name = [], sp_algo = SP_ALGO_RR, sp_svrlist = [], sp_nserver = 0,
       sp_refcnt = 0\<rparr>)\<rparr>))"

definition svrpool_clone :: "addr \<Rightarrow> 'a sp_heap_scheme \<Rightarrow> (addr \<times> 'a sp_heap_scheme) option" where
  "svrpool_clone a h = (if a = NULL then Some (NULL, h) else do {
     s \<leftarrow> svrpools h a;
     Some (a, h\<lparr>svrpools := (svrpools h)(a \<mapsto> s\<lparr>sp_refcnt := sp_refcnt s + 1\<rparr>)\<rparr>) })"

fun free_each :: "(addr \<Rightarrow> 'h \<Rightarrow> (int \<times> 'h) option) \<Rightarrow> addr list \<Rightarrow> 'h \<Rightarrow> 'h option" where
  "free_each f [] h = Some h"
| "free_each f (a # as) h = (case f a h of None \<Rightarrow> None | Some (r, h) \<Rightarrow> free_each f as h)"

definition svrpool_free :: "addr \<Rightarrow> 'a sp_heap_scheme \<Rightarrow> (int \<times> 'a sp_heap_scheme) option" where
  "svrpool_free a h = (if a = NULL then Some (- 1, h) else do {
     s \<leftarrow> svrpools h a;
     if sp_refcnt s = 0 then do {
       h \<leftarrow> free_each server_free (sp_svrlist s) h;
       Some (0, h\<lparr>svrpools := (svrpools h)(a := None)\<rparr>) }
     else Some (0, h\<lparr>svrpools := (svrpools h)(a \<mapsto> s\<lparr>sp_refcnt := sp_refcnt s - 1\<rparr>)\<rparr>) })"

text \<open>
  The loop of \<^verbatim>\<open>svrpool_alloc_data\<close>: entry \<open>i\<close> of the array gets the data of the \<open>i\<close>-th server (\<open>ms i\<close>
  is what \<^verbatim>\<open>calloc\<close> returns for it); an index of 256 or more is a fault.
\<close>

fun alloc_each ::
  "(nat \<Rightarrow> addr) \<Rightarrow> ssl_env \<Rightarrow> addr list \<Rightarrow> nat \<Rightarrow> addr list \<Rightarrow> 'a sp_heap_scheme \<Rightarrow>
     (nat \<times> addr list \<times> 'a sp_heap_scheme) option" where
  "alloc_each ms e [] i arr h = Some (i, arr, h)"
| "alloc_each ms e (s # ss) i arr h = do {
     (d, h) \<leftarrow> server_alloc_data (ms i) e s h;
     if i < length arr then alloc_each ms e ss (i + 1) (arr[i := d]) h else None }"

definition svrpool_alloc_data ::
  "addr \<Rightarrow> (nat \<Rightarrow> addr) \<Rightarrow> ssl_env \<Rightarrow> addr \<Rightarrow> 'a sp_heap_scheme \<Rightarrow> (addr \<times> 'a sp_heap_scheme) option" where
  "svrpool_alloc_data m ms e a h = (if a = NULL then Some (NULL, h)
     else if m = NULL then Some (NULL, h)
     else do {
       sp \<leftarrow> svrpools h a;
       (n, arr, h) \<leftarrow> alloc_each ms e (sp_svrlist sp) 0 (replicate MAX_SERVER NULL) h;
       let h = h\<lparr>spdatas := (spdatas h)(m \<mapsto> \<lparr>pd_servers = arr, pd_nserver = int n, pd_gcd = 0, pd_rrpos = 0,
         pd_wrrpos = 0, pd_refcnt = 0\<rparr>)\<rparr>;
       (r, h) \<leftarrow> spdata_calc_gcd m h;
       Some (m, h) })"

definition svrpool_clone_data :: "addr \<Rightarrow> 'a sp_heap_scheme \<Rightarrow> (addr \<times> 'a sp_heap_scheme) option" where
  "svrpool_clone_data a h = (if a = NULL then Some (NULL, h) else do {
     s \<leftarrow> spdatas h a;
     Some (a, h\<lparr>spdatas := (spdatas h)(a \<mapsto> s\<lparr>pd_refcnt := pd_refcnt s + 1\<rparr>)\<rparr>) })"

text \<open>The message that \<^verbatim>\<open>svrpool_free_data\<close> prints reads the reference count of every entry.\<close>

definition free_data_checked :: "addr \<Rightarrow> 'a sp_heap_scheme \<Rightarrow> (int \<times> 'a sp_heap_scheme) option" where
  "free_data_checked d h = do { _ \<leftarrow> svrdatas h d; server_free_data d h }"

definition svrpool_free_data :: "addr \<Rightarrow> 'a sp_heap_scheme \<Rightarrow> (int \<times> 'a sp_heap_scheme) option" where
  "svrpool_free_data a h = (if a = NULL then Some (- 1, h) else do {
     s \<leftarrow> spdatas h a;
     if pd_refcnt s = 0 then do {
       h \<leftarrow> free_each free_data_checked (take (nat (pd_nserver s)) (pd_servers s)) h;
       Some (0, h\<lparr>spdatas := (spdatas h)(a := None)\<rparr>) }
     else Some (0, h\<lparr>spdatas := (spdatas h)(a \<mapsto> s\<lparr>pd_refcnt := pd_refcnt s - 1\<rparr>)\<rparr>) })"

text \<open>Round robin: the position is a signed \<open>int\<close>, so its remainder is negative once it has wrapped.\<close>

definition svrpool_get_rp_server :: "addr \<Rightarrow> 'a sp_heap_scheme \<Rightarrow> (addr \<times> 'a sp_heap_scheme) option" where
  "svrpool_get_rp_server a h = (if a = NULL then Some (NULL, h) else do {
     pd \<leftarrow> spdatas h a;
     let h = h\<lparr>spdatas := (spdatas h)(a \<mapsto> pd\<lparr>pd_rrpos := pd_rrpos pd + 1\<rparr>)\<rparr>;
     if pd_nserver pd = 0 then None
     else let pos = c_rem (sint (pd_rrpos pd)) (pd_nserver pd) in
       if 0 \<le> pos \<and> nat pos < length (pd_servers pd) then server_clone_data (pd_servers pd ! nat pos) h else None })"

fun tp_scan :: "'a sp_heap_scheme \<Rightarrow> ip_port \<Rightarrow> addr list \<Rightarrow> addr option option" where
  "tp_scan h dest [] = Some None"
| "tp_scan h dest (a # as) = do {
     sd \<leftarrow> svrdatas h a;
     sv \<leftarrow> servers h (sd_server sd);
     if ip_port_compare (Some (sv_address sv)) (Some dest) = 0 then Some (Some a) else tp_scan h dest as }"

definition svrpool_get_tp_server :: "addr \<Rightarrow> ip_port option \<Rightarrow> 'a sp_heap_scheme \<Rightarrow> (addr \<times> 'a sp_heap_scheme) option" where
  "svrpool_get_tp_server a dest h = (if a = NULL \<or> dest = None then Some (NULL, h) else do {
     pd \<leftarrow> spdatas h a;
     r \<leftarrow> tp_scan h (the dest) (take (nat (pd_nserver pd)) (pd_servers pd));
     case r of None \<Rightarrow> Some (NULL, h) | Some d \<Rightarrow> server_clone_data d h })"

end
