(* ===== verification/Svrpool_Correct.thy ===== *)
theory Svrpool_Correct
  imports Svrpool "HOL-Library.Multiset"
begin

text \<open>
  Properties of servers and server pools: reference counting of all four kinds of objects, the
  round robin, the lookup by address, and the divisor of the weights.
\<close>

subsection \<open>Reference counting\<close>

definition sv_rc :: "'a sp_heap_scheme \<Rightarrow> addr \<Rightarrow> u32 option" where
  "sv_rc h a = (if a = NULL then None else map_option sv_refcnt (servers h a))"

interpretation svr: refcounted sv_rc server_clone server_free "\<lambda>h a. True"
  by unfold_locales
    (auto simp: sv_rc_def server_clone_def server_free_def split: if_splits)

definition sd_rc :: "'a sp_heap_scheme \<Rightarrow> addr \<Rightarrow> u32 option" where
  "sd_rc h a = (if a = NULL then None else map_option sd_refcnt (svrdatas h a))"

definition sd_ok :: "'a sp_heap_scheme \<Rightarrow> addr \<Rightarrow> bool" where
  "sd_ok h a \<longleftrightarrow> (\<forall>s. svrdatas h a = Some s \<longrightarrow> sd_server s \<noteq> NULL \<and> servers h (sd_server s) \<noteq> None)"

lemma server_free_total:
  "a \<noteq> NULL \<Longrightarrow> servers h a \<noteq> None \<Longrightarrow>
     \<exists>v. server_free a h = Some (0, h\<lparr>servers := (servers h)(a := v)\<rparr>) \<and>
       (sv_refcnt (the (servers h a)) \<noteq> 0 \<longrightarrow> v \<noteq> None)"
proof -
  assume "a \<noteq> NULL" and "servers h a \<noteq> None"
  then obtain s where s: "servers h a = Some s" "a \<noteq> NULL" by auto
  show ?thesis
  proof (cases "sv_refcnt s = 0")
    case True
    then show ?thesis using s by (intro exI [of _ None]) (simp add: server_free_def)
  next
    case False
    then show ?thesis using s
      by (intro exI [of _ "Some (s\<lparr>sv_refcnt := sv_refcnt s - 1\<rparr>)"]) (simp add: server_free_def)
  qed
qed

lemma server_free_data_last:
  assumes "svrdatas h a = Some s" and "a \<noteq> NULL" and "sd_refcnt s = 0" and "sd_ok h a"
  shows "\<exists>v. server_free_data a h = Some (0, h\<lparr>servers := (servers h)(sd_server s := v), svrdatas := (svrdatas h)(a := None)\<rparr>)"
  using assms server_free_total [of "sd_server s" h] by (auto simp: server_free_data_def sd_ok_def)

interpretation sdr: refcounted sd_rc server_clone_data server_free_data sd_ok
proof
  fix h :: "'a sp_heap_scheme" and a k
  assume rc: "sd_rc h a = Some k" and ok: "sd_ok h a"
  then obtain s where s: "svrdatas h a = Some s" "a \<noteq> NULL" "sd_refcnt s = k"
    by (auto simp: sd_rc_def split: if_splits)
  show "\<exists>h'. server_clone_data a h = Some (a, h') \<and> sd_rc h' a = Some (k + 1) \<and> sd_ok h' a"
    using s ok by (simp add: server_clone_data_def sd_rc_def sd_ok_def)
  show "\<exists>h'. server_free_data a h = Some (0, h') \<and> sd_rc h' a = Some (k - 1) \<and> sd_ok h' a" if "k \<noteq> 0"
    using s ok that by (simp add: server_free_data_def sd_rc_def sd_ok_def)
next
  fix h :: "'a sp_heap_scheme" and a
  assume rc: "sd_rc h a = Some 0" and ok: "sd_ok h a"
  then obtain s where s: "svrdatas h a = Some s" "a \<noteq> NULL" "sd_refcnt s = 0"
    by (auto simp: sd_rc_def split: if_splits)
  then show "\<exists>h'. server_free_data a h = Some (0, h') \<and> sd_rc h' a = None"
    using server_free_data_last [OF s ok] by (auto simp: sd_rc_def)
qed

definition sp_rc :: "'a sp_heap_scheme \<Rightarrow> addr \<Rightarrow> u32 option" where
  "sp_rc h a = (if a = NULL then None else map_option sp_refcnt (svrpools h a))"

definition sp_ok :: "'a sp_heap_scheme \<Rightarrow> addr \<Rightarrow> bool" where
  "sp_ok h a \<longleftrightarrow> (\<forall>s. svrpools h a = Some s \<longrightarrow> distinct (sp_svrlist s) \<and>
     (\<forall>x\<in>set (sp_svrlist s). x \<noteq> NULL \<and> servers h x \<noteq> None))"

text \<open>Servers that have references survive, others may go.\<close>

lemma free_each_servers:
  "distinct as \<Longrightarrow> \<forall>x\<in>set as. x \<noteq> NULL \<and> servers h x \<noteq> None \<Longrightarrow>
     \<exists>f. free_each server_free as h = Some (h\<lparr>servers := f\<rparr>) \<and> (\<forall>x. x \<notin> set as \<longrightarrow> f x = servers h x) \<and>
       (\<forall>x\<in>set as. sv_refcnt (the (servers h x)) \<noteq> 0 \<longrightarrow> f x \<noteq> None)"
proof (induction as arbitrary: h)
  case Nil
  then show ?case by (auto intro: exI [of _ "servers h"])
next
  case (Cons a as)
  obtain v where v: "server_free a h = Some (0, h\<lparr>servers := (servers h)(a := v)\<rparr>)"
    "sv_refcnt (the (servers h a)) \<noteq> 0 \<Longrightarrow> v \<noteq> None"
    using server_free_total [of a h] Cons.prems by auto
  let ?h = "h\<lparr>servers := (servers h)(a := v)\<rparr>"
  have "\<forall>x\<in>set as. x \<noteq> NULL \<and> servers ?h x \<noteq> None" using Cons.prems by auto
  from Cons.IH [OF _ this] obtain f where
    f: "free_each server_free as ?h = Some (?h\<lparr>servers := f\<rparr>)" "\<And>x. x \<notin> set as \<Longrightarrow> f x = servers ?h x"
      "\<And>x. x \<in> set as \<Longrightarrow> sv_refcnt (the (servers ?h x)) \<noteq> 0 \<Longrightarrow> f x \<noteq> None"
    using Cons.prems(1) by auto
  have run: "free_each server_free (a # as) h = Some (h\<lparr>servers := f\<rparr>)" using v f(1) by simp
  have out: "f x = servers h x" if "x \<notin> set (a # as)" for x using f(2) [of x] that by simp
  have keep: "f x \<noteq> None" if "x \<in> set (a # as)" "sv_refcnt (the (servers h x)) \<noteq> 0" for x
  proof (cases "x = a")
    case True
    then show ?thesis using that f(2) [of a] v(2) Cons.prems(1) by simp
  next
    case False
    then show ?thesis using that f(3) [of x] by simp
  qed
  show ?case using run out keep by blast
qed

interpretation spr: refcounted sp_rc svrpool_clone svrpool_free sp_ok
proof
  fix h :: "'a sp_heap_scheme" and a k
  assume rc: "sp_rc h a = Some k" and ok: "sp_ok h a"
  then obtain s where s: "svrpools h a = Some s" "a \<noteq> NULL" "sp_refcnt s = k"
    by (auto simp: sp_rc_def split: if_splits)
  show "\<exists>h'. svrpool_clone a h = Some (a, h') \<and> sp_rc h' a = Some (k + 1) \<and> sp_ok h' a"
    using s ok by (simp add: svrpool_clone_def sp_rc_def sp_ok_def)
  show "\<exists>h'. svrpool_free a h = Some (0, h') \<and> sp_rc h' a = Some (k - 1) \<and> sp_ok h' a" if "k \<noteq> 0"
    using s ok that by (simp add: svrpool_free_def sp_rc_def sp_ok_def)
next
  fix h :: "'a sp_heap_scheme" and a
  assume rc: "sp_rc h a = Some 0" and ok: "sp_ok h a"
  then obtain s where s: "svrpools h a = Some s" "a \<noteq> NULL" "sp_refcnt s = 0"
    by (auto simp: sp_rc_def split: if_splits)
  obtain f where "free_each server_free (sp_svrlist s) h = Some (h\<lparr>servers := f\<rparr>)"
    using free_each_servers [of "sp_svrlist s" h] ok s unfolding sp_ok_def by blast
  then show "\<exists>h'. svrpool_free a h = Some (0, h') \<and> sp_rc h' a = None"
    using s by (auto simp: svrpool_free_def sp_rc_def)
qed

definition pd_rc :: "'a sp_heap_scheme \<Rightarrow> addr \<Rightarrow> u32 option" where
  "pd_rc h a = (if a = NULL then None else map_option pd_refcnt (spdatas h a))"

definition pd_live :: "svrpool_data \<Rightarrow> addr list" where
  "pd_live pd = take (nat (pd_nserver pd)) (pd_servers pd)"

text \<open>The entries of the array are distinct live running data of distinct live servers.\<close>

definition datas_ok :: "'a sp_heap_scheme \<Rightarrow> addr list \<Rightarrow> bool" where
  "datas_ok h ds \<longleftrightarrow> distinct ds \<and> distinct (map (\<lambda>d. sd_server (the (svrdatas h d))) ds) \<and>
     (\<forall>d\<in>set ds. d \<noteq> NULL \<and> svrdatas h d \<noteq> None \<and> sd_ok h d)"

definition pd_ok :: "'a sp_heap_scheme \<Rightarrow> addr \<Rightarrow> bool" where
  "pd_ok h a \<longleftrightarrow> (\<forall>pd. spdatas h a = Some pd \<longrightarrow> datas_ok h (pd_live pd))"

lemma server_free_data_total:
  assumes "svrdatas h a = Some s" and "a \<noteq> NULL" and "sd_ok h a"
  shows "\<exists>f g. server_free_data a h = Some (0, h\<lparr>servers := f, svrdatas := g\<rparr>) \<and>
    (\<forall>x. x \<noteq> sd_server s \<longrightarrow> f x = servers h x) \<and> (\<forall>x. x \<noteq> a \<longrightarrow> g x = svrdatas h x)"
proof (cases "sd_refcnt s = 0")
  case True
  then obtain v where "server_free_data a h =
      Some (0, h\<lparr>servers := (servers h)(sd_server s := v), svrdatas := (svrdatas h)(a := None)\<rparr>)"
    using server_free_data_last [OF assms(1,2) True assms(3)] by blast
  then show ?thesis
    by (intro exI [of _ "(servers h)(sd_server s := v)"] exI [of _ "(svrdatas h)(a := None)"]) simp
next
  case False
  then show ?thesis using assms
    by (intro exI [of _ "servers h"] exI [of _ "(svrdatas h)(a \<mapsto> s\<lparr>sd_refcnt := sd_refcnt s - 1\<rparr>)"])
      (simp add: server_free_data_def)
qed

lemma free_each_datas:
  "datas_ok h ds \<Longrightarrow> \<exists>f g. free_each free_data_checked ds h = Some (h\<lparr>servers := f, svrdatas := g\<rparr>)"
proof (induction ds arbitrary: h)
  case Nil
  then show ?case by (auto intro!: exI [of _ "servers h"] exI [of _ "svrdatas h"])
next
  case (Cons d ds)
  then obtain s where s: "svrdatas h d = Some s" "d \<noteq> NULL" "sd_ok h d" by (auto simp: datas_ok_def)
  obtain f g where fg: "server_free_data d h = Some (0, h\<lparr>servers := f, svrdatas := g\<rparr>)"
    "\<And>x. x \<noteq> sd_server s \<Longrightarrow> f x = servers h x" "\<And>x. x \<noteq> d \<Longrightarrow> g x = svrdatas h x"
    using server_free_data_total [OF s] by blast
  let ?h = "h\<lparr>servers := f, svrdatas := g\<rparr>"
  have same: "g x = svrdatas h x" if "x \<in> set ds" for x using that Cons.prems fg(3) [of x] by (auto simp: datas_ok_def)
  have other: "sd_server (the (svrdatas h x)) \<noteq> sd_server s" if "x \<in> set ds" for x
  proof
    assume "sd_server (the (svrdatas h x)) = sd_server s"
    then have "sd_server (the (svrdatas h d)) \<in> (\<lambda>d. sd_server (the (svrdatas h d))) ` set ds"
      using that s(1) by (metis imageI option.sel)
    then show False using Cons.prems by (simp add: datas_ok_def)
  qed
  have m: "map (\<lambda>d. sd_server (the (g d))) ds = map (\<lambda>d. sd_server (the (svrdatas h d))) ds"
    using same by simp
  have dm: "distinct (map (\<lambda>d. sd_server (the (g d))) ds)"
    unfolding m using Cons.prems by (simp add: datas_ok_def)
  have each: "x \<noteq> NULL \<and> g x \<noteq> None \<and> sd_ok ?h x" if x: "x \<in> set ds" for x
  proof -
    obtain t where t: "svrdatas h x = Some t" "x \<noteq> NULL" "sd_ok h x"
      using Cons.prems x by (auto simp: datas_ok_def)
    then have "f (sd_server t) = servers h (sd_server t)" using other [OF x] fg(2) by simp
    then show ?thesis using t same [OF x] by (simp add: sd_ok_def)
  qed
  have "datas_ok ?h ds"
    unfolding datas_ok_def using Cons.prems each dm by (simp add: datas_ok_def)
  then show ?case using Cons.IH [of ?h] fg(1) s(1) by (auto simp: free_data_checked_def)
qed

interpretation pdr: refcounted pd_rc svrpool_clone_data svrpool_free_data pd_ok
proof
  fix h :: "'a sp_heap_scheme" and a k
  assume rc: "pd_rc h a = Some k" and ok: "pd_ok h a"
  then obtain s where s: "spdatas h a = Some s" "a \<noteq> NULL" "pd_refcnt s = k"
    by (auto simp: pd_rc_def split: if_splits)
  show "\<exists>h'. svrpool_clone_data a h = Some (a, h') \<and> pd_rc h' a = Some (k + 1) \<and> pd_ok h' a"
    using s ok by (simp add: svrpool_clone_data_def pd_rc_def pd_ok_def datas_ok_def sd_ok_def pd_live_def)
  show "\<exists>h'. svrpool_free_data a h = Some (0, h') \<and> pd_rc h' a = Some (k - 1) \<and> pd_ok h' a" if "k \<noteq> 0"
    using s ok that by (simp add: svrpool_free_data_def pd_rc_def pd_ok_def datas_ok_def sd_ok_def pd_live_def)
next
  fix h :: "'a sp_heap_scheme" and a
  assume rc: "pd_rc h a = Some 0" and ok: "pd_ok h a"
  then obtain s where s: "spdatas h a = Some s" "a \<noteq> NULL" "pd_refcnt s = 0"
    by (auto simp: pd_rc_def split: if_splits)
  obtain f g where "free_each free_data_checked (pd_live s) h = Some (h\<lparr>servers := f, svrdatas := g\<rparr>)"
    using free_each_datas [of h "pd_live s"] ok s by (auto simp: pd_ok_def)
  then show "\<exists>h'. svrpool_free_data a h = Some (0, h') \<and> pd_rc h' a = None"
    using s by (auto simp: svrpool_free_data_def pd_rc_def pd_live_def)
qed

subsection \<open>Round robin\<close>

text \<open>The results of \<open>k\<close> calls in a row.\<close>

fun rp_run :: "nat \<Rightarrow> addr \<Rightarrow> 'a sp_heap_scheme \<Rightarrow> (addr list \<times> 'a sp_heap_scheme) option" where
  "rp_run 0 a h = Some ([], h)"
| "rp_run (Suc k) a h = do {
     (d, h) \<leftarrow> svrpool_get_rp_server a h;
     (ds, h) \<leftarrow> rp_run k a h;
     Some (d # ds, h) }"

definition rp_ready :: "'a sp_heap_scheme \<Rightarrow> addr \<Rightarrow> svrpool_data \<Rightarrow> bool" where
  "rp_ready h a pd \<longleftrightarrow> a \<noteq> NULL \<and> spdatas h a = Some pd \<and> 0 < pd_nserver pd \<and>
     nat (pd_nserver pd) \<le> length (pd_servers pd) \<and>
     (\<forall>d\<in>set (pd_live pd). d \<noteq> NULL \<and> svrdatas h d \<noteq> None)"

lemma pd_live_nth: "i < nat (pd_nserver pd) \<Longrightarrow> pd_live pd ! i = pd_servers pd ! i"
  by (simp add: pd_live_def)

lemma sint_u32_small: "unat (w :: u32) < 2 ^ 31 \<Longrightarrow> sint w = int (unat w)"
proof -
  assume "unat w < 2 ^ 31"
  then have "int (unat w) < int (2 ^ 31)" by (simp only: of_nat_less_iff)
  then have "uint w < 2 ^ 31" by (simp only: uint_nat of_nat_power of_nat_numeral)
  then have "signed_take_bit 31 (uint w) = uint w"
    by (intro signed_take_bit_int_eq_self) (use uint_ge_0 [of w] in linarith)+
  then show ?thesis by (simp add: sint_uint)
qed

lemma sint_u32_big: "2 ^ 31 \<le> unat (w :: u32) \<Longrightarrow> sint w < 0"
proof -
  assume "2 ^ 31 \<le> unat w"
  then have "int (2 ^ 31) \<le> int (unat w)" by (simp only: of_nat_le_iff)
  then have ge: "2 ^ 31 \<le> uint w" by (simp only: uint_nat of_nat_power of_nat_numeral)
  moreover have "uint w < 2 ^ 32" using uint_lt2p [of w] by simp
  ultimately have "uint w div 2 ^ 31 = 1" by (simp add: div_pos_geq)
  then have "bit (uint w) 31" by (simp add: bit_iff_odd)
  then show ?thesis by (simp add: sint_uint)
qed

lemma rp_step:
  assumes "rp_ready h a pd" and "unat (pd_rrpos pd) < 2 ^ 31"
  shows "\<exists>h'. svrpool_get_rp_server a h = Some (pd_live pd ! (unat (pd_rrpos pd) mod length (pd_live pd)), h') \<and>
    rp_ready h' a (pd\<lparr>pd_rrpos := pd_rrpos pd + 1\<rparr>)"
proof -
  let ?r = "unat (pd_rrpos pd)" and ?n = "nat (pd_nserver pd)"
  have r: "sint (pd_rrpos pd) = int ?r"
    using assms(2) by (rule sint_u32_small)
  have n: "length (pd_live pd) = ?n" "0 < ?n" "pd_nserver pd = int ?n"
    using assms(1) by (auto simp: rp_ready_def pd_live_def)
  have pos: "c_rem (sint (pd_rrpos pd)) (pd_nserver pd) = int (?r mod ?n)"
    using r n by (simp add: c_rem_nonneg zmod_int)
  have lt: "?r mod ?n < ?n" using n by simp
  then have mem: "pd_servers pd ! (?r mod ?n) \<in> set (pd_live pd)"
    using n pd_live_nth [OF lt] nth_mem [of "?r mod ?n" "pd_live pd"] by simp
  then obtain s where s: "svrdatas h (pd_servers pd ! (?r mod ?n)) = Some s" "pd_servers pd ! (?r mod ?n) \<noteq> NULL"
    using assms(1) by (auto simp: rp_ready_def)
  have "?r mod ?n < length (pd_servers pd)"
    by (rule less_le_trans [OF lt]) (use assms(1) in \<open>simp add: rp_ready_def\<close>)
  then show ?thesis
    using assms(1) pos s n pd_live_nth [OF lt]
    by (auto simp: svrpool_get_rp_server_def rp_ready_def server_clone_data_def pd_live_def Let_def)
qed

lemma rp_run_ok:
  "rp_ready h a pd \<Longrightarrow> unat (pd_rrpos pd) + k \<le> 2 ^ 31 \<Longrightarrow>
     \<exists>h'. rp_run k a h = Some (map (\<lambda>i. pd_live pd ! ((unat (pd_rrpos pd) + i) mod length (pd_live pd))) [0..<k], h')"
proof (induction k arbitrary: h pd)
  case (Suc k)
  let ?pd = "pd\<lparr>pd_rrpos := pd_rrpos pd + 1\<rparr>"
  obtain h1 where h1: "svrpool_get_rp_server a h = Some (pd_live pd ! (unat (pd_rrpos pd) mod length (pd_live pd)), h1)"
    "rp_ready h1 a ?pd"
    using rp_step [OF Suc.prems(1)] Suc.prems(2) by auto
  have u: "unat (pd_rrpos pd + 1) = unat (pd_rrpos pd) + 1" using Suc.prems(2) by (intro unat_u32_suc) simp
  have l: "pd_live ?pd = pd_live pd" by (simp add: pd_live_def)
  obtain h2 where "rp_run k a h1 = Some (map (\<lambda>i. pd_live pd ! ((unat (pd_rrpos pd) + 1 + i) mod length (pd_live pd))) [0..<k], h2)"
    using Suc.IH [OF h1(2)] Suc.prems(2) u l by auto
  then show ?case using h1(1) by (simp add: map_upt_Suc del: upt_Suc)
qed simp

text \<open>A window of \<open>n\<close> consecutive numbers meets every residue once.\<close>

lemma rotate_window:
  assumes "0 < n"
  shows "mset (map (\<lambda>i. xs ! ((r + i) mod n)) [0..<n]) = mset (map ((!) xs) [0..<n])"
proof (induction r)
  case 0
  have "map (\<lambda>i. xs ! (i mod n)) [0..<n] = map ((!) xs) [0..<n]" by simp
  then show ?case by (simp only: add_0)
next
  case (Suc r)
  let ?g = "\<lambda>i. xs ! ((r + i) mod n)"
  have "map (\<lambda>i. xs ! ((Suc r + i) mod n)) [0..<n] = map ?g (map Suc [0..<n])" by simp
  also have "map Suc [0..<n] = [Suc 0..<n] @ [n]" using assms by (simp add: map_Suc_upt)
  finally have "mset (map (\<lambda>i. xs ! ((Suc r + i) mod n)) [0..<n]) = mset (map ?g [Suc 0..<n]) + {#?g 0#}"
    by simp
  also have "\<dots> = mset (map ?g [0..<n])" using assms by (simp add: upt_conv_Cons)
  finally show ?case using Suc by simp
qed

subsection \<open>The divisor of the weights\<close>

definition weights :: "'a sp_heap_scheme \<Rightarrow> addr list \<Rightarrow> int list" where
  "weights h ds = map (\<lambda>d. sv_weight (the (servers h (sd_server (the (svrdatas h d)))))) ds"

lemma calc_gcd_loop_ok:
  "\<forall>d\<in>set ds. svrdatas h d \<noteq> None \<and> sd_ok h d \<Longrightarrow> \<forall>w\<in>set (weights h ds). 0 \<le> w \<Longrightarrow> 0 \<le> g \<Longrightarrow>
     calc_gcd_loop h ds g = Some (gcd g (Gcd (set (weights h ds))))"
proof (induction ds arbitrary: g)
  case Nil
  then show ?case by (simp add: weights_def)
next
  case (Cons d ds)
  obtain sd sv where sd: "svrdatas h d = Some sd" "servers h (sd_server sd) = Some sv"
    using Cons.prems(1) by (auto simp: sd_ok_def)
  have ws: "weights h (d # ds) = sv_weight sv # weights h ds" using sd by (simp add: weights_def)
  then have w: "0 \<le> sv_weight sv" using Cons.prems(2) by simp
  have step: "(if g > 0 then gcd_loop (sv_weight sv) g else Some (sv_weight sv)) = Some (gcd (sv_weight sv) g)"
    using gcd_loop_gcd [OF w, of g] w Cons.prems(3) by (cases "g > 0") auto
  have "calc_gcd_loop h ds (gcd (sv_weight sv) g) = Some (gcd (gcd (sv_weight sv) g) (Gcd (set (weights h ds))))"
    using Cons ws by auto
  then show ?case using sd step ws by (simp add: ac_simps)
qed

subsection \<open>Properties\<close>

definition ip_sample :: "u8 \<Rightarrow> ip_port" where
  "ip_sample b = \<lparr>family = AF_INET, addr_bytes = [10, 0, 0, b] @ replicate 12 0, port = 80\<rparr>"

definition sv_sample :: "u8 \<Rightarrow> int \<Rightarrow> server" where
  "sv_sample b w = \<lparr>sv_address = ip_sample b, sv_weight = w, sv_ssl = 0, sv_cert = NULL, sv_nconn = 0, sv_refcnt = 1\<rparr>"

definition sd_sample :: "addr \<Rightarrow> server_data" where
  "sd_sample a = \<lparr>sd_server = a, sd_sslctx = NULL, sd_ssnlist = [], sd_nconn = 0, sd_refcnt = 0\<rparr>"

definition pd_sample :: svrpool_data where
  "pd_sample = \<lparr>pd_servers = [30, 40] @ replicate 254 0, pd_nserver = 2, pd_gcd = 0, pd_rrpos = 5, pd_wrrpos = 0, pd_refcnt = 0\<rparr>"

definition sp_sample :: sp_heap where
  "sp_sample = \<lparr>certsets = Map.empty, cacerts = Map.empty, ctxs = {},
     servers = [10 \<mapsto> sv_sample 1 4, 20 \<mapsto> sv_sample 2 6],
     svrdatas = [30 \<mapsto> sd_sample 10, 40 \<mapsto> sd_sample 20], svrpools = Map.empty,
     spdatas = [50 \<mapsto> pd_sample]\<rparr>"

lemma pd_live_sample: "pd_live pd_sample = [30, 40]"
  by (simp add: pd_live_def pd_sample_def numeral_eq_Suc)

lemma sp_sample_ready: "rp_ready sp_sample 50 pd_sample" and sp_sample_ok: "pd_ok sp_sample 50"
proof -
  show "rp_ready sp_sample 50 pd_sample"
    unfolding rp_ready_def pd_live_sample by (simp add: sp_sample_def pd_sample_def)
  have "spdatas sp_sample 50 = Some pd_sample" by (simp add: sp_sample_def)
  moreover have "datas_ok sp_sample [30, 40]"
    by (simp add: datas_ok_def sd_ok_def sp_sample_def sd_sample_def)
  ultimately show "pd_ok sp_sample 50" by (simp add: pd_ok_def pd_live_sample)
qed



text \<open>
  Once the position counter has reached 2^31 it is negative, and \<^verbatim>\<open>svrpool_get_rp_server\<close> indexes in front of the
  array unless the number of servers divides it.
\<close>

theorem svrpool_round_robin_wraps:
  assumes "a \<noteq> NULL" and "spdatas h a = Some pd" and "0 < pd_nserver pd" and "2 ^ 31 \<le> unat (pd_rrpos pd)"
    and "\<not> pd_nserver pd dvd sint (pd_rrpos pd)"
  shows "svrpool_get_rp_server a h = None"
proof -
  have "sint (pd_rrpos pd) < 0"
    using assms(4) by (rule sint_u32_big)
  moreover have "\<bar>sint (pd_rrpos pd)\<bar> mod \<bar>pd_nserver pd\<bar> \<noteq> 0" using assms(5) by (simp add: mod_eq_0_iff_dvd)
  moreover have "0 \<le> \<bar>sint (pd_rrpos pd)\<bar> mod \<bar>pd_nserver pd\<bar>" using assms(3) by simp
  ultimately have "c_rem (sint (pd_rrpos pd)) (pd_nserver pd) < 0" by (simp add: c_rem_def)
  then show ?thesis using assms by (auto simp: svrpool_get_rp_server_def Let_def)
qed

theorem svrpool_round_robin_wraps_witness:
  "svrpool_get_rp_server 50 (sp_sample\<lparr>spdatas := [50 \<mapsto> pd_sample\<lparr>pd_rrpos := 0x80000001\<rparr>]\<rparr>) = None"
  by (rule svrpool_round_robin_wraps [where pd = "pd_sample\<lparr>pd_rrpos := 0x80000001\<rparr>"])
    (simp_all add: pd_sample_def)

text \<open>
  With weights that are not negative \<^verbatim>\<open>_spdata_calc_gcd\<close> terminates without fault and stores their greatest
  common divisor, or 1 when all are 0.
\<close>

theorem spdata_calc_gcd_correct:
  assumes "a \<noteq> NULL" and "spdatas h a = Some pd" and "\<forall>d\<in>set (pd_live pd). svrdatas h d \<noteq> None \<and> sd_ok h d"
    and "\<forall>w\<in>set (weights h (pd_live pd)). 0 \<le> w"
  shows "\<exists>h' g. spdata_calc_gcd a h = Some (0, h') \<and> g = Gcd (set (weights h (pd_live pd))) \<and>
    spdatas h' a = Some (pd\<lparr>pd_gcd := of_int (if g \<noteq> 0 then g else 1)\<rparr>)"
  using assms calc_gcd_loop_ok [OF assms(3,4), of 0] by (simp add: spdata_calc_gcd_def pd_live_def)

theorem spdata_calc_gcd_correct_witness:
  "\<exists>h'. spdata_calc_gcd 50 sp_sample = Some (0, h') \<and> map_option pd_gcd (spdatas h' 50) = Some 2"
proof -
  have w: "weights sp_sample [30, 40] = [4, 6]"
    by (simp add: weights_def sp_sample_def sd_sample_def sv_sample_def)
  have "\<forall>d\<in>set [30, 40]. svrdatas sp_sample d \<noteq> None \<and> sd_ok sp_sample d"
    by (simp add: sd_ok_def sp_sample_def sd_sample_def)
  moreover have "spdatas sp_sample 50 = Some pd_sample" by (simp add: sp_sample_def)
  moreover have "gcd (4::int) 6 = 2" by code_simp
  ultimately show ?thesis
    using spdata_calc_gcd_correct [of 50 sp_sample pd_sample] w by (auto simp: pd_live_sample)
qed

definition data_addr :: "'a sp_heap_scheme \<Rightarrow> addr \<Rightarrow> ip_port" where
  "data_addr h d = sv_address (the (servers h (sd_server (the (svrdatas h d)))))"

definition tp_match :: "'a sp_heap_scheme \<Rightarrow> ip_port \<Rightarrow> addr \<Rightarrow> bool" where
  "tp_match h dest d \<longleftrightarrow> same_addr (data_addr h d) dest \<and> port (data_addr h d) = port dest"

lemma tp_scan_find:
  assumes "\<forall>d\<in>set ds. svrdatas h d \<noteq> None \<and> sd_ok h d" and "ip_wf dest"
    and "\<forall>d\<in>set ds. ip_wf (data_addr h d) \<and> family (data_addr h d) = family dest"
  shows "tp_scan h dest ds = Some (List.find (tp_match h dest) ds)"
  using assms(1,3)
proof (induction ds)
  case (Cons d ds)
  obtain sd sv where sd: "svrdatas h d = Some sd" "servers h (sd_server sd) = Some sv"
    using Cons.prems(1) by (auto simp: sd_ok_def)
  then have wf: "ip_wf (sv_address sv)" "family (sv_address sv) = family dest" using Cons.prems(2) by (auto simp: data_addr_def)
  have "ip_port_compare (Some (sv_address sv)) (Some dest) = 0 \<longleftrightarrow>
      same_addr (sv_address sv) dest \<and> port (sv_address sv) = port dest"
    using po.lex.zero_iff [of "sv_address sv" "family dest" dest] wf assms(2)
    by (simp add: ip_port_compare_lex flip: word_uint_eq_iff)
  then show ?case using sd Cons by (auto simp: tp_match_def data_addr_def)
qed simp



text \<open>
  C27: running data of a server pool that was cloned \<open>n\<close> times lives through \<open>n\<close> frees and is destroyed, with its
  entries, by the next one; no free faults.
\<close>

theorem spdata_refcount:
  assumes "pd_rc h a = Some 0" and "pd_ok h a" and "n < 2 ^ 32"
  shows "\<exists>h1 h2 h3. repeat_op n (svrpool_clone_data a) h = Some h1 \<and> repeat_op n (svrpool_free_data a) h1 = Some h2 \<and>
    pd_rc h2 a = Some 0 \<and> svrpool_free_data a h2 = Some (0, h3) \<and> pd_rc h3 a = None"
  by (rule pdr.balanced [OF assms])

theorem spdata_refcount_witness:
  "\<exists>h1 h2 h3. repeat_op 3 (svrpool_clone_data 50) sp_sample = Some h1 \<and>
    repeat_op 3 (svrpool_free_data 50) h1 = Some h2 \<and> svrpool_free_data 50 h2 = Some (0, h3) \<and> pd_rc h3 50 = None"
proof -
  have "pd_rc sp_sample 50 = Some 0" by (simp add: pd_rc_def sp_sample_def pd_sample_def)
  from spdata_refcount [OF this sp_sample_ok, of 3] show ?thesis by auto
qed

end
