(* ===== verification/Policy.thy ===== *)
theory Policy
  imports Svrpool_Correct
begin

text \<open>
  Listeners and policies, \<^verbatim>\<open>network/proxy/utils/listener.c\<close> and \<^verbatim>\<open>policy.c\<close>: a policy ties a listener to a
  server pool and owns the running data of both.  The heap extends that of the server pools.
  The socket calls are functions of the environment.
\<close>

record listener =
  lt_name :: string
  lt_address :: ip_port
  lt_ssl :: int
  lt_cert :: addr
  lt_refcnt :: u32

record listener_data =
  ld_sslctx :: addr
  ld_refcnt :: u32

record listener_fd =
  lf_fd :: int
  lf_address :: ip_port
  lf_worker :: addr
  lf_thread :: addr
  lf_policy :: addr
  lf_ssnlist :: "addr list"

datatype pl_mode = PL_MODE_REVERSE | PL_MODE_TRAPT | PL_MODE_TPROXY

record policy =
  pl_name :: string
  pl_mode :: pl_mode
  pl_listener :: addr
  pl_svrpool :: addr
  pl_ltndata :: addr
  pl_spdata :: addr
  pl_refcnt :: u32

record pl_heap = sp_heap +
  listeners :: "addr \<rightharpoonup> listener"
  ltndatas :: "addr \<rightharpoonup> listener_data"
  lfds :: "addr \<rightharpoonup> listener_fd"
  policies :: "addr \<rightharpoonup> policy"

subsection \<open>Listeners\<close>

definition listener_alloc :: "addr \<Rightarrow> 'a pl_heap_scheme \<Rightarrow> addr \<times> 'a pl_heap_scheme" where
  "listener_alloc m h = (if m = NULL then (NULL, h)
     else (m, h\<lparr>listeners := (listeners h)(m \<mapsto> \<lparr>lt_name = [], lt_address = zero_port, lt_ssl = 0, lt_cert = NULL,
       lt_refcnt = 0\<rparr>)\<rparr>))"

definition listener_clone :: "addr \<Rightarrow> 'a pl_heap_scheme \<Rightarrow> (addr \<times> 'a pl_heap_scheme) option" where
  "listener_clone a h = (if a = NULL then Some (NULL, h) else do {
     l \<leftarrow> listeners h a;
     Some (a, h\<lparr>listeners := (listeners h)(a \<mapsto> l\<lparr>lt_refcnt := lt_refcnt l + 1\<rparr>)\<rparr>) })"

definition listener_free :: "addr \<Rightarrow> 'a pl_heap_scheme \<Rightarrow> (int \<times> 'a pl_heap_scheme) option" where
  "listener_free a h = (if a = NULL then Some (- 1, h) else do {
     l \<leftarrow> listeners h a;
     if lt_refcnt l = 0 then Some (0, h\<lparr>listeners := (listeners h)(a := None)\<rparr>)
     else Some (0, h\<lparr>listeners := (listeners h)(a \<mapsto> l\<lparr>lt_refcnt := lt_refcnt l - 1\<rparr>)\<rparr>) })"

definition listener_alloc_data :: "addr \<Rightarrow> ssl_env \<Rightarrow> addr \<Rightarrow> 'a pl_heap_scheme \<Rightarrow> (addr \<times> 'a pl_heap_scheme) option" where
  "listener_alloc_data m e a h = (if a = NULL then Some (NULL, h)
     else if m = NULL then Some (NULL, h)
     else do {
       l \<leftarrow> listeners h a;
       if lt_ssl l \<noteq> 0 \<and> lt_cert l \<noteq> NULL then do {
         (sc, h) \<leftarrow> certset_alloc_ctx e (lt_cert l) SSL_SD_SERVER h;
         if sc = NULL then Some (NULL, h)
         else Some (m, h\<lparr>ltndatas := (ltndatas h)(m \<mapsto> \<lparr>ld_sslctx = sc, ld_refcnt = 0\<rparr>)\<rparr>) }
       else Some (m, h\<lparr>ltndatas := (ltndatas h)(m \<mapsto> \<lparr>ld_sslctx = NULL, ld_refcnt = 0\<rparr>)\<rparr>) })"

definition listener_clone_data :: "addr \<Rightarrow> 'a pl_heap_scheme \<Rightarrow> (addr \<times> 'a pl_heap_scheme) option" where
  "listener_clone_data a h = (if a = NULL then Some (NULL, h) else do {
     l \<leftarrow> ltndatas h a;
     Some (a, h\<lparr>ltndatas := (ltndatas h)(a \<mapsto> l\<lparr>ld_refcnt := ld_refcnt l + 1\<rparr>)\<rparr>) })"

definition listener_free_data :: "addr \<Rightarrow> 'a pl_heap_scheme \<Rightarrow> (int \<times> 'a pl_heap_scheme) option" where
  "listener_free_data a h = (if a = NULL then Some (- 1, h) else do {
     l \<leftarrow> ltndatas h a;
     if ld_refcnt l = 0 then do {
       h \<leftarrow> (if ld_sslctx l \<noteq> NULL then ssl_ctx_free (ld_sslctx l) h else Some h);
       Some (0, h\<lparr>ltndatas := (ltndatas h)(a := None)\<rparr>) }
     else Some (0, h\<lparr>ltndatas := (ltndatas h)(a \<mapsto> l\<lparr>ld_refcnt := ld_refcnt l - 1\<rparr>)\<rparr>) })"

text \<open>\<open>srv\<close> is \<^verbatim>\<open>sk_tcp_server\<close>: the descriptor it returns for an address, the nonblocking flag and the
  transparent flag.  The socket options set afterwards do not change the structure.\<close>

definition listener_alloc_fd ::
  "addr \<Rightarrow> (ip_port \<Rightarrow> int \<Rightarrow> int \<Rightarrow> int) \<Rightarrow> addr \<Rightarrow> pl_mode \<Rightarrow> 'a pl_heap_scheme \<Rightarrow> (addr \<times> 'a pl_heap_scheme) option" where
  "listener_alloc_fd m srv a mode h = (if a = NULL then Some (NULL, h)
     else if m = NULL then Some (NULL, h)
     else do {
       l \<leftarrow> listeners h a;
       let fd = (if mode = PL_MODE_REVERSE \<or> mode = PL_MODE_TRAPT then srv (lt_address l) 1 0 else srv (lt_address l) 1 1);
       if fd < 0 then Some (NULL, h)
       else Some (m, h\<lparr>lfds := (lfds h)(m \<mapsto> \<lparr>lf_fd = fd, lf_address = lt_address l, lf_worker = NULL, lf_thread = NULL,
         lf_policy = NULL, lf_ssnlist = []\<rparr>)\<rparr>) })"

subsection \<open>Policies\<close>

definition policy_alloc :: "addr \<Rightarrow> 'a pl_heap_scheme \<Rightarrow> addr \<times> 'a pl_heap_scheme" where
  "policy_alloc m h = (if m = NULL then (NULL, h)
     else (m, h\<lparr>policies := (policies h)(m \<mapsto> \<lparr>pl_name = [], pl_mode = PL_MODE_REVERSE, pl_listener = NULL, pl_svrpool = NULL,
       pl_ltndata = NULL, pl_spdata = NULL, pl_refcnt = 0\<rparr>)\<rparr>))"

definition policy_free_data :: "addr \<Rightarrow> 'a pl_heap_scheme \<Rightarrow> (int \<times> 'a pl_heap_scheme) option" where
  "policy_free_data a h = (if a = NULL then Some (- 1, h) else do {
     p \<leftarrow> policies h a;
     h \<leftarrow> (if pl_spdata p \<noteq> NULL then do {
            (r, h) \<leftarrow> svrpool_free_data (pl_spdata p) h;
            Some (h\<lparr>policies := (policies h)(a \<mapsto> p\<lparr>pl_spdata := NULL\<rparr>)\<rparr>) }
          else Some h);
     p \<leftarrow> policies h a;
     h \<leftarrow> (if pl_ltndata p \<noteq> NULL then do {
            (r, h) \<leftarrow> listener_free_data (pl_ltndata p) h;
            Some (h\<lparr>policies := (policies h)(a \<mapsto> p\<lparr>pl_ltndata := NULL\<rparr>)\<rparr>) }
          else Some h);
     Some (0, h) })"

definition policy_free :: "addr \<Rightarrow> 'a pl_heap_scheme \<Rightarrow> (int \<times> 'a pl_heap_scheme) option" where
  "policy_free a h = (if a = NULL then Some (- 1, h) else do {
     p \<leftarrow> policies h a;
     let h = h\<lparr>policies := (policies h)(a \<mapsto> p\<lparr>pl_refcnt := pl_refcnt p - 1\<rparr>)\<rparr>;
     if pl_refcnt p = 0 then do {
       h \<leftarrow> (if pl_listener p \<noteq> NULL then do { (r, h) \<leftarrow> listener_free (pl_listener p) h; Some h } else Some h);
       h \<leftarrow> (if pl_svrpool p \<noteq> NULL then do { (r, h) \<leftarrow> svrpool_free (pl_svrpool p) h; Some h } else Some h);
       (r, h) \<leftarrow> policy_free_data a h;
       Some (0, h\<lparr>policies := (policies h)(a := None)\<rparr>) }
     else Some (0, h) })"

definition policy_clone :: "addr \<Rightarrow> 'a pl_heap_scheme \<Rightarrow> (addr \<times> 'a pl_heap_scheme) option" where
  "policy_clone a h = (if a = NULL then Some (NULL, h) else do {
     p \<leftarrow> policies h a;
     Some (a, h\<lparr>policies := (policies h)(a \<mapsto> p\<lparr>pl_refcnt := pl_refcnt p + 1\<rparr>)\<rparr>) })"

text \<open>\<open>m1\<close>, \<open>ms\<close>, \<open>m2\<close> are what \<^verbatim>\<open>calloc\<close> returns for the running data of the pool, of its servers and of
  the listener.\<close>

definition policy_init_data ::
  "addr \<Rightarrow> (nat \<Rightarrow> addr) \<Rightarrow> addr \<Rightarrow> ssl_env \<Rightarrow> addr \<Rightarrow> 'a pl_heap_scheme \<Rightarrow> (int \<times> 'a pl_heap_scheme) option" where
  "policy_init_data m1 ms m2 e a h = (if a = NULL then Some (- 1, h) else do {
     p \<leftarrow> policies h a;
     if pl_listener p = NULL \<or> pl_svrpool p = NULL then Some (- 1, h)
     else do {
       (sd, h) \<leftarrow> svrpool_alloc_data m1 ms e (pl_svrpool p) h;
       let p = p\<lparr>pl_spdata := sd\<rparr>;
       let h = h\<lparr>policies := (policies h)(a \<mapsto> p)\<rparr>;
       if sd = NULL then Some (- 1, h)
       else do {
         (ld, h) \<leftarrow> listener_alloc_data m2 e (pl_listener p) h;
         let h = h\<lparr>policies := (policies h)(a \<mapsto> p\<lparr>pl_ltndata := ld\<rparr>)\<rparr>;
         if ld = NULL then Some (- 1, h) else Some (0, h) } } })"

definition policy_clone_spdata :: "addr \<Rightarrow> 'a pl_heap_scheme \<Rightarrow> (addr \<times> 'a pl_heap_scheme) option" where
  "policy_clone_spdata a h = (if a = NULL then Some (NULL, h) else do {
     p \<leftarrow> policies h a;
     if pl_spdata p = NULL then Some (NULL, h) else svrpool_clone_data (pl_spdata p) h })"

definition policy_clone_ltndata :: "addr \<Rightarrow> 'a pl_heap_scheme \<Rightarrow> (addr \<times> 'a pl_heap_scheme) option" where
  "policy_clone_ltndata a h = (if a = NULL then Some (NULL, h) else do {
     p \<leftarrow> policies h a;
     if pl_ltndata p = NULL then Some (NULL, h) else listener_clone_data (pl_ltndata p) h })"

subsection \<open>Reference counting of listeners and their data\<close>

definition lt_rc :: "'a pl_heap_scheme \<Rightarrow> addr \<Rightarrow> u32 option" where
  "lt_rc h a = (if a = NULL then None else map_option lt_refcnt (listeners h a))"

interpretation ltr: refcounted lt_rc listener_clone listener_free "\<lambda>h a. True"
  by unfold_locales (auto simp: lt_rc_def listener_clone_def listener_free_def split: if_splits)

definition ld_rc :: "'a pl_heap_scheme \<Rightarrow> addr \<Rightarrow> u32 option" where
  "ld_rc h a = (if a = NULL then None else map_option ld_refcnt (ltndatas h a))"

definition ld_ok :: "'a pl_heap_scheme \<Rightarrow> addr \<Rightarrow> bool" where
  "ld_ok h a \<longleftrightarrow> (\<forall>l. ltndatas h a = Some l \<longrightarrow> ld_sslctx l = NULL \<or> ld_sslctx l \<in> ctxs h)"

interpretation ldr: refcounted ld_rc listener_clone_data listener_free_data ld_ok
proof
  fix h :: "'a pl_heap_scheme" and a k
  assume rc: "ld_rc h a = Some k" and ok: "ld_ok h a"
  then obtain l where l: "ltndatas h a = Some l" "a \<noteq> NULL" "ld_refcnt l = k"
    by (auto simp: ld_rc_def split: if_splits)
  show "\<exists>h'. listener_clone_data a h = Some (a, h') \<and> ld_rc h' a = Some (k + 1) \<and> ld_ok h' a"
    using l ok by (simp add: listener_clone_data_def ld_rc_def ld_ok_def)
  show "\<exists>h'. listener_free_data a h = Some (0, h') \<and> ld_rc h' a = Some (k - 1) \<and> ld_ok h' a" if "k \<noteq> 0"
    using l ok that by (simp add: listener_free_data_def ld_rc_def ld_ok_def)
next
  fix h :: "'a pl_heap_scheme" and a
  assume rc: "ld_rc h a = Some 0" and ok: "ld_ok h a"
  then obtain l where "ltndatas h a = Some l" "a \<noteq> NULL" "ld_refcnt l = 0"
    by (auto simp: ld_rc_def split: if_splits)
  then show "\<exists>h'. listener_free_data a h = Some (0, h') \<and> ld_rc h' a = None"
    using ok by (auto simp: listener_free_data_def ld_rc_def ld_ok_def ssl_ctx_free_def)
qed

subsection \<open>Destroying a policy\<close>

text \<open>What freeing the parts of a policy leaves alone.  A server with references survives its pool.\<close>

lemma svrpool_free_frame:
  assumes "a \<noteq> NULL" and "svrpools h a \<noteq> None" and "sp_ok h a"
  shows "\<exists>f g. svrpool_free a h = Some (0, h\<lparr>servers := f, svrpools := g\<rparr>) \<and>
    (\<forall>x. servers h x \<noteq> None \<and> sv_refcnt (the (servers h x)) \<noteq> 0 \<longrightarrow> f x \<noteq> None)"
proof -
  obtain s where s: "svrpools h a = Some s" using assms(2) by auto
  obtain f where f: "free_each server_free (sp_svrlist s) h = Some (h\<lparr>servers := f\<rparr>)"
    "\<And>x. x \<notin> set (sp_svrlist s) \<Longrightarrow> f x = servers h x"
    "\<And>x. x \<in> set (sp_svrlist s) \<Longrightarrow> sv_refcnt (the (servers h x)) \<noteq> 0 \<Longrightarrow> f x \<noteq> None"
    using free_each_servers [of "sp_svrlist s" h] assms(3) s unfolding sp_ok_def by blast
  show ?thesis
  proof (cases "sp_refcnt s = 0")
    case True
    have keep: "\<forall>x. servers h x \<noteq> None \<and> sv_refcnt (the (servers h x)) \<noteq> 0 \<longrightarrow> f x \<noteq> None"
      using f(2,3) by (metis)
    have "svrpool_free a h = Some (0, h\<lparr>servers := f, svrpools := (svrpools h)(a := None)\<rparr>)"
      using True s f(1) assms(1) by (simp add: svrpool_free_def)
    then show ?thesis using keep by blast
  next
    case False
    then have "svrpool_free a h = Some (0, h\<lparr>servers := servers h,
        svrpools := (svrpools h)(a \<mapsto> s\<lparr>sp_refcnt := sp_refcnt s - 1\<rparr>)\<rparr>)"
      using s assms(1) by (simp add: svrpool_free_def)
    then show ?thesis by blast
  qed
qed

lemma svrpool_free_data_frame:
  assumes "a \<noteq> NULL" and "spdatas h a \<noteq> None" and "pd_ok h a"
  shows "\<exists>f g k. svrpool_free_data a h = Some (0, h\<lparr>servers := f, svrdatas := g, spdatas := k\<rparr>)"
proof -
  obtain s where s: "spdatas h a = Some s" using assms(2) by auto
  obtain f g where fg: "free_each free_data_checked (pd_live s) h = Some (h\<lparr>servers := f, svrdatas := g\<rparr>)"
    using free_each_datas [of h "pd_live s"] assms(3) s unfolding pd_ok_def by blast
  show ?thesis
  proof (cases "pd_refcnt s = 0")
    case True
    then have "svrpool_free_data a h = Some (0, h\<lparr>servers := f, svrdatas := g, spdatas := (spdatas h)(a := None)\<rparr>)"
      using s assms(1) fg by (simp add: svrpool_free_data_def pd_live_def)
    then show ?thesis by blast
  next
    case False
    then have "svrpool_free_data a h = Some (0, h\<lparr>servers := servers h, svrdatas := svrdatas h,
        spdatas := (spdatas h)(a \<mapsto> s\<lparr>pd_refcnt := pd_refcnt s - 1\<rparr>)\<rparr>)"
      using s assms(1) by (simp add: svrpool_free_data_def)
    then show ?thesis by blast
  qed
qed

lemma listener_free_frame:
  "a \<noteq> NULL \<Longrightarrow> listeners h a \<noteq> None \<Longrightarrow> \<exists>f. listener_free a h = Some (0, h\<lparr>listeners := f\<rparr>)"
  by (auto simp: listener_free_def)

lemma listener_free_data_frame:
  assumes "a \<noteq> NULL" and "ltndatas h a \<noteq> None" and "ld_ok h a"
  shows "\<exists>f c. listener_free_data a h = Some (0, h\<lparr>ctxs := c, ltndatas := f\<rparr>)"
proof -
  obtain l where l: "ltndatas h a = Some l" using assms(2) by auto
  consider "ld_refcnt l \<noteq> 0" | "ld_refcnt l = 0" "ld_sslctx l = NULL" | "ld_refcnt l = 0" "ld_sslctx l \<noteq> NULL"
    by auto
  then show ?thesis
  proof cases
    case 1
    then have "listener_free_data a h = Some (0, h\<lparr>ctxs := ctxs h, ltndatas := (ltndatas h)(a \<mapsto> l\<lparr>ld_refcnt := ld_refcnt l - 1\<rparr>)\<rparr>)"
      using l assms(1) by (simp add: listener_free_data_def)
    then show ?thesis by blast
  next
    case 2
    then have "listener_free_data a h = Some (0, h\<lparr>ctxs := ctxs h, ltndatas := (ltndatas h)(a := None)\<rparr>)"
      using l assms(1) by (simp add: listener_free_data_def)
    then show ?thesis by blast
  next
    case 3
    then have "listener_free_data a h = Some (0, h\<lparr>ctxs := ctxs h - {ld_sslctx l}, ltndatas := (ltndatas h)(a := None)\<rparr>)"
      using l assms by (simp add: listener_free_data_def ld_ok_def ssl_ctx_free_def)
    then show ?thesis by blast
  qed
qed

definition pl_rc :: "'a pl_heap_scheme \<Rightarrow> addr \<Rightarrow> u32 option" where
  "pl_rc h a = (if a = NULL then None else map_option pl_refcnt (policies h a))"

text \<open>
  The parts of a policy are live and can be destroyed themselves, and its running data holds references
  to its servers, so that they outlive the server pool.
\<close>

definition parts_ok :: "'a pl_heap_scheme \<Rightarrow> policy \<Rightarrow> bool" where
  "parts_ok h p \<longleftrightarrow>
     (pl_listener p \<noteq> NULL \<longrightarrow> listeners h (pl_listener p) \<noteq> None) \<and>
     (pl_svrpool p \<noteq> NULL \<longrightarrow> svrpools h (pl_svrpool p) \<noteq> None \<and> sp_ok h (pl_svrpool p)) \<and>
     (pl_spdata p \<noteq> NULL \<longrightarrow> spdatas h (pl_spdata p) \<noteq> None \<and> pd_ok h (pl_spdata p) \<and>
        (\<forall>d\<in>set (pd_live (the (spdatas h (pl_spdata p)))).
           sv_refcnt (the (servers h (sd_server (the (svrdatas h d))))) \<noteq> 0)) \<and>
     (pl_ltndata p \<noteq> NULL \<longrightarrow> ltndatas h (pl_ltndata p) \<noteq> None \<and> ld_ok h (pl_ltndata p))"

definition pl_ok :: "'a pl_heap_scheme \<Rightarrow> addr \<Rightarrow> bool" where
  "pl_ok h a \<longleftrightarrow> (\<forall>p. policies h a = Some p \<longrightarrow> parts_ok h p)"

lemma parts_ok_policies [simp]: "parts_ok (h\<lparr>policies := f\<rparr>) p = parts_ok h p"
  by (simp add: parts_ok_def sp_ok_def pd_ok_def datas_ok_def sd_ok_def ld_ok_def)

lemma parts_ok_refcnt [simp]: "parts_ok h (p\<lparr>pl_refcnt := k\<rparr>) = parts_ok h p"
  by (simp add: parts_ok_def)

text \<open>The running data can still be destroyed after the server pool is gone.\<close>

lemma pd_ok_servers:
  assumes "pd_ok h a" and "spdatas h a = Some pd"
    and "\<And>d. d \<in> set (pd_live pd) \<Longrightarrow> f (sd_server (the (svrdatas h d))) \<noteq> None"
  shows "pd_ok (h\<lparr>servers := f, svrpools := g\<rparr>) a"
proof -
  have "sd_ok (h\<lparr>servers := f, svrpools := g\<rparr>) d" if "d \<in> set (pd_live pd)" for d
    using assms(3) [OF that] assms(1,2) that by (auto simp: pd_ok_def datas_ok_def sd_ok_def)
  then show ?thesis using assms(1,2) by (auto simp: pd_ok_def datas_ok_def)
qed

lemma policy_free_data_total:
  assumes "a \<noteq> NULL" and "policies h a = Some p"
    and "pl_spdata p \<noteq> NULL \<Longrightarrow> spdatas h (pl_spdata p) \<noteq> None \<and> pd_ok h (pl_spdata p)"
    and "pl_ltndata p \<noteq> NULL \<Longrightarrow> ltndatas h (pl_ltndata p) \<noteq> None \<and> ld_ok h (pl_ltndata p)"
  shows "\<exists>h'. policy_free_data a h = Some (0, h')"
proof -
  obtain f g k q where q: "(if pl_spdata p \<noteq> NULL then do {
            (r, h) \<leftarrow> svrpool_free_data (pl_spdata p) h;
            Some (h\<lparr>policies := (policies h)(a \<mapsto> p\<lparr>pl_spdata := NULL\<rparr>)\<rparr>) }
          else Some h) = Some (h\<lparr>servers := f, svrdatas := g, spdatas := k, policies := (policies h)(a \<mapsto> p\<lparr>pl_spdata := q\<rparr>)\<rparr>)"
  proof (cases "pl_spdata p = NULL")
    case True
    then have "p\<lparr>pl_spdata := NULL\<rparr> = p" by simp
    then show ?thesis using True assms(2)
      by (intro that [where f = "servers h" and g = "svrdatas h" and k = "spdatas h" and q = NULL]) (simp add: map_upd_triv)
  next
    case False
    then obtain f g k where "svrpool_free_data (pl_spdata p) h = Some (0, h\<lparr>servers := f, svrdatas := g, spdatas := k\<rparr>)"
      using svrpool_free_data_frame [OF False] assms(3) by blast
    then show ?thesis using False by (intro that) simp
  qed
  let ?h = "h\<lparr>servers := f, svrdatas := g, spdatas := k, policies := (policies h)(a \<mapsto> p\<lparr>pl_spdata := q\<rparr>)\<rparr>"
  show ?thesis
  proof (cases "pl_ltndata p = NULL")
    case True
    then show ?thesis using assms(1,2) q by (simp add: policy_free_data_def)
  next
    case False
    have "ltndatas ?h (pl_ltndata p) \<noteq> None" and "ld_ok ?h (pl_ltndata p)"
      using assms(4) [OF False] by (simp_all add: ld_ok_def)
    from listener_free_data_frame [OF False this] obtain h' where "listener_free_data (pl_ltndata p) ?h = Some (0, h')"
      by blast
    then show ?thesis using assms(1,2) q False by (simp add: policy_free_data_def)
  qed
qed

text \<open>The last free destroys listener, pool and running data, in the order of the code, and then the policy.\<close>

lemma policy_free_last:
  assumes "a \<noteq> NULL" and p: "policies h a = Some p" and "pl_refcnt p = 0" and ok: "parts_ok h p"
  shows "\<exists>h'. policy_free a h = Some (0, h') \<and> policies h' a = None"
proof -
  let ?p = "p\<lparr>pl_refcnt := pl_refcnt p - 1\<rparr>"
  let ?h0 = "h\<lparr>policies := (policies h)(a \<mapsto> ?p)\<rparr>"
  obtain f where f: "(if pl_listener p \<noteq> NULL then do { (r, h) \<leftarrow> listener_free (pl_listener p) ?h0; Some h } else Some ?h0)
      = Some (?h0\<lparr>listeners := f\<rparr>)"
  proof (cases "pl_listener p = NULL")
    case True
    then show ?thesis by (intro that [of "listeners h"]) simp
  next
    case False
    then obtain f where "listener_free (pl_listener p) ?h0 = Some (0, ?h0\<lparr>listeners := f\<rparr>)"
      using listener_free_frame [OF False, of ?h0] ok by (auto simp: parts_ok_def)
    then show ?thesis using False by (intro that) simp
  qed
  let ?h1 = "?h0\<lparr>listeners := f\<rparr>"
  have ok1: "sp_ok ?h1 x = sp_ok h x" "pd_ok ?h1 x = pd_ok h x" for x
    by (simp_all add: sp_ok_def pd_ok_def datas_ok_def sd_ok_def)
  obtain sv sp where sp: "(if pl_svrpool p \<noteq> NULL then do { (r, h) \<leftarrow> svrpool_free (pl_svrpool p) ?h1; Some h } else Some ?h1)
      = Some (?h1\<lparr>servers := sv, svrpools := sp\<rparr>)"
    and keep: "\<And>x. servers h x \<noteq> None \<Longrightarrow> sv_refcnt (the (servers h x)) \<noteq> 0 \<Longrightarrow> sv x \<noteq> None"
  proof (cases "pl_svrpool p = NULL")
    case True
    then show ?thesis by (intro that [of "svrpools h" "servers h"]) simp_all
  next
    case False
    then have "svrpools ?h1 (pl_svrpool p) \<noteq> None" "sp_ok ?h1 (pl_svrpool p)"
      using ok ok1 by (simp_all add: parts_ok_def)
    from svrpool_free_frame [OF False this] obtain sv sp where
      "svrpool_free (pl_svrpool p) ?h1 = Some (0, ?h1\<lparr>servers := sv, svrpools := sp\<rparr>)"
      "\<forall>x. servers h x \<noteq> None \<and> sv_refcnt (the (servers h x)) \<noteq> 0 \<longrightarrow> sv x \<noteq> None"
      by auto
    then show ?thesis using False by (intro that [of sp sv]) simp_all
  qed
  let ?h2 = "?h1\<lparr>servers := sv, svrpools := sp\<rparr>"
  have "spdatas ?h2 (pl_spdata ?p) \<noteq> None \<and> pd_ok ?h2 (pl_spdata ?p)" if "pl_spdata ?p \<noteq> NULL"
  proof -
    have "pl_spdata p \<noteq> NULL" using that by simp
    then obtain pd where pd: "spdatas h (pl_spdata p) = Some pd" "pd_ok h (pl_spdata p)"
      "\<And>d. d \<in> set (pd_live pd) \<Longrightarrow> sv_refcnt (the (servers h (sd_server (the (svrdatas h d))))) \<noteq> 0"
      using ok by (auto simp: parts_ok_def)
    have "sv (sd_server (the (svrdatas ?h1 d))) \<noteq> None" if "d \<in> set (pd_live pd)" for d
      using pd(1,2) pd(3) [OF that] that keep [of "sd_server (the (svrdatas h d))"]
      by (auto simp: pd_ok_def datas_ok_def sd_ok_def)
    then have "pd_ok ?h2 (pl_spdata p)" using pd ok1 by (intro pd_ok_servers) simp_all
    then show ?thesis using pd(1) by simp
  qed
  moreover have "ltndatas ?h2 (pl_ltndata ?p) \<noteq> None \<and> ld_ok ?h2 (pl_ltndata ?p)" if "pl_ltndata ?p \<noteq> NULL"
    using ok that by (simp add: parts_ok_def ld_ok_def)
  ultimately obtain h3 where "policy_free_data a ?h2 = Some (0, h3)"
    using policy_free_data_total [of a ?h2 ?p] assms(1) by auto
  then have "policy_free a h = Some (0, h3\<lparr>policies := (policies h3)(a := None)\<rparr>)"
    unfolding policy_free_def Let_def if_not_P [OF assms(1)] p
    by (simp only: bind.simps if_P [OF assms(3)] f sp prod.case)
  then show ?thesis by simp
qed

interpretation plr: refcounted pl_rc policy_clone policy_free pl_ok
proof
  fix h :: "'a pl_heap_scheme" and a k
  assume rc: "pl_rc h a = Some k" and ok: "pl_ok h a"
  then obtain p where p: "policies h a = Some p" "a \<noteq> NULL" "pl_refcnt p = k"
    by (auto simp: pl_rc_def split: if_splits)
  show "\<exists>h'. policy_clone a h = Some (a, h') \<and> pl_rc h' a = Some (k + 1) \<and> pl_ok h' a"
    using p ok by (simp add: policy_clone_def pl_rc_def pl_ok_def)
  show "\<exists>h'. policy_free a h = Some (0, h') \<and> pl_rc h' a = Some (k - 1) \<and> pl_ok h' a" if "k \<noteq> 0"
    using p ok that by (simp add: policy_free_def pl_rc_def pl_ok_def)
next
  fix h :: "'a pl_heap_scheme" and a
  assume rc: "pl_rc h a = Some 0" and ok: "pl_ok h a"
  then obtain p where "policies h a = Some p" "a \<noteq> NULL" "pl_refcnt p = 0"
    by (auto simp: pl_rc_def split: if_splits)
  then show "\<exists>h'. policy_free a h = Some (0, h') \<and> pl_rc h' a = None"
    using policy_free_last [of a h p] ok by (auto simp: pl_ok_def pl_rc_def)
qed

definition pl_sample :: pl_heap where
  "pl_sample = \<lparr>certsets = Map.empty, cacerts = Map.empty, ctxs = {7},
     servers = [10 \<mapsto> (sv_sample 1 4)\<lparr>sv_refcnt := 1\<rparr>, 20 \<mapsto> (sv_sample 2 6)\<lparr>sv_refcnt := 1\<rparr>],
     svrdatas = [30 \<mapsto> sd_sample 10, 40 \<mapsto> sd_sample 20],
     svrpools = [60 \<mapsto> \<lparr>sp_name = ''pool'', sp_algo = SP_ALGO_RR, sp_svrlist = [10, 20], sp_nserver = 2, sp_refcnt = 0\<rparr>],
     spdatas = [50 \<mapsto> pd_sample],
     listeners = [70 \<mapsto> \<lparr>lt_name = ''web'', lt_address = zero_port, lt_ssl = 1, lt_cert = NULL, lt_refcnt = 0\<rparr>],
     ltndatas = [80 \<mapsto> \<lparr>ld_sslctx = 7, ld_refcnt = 0\<rparr>], lfds = Map.empty,
     policies = [90 \<mapsto> \<lparr>pl_name = ''p'', pl_mode = PL_MODE_REVERSE, pl_listener = 70, pl_svrpool = 60,
       pl_ltndata = 80, pl_spdata = 50, pl_refcnt = 0\<rparr>]\<rparr>"

lemma pl_sample_ok: "pl_ok pl_sample 90"
  by (simp add: pl_ok_def parts_ok_def pl_sample_def sp_ok_def pd_ok_def datas_ok_def pd_live_sample sd_ok_def
      ld_ok_def sd_sample_def sv_sample_def)



end
