(* ===== verification/Fd_epoll.thy ===== *)
theory Fd_epoll
  imports Fz_Interfaces
begin

text \<open>
  The event layer \<^verbatim>\<open>network/proxy/utils/fd_epoll.c\<close>: a table of descriptors, a queue of descriptors
  whose interest has changed, and the kernel's interest set.  \<^verbatim>\<open>fd_epoll_add_event\<close> queues a change,
  \<^verbatim>\<open>fd_epoll_flush_events\<close> commits the queue with \<^verbatim>\<open>epoll_ctl\<close>, \<^verbatim>\<open>fd_epoll_poll\<close> runs the callbacks of
  descriptors that are ready.  \<open>kernel\<close> is the kernel's side: the events registered for a
  descriptor, 0 for none.  Indexing an array outside its bounds is a fault.
\<close>

datatype fd_state = FD_CLOSED | FD_READY

record fd_item =
  events :: int
  pevents :: int
  revents :: int
  fdstate :: fd_state
  arg :: addr
  is_updated :: int
  iocb :: addr

record fd_epoll =
  epfd :: int
  maxfd :: int
  maxwait :: int
  waittime :: int
  maps :: "fd_item list"
  updates :: "int list"
  nupdate :: int
  kernel :: "int \<Rightarrow> int"

text \<open>What the calls of the allocation return, and the resources that are held.\<close>

datatype fe_res = R_fe | R_epfd | R_events | R_maps | R_updates

record fe_env =
  e_fe :: addr
  e_epfd :: int
  e_events :: addr
  e_maps :: addr
  e_updates :: addr

definition new_item :: fd_item where
  "new_item = \<lparr>events = 0, pevents = 0, revents = 0, fdstate = FD_CLOSED, arg = NULL, is_updated = 0, iocb = NULL\<rparr>"

definition new_fd_epoll :: "int \<Rightarrow> int \<Rightarrow> int \<Rightarrow> fd_epoll" where
  "new_fd_epoll ep mx wt = \<lparr>epfd = ep, maxfd = mx, maxwait = 200, waittime = wt, maps = replicate (nat mx) new_item,
     updates = replicate (nat mx) 0, nupdate = 0, kernel = (\<lambda>_. 0)\<rparr>"

text \<open>\<^verbatim>\<open>fd_epoll_free\<close> releases what was allocated (\<open>None\<close> is the null pointer, \<open>Some ep\<close> a structure
  with descriptor \<open>ep\<close>); the descriptor only when it is positive.\<close>

definition fd_epoll_free :: "int option \<Rightarrow> fe_res list \<Rightarrow> int \<times> fe_res list" where
  "fd_epoll_free fe live = (case fe of None \<Rightarrow> (- 1, live) | Some ep \<Rightarrow>
     let live = removeAll R_updates live; live = removeAll R_maps live; live = removeAll R_events live;
         live = (if ep > 0 then removeAll R_epfd live else live)
     in (0, removeAll R_fe live))"

definition fd_epoll_alloc :: "fe_env \<Rightarrow> int \<Rightarrow> int \<Rightarrow> fd_epoll option \<times> fe_res list" where
  "fd_epoll_alloc e mx wt =
    (if mx < 1 \<or> wt < 0 then (None, [])
     else if e_fe e = NULL then (None, [])
     else let live = [R_fe] in
     if e_epfd e < 0 then (None, snd (fd_epoll_free (Some (e_epfd e)) live))
     else let live = R_epfd # live in
     if e_events e = NULL then (None, snd (fd_epoll_free (Some (e_epfd e)) live))
     else let live = R_events # live in
     if e_maps e = NULL then (None, snd (fd_epoll_free (Some (e_epfd e)) live))
     else let live = R_maps # live in
     if e_updates e = NULL then (None, snd (fd_epoll_free (Some (e_epfd e)) live))
     else (Some (new_fd_epoll (e_epfd e) mx wt), R_updates # live))"

lemma fd_epoll_alloc_no_leak:
  "e_epfd e \<noteq> 0 \<Longrightarrow> fd_epoll_alloc e mx wt = (None, live) \<Longrightarrow> live = []"
  by (auto simp: fd_epoll_alloc_def fd_epoll_free_def Let_def split: if_splits)

definition get_item :: "fd_epoll \<Rightarrow> int \<Rightarrow> fd_item option" where
  "get_item fe fd = (if 0 \<le> fd \<and> nat fd < length (maps fe) then Some (maps fe ! nat fd) else None)"

definition set_item :: "fd_epoll \<Rightarrow> int \<Rightarrow> fd_item \<Rightarrow> fd_epoll" where
  "set_item fe fd it = fe\<lparr>maps := (maps fe)[nat fd := it]\<rparr>"

text \<open>
  \<^verbatim>\<open>fd_epoll_map\<close>: the index of the item, \<open>None\<close> for \<open>NULL\<close>.  The index \<open>maxfd\<close> passes its check.
\<close>

definition fd_epoll_map :: "fd_epoll option \<Rightarrow> int \<Rightarrow> int option" where
  "fd_epoll_map fe fd = (case fe of None \<Rightarrow> None | Some f \<Rightarrow>
     if fd < 0 \<or> fd > maxfd f then None else Some fd)"

definition fd_epoll_add_event :: "fd_epoll option \<Rightarrow> int \<Rightarrow> int \<Rightarrow> addr \<Rightarrow> (int \<times> fd_epoll option) option" where
  "fd_epoll_add_event fep fd ev cb = (case fep of None \<Rightarrow> Some (- 1, None) | Some fe \<Rightarrow>
     if fd < 0 then Some (- 1, Some fe)
     else if fd \<ge> maxfd fe then Some (- 1, Some fe)
     else do {
       fi \<leftarrow> get_item fe fd;
       let fi = fi\<lparr>events := ev, iocb := cb\<rparr>;
       if is_updated fi = 0 then
         let fe = fe\<lparr>nupdate := nupdate fe + 1\<rparr>; k = nupdate fe - 1 in
         if 0 \<le> k \<and> nat k < length (updates fe) then
           Some (0, Some (set_item (fe\<lparr>updates := (updates fe)[nat k := fd]\<rparr>) fd (fi\<lparr>is_updated := 1\<rparr>)))
         else None
       else Some (0, Some (set_item fe fd fi)) })"

text \<open>
  \<^verbatim>\<open>epoll_ctl\<close>: adding a registered descriptor, or changing or deleting one that is not, fails; so
  does any call the kernel refuses for another reason (\<open>ok\<close> is false).
\<close>

datatype ctl_op = EPOLL_CTL_ADD | EPOLL_CTL_DEL | EPOLL_CTL_MOD

definition epoll_ctl :: "bool \<Rightarrow> ctl_op \<Rightarrow> int \<Rightarrow> int \<Rightarrow> (int \<Rightarrow> int) \<Rightarrow> int \<times> (int \<Rightarrow> int)" where
  "epoll_ctl ok op fd ev k =
    (if \<not> ok then (- 1, k)
     else case op of
       EPOLL_CTL_ADD \<Rightarrow> if k fd \<noteq> 0 then (- 1, k) else (0, k(fd := ev))
     | EPOLL_CTL_MOD \<Rightarrow> if k fd = 0 then (- 1, k) else (0, k(fd := ev))
     | EPOLL_CTL_DEL \<Rightarrow> if k fd = 0 then (- 1, k) else (0, k(fd := 0)))"

definition flush_op :: "fd_item \<Rightarrow> ctl_op" where
  "flush_op fi = (if pevents fi = 0 then EPOLL_CTL_ADD else if events fi = 0 then EPOLL_CTL_DEL else EPOLL_CTL_MOD)"

text \<open>One turn of the loop of \<^verbatim>\<open>fd_epoll_flush_events\<close>.\<close>

definition flush_one :: "(int \<Rightarrow> bool) \<Rightarrow> int \<Rightarrow> fd_epoll \<Rightarrow> fd_epoll option" where
  "flush_one ok fd fe =
    (if fd \<le> 0 then Some fe
     else do {
       fi \<leftarrow> get_item fe fd;
       if arg fi = NULL then Some fe
       else if is_updated fi = 0 then Some fe
       else if fdstate fi \<noteq> FD_READY then Some (set_item fe fd (fi\<lparr>is_updated := 0\<rparr>))
       else if events fi = pevents fi then Some (set_item fe fd (fi\<lparr>is_updated := 0\<rparr>))
       else case epoll_ctl (ok fd) (flush_op fi) fd (events fi) (kernel fe) of (r, k) \<Rightarrow>
         if r \<noteq> 0 then Some (fe\<lparr>kernel := k\<rparr>)
         else Some (set_item (fe\<lparr>kernel := k\<rparr>) fd (fi\<lparr>pevents := events fi, is_updated := 0\<rparr>)) })"

fun flush_loop :: "(int \<Rightarrow> bool) \<Rightarrow> int list \<Rightarrow> fd_epoll \<Rightarrow> fd_epoll option" where
  "flush_loop ok [] fe = Some fe"
| "flush_loop ok (fd # fds) fe = do { fe \<leftarrow> flush_one ok fd fe; flush_loop ok fds fe }"

definition fd_epoll_flush_events :: "(int \<Rightarrow> bool) \<Rightarrow> fd_epoll option \<Rightarrow> (int \<times> fd_epoll option) option" where
  "fd_epoll_flush_events ok fep = (case fep of None \<Rightarrow> Some (- 1, None) | Some fe \<Rightarrow>
     if nupdate fe < 1 then Some (0, Some fe)
     else if nat (nupdate fe) > length (updates fe) then None
     else do {
       fe \<leftarrow> flush_loop ok (take (nat (nupdate fe)) (updates fe)) fe;
       Some (0, Some (fe\<lparr>nupdate := 0\<rparr>)) })"

text \<open>
  \<^verbatim>\<open>fd_epoll_poll\<close>: \<open>rs\<close> is what \<^verbatim>\<open>epoll_wait\<close> returned (\<open>None\<close> when it failed), \<open>cb\<close> what calling a
  callback does.  A ready descriptor without callback ends the process.
\<close>

datatype 'a outcome = Done 'a | Exit | Fault

fun poll_loop ::
  "(addr \<Rightarrow> int \<Rightarrow> int \<Rightarrow> addr \<Rightarrow> fd_epoll \<Rightarrow> fd_epoll option) \<Rightarrow> (int \<times> int) list \<Rightarrow> fd_epoll \<Rightarrow> fd_epoll outcome" where
  "poll_loop cb [] fe = Done fe"
| "poll_loop cb ((fd, ev) # rs) fe =
    (if ev = 0 then poll_loop cb rs fe
     else case fd_epoll_map (Some fe) fd of None \<Rightarrow> Fault
     | Some i \<Rightarrow> (case get_item fe i of None \<Rightarrow> Fault
       | Some fi \<Rightarrow>
          if fdstate fi \<noteq> FD_READY then poll_loop cb rs fe
          else if iocb fi = NULL then Exit
          else if arg fi = NULL then poll_loop cb rs fe
          else (case cb (iocb fi) fd ev (arg fi) fe of None \<Rightarrow> Fault | Some fe \<Rightarrow> poll_loop cb rs fe)))"

definition fd_epoll_poll ::
  "(addr \<Rightarrow> int \<Rightarrow> int \<Rightarrow> addr \<Rightarrow> fd_epoll \<Rightarrow> fd_epoll option) \<Rightarrow> (int \<times> int) list option \<Rightarrow>
     fd_epoll option \<Rightarrow> (int \<times> fd_epoll option) outcome" where
  "fd_epoll_poll cb rs fep = (case fep of None \<Rightarrow> Done (- 1, None) | Some fe \<Rightarrow>
     case rs of None \<Rightarrow> Done (- 1, Some fe)
     | Some r \<Rightarrow> (case poll_loop cb r fe of Done fe \<Rightarrow> Done (0, Some fe) | Exit \<Rightarrow> Exit | Fault \<Rightarrow> Fault))"

subsection \<open>The invariant\<close>

definition queue :: "fd_epoll \<Rightarrow> int list" where
  "queue fe = take (nat (nupdate fe)) (updates fe)"

text \<open>
  Queued descriptors are distinct, in range and marked; what the table believes to be registered is
  what the kernel has.
\<close>

definition fe_inv :: "fd_epoll \<Rightarrow> bool" where
  "fe_inv fe \<longleftrightarrow> 1 \<le> maxfd fe \<and> length (maps fe) = nat (maxfd fe) \<and> length (updates fe) = nat (maxfd fe) \<and>
     0 \<le> nupdate fe \<and> nupdate fe \<le> maxfd fe \<and> distinct (queue fe) \<and>
     (\<forall>fd\<in>set (queue fe). 0 \<le> fd \<and> fd < maxfd fe \<and> is_updated (maps fe ! nat fd) \<noteq> 0) \<and>
     (\<forall>i<length (maps fe). pevents (maps fe ! i) = kernel fe (int i))"

lemma fe_inv_item: "fe_inv fe \<Longrightarrow> 0 \<le> fd \<Longrightarrow> fd < maxfd fe \<Longrightarrow> get_item fe fd = Some (maps fe ! nat fd)"
  by (auto simp: fe_inv_def get_item_def)

lemma fd_epoll_alloc_inv:
  "fd_epoll_alloc e mx wt = (Some fe, live) \<Longrightarrow> fe_inv fe"
  by (auto simp: fd_epoll_alloc_def new_fd_epoll_def fe_inv_def queue_def new_item_def Let_def split: if_splits)

text \<open>A descriptor that is not marked is not queued, so the queue has room for it.\<close>

lemma queue_room:
  assumes inv: "fe_inv fe" and fd: "0 \<le> fd" "fd < maxfd fe" and u: "is_updated (maps fe ! nat fd) = 0"
  shows "fd \<notin> set (queue fe) \<and> nupdate fe < maxfd fe"
proof -
  have notin: "fd \<notin> set (queue fe)" using inv u by (auto simp: fe_inv_def)
  have "set (queue fe) \<subseteq> {0..<maxfd fe} - {fd}" using inv notin by (auto simp: fe_inv_def)
  then have "card (set (queue fe)) \<le> card ({0..<maxfd fe} - {fd})" by (intro card_mono) auto
  also have "\<dots> = nat (maxfd fe) - 1" using fd by (simp add: card_Diff_singleton)
  finally have "length (queue fe) \<le> nat (maxfd fe) - 1" using inv by (simp add: fe_inv_def distinct_card)
  moreover have "length (queue fe) = nat (nupdate fe)" using inv by (auto simp: fe_inv_def queue_def)
  ultimately have "nat (nupdate fe) \<le> nat (maxfd fe) - 1" by simp
  moreover have "0 \<le> nupdate fe" "1 \<le> maxfd fe" using inv by (auto simp: fe_inv_def)
  ultimately show ?thesis using notin by linarith
qed

lemma set_item_simps [simp]:
  "maps (set_item fe fd it) = (maps fe)[nat fd := it]" "kernel (set_item fe fd it) = kernel fe"
  "maxfd (set_item fe fd it) = maxfd fe" "updates (set_item fe fd it) = updates fe"
  "nupdate (set_item fe fd it) = nupdate fe" "queue (set_item fe fd it) = queue fe"
  by (simp_all add: set_item_def queue_def)

lemma add_event_ok:
  assumes inv: "fe_inv fe" and fd: "0 \<le> fd" "fd < maxfd fe"
  shows "\<exists>fe'. fd_epoll_add_event (Some fe) fd ev cb = Some (0, Some fe') \<and> fe_inv fe' \<and>
    queue fe' = (if is_updated (maps fe ! nat fd) = 0 then queue fe @ [fd] else queue fe) \<and>
    (\<exists>u. maps fe' = (maps fe)[nat fd := (maps fe ! nat fd)\<lparr>events := ev, iocb := cb, is_updated := u\<rparr>] \<and> u \<noteq> 0) \<and>
    kernel fe' = kernel fe \<and> maxfd fe' = maxfd fe"
proof (cases "is_updated (maps fe ! nat fd) = 0")
  case True
  define it where "it = (maps fe ! nat fd)\<lparr>events := ev, iocb := cb, is_updated := 1\<rparr>"
  define fe' where "fe' = set_item (fe\<lparr>nupdate := nupdate fe + 1, updates := (updates fe)[nat (nupdate fe) := fd]\<rparr>) fd it"
  have room: "fd \<notin> set (queue fe)" "nupdate fe < maxfd fe" using queue_room [OF inv fd True] by auto
  have n: "0 \<le> nupdate fe" "length (updates fe) = nat (maxfd fe)" "length (maps fe) = nat (maxfd fe)"
    using inv by (auto simp: fe_inv_def)
  have run: "fd_epoll_add_event (Some fe) fd ev cb = Some (0, Some fe')"
    using fd True room n fe_inv_item [OF inv fd]
    by (auto simp: fd_epoll_add_event_def fe'_def it_def Let_def)
  have q: "queue fe' = queue fe @ [fd]"
    using room n by (simp add: queue_def fe'_def nat_add_distrib take_Suc_conv_app_nth)
  have marked: "is_updated (maps fe' ! nat g) \<noteq> 0" if "g \<in> set (queue fe')" for g
    using that q inv fd n by (auto simp: fe_inv_def fe'_def it_def nth_list_update)
  have "fe_inv fe'"
    using inv q room n fd marked
    by (auto simp: fe_inv_def) (auto simp: fe'_def it_def nth_list_update)
  then show ?thesis using run q True n by (auto simp: fe'_def it_def)
next
  case False
  define fe' where "fe' = set_item fe fd ((maps fe ! nat fd)\<lparr>events := ev, iocb := cb\<rparr>)"
  have run: "fd_epoll_add_event (Some fe) fd ev cb = Some (0, Some fe')"
    using fd False fe_inv_item [OF inv fd] by (auto simp: fd_epoll_add_event_def fe'_def Let_def)
  have "fe_inv fe'"
    using inv False fd by (auto simp: fe_inv_def fe'_def nth_list_update)
  then show ?thesis using run False
    by (auto simp: fe'_def intro!: exI [of _ "is_updated (maps fe ! nat fd)"])
qed

subsection \<open>Committing the queue\<close>

definition fe_ok :: "fd_epoll \<Rightarrow> bool" where
  "fe_ok fe \<longleftrightarrow> 1 \<le> maxfd fe \<and> length (maps fe) = nat (maxfd fe) \<and> length (updates fe) = nat (maxfd fe) \<and>
     (\<forall>i<length (maps fe). pevents (maps fe ! i) = kernel fe (int i))"

lemma fe_inv_ok: "fe_inv fe \<Longrightarrow> fe_ok fe"
  by (auto simp: fe_inv_def fe_ok_def)

lemma fe_ok_inv: "fe_ok fe \<Longrightarrow> fe_inv (fe\<lparr>nupdate := 0\<rparr>)"
  by (auto simp: fe_inv_def fe_ok_def queue_def)

text \<open>Whether the kernel gets to see the events of a queued descriptor.\<close>

definition committed :: "(int \<Rightarrow> bool) \<Rightarrow> fd_epoll \<Rightarrow> int \<Rightarrow> bool" where
  "committed ok fe fd \<longleftrightarrow> 0 < fd \<and> arg (maps fe ! nat fd) \<noteq> NULL \<and> is_updated (maps fe ! nat fd) \<noteq> 0 \<and>
     fdstate (maps fe ! nat fd) = FD_READY \<and> ok fd"

definition same_but :: "int \<Rightarrow> fd_epoll \<Rightarrow> fd_epoll \<Rightarrow> bool" where
  "same_but fd fe fe' \<longleftrightarrow> maxfd fe' = maxfd fe \<and> updates fe' = updates fe \<and>
     (\<forall>g. g \<noteq> fd \<longrightarrow> 0 \<le> g \<longrightarrow> maps fe' ! nat g = maps fe ! nat g \<and> kernel fe' g = kernel fe g)"

text \<open>The operation chosen from the remembered events is always one the kernel accepts.\<close>

lemma epoll_ctl_flush_op:
  "pevents fi = k fd \<Longrightarrow> events fi \<noteq> pevents fi \<Longrightarrow>
     epoll_ctl ok (flush_op fi) fd (events fi) k = (if ok then (0, k(fd := events fi)) else (- 1, k))"
  by (auto simp: epoll_ctl_def flush_op_def)

lemma flush_one_ok:
  assumes ok: "fe_ok fe" and fd: "0 \<le> fd" "fd < maxfd fe"
  shows "\<exists>fe'. flush_one c fd fe = Some fe' \<and> fe_ok fe' \<and> same_but fd fe fe' \<and>
    kernel fe' fd = (if committed c fe fd then events (maps fe ! nat fd) else kernel fe fd)"
proof -
  define fi where "fi = maps fe ! nat fd"
  have l: "nat fd < length (maps fe)" "nat fd < nat (maxfd fe)" using ok fd by (auto simp: fe_ok_def)
  then have g: "get_item fe fd = Some fi" using fd by (simp add: get_item_def fi_def)
  have p: "pevents fi = kernel fe fd" using ok l fd by (auto simp: fe_ok_def fi_def)
  have quiet: "fe_ok (set_item fe fd (fi\<lparr>is_updated := u\<rparr>)) \<and> same_but fd fe (set_item fe fd (fi\<lparr>is_updated := u\<rparr>))" for u
    using ok l p fd by (auto simp: fe_ok_def same_but_def fi_def nth_list_update)
  have ker: "fe_ok (set_item (fe\<lparr>kernel := (kernel fe)(fd := events fi)\<rparr>) fd (fi\<lparr>pevents := events fi, is_updated := 0\<rparr>)) \<and>
      same_but fd fe (set_item (fe\<lparr>kernel := (kernel fe)(fd := events fi)\<rparr>) fd (fi\<lparr>pevents := events fi, is_updated := 0\<rparr>))"
    using ok l p fd by (auto simp: fe_ok_def same_but_def nth_list_update)
  have refl: "fe_ok fe \<and> same_but fd fe fe" "fe_ok (fe\<lparr>kernel := kernel fe\<rparr>) \<and> same_but fd fe (fe\<lparr>kernel := kernel fe\<rparr>)"
    using ok by (auto simp: same_but_def)
  show ?thesis
    unfolding flush_one_def committed_def fi_def [symmetric] g
    using quiet ker refl p epoll_ctl_flush_op [of fi "kernel fe" fd "c fd"] fd
    by (cases "c fd") auto
qed

lemma same_but_committed: "same_but fd fe fe' \<Longrightarrow> g \<noteq> fd \<Longrightarrow> 0 \<le> g \<Longrightarrow>
    committed c fe' g = committed c fe g \<and> maps fe' ! nat g = maps fe ! nat g \<and> kernel fe' g = kernel fe g"
  by (auto simp: same_but_def committed_def)

lemma flush_loop_ok:
  assumes "fe_ok fe" and "distinct fds" and "\<forall>fd\<in>set fds. 0 \<le> fd \<and> fd < maxfd fe"
  shows "\<exists>fe'. flush_loop c fds fe = Some fe' \<and> fe_ok fe' \<and> maxfd fe' = maxfd fe \<and>
    (\<forall>g\<ge>0. kernel fe' g = (if g \<in> set fds \<and> committed c fe g then events (maps fe ! nat g) else kernel fe g)) \<and>
    (\<forall>g\<ge>0. g \<notin> set fds \<longrightarrow> maps fe' ! nat g = maps fe ! nat g)"
  using assms
proof (induction fds arbitrary: fe)
  case (Cons fd fds)
  obtain fe1 where 1: "flush_one c fd fe = Some fe1" "fe_ok fe1" "same_but fd fe fe1"
    "kernel fe1 fd = (if committed c fe fd then events (maps fe ! nat fd) else kernel fe fd)"
    using flush_one_ok [of fe fd c] Cons.prems by auto
  have "maxfd fe1 = maxfd fe" using 1(3) by (simp add: same_but_def)
  then obtain fe2 where 2: "flush_loop c fds fe1 = Some fe2" "fe_ok fe2" "maxfd fe2 = maxfd fe"
    "\<forall>g\<ge>0. kernel fe2 g = (if g \<in> set fds \<and> committed c fe1 g then events (maps fe1 ! nat g) else kernel fe1 g)"
    "\<forall>g\<ge>0. g \<notin> set fds \<longrightarrow> maps fe2 ! nat g = maps fe1 ! nat g"
    using Cons.IH [OF 1(2)] Cons.prems by auto
  have "kernel fe2 g = (if g \<in> set (fd # fds) \<and> committed c fe g then events (maps fe ! nat g) else kernel fe g)"
    if "g \<ge> 0" for g
    using 2(4) that 1(4) same_but_committed [OF 1(3), of g c] Cons.prems(2) by (cases "g = fd") auto
  moreover have "\<forall>g\<ge>0. g \<notin> set (fd # fds) \<longrightarrow> maps fe2 ! nat g = maps fe ! nat g"
    using 2(5) same_but_committed [OF 1(3)] by auto
  ultimately show ?case using 1(1) 2(1-3) by auto
qed simp

subsection \<open>Properties\<close>

definition fe_sample :: fd_epoll where
  "fe_sample = new_fd_epoll 3 8 100"

lemma fe_sample_inv: "fe_inv fe_sample"
  by (auto simp: fe_sample_def new_fd_epoll_def fe_inv_def queue_def new_item_def)

text \<open>Descriptor 5 is queued to be registered.\<close>

definition fe_ready :: fd_epoll where
  "fe_ready = fe_sample\<lparr>maps := (maps fe_sample)[5 := new_item\<lparr>events := 1, is_updated := 1, arg := 70, fdstate := FD_READY\<rparr>],
     updates := (updates fe_sample)[0 := 5], nupdate := 1\<rparr>"

lemma fe_ready_item: "maps fe_ready ! 5 = new_item\<lparr>events := 1, is_updated := 1, arg := 70, fdstate := FD_READY\<rparr>"
  by (simp add: fe_ready_def fe_sample_def new_fd_epoll_def)

lemma fe_ready_inv: "fe_inv fe_ready" "queue fe_ready = [5]"
proof -
  show q: "queue fe_ready = [5]"
    by (simp add: queue_def fe_ready_def fe_sample_def new_fd_epoll_def numeral_eq_Suc)
  show "fe_inv fe_ready"
    unfolding fe_inv_def q
    by (simp add: fe_ready_def fe_sample_def new_fd_epoll_def new_item_def nth_list_update)
qed

text \<open>
  C23: \<^verbatim>\<open>fd_epoll_add_event\<close> on a descriptor below \<open>maxfd\<close> keeps the invariant and does not overrun the queue:
  it records the events and the callback and queues the descriptor unless it is marked already.
\<close>

theorem fd_epoll_add_event_correct:
  assumes "fe_inv fe" and "0 \<le> fd" and "fd < maxfd fe"
  shows "\<exists>fe'. fd_epoll_add_event (Some fe) fd ev cb = Some (0, Some fe') \<and> fe_inv fe' \<and>
    events (maps fe' ! nat fd) = ev \<and> iocb (maps fe' ! nat fd) = cb \<and>
    queue fe' = (if is_updated (maps fe ! nat fd) = 0 then queue fe @ [fd] else queue fe)"
proof -
  have "nat fd < length (maps fe)" using assms by (auto simp: fe_inv_def)
  then show ?thesis using add_event_ok [OF assms, of ev cb] by auto
qed

theorem fd_epoll_add_event_correct_witness:
  "\<exists>fe'. fd_epoll_add_event (Some fe_sample) 5 1 900 = Some (0, Some fe') \<and> queue fe' = [5]"
  using fd_epoll_add_event_correct [OF fe_sample_inv, of 5 1 900]
  by (auto simp: fe_sample_def new_fd_epoll_def queue_def new_item_def)

text \<open>
  C24: \<^verbatim>\<open>fd_epoll_flush_events\<close> never faults, empties the queue and keeps the invariant.  The kernel ends up with
  the requested events for every queued positive descriptor that is ready, has an argument and is not
  refused, and with what it had for all others: the operation passed to \<^verbatim>\<open>epoll_ctl\<close> always fits.
\<close>

theorem fd_epoll_flush_correct:
  assumes "fe_inv fe"
  shows "\<exists>fe'. fd_epoll_flush_events c (Some fe) = Some (0, Some fe') \<and> fe_inv fe' \<and> nupdate fe' = 0 \<and>
    (\<forall>g\<ge>0. kernel fe' g =
       (if g \<in> set (queue fe) \<and> committed c fe g then events (maps fe ! nat g) else kernel fe g))"
proof (cases "nupdate fe < 1")
  case True
  then have "queue fe = []" "nupdate fe = 0" using assms by (auto simp: fe_inv_def queue_def)
  then show ?thesis using assms by (simp add: fd_epoll_flush_events_def)
next
  case False
  have q: "distinct (queue fe)" "\<forall>fd\<in>set (queue fe). 0 \<le> fd \<and> fd < maxfd fe"
    "\<not> nat (nupdate fe) > length (updates fe)"
    using assms by (auto simp: fe_inv_def)
  obtain fe' where "flush_loop c (queue fe) fe = Some fe'" "fe_ok fe'"
    "\<forall>g\<ge>0. kernel fe' g = (if g \<in> set (queue fe) \<and> committed c fe g then events (maps fe ! nat g) else kernel fe g)"
    using flush_loop_ok [OF fe_inv_ok [OF assms] q(1,2), of c] by auto
  then show ?thesis using False q(3) fe_ok_inv [of fe']
    by (auto simp: fd_epoll_flush_events_def queue_def)
qed

theorem fd_epoll_flush_correct_witness:
  "\<exists>fe'. fd_epoll_flush_events (\<lambda>_. True) (Some fe_ready) = Some (0, Some fe') \<and> fe_inv fe' \<and> kernel fe' 5 = 1"
  using fd_epoll_flush_correct [OF fe_ready_inv(1), of "\<lambda>_. True"] fe_ready_inv(2) fe_ready_item
  by (auto simp: committed_def)

text \<open>
  A descriptor that is queued without an argument, or that the kernel refuses, stays marked when the queue is
  emptied, so later changes to it are recorded but never queued again.
\<close>

theorem fd_epoll_lost_update:
  assumes inv: "fe_inv fe" and q: "queue fe = [fd]" and "arg (maps fe ! nat fd) = NULL" and fd: "0 < fd"
  shows "\<exists>fe1. fd_epoll_flush_events c (Some fe) = Some (0, Some fe1) \<and>
    (\<forall>ev cb. \<exists>fe2. fd_epoll_add_event (Some fe1) fd ev cb = Some (0, Some fe2) \<and> queue fe2 = [])"
proof -
  have m: "0 \<le> fd" "fd < maxfd fe" "is_updated (maps fe ! nat fd) \<noteq> 0" using inv q by (auto simp: fe_inv_def)
  have n: "\<not> nupdate fe < 1" "\<not> nat (nupdate fe) > length (updates fe)" "take (nat (nupdate fe)) (updates fe) = [fd]"
    using inv q arg_cong [OF q, of length] by (auto simp: fe_inv_def queue_def)
  define fe1 where "fe1 = fe\<lparr>nupdate := 0\<rparr>"
  have run: "fd_epoll_flush_events c (Some fe) = Some (0, Some fe1)"
    using n assms(3) fd fe_inv_item [OF inv m(1,2)]
    by (simp add: fd_epoll_flush_events_def flush_one_def fe1_def)
  have "fe_inv fe1" unfolding fe1_def by (rule fe_ok_inv [OF fe_inv_ok [OF inv]])
  then have "\<exists>fe2. fd_epoll_add_event (Some fe1) fd ev cb = Some (0, Some fe2) \<and> queue fe2 = []" for ev cb
    using add_event_ok [of fe1 fd ev cb] m by (auto simp: fe1_def queue_def)
  then show ?thesis using run by blast
qed

definition fe_pending :: fd_epoll where
  "fe_pending = fe_sample\<lparr>maps := (maps fe_sample)[5 := new_item\<lparr>events := 1, is_updated := 1\<rparr>],
     updates := (updates fe_sample)[0 := 5], nupdate := 1\<rparr>"

lemma fe_pending_inv: "fe_inv fe_pending \<and> queue fe_pending = [5]"
proof
  show q: "queue fe_pending = [5]"
    by (simp add: queue_def fe_pending_def fe_sample_def new_fd_epoll_def numeral_eq_Suc)
  show "fe_inv fe_pending"
    unfolding fe_inv_def q
    by (simp add: fe_pending_def fe_sample_def new_fd_epoll_def new_item_def nth_list_update)
qed

theorem fd_epoll_lost_update_witness:
  "\<exists>fe1. fd_epoll_flush_events (\<lambda>_. True) (Some fe_pending) = Some (0, Some fe1) \<and>
    (\<exists>fe2. fd_epoll_add_event (Some fe1) 5 4 900 = Some (0, Some fe2) \<and> queue fe2 = [])"
  using fd_epoll_lost_update [of fe_pending 5 "\<lambda>_. True"] fe_pending_inv
  by (auto simp: fe_pending_def fe_sample_def new_fd_epoll_def new_item_def)

end
