(* ===== verification/Session.thy ===== *)
theory Session
  imports Policy Fd_epoll
begin

unbundle bit_operations_syntax

text \<open>
  Sessions of the proxy: \<^verbatim>\<open>network/proxy/utils/session.c\<close>, \<^verbatim>\<open>connection.c\<close>, \<^verbatim>\<open>task.h\<close> and \<^verbatim>\<open>packet.h\<close>, with the
  calls of \<^verbatim>\<open>sock_util.c\<close> and \<^verbatim>\<open>ssl_util.c\<close> that move data.  A worker thread owns the sessions, the packets
  taken from its pool, the event layer and the task queue (\<open>wk_free\<close> is what the session objects in their pool
  still hold); its state extends the heap of policies and server
  pools.  Ring lists appear as the lists of their members, and packets as values that know their address.

  What the kernel, the pools of packets and sessions and the SSL library answer is the argument \<open>io\<close>: the answer to the n-th call
  (the pools' also depend on the objects in use).  Two logs
  record the bytes that were received from and handed to each connection, and a set the sessions whose deletion
  has begun; they are no part of the program.
\<close>

datatype task_type = TASK_NONE | TASK_PARSE | TASK_SEND | TASK_DELETE

definition MAX_PKTLEN :: nat where "MAX_PKTLEN = 4056 - 32"

record packet =
  pk_addr :: addr
  pk_max :: nat
  pk_data :: "u8 list"
  pk_sendpos :: nat

definition PKT_INIT :: "addr \<Rightarrow> packet" where
  "PKT_INIT a = \<lparr>pk_addr = a, pk_max = MAX_PKTLEN, pk_data = [], pk_sendpos = 0\<rparr>"

record conn =
  cn_fd :: int
  cn_ssl :: addr
  cn_peer :: ip_port
  cn_local :: ip_port
  cn_in :: "packet list"
  cn_out :: "packet list"
  cn_task :: task_type
  cn_flags :: u32

text \<open>The client connection is number 0, the server connection number 1.\<close>

record session =
  ss_sid :: u32
  ss_conns :: "nat \<Rightarrow> conn"
  ss_nalloced :: int
  ss_request :: "packet list"
  ss_response :: "packet list"
  ss_worker :: addr
  ss_thread :: addr
  ss_policy :: addr
  ss_svrdata :: addr

definition CONN_F_ERROR :: u32 where "CONN_F_ERROR = 0x0001"
definition CONN_F_HSK :: u32 where "CONN_F_HSK = 0x0002"
definition CONN_F_SSLHSK :: u32 where "CONN_F_SSLHSK = 0x0004"
definition CONN_F_SHUTRD :: u32 where "CONN_F_SHUTRD = 0x0100"
definition CONN_F_SHUTWR :: u32 where "CONN_F_SHUTWR = 0x0200"
definition CONN_F_SSLSHUT :: u32 where "CONN_F_SSLSHUT = 0x0400"
definition CONN_F_BLOCKED :: u32 where "CONN_F_BLOCKED = 0x1000"
definition CONN_F_CLOSED :: u32 where "CONN_F_CLOSED = CONN_F_SHUTRD OR CONN_F_SHUTWR"

definition CONN_IS_CLOSED :: "conn \<Rightarrow> bool" where
  "CONN_IS_CLOSED c \<longleftrightarrow> cn_flags c AND CONN_F_CLOSED = CONN_F_CLOSED"

definition has :: "u32 \<Rightarrow> conn \<Rightarrow> bool" where
  "has f c \<longleftrightarrow> cn_flags c AND f \<noteq> 0"

definition set_flag :: "u32 \<Rightarrow> conn \<Rightarrow> conn" where
  "set_flag f c = c\<lparr>cn_flags := cn_flags c OR f\<rparr>"

definition clear_flag :: "u32 \<Rightarrow> conn \<Rightarrow> conn" where
  "clear_flag f c = c\<lparr>cn_flags := cn_flags c AND NOT f\<rparr>"

text \<open>Events of epoll, and names for the callbacks of the event layer.\<close>

definition EPOLLIN :: u32 where "EPOLLIN = 0x001"
definition EPOLLOUT :: u32 where "EPOLLOUT = 0x004"
definition EPOLLERR :: u32 where "EPOLLERR = 0x008"
definition EPOLLRDHUP :: u32 where "EPOLLRDHUP = 0x2000"
definition FD_IN :: int where "FD_IN = uint (EPOLLIN OR EPOLLRDHUP)"
definition FD_OUT :: int where "FD_OUT = uint EPOLLOUT"

definition CB_RECV :: addr where "CB_RECV = 1"
definition CB_SEND :: addr where "CB_SEND = 2"
definition CB_HANDSHAKE :: addr where "CB_HANDSHAKE = 3"
definition CB_SHUTDOWN :: addr where "CB_SHUTDOWN = 4"
definition CB_ACCEPT :: addr where "CB_ACCEPT = 5"

definition conn_addr :: "addr \<Rightarrow> nat \<Rightarrow> addr" where
  "conn_addr s d = s + 8 + d * 192"

datatype worker_cmd = WORKER_CMD_ADD_POLICY | WORKER_CMD_DEL_POLICY | WORKER_CMD_MAX

record worker = pl_heap +
  wk_fe :: fd_epoll
  wk_sessions :: "addr \<rightharpoonup> session"
  wk_pkts :: "addr set"
  wk_free :: "addr \<Rightarrow> session"
  wk_taskq :: "(addr \<times> nat) list"
  wk_ntask :: int
  wk_open :: "int set"
  wk_shut :: "int set"
  wk_ssls :: "addr set"
  wk_lfdlist :: "addr list"
  wk_cmds :: "(worker_cmd \<times> addr) list"
  wk_ncmd :: int
  wk_next_sid :: u32
  wk_naccept :: int
  wk_tick :: nat
  wk_rcvd :: "addr \<times> nat \<Rightarrow> u8 list"
  wk_sent :: "addr \<times> nat \<Rightarrow> u8 list"
  wk_dying :: "addr set"

subsection \<open>Answers of kernel and SSL library\<close>

text \<open>\<open>Inl\<close> is what a successful call yields, \<open>Inr\<close> the error number.\<close>

datatype ssl_wt = SSL_WT_NONE | SSL_WT_READ | SSL_WT_WRITE

record ssl_answer =
  sa_data :: "u8 list + int"
  sa_in_handshake :: bool
  sa_renegotiate :: bool

record io_env =
  io_recv :: "nat \<Rightarrow> u8 list + int"
  io_send :: "nat \<Rightarrow> nat + int"
  io_ssl_read :: "nat \<Rightarrow> ssl_answer"
  io_ssl_write :: "nat \<Rightarrow> (nat + int) \<times> bool"
  io_pending :: "nat \<Rightarrow> bool"
  io_pkt :: "nat \<Rightarrow> addr set \<Rightarrow> addr"
  io_connected :: "nat \<Rightarrow> int"
  io_handshake :: "nat \<Rightarrow> int \<times> ssl_wt"
  io_shutdown :: "nat \<Rightarrow> int \<times> ssl_wt"
  io_ssl_alloc :: "nat \<Rightarrow> addr"
  io_ssl_set_fd :: "nat \<Rightarrow> int"
  io_ssl_free :: "nat \<Rightarrow> int"
  io_socket :: "nat \<Rightarrow> int"
  io_connect :: "nat \<Rightarrow> int \<times> bool"
  io_accept :: "nat \<Rightarrow> (int \<times> ip_port \<times> ip_port) + int"
  io_ssn :: "nat \<Rightarrow> (addr \<Rightarrow> bool) \<Rightarrow> addr"
  io_dstaddr :: "nat \<Rightarrow> (u32 \<times> u16) option"

definition SSL_ERROR_WANT_READ :: int where "SSL_ERROR_WANT_READ = 2"
definition SSL_ERROR_WANT_WRITE :: int where "SSL_ERROR_WANT_WRITE = 3"

text \<open>The results of the receiving calls: return code, bytes, closed, handshake.  A call never yields more than it was asked for.\<close>

definition sk_recv :: "int \<Rightarrow> nat \<Rightarrow> u8 list + int \<Rightarrow> int \<times> u8 list \<times> bool" where
  "sk_recv fd len r =
    (if fd < 0 \<or> len < 1 then (- 1, [], False)
     else case r of
       Inr e \<Rightarrow> if e = EINTR \<or> e = EAGAIN then (0, [], False) else (- 1, [], False)
     | Inl bs \<Rightarrow> (int (length (take len bs)), take len bs, take len bs = []))"

definition ssl_recv :: "nat \<Rightarrow> ssl_answer \<Rightarrow> int \<times> u8 list \<times> bool \<times> bool" where
  "ssl_recv len a =
    (if len < 1 then (- 1, [], False, False)
     else if sa_in_handshake a then
       (if \<not> sa_renegotiate a then (- 1, [], False, False) else (0, [], False, True))
     else case sa_data a of
       Inl bs \<Rightarrow> if take len bs \<noteq> [] then (int (length (take len bs)), take len bs, False, False) else (0, [], True, False)
     | Inr e \<Rightarrow> if e \<noteq> SSL_ERROR_WANT_READ then (- 1, [], False, False) else (- 1, [], False, False))"

definition sk_send :: "int \<Rightarrow> nat \<Rightarrow> nat + int \<Rightarrow> int" where
  "sk_send fd len r =
    (if fd < 0 \<or> len < 1 then - 1
     else case r of
       Inr e \<Rightarrow> if e \<noteq> EINTR \<or> e \<noteq> EAGAIN then - 1 else 0
     | Inl n \<Rightarrow> int (min n len))"

text \<open>The flag tells that a renegotiation is under way that is not allowed.\<close>

definition ssl_send :: "nat \<Rightarrow> (nat + int) \<times> bool \<Rightarrow> int" where
  "ssl_send len a = (case a of (r, refused) \<Rightarrow>
     if refused then - 1
     else case r of
       Inl n \<Rightarrow> if min n len = 0 then - 1 else int (min n len)
     | Inr e \<Rightarrow> if e = SSL_ERROR_WANT_READ \<or> e = SSL_ERROR_WANT_WRITE then 0 else - 1)"

definition conn_raw_recv :: "io_env \<Rightarrow> nat \<Rightarrow> int \<Rightarrow> addr \<Rightarrow> nat \<Rightarrow> int \<times> u8 list \<times> bool \<times> bool" where
  "conn_raw_recv io t fd ssl len =
    (if len < 1 then (- 1, [], False, False)
     else if ssl \<noteq> NULL then ssl_recv len (io_ssl_read io t)
     else case sk_recv fd len (io_recv io t) of (n, bs, closed) \<Rightarrow> (n, bs, closed, False))"

definition conn_raw_send :: "io_env \<Rightarrow> nat \<Rightarrow> int \<Rightarrow> addr \<Rightarrow> u8 list \<Rightarrow> int" where
  "conn_raw_send io t fd ssl bs =
    (if length bs < 1 then - 1
     else if ssl \<noteq> NULL then ssl_send (length bs) (io_ssl_write io t)
     else sk_send fd (length bs) (io_send io t))"

subsection \<open>Access to the state\<close>

definition upd_sess :: "addr \<Rightarrow> (session \<Rightarrow> session) \<Rightarrow> worker \<Rightarrow> worker" where
  "upd_sess s f w = w\<lparr>wk_sessions := (wk_sessions w)(s := map_option f (wk_sessions w s))\<rparr>"

definition upd_conn :: "addr \<Rightarrow> nat \<Rightarrow> (conn \<Rightarrow> conn) \<Rightarrow> worker \<Rightarrow> worker" where
  "upd_conn s d f w = upd_sess s (\<lambda>S. S\<lparr>ss_conns := (ss_conns S)(d := f (ss_conns S d))\<rparr>) w"

definition tick :: "worker \<Rightarrow> worker" where
  "tick w = w\<lparr>wk_tick := wk_tick w + 1\<rparr>"

definition peer_of :: "nat \<Rightarrow> nat" where
  "peer_of d = (d + 1) mod 2"

text \<open>The event layer: an item that is not there is a failed assertion or an access outside the table.\<close>

definition fe_item :: "int \<Rightarrow> worker \<Rightarrow> fd_item option" where
  "fe_item fd w = do { i \<leftarrow> fd_epoll_map (Some (wk_fe w)) fd; get_item (wk_fe w) i }"

definition fe_put :: "int \<Rightarrow> fd_item \<Rightarrow> worker \<Rightarrow> worker" where
  "fe_put fd fi w = w\<lparr>wk_fe := set_item (wk_fe w) fd fi\<rparr>"

definition add_event :: "int \<Rightarrow> int \<Rightarrow> addr \<Rightarrow> worker \<Rightarrow> (int \<times> worker) option" where
  "add_event fd ev cb w = (case fd_epoll_add_event (Some (wk_fe w)) fd ev cb of
     Some (r, Some fe) \<Rightarrow> Some (r, w\<lparr>wk_fe := fe\<rparr>) | _ \<Rightarrow> None)"

text \<open>A packet goes back to its pool; one that was not taken from it is a failed assertion there.\<close>

definition put_pkt :: "addr \<Rightarrow> packet \<Rightarrow> worker \<Rightarrow> worker option" where
  "put_pkt s p w = (if pk_addr p \<in> wk_pkts w
     then Some (upd_sess s (\<lambda>S. S\<lparr>ss_nalloced := ss_nalloced S - 1\<rparr>) (w\<lparr>wk_pkts := wk_pkts w - {pk_addr p}\<rparr>))
     else None)"

fun put_pkts :: "addr \<Rightarrow> packet list \<Rightarrow> worker \<Rightarrow> worker option" where
  "put_pkts s [] w = Some w"
| "put_pkts s (p # ps) w = do { w \<leftarrow> put_pkt s p w; put_pkts s ps w }"

subsection \<open>Tasks\<close>

text \<open>\<open>m\<close> is what \<^verbatim>\<open>calloc\<close> returns for the queue; freeing it only unlinks the tasks.\<close>

definition task_alloc_queue :: "addr \<Rightarrow> worker \<Rightarrow> addr \<times> worker" where
  "task_alloc_queue m w = (if m = NULL then (NULL, w) else (m, w\<lparr>wk_taskq := [], wk_ntask := 0\<rparr>))"

definition task_free_queue :: "worker \<Rightarrow> worker" where
  "task_free_queue w = w\<lparr>wk_taskq := []\<rparr>"

text \<open>Linking a task that is linked already corrupts the ring.\<close>

definition task_in_queue :: "addr \<times> nat \<Rightarrow> worker \<Rightarrow> bool" where
  "task_in_queue t w \<longleftrightarrow> t \<in> set (wk_taskq w)"

definition task_add_queue :: "addr \<times> nat \<Rightarrow> worker \<Rightarrow> worker option" where
  "task_add_queue t w = (if task_in_queue t w then None
     else Some (w\<lparr>wk_taskq := wk_taskq w @ [t], wk_ntask := wk_ntask w + 1\<rparr>))"

definition task_del_queue :: "addr \<times> nat \<Rightarrow> worker \<Rightarrow> worker" where
  "task_del_queue t w = w\<lparr>wk_taskq := removeAll t (wk_taskq w), wk_ntask := wk_ntask w - 1\<rparr>"

text \<open>How the callbacks queue their task: when it is queued already they complain.\<close>

definition queue_task :: "addr \<Rightarrow> nat \<Rightarrow> task_type \<Rightarrow> int \<Rightarrow> worker \<Rightarrow> (int \<times> worker) option" where
  "queue_task s d ty r w = (let w = upd_conn s d (\<lambda>c. c\<lparr>cn_task := ty\<rparr>) w in
     if task_in_queue (s, d) w then Some (- 1, w)
     else do { w \<leftarrow> task_add_queue (s, d) w; Some (r, w) })"

subsection \<open>Connections\<close>

definition conn_init :: conn where
  "conn_init = \<lparr>cn_fd = - 1, cn_ssl = NULL, cn_peer = zero_port, cn_local = zero_port, cn_in = [], cn_out = [],
     cn_task = TASK_NONE, cn_flags = 0\<rparr>"

definition conn_free :: "addr \<Rightarrow> nat \<Rightarrow> worker \<Rightarrow> worker option" where
  "conn_free s d w = do {
     S \<leftarrow> wk_sessions w s;
     let c = ss_conns S d;
     if ss_worker S = NULL \<or> ss_thread S = NULL then None
     else do {
       w \<leftarrow> put_pkts s (cn_in c) (w\<lparr>wk_dying := insert s (wk_dying w)\<rparr>);
       w \<leftarrow> put_pkts s (cn_out c) (upd_conn s d (\<lambda>c. c\<lparr>cn_in := []\<rparr>) w);
       let w = upd_conn s d (\<lambda>c. c\<lparr>cn_out := []\<rparr>) w;
       w \<leftarrow> (if cn_fd c > 0 then do {
               _ \<leftarrow> fe_item (cn_fd c) w;
               let w = fe_put (cn_fd c) new_item w;
               Some (upd_conn s d (\<lambda>c. c\<lparr>cn_fd := - 1\<rparr>) (w\<lparr>wk_open := wk_open w - {cn_fd c}\<rparr>)) }
             else Some w);
       Some (upd_conn s d (\<lambda>c. c\<lparr>cn_task := TASK_NONE\<rparr>) w) } }"

text \<open>
  Receiving.  \<^verbatim>\<open>CBLIST_GET_TAIL\<close> yields the first packet of the queue; when there is none or it is full a new
  one is taken from the pool and put at the end.  The result is the position of the packet to read into.
\<close>

definition recv_slot :: "io_env \<Rightarrow> addr \<Rightarrow> nat \<Rightarrow> worker \<Rightarrow> (nat option \<times> worker) option" where
  "recv_slot io s d w = do {
     S \<leftarrow> wk_sessions w s;
     let c = ss_conns S d;
     if cn_in c \<noteq> [] \<and> length (pk_data (hd (cn_in c))) < pk_max (hd (cn_in c)) then Some (Some 0, w)
     else let m = io_pkt io (wk_tick w) (wk_pkts w); w = tick w in
       if m = NULL then Some (None, w)
       else Some (Some (length (cn_in c)),
         upd_sess s (\<lambda>S. S\<lparr>ss_nalloced := ss_nalloced S + 1\<rparr>)
           (upd_conn s d (\<lambda>c. c\<lparr>cn_in := cn_in c @ [PKT_INIT m]\<rparr>) (w\<lparr>wk_pkts := insert m (wk_pkts w)\<rparr>))) }"

definition store_bytes :: "addr \<Rightarrow> nat \<Rightarrow> nat \<Rightarrow> u8 list \<Rightarrow> worker \<Rightarrow> worker" where
  "store_bytes s d i bs w =
     (let w = upd_conn s d (\<lambda>c. c\<lparr>cn_in := (cn_in c)[i := (cn_in c ! i)\<lparr>pk_data := pk_data (cn_in c ! i) @ bs\<rparr>]\<rparr>) w
      in w\<lparr>wk_rcvd := (wk_rcvd w)((s, d) := wk_rcvd w (s, d) @ bs)\<rparr>)"

text \<open>After a close: stop reading, and drop the packet when nothing was read into it.\<close>

definition recv_close :: "int \<Rightarrow> addr \<Rightarrow> nat \<Rightarrow> nat \<Rightarrow> worker \<Rightarrow> (int \<times> worker) option" where
  "recv_close fd s d i w = do {
     let w = upd_conn s d (set_flag CONN_F_SHUTRD) w;
     S \<leftarrow> wk_sessions w s;
     (ret, w) \<leftarrow> (if cn_ssl (ss_conns S d) \<noteq> NULL
       then add_event fd FD_OUT CB_SHUTDOWN (upd_conn s d (set_flag CONN_F_SSLSHUT) w)
       else add_event fd 0 NULL w);
     if ret \<noteq> 0 then Some (ret, w)
     else if pk_data (cn_in (ss_conns S d) ! i) = [] then do {
       w \<leftarrow> put_pkt s (cn_in (ss_conns S d) ! i)
         (upd_conn s d (\<lambda>c. c\<lparr>cn_in := take i (cn_in c) @ drop (Suc i) (cn_in c)\<rparr>) w);
       Some (0, w) }
     else Some (0, w) }"

text \<open>One round from the label \<open>ssl_read\<close> on: \<open>None\<close> is the jump to \<open>err_free\<close>, otherwise the bytes read and whether to go back.\<close>

definition recv_round :: "io_env \<Rightarrow> int \<Rightarrow> u32 \<Rightarrow> addr \<Rightarrow> nat \<Rightarrow> worker \<Rightarrow> ((int \<times> bool) option \<times> worker) option" where
  "recv_round io fd ev s d w = do {
     (slot, w) \<leftarrow> recv_slot io s d w;
     case slot of None \<Rightarrow> Some (None, w) | Some i \<Rightarrow> do {
       S \<leftarrow> wk_sessions w s;
       let c = ss_conns S d;
       let p = cn_in c ! i;
       (n, bs, closed, handshake) \<leftarrow> Some (conn_raw_recv io (wk_tick w) fd (cn_ssl c) (pk_max p - length (pk_data p)));
       let w = tick w;
       if n < 0 then Some (None, upd_conn s d (set_flag CONN_F_ERROR) w)
       else do {
         let w = store_bytes s d i bs w;
         (ret, w) \<leftarrow> (if handshake then add_event fd FD_OUT CB_HANDSHAKE (upd_conn s d (set_flag CONN_F_SSLHSK) w)
                       else Some (0, w));
         if ret \<noteq> 0 then Some (None, w)
         else do {
           (ret, w) \<leftarrow> (if closed \<or> ev AND EPOLLRDHUP \<noteq> 0 then recv_close fd s d i w else Some (0, w));
           if ret \<noteq> 0 then Some (None, w)
           else if cn_ssl c \<noteq> NULL \<and> io_pending io (wk_tick w) then Some (Some (n, True), tick w)
           else Some (Some (n, False), tick w) } } } }"

partial_function (option) recv_loop ::
  "io_env \<Rightarrow> int \<Rightarrow> u32 \<Rightarrow> addr \<Rightarrow> nat \<Rightarrow> worker \<Rightarrow> (int option \<times> worker) option" where
  "recv_loop io fd ev s d w = do {
     (r, w) \<leftarrow> recv_round io fd ev s d w;
     case r of None \<Rightarrow> Some (None, w)
     | Some (n, again) \<Rightarrow> if again then recv_loop io fd ev s d w else Some (Some n, w) }"

declare recv_loop.simps [code]

definition conn_recv_data :: "io_env \<Rightarrow> int \<Rightarrow> u32 \<Rightarrow> addr \<Rightarrow> nat \<Rightarrow> worker \<Rightarrow> (int \<times> worker) option" where
  "conn_recv_data io fd ev s d w =
    (if fd < 0 \<or> ev = 0 \<or> s = NULL then Some (- 1, w)
     else do {
       S \<leftarrow> wk_sessions w s;
       if ss_worker S = NULL \<or> ss_thread S = NULL \<or> cn_fd (ss_conns S d) \<noteq> fd then None
       else if ev AND EPOLLERR \<noteq> 0 then queue_task s d TASK_DELETE (- 1) (upd_conn s d (set_flag CONN_F_ERROR) w)
       else do {
         (r, w) \<leftarrow> recv_loop io fd ev s d w;
         case r of None \<Rightarrow> queue_task s d TASK_DELETE (- 1) w | Some n \<Rightarrow> queue_task s d TASK_PARSE n w } })"

text \<open>
  Sending.  A packet that does not go out completely blocks the connection: the loop waits for the socket to
  be writable and stops reading from the other side.
\<close>

datatype send_res = SendErr | SendRet | SendAll

definition send_blocked :: "int \<Rightarrow> addr \<Rightarrow> nat \<Rightarrow> worker \<Rightarrow> (send_res \<times> worker) option" where
  "send_blocked fd s d w = do {
     S \<leftarrow> wk_sessions w s;
     if has CONN_F_BLOCKED (ss_conns S d) then Some (SendRet, w)
     else do {
       fi \<leftarrow> fe_item fd w;
       let w = fe_put fd (fi\<lparr>arg := conn_addr s d\<rparr>) w;
       (ret, w) \<leftarrow> add_event fd FD_OUT CB_SEND w;
       if ret \<noteq> 0 then Some (SendErr, w)
       else do {
         let pfd = cn_fd (ss_conns S (peer_of d));
         _ \<leftarrow> fe_item pfd w;
         (ret, w) \<leftarrow> add_event pfd 0 NULL w;
         if ret \<noteq> 0 then Some (SendErr, w)
         else Some (SendRet, upd_conn s d (set_flag CONN_F_BLOCKED) w) } } }"

text \<open>The first packet of the output queue has another \<open>n\<close> bytes sent.\<close>

definition sent_bytes :: "addr \<Rightarrow> nat \<Rightarrow> nat \<Rightarrow> worker \<Rightarrow> worker" where
  "sent_bytes s d n w = (case wk_sessions w s of None \<Rightarrow> w | Some S \<Rightarrow>
     let p = hd (cn_out (ss_conns S d));
         w = upd_conn s d (\<lambda>c. c\<lparr>cn_out := p\<lparr>pk_sendpos := pk_sendpos p + n\<rparr> # tl (cn_out c)\<rparr>) w
     in w\<lparr>wk_sent := (wk_sent w)((s, d) := wk_sent w (s, d) @ take n (drop (pk_sendpos p) (pk_data p)))\<rparr>)"

fun send_loop :: "io_env \<Rightarrow> int \<Rightarrow> addr \<Rightarrow> nat \<Rightarrow> packet list \<Rightarrow> worker \<Rightarrow> (send_res \<times> worker) option" where
  "send_loop io fd s d [] w = Some (SendAll, w)"
| "send_loop io fd s d (p # ps) w = do {
     S \<leftarrow> wk_sessions w s;
     let bs = drop (pk_sendpos p) (pk_data p);
     let n = conn_raw_send io (wk_tick w) fd (cn_ssl (ss_conns S d)) bs;
     let w = tick w;
     if n < 0 then Some (SendErr, upd_conn s d (set_flag CONN_F_ERROR) w)
     else do {
       let w = sent_bytes s d (nat n) w;
       if n \<noteq> int (length bs) then send_blocked fd s d w
       else do {
         w \<leftarrow> put_pkt s p (upd_conn s d (\<lambda>c. c\<lparr>cn_out := tl (cn_out c)\<rparr>) w);
         send_loop io fd s d ps w } } }"

text \<open>Everything went out: read again from both sides when the connection was blocked.\<close>

definition send_unblock :: "int \<Rightarrow> addr \<Rightarrow> nat \<Rightarrow> worker \<Rightarrow> (int \<times> worker) option" where
  "send_unblock fd s d w = do {
     S \<leftarrow> wk_sessions w s;
     if \<not> has CONN_F_BLOCKED (ss_conns S d) then Some (0, w)
     else do {
       fi \<leftarrow> fe_item fd w;
       (ret, w) \<leftarrow> add_event fd FD_IN CB_RECV (fe_put fd (fi\<lparr>arg := conn_addr s d\<rparr>) w);
       if ret \<noteq> 0 then Some (ret, w)
       else do {
         let pfd = cn_fd (ss_conns S (peer_of d));
         fi \<leftarrow> fe_item pfd w;
         (ret, w) \<leftarrow> add_event pfd FD_IN CB_RECV (fe_put pfd (fi\<lparr>arg := conn_addr s (peer_of d)\<rparr>) w);
         if ret \<noteq> 0 then Some (ret, w)
         else Some (0, upd_conn s d (clear_flag CONN_F_BLOCKED) w) } } }"

text \<open>The other side has closed and all its data is out: pass the close on.\<close>

definition send_close :: "int \<Rightarrow> addr \<Rightarrow> nat \<Rightarrow> worker \<Rightarrow> (int \<times> worker) option" where
  "send_close fd s d w = do {
     S \<leftarrow> wk_sessions w s;
     if \<not> has CONN_F_SHUTRD (ss_conns S (peer_of d)) then Some (0, w)
     else if cn_ssl (ss_conns S d) \<noteq> NULL then add_event fd FD_OUT CB_SHUTDOWN (upd_conn s d (set_flag CONN_F_SSLSHUT) w)
     else Some (0, upd_conn s d (set_flag CONN_F_SHUTWR) (w\<lparr>wk_shut := insert fd (wk_shut w)\<rparr>)) }"

text \<open>The jump to \<open>err_free\<close>: in an event callback the task is added even when it is in the queue.\<close>

definition send_fail :: "u32 \<Rightarrow> addr \<Rightarrow> nat \<Rightarrow> worker \<Rightarrow> (int \<times> worker) option" where
  "send_fail ev s d w =
    (if ev \<noteq> 0 then do {
       w \<leftarrow> task_add_queue (s, d) (upd_conn s d (\<lambda>c. c\<lparr>cn_task := TASK_DELETE\<rparr>) w);
       Some (- 1, w) }
     else Some (- 1, w))"

definition conn_send_data :: "io_env \<Rightarrow> int \<Rightarrow> u32 \<Rightarrow> addr \<Rightarrow> nat \<Rightarrow> worker \<Rightarrow> (int \<times> worker) option" where
  "conn_send_data io fd ev s d w =
    (if fd < 0 \<or> s = NULL then Some (- 1, w)
     else do {
       S \<leftarrow> wk_sessions w s;
       let c = ss_conns S d;
       if ss_worker S = NULL \<or> ss_thread S = NULL \<or> ss_policy S = NULL \<or> cn_fd c \<noteq> fd then None
       else if has CONN_F_HSK c \<or> has CONN_F_SSLHSK c then Some (0, w)
       else do {
         (r, w) \<leftarrow> send_loop io fd s d (cn_out c) w;
         case r of
           SendErr \<Rightarrow> send_fail ev s d w
         | SendRet \<Rightarrow> Some (0, w)
         | SendAll \<Rightarrow> do {
             (ret, w) \<leftarrow> send_unblock fd s d w;
             if ret \<noteq> 0 then send_fail ev s d w
             else do {
               (ret, w) \<leftarrow> send_close fd s d w;
               if ret \<noteq> 0 then send_fail ev s d w else Some (0, w) } } } })"

text \<open>Handshakes and the shutdown of SSL.\<close>

definition wait_event :: "ssl_wt \<Rightarrow> u32 \<Rightarrow> int" where
  "wait_event wt ev = (if wt = SSL_WT_READ \<and> ev AND EPOLLOUT \<noteq> 0 then FD_IN
     else if wt = SSL_WT_WRITE \<and> ev AND EPOLLIN \<noteq> 0 then FD_OUT else 0)"

definition handshake_tcp :: "io_env \<Rightarrow> addr \<Rightarrow> nat \<Rightarrow> worker \<Rightarrow> (int \<times> worker) option" where
  "handshake_tcp io s d w = do {
     S \<leftarrow> wk_sessions w s;
     if \<not> has CONN_F_HSK (ss_conns S d) then Some (0, w)
     else if io_connected io (wk_tick w) < 0 then Some (- 1, upd_conn s d (set_flag CONN_F_ERROR) (tick w))
     else let w = upd_conn s d (clear_flag CONN_F_HSK) (tick w) in
       Some (0, if cn_ssl (ss_conns S d) \<noteq> NULL then upd_conn s d (set_flag CONN_F_SSLHSK) w else w) }"

text \<open>The flag of the result tells that the callback has to wait.\<close>

definition handshake_ssl :: "io_env \<Rightarrow> int \<Rightarrow> u32 \<Rightarrow> addr \<Rightarrow> nat \<Rightarrow> worker \<Rightarrow> (int \<times> bool \<times> worker) option" where
  "handshake_ssl io fd ev s d w = do {
     S \<leftarrow> wk_sessions w s;
     if \<not> has CONN_F_SSLHSK (ss_conns S d) then Some (0, False, w)
     else if cn_ssl (ss_conns S d) = NULL then Some (- 1, False, w)
     else do {
       (ret, wt) \<leftarrow> Some (io_handshake io (wk_tick w));
       let w = tick w;
       if ret \<noteq> 0 then Some (- 1, False, w)
       else do {
         (ret, w) \<leftarrow> (if wait_event wt ev \<noteq> 0 then add_event fd (wait_event wt ev) CB_HANDSHAKE w else Some (0, w));
         if ret \<noteq> 0 then Some (- 1, False, w)
         else if wt \<noteq> SSL_WT_NONE then Some (0, True, w)
         else Some (0, False, upd_conn s d (clear_flag CONN_F_SSLHSK) w) } } }"

definition conn_handshake :: "io_env \<Rightarrow> int \<Rightarrow> u32 \<Rightarrow> addr \<Rightarrow> nat \<Rightarrow> worker \<Rightarrow> (int \<times> worker) option" where
  "conn_handshake io fd ev s d w =
    (if fd < 0 \<or> ev = 0 \<or> s = NULL then Some (- 1, w)
     else do {
       S \<leftarrow> wk_sessions w s;
       if ss_worker S = NULL \<or> ss_thread S = NULL \<or> cn_fd (ss_conns S d) \<noteq> fd then None
       else if ev AND (EPOLLERR OR EPOLLRDHUP) \<noteq> 0 then queue_task s d TASK_DELETE (- 1) w
       else do {
         (ret, w) \<leftarrow> handshake_tcp io s d w;
         if ret \<noteq> 0 then queue_task s d TASK_DELETE (- 1) w
         else do {
           (ret, wait, w) \<leftarrow> handshake_ssl io fd ev s d w;
           if ret \<noteq> 0 then queue_task s d TASK_DELETE (- 1) w
           else if wait then Some (0, w)
           else do {
             (ret, w) \<leftarrow> add_event fd FD_IN CB_RECV w;
             if ret \<noteq> 0 then queue_task s d TASK_DELETE (- 1) w
             else queue_task s d TASK_SEND 0 w } } } })"

definition shutdown_ssl :: "io_env \<Rightarrow> int \<Rightarrow> u32 \<Rightarrow> addr \<Rightarrow> nat \<Rightarrow> worker \<Rightarrow> (int \<times> bool \<times> worker) option" where
  "shutdown_ssl io fd ev s d w = do {
     S \<leftarrow> wk_sessions w s;
     if \<not> has CONN_F_SSLSHUT (ss_conns S d) then Some (0, False, w)
     else if cn_ssl (ss_conns S d) = NULL then Some (- 1, False, w)
     else do {
       (ret, wt) \<leftarrow> Some (io_shutdown io (wk_tick w));
       let w = tick w;
       if ret \<noteq> 0 then Some (- 1, False, w)
       else do {
         (ret, w) \<leftarrow> (if wait_event wt ev \<noteq> 0 then add_event fd (wait_event wt ev) CB_HANDSHAKE w else Some (0, w));
         if ret \<noteq> 0 then Some (- 1, False, w)
         else if wt \<noteq> SSL_WT_NONE then Some (0, True, w)
         else if io_ssl_free io (wk_tick w) \<noteq> 0 then Some (- 1, False, tick w)
         else Some (0, False, upd_conn s d (\<lambda>c. c\<lparr>cn_ssl := NULL\<rparr>)
           ((tick w)\<lparr>wk_ssls := wk_ssls w - {cn_ssl (ss_conns S d)}\<rparr>)) } } }"

definition conn_shutdown :: "io_env \<Rightarrow> int \<Rightarrow> u32 \<Rightarrow> addr \<Rightarrow> nat \<Rightarrow> worker \<Rightarrow> (int \<times> worker) option" where
  "conn_shutdown io fd ev s d w =
    (if fd < 0 \<or> ev = 0 \<or> s = NULL then Some (- 1, w)
     else do {
       S \<leftarrow> wk_sessions w s;
       if ss_worker S = NULL \<or> ss_thread S = NULL \<or> cn_fd (ss_conns S d) \<noteq> fd then None
       else if ev AND EPOLLERR \<noteq> 0 then queue_task s d TASK_DELETE (- 1) w
       else do {
         (ret, wait, w) \<leftarrow> shutdown_ssl io fd ev s d w;
         if ret \<noteq> 0 then queue_task s d TASK_DELETE (- 1) w
         else if wait then Some (0, w)
         else do {
           (ret, w) \<leftarrow> add_event fd 0 NULL w;
           if ret \<noteq> 0 then queue_task s d TASK_DELETE (- 1) w else Some (0, w) } } })"

subsection \<open>Sessions\<close>

text \<open>\<open>S\<close> is what the object from the pool holds; \<open>sid\<close> and \<open>nalloced\<close> keep their values.\<close>

definition session_init :: "session \<Rightarrow> session" where
  "session_init S = S\<lparr>ss_worker := NULL, ss_thread := NULL, ss_policy := NULL, ss_svrdata := NULL,
     ss_conns := (\<lambda>_. conn_init), ss_request := [], ss_response := []\<rparr>"

text \<open>A session that the other connection has a task for is only closed on one side; that task deletes it.\<close>

definition session_free :: "addr \<Rightarrow> nat \<Rightarrow> worker \<Rightarrow> (int \<times> worker) option" where
  "session_free s d w =
    (if s = NULL then Some (- 1, w)
     else do {
       S \<leftarrow> wk_sessions w s;
       if ss_worker S = NULL \<or> ss_thread S = NULL \<or> ss_policy S = NULL then None
       else do {
         w \<leftarrow> conn_free s d w;
         if task_in_queue (s, peer_of d) w then Some (0, upd_conn s (peer_of d) (\<lambda>c. c\<lparr>cn_task := TASK_DELETE\<rparr>) w)
         else do {
           w \<leftarrow> conn_free s (peer_of d) w;
           S \<leftarrow> wk_sessions w s;
           if ss_nalloced S \<noteq> 0 then None
           else do {
             (r, w) \<leftarrow> policy_free (ss_policy S) w;
             let w = w\<lparr>lfds := (\<lambda>a. map_option (\<lambda>l. l\<lparr>lf_ssnlist := removeAll s (lf_ssnlist l)\<rparr>) (lfds w a))\<rparr>;
             w \<leftarrow> (if ss_svrdata S \<noteq> NULL then do { (r, w) \<leftarrow> server_free_data (ss_svrdata S) w; Some w } else Some w);
             S \<leftarrow> wk_sessions w s;
             Some (0, w\<lparr>wk_sessions := (wk_sessions w)(s := None), wk_free := (wk_free w)(s := S)\<rparr>) } } } })"

definition session_fparse :: "addr \<Rightarrow> nat \<Rightarrow> worker \<Rightarrow> (int \<times> worker) option" where
  "session_fparse s d w =
    (if s = NULL then Some (- 1, w)
     else do {
       S \<leftarrow> wk_sessions w s;
       if ss_thread S = NULL then None
       else let ps = cn_in (ss_conns S d);
                w = upd_sess s (\<lambda>S. if d \<noteq> 0 then S\<lparr>ss_response := ss_response S @ ps\<rparr> else S\<lparr>ss_request := ss_request S @ ps\<rparr>) w
            in Some (0, upd_conn s d (\<lambda>c. c\<lparr>cn_in := []\<rparr>) w) })"

definition session_parse :: "addr \<Rightarrow> nat \<Rightarrow> worker \<Rightarrow> (int \<times> worker) option" where
  "session_parse s d w =
    (if s = NULL then Some (- 1, w)
     else do { S \<leftarrow> wk_sessions w s; if ss_thread S = NULL then None else Some (0, w) })"

definition session_choose :: "addr \<Rightarrow> addr \<Rightarrow> nat \<Rightarrow> policy \<Rightarrow> worker \<Rightarrow> (addr \<times> worker) option" where
  "session_choose sp s d pl w = do {
     S \<leftarrow> wk_sessions w s;
     if pl_mode pl = PL_MODE_REVERSE then svrpool_get_rp_server sp w
     else if pl_mode pl = PL_MODE_TPROXY then do {
       let w = upd_conn s d (\<lambda>c. c\<lparr>cn_local := cn_peer (ss_conns S 0)\<rparr>) w;
       S \<leftarrow> wk_sessions w s;
       svrpool_get_tp_server sp (Some (cn_local (ss_conns S 0))) w }
     else svrpool_get_tp_server sp (Some (cn_local (ss_conns S 0))) w }"

definition session_get_server :: "io_env \<Rightarrow> addr \<Rightarrow> nat \<Rightarrow> worker \<Rightarrow> (int \<times> worker) option" where
  "session_get_server io s d w =
    (if s = NULL then Some (- 1, w)
     else do {
       S \<leftarrow> wk_sessions w s;
       if ss_thread S = NULL \<or> ss_policy S = NULL then None
       else do {
         (sp, w) \<leftarrow> policy_clone_spdata (ss_policy S) w;
         if sp = NULL then Some (- 1, w)
         else do {
           pl \<leftarrow> policies w (ss_policy S);
           (sd, w) \<leftarrow> session_choose sp s d pl w;
           (r, w) \<leftarrow> svrpool_free_data sp w;
           if sd = NULL then Some (- 1, w)
           else do {
             x \<leftarrow> svrdatas w sd;
             if sd_server x = NULL then None
             else do {
               sv \<leftarrow> servers w (sd_server x);
               let w = upd_conn s d (\<lambda>c. c\<lparr>cn_peer := sv_address sv\<rparr>) (upd_sess s (\<lambda>S. S\<lparr>ss_svrdata := sd\<rparr>) w);
               if sv_ssl sv \<noteq> 0 then
                 let a = io_ssl_alloc io (wk_tick w);
                     w = upd_conn s d (\<lambda>c. c\<lparr>cn_ssl := a\<rparr>) (tick w)
                 in if a = NULL then Some (- 1, w) else Some (0, w\<lparr>wk_ssls := insert a (wk_ssls w)\<rparr>)
               else Some (0, w) } } } } })"

text \<open>
  Connecting: the descriptor and whether the connection is still being established.  In the two transparent
  modes a socket is created first; the transparent proxy then overwrites its descriptor, the other mode keeps
  it and never waits.
\<close>

definition session_connect :: "io_env \<Rightarrow> addr \<Rightarrow> nat \<Rightarrow> policy \<Rightarrow> worker \<Rightarrow> int \<times> bool \<times> worker" where
  "session_connect io s d pl w =
    (if pl_mode pl = PL_MODE_REVERSE then
       (case io_connect io (wk_tick w) of (fd, wt) \<Rightarrow> (fd, wt, upd_conn s d (\<lambda>c. c\<lparr>cn_fd := fd\<rparr>) (tick w)))
     else let sk = io_socket io (wk_tick w); w = upd_conn s d (\<lambda>c. c\<lparr>cn_fd := sk\<rparr>) (tick w) in
       if sk < 0 then (sk, False, w)
       else let w = w\<lparr>wk_open := insert sk (wk_open w)\<rparr> in
         if pl_mode pl = PL_MODE_TPROXY then
           (case io_connect io (wk_tick w) of (fd, wt) \<Rightarrow> (fd, wt, upd_conn s d (\<lambda>c. c\<lparr>cn_fd := fd\<rparr>) (tick w)))
         else (sk, False, w))"

definition session_register :: "io_env \<Rightarrow> int \<Rightarrow> bool \<Rightarrow> addr \<Rightarrow> nat \<Rightarrow> worker \<Rightarrow> (int \<times> worker) option" where
  "session_register io fd wt s d w = do {
     S \<leftarrow> wk_sessions w s;
     _ \<leftarrow> fe_item fd w;
     let w = fe_put fd (new_item\<lparr>fdstate := FD_READY, arg := conn_addr s d\<rparr>) w;
     if wt then do {
       (ret, w) \<leftarrow> add_event fd FD_OUT CB_HANDSHAKE (upd_conn s d (set_flag CONN_F_HSK) w);
       Some (if ret \<noteq> 0 then - 1 else 0, w) }
     else if cn_ssl (ss_conns S d) \<noteq> NULL then
       if io_ssl_set_fd io (wk_tick w) \<noteq> 0 then Some (- 1, tick w)
       else do {
         (ret, w) \<leftarrow> add_event fd FD_OUT CB_HANDSHAKE (upd_conn s d (set_flag CONN_F_SSLHSK) (tick w));
         Some (if ret \<noteq> 0 then - 1 else 0, w) }
     else do {
       (ret, w) \<leftarrow> add_event fd FD_IN CB_RECV w;
       Some (if ret \<noteq> 0 then - 1 else 0, w) } }"

text \<open>The packets of the other side move to the output queue.\<close>

definition session_join :: "addr \<Rightarrow> nat \<Rightarrow> worker \<Rightarrow> worker" where
  "session_join s d w = upd_sess s (\<lambda>S.
     if d \<noteq> 0 then S\<lparr>ss_conns := (ss_conns S)(d := (ss_conns S d)\<lparr>cn_out := cn_out (ss_conns S d) @ ss_request S\<rparr>), ss_request := []\<rparr>
     else S\<lparr>ss_conns := (ss_conns S)(d := (ss_conns S d)\<lparr>cn_out := cn_out (ss_conns S d) @ ss_response S\<rparr>), ss_response := []\<rparr>) w"

definition session_forward :: "io_env \<Rightarrow> addr \<Rightarrow> nat \<Rightarrow> worker \<Rightarrow> (int \<times> worker) option" where
  "session_forward io s d w =
    (if s = NULL then Some (- 1, w)
     else do {
       S \<leftarrow> wk_sessions w s;
       if ss_thread S = NULL \<or> ss_policy S = NULL \<or> ss_worker S = NULL then None
       else do {
         let w = session_join s d w;
         if cn_fd (ss_conns S d) > 0 then Some (0, w)
         else do {
           (ret, w) \<leftarrow> session_get_server io s d w;
           if ret \<noteq> 0 then Some (- 1, w)
           else do {
             pl \<leftarrow> policies w (ss_policy S);
             (fd, wt, w) \<leftarrow> Some (session_connect io s d pl w);
             if fd < 0 then Some (- 1, w)
             else session_register io fd wt s d (w\<lparr>wk_open := insert fd (wk_open w)\<rparr>) } } } })"

text \<open>
  The task of a connection.  When sending fails in the parse task the session is freed, and the check for
  closed connections below still reads it.
\<close>

definition session_run_task :: "io_env \<Rightarrow> addr \<Rightarrow> nat \<Rightarrow> worker \<Rightarrow> (int \<times> worker) option" where
  "session_run_task io s d w = do {
     S \<leftarrow> wk_sessions w s;
     if ss_thread S = NULL then None
     else case cn_task (ss_conns S d) of
       TASK_NONE \<Rightarrow> Some (- 1, w)
     | TASK_DELETE \<Rightarrow> do { (r, w) \<leftarrow> session_free s d w; Some (0, w) }
     | TASK_PARSE \<Rightarrow> do {
         (r, w) \<leftarrow> session_fparse s d w;
         if r \<noteq> 0 then do { (r, w) \<leftarrow> session_free s d w; Some (- 1, w) }
         else do {
           (r, w) \<leftarrow> session_forward io s (peer_of d) w;
           if r \<noteq> 0 then do { (r, w) \<leftarrow> session_free s d w; Some (- 1, w) }
           else do {
             S \<leftarrow> wk_sessions w s;
             (r, w) \<leftarrow> conn_send_data io (cn_fd (ss_conns S (peer_of d))) 0 s (peer_of d) w;
             w \<leftarrow> (if r \<noteq> 0 then do { (r, w) \<leftarrow> session_free s d w; Some w } else Some w);
             S \<leftarrow> wk_sessions w s;
             if CONN_IS_CLOSED (ss_conns S d) \<and> CONN_IS_CLOSED (ss_conns S (peer_of d))
             then do { (r, w) \<leftarrow> session_free s d w; Some (0, w) } else Some (0, w) } } }
     | TASK_SEND \<Rightarrow> do {
         (r, w) \<leftarrow> conn_send_data io (cn_fd (ss_conns S d)) 0 s d w;
         if r \<noteq> 0 then do { (r, w) \<leftarrow> session_free s d w; Some (- 1, w) }
         else do {
           S \<leftarrow> wk_sessions w s;
           if CONN_IS_CLOSED (ss_conns S d) \<and> CONN_IS_CLOSED (ss_conns S (peer_of d))
           then do { (r, w) \<leftarrow> session_free s d w; Some (0, w) } else Some (0, w) } } }"

subsection \<open>The task queue\<close>

text \<open>
  The loop of \<^verbatim>\<open>task_run_queue\<close> runs over the ring while tasks are taken out and new ones are added: \<open>e\<close> is the
  task at hand, \<open>b\<close> the one after it when it was reached; \<open>None\<close> is the head of the ring.
\<close>

fun ring_next :: "'a \<Rightarrow> 'a list \<Rightarrow> 'a option" where
  "ring_next x [] = None"
| "ring_next x (y # ys) = (if x = y then (case ys of [] \<Rightarrow> None | z # _ \<Rightarrow> Some z) else ring_next x ys)"

partial_function (option) task_run_loop ::
  "io_env \<Rightarrow> (addr \<times> nat) option \<Rightarrow> (addr \<times> nat) option \<Rightarrow> worker \<Rightarrow> worker option" where
  "task_run_loop io e b w = (case e of None \<Rightarrow> Some w
     | Some (s, d) \<Rightarrow> do {
         (r, w) \<leftarrow> session_run_task io s d (task_del_queue (s, d) w);
         case b of None \<Rightarrow> Some w
         | Some t \<Rightarrow> if t \<in> set (wk_taskq w) then task_run_loop io b (ring_next t (wk_taskq w)) w else None })"

declare task_run_loop.simps [code]

definition task_run_queue :: "io_env \<Rightarrow> worker \<Rightarrow> worker option" where
  "task_run_queue io w = (case wk_taskq w of [] \<Rightarrow> Some w | t # _ \<Rightarrow> task_run_loop io (Some t) (ring_next t (wk_taskq w)) w)"

subsection \<open>Listeners\<close>

text \<open>
  Accepting a connection.  Assertions are switched off in this file.  On an error the session goes back to
  its pool, the SSL object is freed and the descriptor is closed; an event that was registered for the
  descriptor stays.
\<close>

definition ltn_fail :: "addr \<Rightarrow> addr \<Rightarrow> int \<Rightarrow> worker \<Rightarrow> (int \<times> worker) option" where
  "ltn_fail s ssl fd w = do {
     w \<leftarrow> (if s \<noteq> NULL then do {
             S \<leftarrow> wk_sessions w s;
             Some (w\<lparr>wk_sessions := (wk_sessions w)(s := None), wk_free := (wk_free w)(s := S)\<rparr>) }
           else Some w);
     let w = (if ssl \<noteq> NULL then (tick w)\<lparr>wk_ssls := wk_ssls w - {ssl}\<rparr> else w);
     Some (- 1, if fd > 0 then w\<lparr>wk_open := wk_open w - {fd}\<rparr> else w) }"

text \<open>The SSL object of the client, and whether it could be made and set up.\<close>

definition ltn_ssl :: "io_env \<Rightarrow> listener_data \<Rightarrow> worker \<Rightarrow> addr \<times> bool \<times> worker" where
  "ltn_ssl io ld w =
    (if ld_sslctx ld = NULL then (NULL, True, w)
     else let ssl = io_ssl_alloc io (wk_tick w); w = tick w in
       if ssl = NULL then (NULL, False, w)
       else let w = w\<lparr>wk_ssls := insert ssl (wk_ssls w)\<rparr> in (ssl, io_ssl_set_fd io (wk_tick w) = 0, tick w))"

text \<open>The address the client wanted: in one of the transparent modes the kernel module tells it.\<close>

definition ltn_local :: "io_env \<Rightarrow> pl_mode \<Rightarrow> ip_port \<Rightarrow> worker \<Rightarrow> ip_port option \<times> worker" where
  "ltn_local io mode svr w =
    (if mode = PL_MODE_TRAPT
     then (map_option (\<lambda>(a, p). (IP_ADDR_SET_V4 zero_port a)\<lparr>port := p\<rparr>) (io_dstaddr io (wk_tick w)), tick w)
     else (Some svr, w))"

text \<open>A session that has been allocated is set up for the client.\<close>

definition ltn_session ::
  "io_env \<Rightarrow> addr \<Rightarrow> listener_fd \<Rightarrow> addr \<Rightarrow> int \<Rightarrow> ip_port \<Rightarrow> ip_port \<Rightarrow> addr \<Rightarrow> worker \<Rightarrow> (int \<times> worker) option" where
  "ltn_session io l lf ltd clifd cli svr s w = do {
     ld \<leftarrow> ltndatas w ltd;
     (ssl, ok, w) \<leftarrow> Some (ltn_ssl io ld w);
     if \<not> ok then ltn_fail s ssl clifd w
     else do {
       fi \<leftarrow> fe_item clifd w;
       let w = fe_put clifd (fi\<lparr>fdstate := FD_READY, arg := conn_addr s 0\<rparr>) w;
       (ret, w) \<leftarrow> add_event clifd FD_IN (if ld_sslctx ld = NULL then CB_RECV else CB_HANDSHAKE) w;
       if ret \<noteq> 0 then ltn_fail s ssl clifd w
       else do {
         let w = upd_conn s 0 (\<lambda>c. c\<lparr>cn_fd := clifd, cn_ssl := ssl, cn_peer := cli\<rparr>) w;
         pl \<leftarrow> policies w (lf_policy lf);
         (loc, w) \<leftarrow> Some (ltn_local io (pl_mode pl) svr w);
         case loc of None \<Rightarrow> ltn_fail s ssl clifd w
         | Some a \<Rightarrow> do {
             let w = upd_conn s 0 (\<lambda>c. set_flag (if ld_sslctx ld = NULL then 0 else CONN_F_SSLHSK) (c\<lparr>cn_local := a\<rparr>)) w;
             (p, w) \<leftarrow> policy_clone (lf_policy lf) w;
             let w = upd_sess s (\<lambda>S. S\<lparr>ss_worker := lf_worker lf, ss_thread := lf_thread lf, ss_policy := p\<rparr>) w;
             Some (0, w\<lparr>lfds := (lfds w)(l \<mapsto> lf\<lparr>lf_ssnlist := lf_ssnlist lf @ [s]\<rparr>)\<rparr>) } } } }"

definition ltn_accept :: "io_env \<Rightarrow> int \<Rightarrow> addr \<Rightarrow> addr \<Rightarrow> worker \<Rightarrow> (int \<times> worker) option" where
  "ltn_accept io fd l ltd w =
    (if fd < 1 \<or> l = NULL then Some (- 1, w)
     else do {
       lf \<leftarrow> lfds w l;
       case io_accept io (wk_tick w) of
         Inr e \<Rightarrow> Some (if e \<noteq> EAGAIN then - 1 else 0, tick w)
       | Inl (clifd, cli, svr) \<Rightarrow> do {
           let w = (tick w)\<lparr>wk_open := insert clifd (wk_open w)\<rparr>;
           let s = io_ssn io (wk_tick w) (\<lambda>a. wk_sessions w a \<noteq> None);
           let w = tick w;
           if s = NULL then ltn_fail NULL NULL clifd w
           else ltn_session io l lf ltd clifd cli svr s
             (w\<lparr>wk_sessions := (wk_sessions w)(s \<mapsto> (session_init (wk_free w s))\<lparr>ss_sid := wk_next_sid w\<rparr>),
               wk_next_sid := wk_next_sid w + 1,
               wk_rcvd := (\<lambda>(t, d). if t = s then [] else wk_rcvd w (t, d)),
               wk_sent := (\<lambda>(t, d). if t = s then [] else wk_sent w (t, d)), wk_dying := wk_dying w - {s}\<rparr>) } })"

text \<open>At most \<open>naccept\<close> connections per event; only an error ends the loop early.\<close>

fun accept_loop :: "io_env \<Rightarrow> int \<Rightarrow> addr \<Rightarrow> addr \<Rightarrow> nat \<Rightarrow> worker \<Rightarrow> (int \<times> worker) option" where
  "accept_loop io fd l ltd 0 w = Some (0, w)"
| "accept_loop io fd l ltd (Suc n) w = do {
     (ret, w) \<leftarrow> ltn_accept io fd l ltd w;
     if ret \<noteq> 0 then Some (ret, w) else accept_loop io fd l ltd n w }"

definition listener_accept :: "io_env \<Rightarrow> int \<Rightarrow> u32 \<Rightarrow> addr \<Rightarrow> worker \<Rightarrow> (int \<times> worker) option" where
  "listener_accept io fd ev l w =
    (if fd < 0 \<or> ev = 0 \<or> l = NULL then Some (- 1, w)
     else do {
       lf \<leftarrow> lfds w l;
       (ltd, w) \<leftarrow> policy_clone_ltndata (lf_policy lf) w;
       if lf_worker lf = NULL then None
       else do {
         (ret, w) \<leftarrow> accept_loop io fd l ltd (nat (wk_naccept w)) w;
         (r, w) \<leftarrow> listener_free_data ltd w;
         Some (ret, w) } })"

text \<open>Every session of the listener is freed; one that is deferred stays in memory but leaves the list.\<close>

fun free_sessions :: "addr \<Rightarrow> addr list \<Rightarrow> worker \<Rightarrow> worker option" where
  "free_sessions l [] w = Some w"
| "free_sessions l (s # ss) w = do {
     lf \<leftarrow> lfds w l;
     (r, w) \<leftarrow> session_free s 0 (w\<lparr>lfds := (lfds w)(l \<mapsto> lf\<lparr>lf_ssnlist := removeAll s (lf_ssnlist lf)\<rparr>)\<rparr>);
     free_sessions l ss w }"

definition listener_free_fd :: "addr \<Rightarrow> worker \<Rightarrow> (int \<times> worker) option" where
  "listener_free_fd l w =
    (if l = NULL then Some (- 1, w)
     else do {
       lf \<leftarrow> lfds w l;
       w \<leftarrow> free_sessions l (lf_ssnlist lf) w;
       lf \<leftarrow> lfds w l;
       w \<leftarrow> (if lf_policy lf \<noteq> NULL then do { (r, w) \<leftarrow> policy_free (lf_policy lf) w; Some w } else Some w);
       let w = (if lf_fd lf > 0 then w\<lparr>wk_open := wk_open w - {lf_fd lf}\<rparr> else w);
       Some (0, w\<lparr>lfds := (lfds w)(l := None)\<rparr>) })"

end
