(* ===== verification/Session_Correct.thy ===== *)
theory Session_Correct
  imports Session "HOL-Library.Multiset"
begin

text \<open>
  What a session keeps: every byte that was received from one side is on its way to the other side exactly
  once and in order, and the packets of the session are the ones it has counted and taken from the pool.
\<close>

subsection \<open>The invariant of a session\<close>

definition unsent :: "packet \<Rightarrow> u8 list" where
  "unsent p = drop (pk_sendpos p) (pk_data p)"

definition bytes :: "packet list \<Rightarrow> u8 list" where
  "bytes ps = concat (map unsent ps)"

lemma bytes_simps [simp]: "bytes [] = []" "bytes (p # ps) = unsent p @ bytes ps" "bytes (ps @ qs) = bytes ps @ bytes qs"
  by (simp_all add: bytes_def)

text \<open>The bytes from connection \<open>d\<close> that are still in the session, oldest first.\<close>

definition pend :: "session \<Rightarrow> nat \<Rightarrow> u8 list" where
  "pend S d = bytes (cn_out (ss_conns S (peer_of d))) @ bytes (if d = 0 then ss_request S else ss_response S) @
     bytes (cn_in (ss_conns S d))"

definition all_pkts :: "session \<Rightarrow> packet list" where
  "all_pkts S = cn_in (ss_conns S 0) @ cn_in (ss_conns S 1) @ cn_out (ss_conns S 0) @ cn_out (ss_conns S 1) @
     ss_request S @ ss_response S"

definition pkt_ok :: "packet \<Rightarrow> bool" where
  "pkt_ok p \<longleftrightarrow> pk_sendpos p \<le> length (pk_data p) \<and> length (pk_data p) \<le> pk_max p \<and> pk_max p = MAX_PKTLEN"

text \<open>Only a single packet of an input queue has room, which is why reading into the first one keeps the order.\<close>

definition in_ok :: "packet list \<Rightarrow> bool" where
  "in_ok ps \<longleftrightarrow> (\<forall>p\<in>set ps. pk_sendpos p = 0) \<and> (2 \<le> length ps \<longrightarrow> length (pk_data (hd ps)) = pk_max (hd ps))"

text \<open>The packets of a session, in any order: counted, with addresses of their own that are taken from the pool.\<close>

definition owns :: "addr set \<Rightarrow> int \<Rightarrow> packet list \<Rightarrow> bool" where
  "owns live n ps \<longleftrightarrow> n = int (length ps) \<and> distinct (map pk_addr ps) \<and> pk_addr ` set ps \<subseteq> live \<and> (\<forall>p\<in>set ps. pkt_ok p)"

definition pkts_ok :: "addr set \<Rightarrow> session \<Rightarrow> bool" where
  "pkts_ok live S \<longleftrightarrow> owns live (ss_nalloced S) (all_pkts S) \<and> (\<forall>d<2. in_ok (cn_in (ss_conns S d)))"

definition relayed :: "(addr \<times> nat \<Rightarrow> u8 list) \<Rightarrow> (addr \<times> nat \<Rightarrow> u8 list) \<Rightarrow> addr \<Rightarrow> session \<Rightarrow> bool" where
  "relayed rcvd sent s S \<longleftrightarrow> (\<forall>d<2. rcvd (s, d) = sent (s, peer_of d) @ pend S d)"

definition sess_ok :: "worker \<Rightarrow> addr \<Rightarrow> bool" where
  "sess_ok w s \<longleftrightarrow> (\<forall>S. wk_sessions w s = Some S \<longrightarrow> pkts_ok (wk_pkts w) S \<and>
     (s \<notin> wk_dying w \<longrightarrow> relayed (wk_rcvd w) (wk_sent w) s S))"

lemma owns_perm: "mset qs = mset ps \<Longrightarrow> owns live n ps \<Longrightarrow> owns live n qs"
  unfolding owns_def
  by (metis mset_eq_imp_distinct_iff mset_eq_length mset_eq_setD mset_map)

lemma owns_new: "owns live n ps \<Longrightarrow> pk_addr p \<notin> live \<Longrightarrow> pkt_ok p \<Longrightarrow> owns (insert (pk_addr p) live) (n + 1) (p # ps)"
  by (auto simp: owns_def)

lemma owns_change: "owns live n (p # ps) \<Longrightarrow> pk_addr p' = pk_addr p \<Longrightarrow> pkt_ok p' \<Longrightarrow> owns live n (p' # ps)"
  by (auto simp: owns_def)

lemma owns_put: "owns live n (p # ps) \<Longrightarrow> owns (live - {pk_addr p}) (n - 1) ps"
  by (auto simp: owns_def image_iff)

lemma owns_Cons: "owns live n (p # ps) \<Longrightarrow> pk_addr p \<in> live \<and> pkt_ok p"
  by (auto simp: owns_def)

lemma peer_of_simps [simp]: "peer_of 0 = 1" "peer_of (Suc 0) = 0" "peer_of 1 = 0"
  by (simp_all add: peer_of_def)

lemma less_2_cases': "d < 2 \<Longrightarrow> d = 0 \<or> d = 1" for d :: nat
  by auto

lemma peer_of_less: "peer_of d < 2"
  by (simp add: peer_of_def)

lemma peer_of_neq: "d < 2 \<Longrightarrow> peer_of d \<noteq> d"
  using less_2_cases' [of d] by auto

lemma peer_of_peer_of: "d < 2 \<Longrightarrow> peer_of (peer_of d) = d"
  using less_2_cases' [of d] by auto

subsection \<open>Updates of the state\<close>

lemma upd_sess_simps [simp]:
  "wk_sessions (upd_sess s f w) = (wk_sessions w)(s := map_option f (wk_sessions w s))"
  "wk_fe (upd_sess s f w) = wk_fe w" "wk_pkts (upd_sess s f w) = wk_pkts w" "wk_taskq (upd_sess s f w) = wk_taskq w"
  "wk_ntask (upd_sess s f w) = wk_ntask w" "wk_open (upd_sess s f w) = wk_open w" "wk_tick (upd_sess s f w) = wk_tick w"
  "wk_rcvd (upd_sess s f w) = wk_rcvd w" "wk_sent (upd_sess s f w) = wk_sent w"
  by (simp_all add: upd_sess_def)

lemma upd_conn_simps [simp]:
  "wk_sessions (upd_conn s d f w) =
     (wk_sessions w)(s := map_option (\<lambda>S. S\<lparr>ss_conns := (ss_conns S)(d := f (ss_conns S d))\<rparr>) (wk_sessions w s))"
  "wk_fe (upd_conn s d f w) = wk_fe w" "wk_pkts (upd_conn s d f w) = wk_pkts w" "wk_taskq (upd_conn s d f w) = wk_taskq w"
  "wk_ntask (upd_conn s d f w) = wk_ntask w" "wk_open (upd_conn s d f w) = wk_open w" "wk_tick (upd_conn s d f w) = wk_tick w"
  "wk_rcvd (upd_conn s d f w) = wk_rcvd w" "wk_sent (upd_conn s d f w) = wk_sent w"
  by (simp_all add: upd_conn_def)

lemma tick_simps [simp]:
  "wk_sessions (tick w) = wk_sessions w" "wk_fe (tick w) = wk_fe w" "wk_pkts (tick w) = wk_pkts w"
  "wk_taskq (tick w) = wk_taskq w" "wk_rcvd (tick w) = wk_rcvd w" "wk_sent (tick w) = wk_sent w"
  "wk_tick (tick w) = Suc (wk_tick w)"
  by (simp_all add: tick_def)

lemma flag_simps [simp]:
  "cn_in (set_flag f c) = cn_in c" "cn_out (set_flag f c) = cn_out c" "cn_fd (set_flag f c) = cn_fd c"
  "cn_ssl (set_flag f c) = cn_ssl c" "cn_task (set_flag f c) = cn_task c"
  "cn_in (clear_flag f c) = cn_in c" "cn_out (clear_flag f c) = cn_out c" "cn_fd (clear_flag f c) = cn_fd c"
  "cn_ssl (clear_flag f c) = cn_ssl c" "cn_task (clear_flag f c) = cn_task c"
  by (simp_all add: set_flag_def clear_flag_def)

subsection \<open>Changes of the queues\<close>

lemma MAX_PKTLEN_pos: "0 < MAX_PKTLEN"
  by (simp add: MAX_PKTLEN_def)

text \<open>The changes of an input queue: a fresh packet at the end, bytes at the end of the last packet, the empty last packet gone.\<close>

lemma pkts_ok_fresh:
  fixes S :: session
  assumes p: "pkts_ok live S" and d: "d < 2" and m: "m \<notin> live"
    and full: "cn_in (ss_conns S d) \<noteq> [] \<Longrightarrow> length (pk_data (hd (cn_in (ss_conns S d)))) \<ge> pk_max (hd (cn_in (ss_conns S d)))"
  shows "pkts_ok (insert m live) (S\<lparr>ss_conns := (ss_conns S)(d := (ss_conns S d)\<lparr>cn_in := cn_in (ss_conns S d) @ [PKT_INIT m]\<rparr>),
    ss_nalloced := ss_nalloced S + 1\<rparr>)" (is "pkts_ok _ ?S")
proof -
  have new: "pkt_ok (PKT_INIT m)" "pk_addr (PKT_INIT m) = m" "pk_sendpos (PKT_INIT m) = 0"
    by (simp_all add: pkt_ok_def PKT_INIT_def)
  have q: "in_ok (cn_in (ss_conns S d))" "\<forall>p\<in>set (cn_in (ss_conns S d)). pkt_ok p"
    using p d less_2_cases' [OF d] by (auto simp: pkts_ok_def owns_def all_pkts_def)
  then have "in_ok (cn_in (ss_conns S d) @ [PKT_INIT m])"
    using full by (cases "cn_in (ss_conns S d)") (auto simp: in_ok_def pkt_ok_def PKT_INIT_def)
  moreover have "owns (insert m live) (ss_nalloced S + 1) (all_pkts ?S)"
  proof (rule owns_perm)
    show "mset (all_pkts ?S) = mset (PKT_INIT m # all_pkts S)" using less_2_cases' [OF d] by (auto simp: all_pkts_def)
    show "owns (insert m live) (ss_nalloced S + 1) (PKT_INIT m # all_pkts S)"
      using owns_new [of live _ _ "PKT_INIT m"] p m new by (simp add: pkts_ok_def)
  qed
  ultimately show ?thesis using p by (simp add: pkts_ok_def)
qed

lemma pend_fresh:
  "d < 2 \<Longrightarrow> pend (S\<lparr>ss_conns := (ss_conns S)(d := (ss_conns S d)\<lparr>cn_in := cn_in (ss_conns S d) @ [PKT_INIT m]\<rparr>), ss_nalloced := n\<rparr>) e = pend S e"
  using less_2_cases' [of d] by (auto simp: pend_def unsent_def PKT_INIT_def)

lemma pkts_ok_grow:
  fixes S :: session
  assumes p: "pkts_ok live S" and d: "d < 2" and q: "cn_in (ss_conns S d) = qs @ [q]"
    and fits: "length (pk_data q) + length bs \<le> pk_max q"
  shows "pkts_ok live (S\<lparr>ss_conns := (ss_conns S)(d := (ss_conns S d)\<lparr>cn_in := qs @ [q\<lparr>pk_data := pk_data q @ bs\<rparr>]\<rparr>)\<rparr>)"
    (is "pkts_ok _ ?S")
proof -
  let ?q = "q\<lparr>pk_data := pk_data q @ bs\<rparr>"
  have m: "mset (all_pkts S) = mset (q # (qs @ cn_in (ss_conns S (peer_of d)) @ cn_out (ss_conns S 0) @ cn_out (ss_conns S 1) @ ss_request S @ ss_response S))"
    (is "_ = mset (q # ?r)") using less_2_cases' [OF d] q by (auto simp: all_pkts_def)
  have m': "mset (all_pkts ?S) = mset (?q # ?r)" using less_2_cases' [OF d] q by (auto simp: all_pkts_def)
  have o: "owns live (ss_nalloced S) (q # ?r)" by (rule owns_perm [OF m [symmetric]]) (use p in \<open>simp add: pkts_ok_def\<close>)
  then have "pkt_ok ?q" using owns_Cons [OF o] fits by (simp add: pkt_ok_def)
  then have "owns live (ss_nalloced S) (all_pkts ?S)" using owns_perm [OF m'] owns_change [OF o, of ?q] by simp
  moreover have "in_ok (qs @ [?q])"
    using p d q by (cases qs) (auto simp: pkts_ok_def in_ok_def dest!: spec [of _ d])
  ultimately show ?thesis using p by (simp add: pkts_ok_def)
qed

lemma relayed_grow:
  fixes S :: session
  assumes r: "relayed rcvd sent s S" and p: "pkts_ok live S" and d: "d < 2" and q: "cn_in (ss_conns S d) = qs @ [q]"
  shows "relayed (rcvd((s, d) := rcvd (s, d) @ bs)) sent s
    (S\<lparr>ss_conns := (ss_conns S)(d := (ss_conns S d)\<lparr>cn_in := qs @ [q\<lparr>pk_data := pk_data q @ bs\<rparr>]\<rparr>)\<rparr>)"
proof -
  have "pk_sendpos q = 0" using p d q by (auto simp: pkts_ok_def in_ok_def)
  then have "unsent (q\<lparr>pk_data := pk_data q @ bs\<rparr>) = unsent q @ bs" by (simp add: unsent_def)
  then show ?thesis using r q less_2_cases' [OF d] by (auto simp: relayed_def pend_def less_2_cases_iff)
qed

lemma pkts_ok_drop_in:
  fixes S :: session
  assumes p: "pkts_ok live S" and d: "d < 2" and q: "cn_in (ss_conns S d) = qs @ [q]"
  shows "pkts_ok (live - {pk_addr q}) (S\<lparr>ss_conns := (ss_conns S)(d := (ss_conns S d)\<lparr>cn_in := qs\<rparr>), ss_nalloced := ss_nalloced S - 1\<rparr>)"
    (is "pkts_ok _ ?S") and "pk_addr q \<in> live"
proof -
  have m: "mset (q # all_pkts ?S) = mset (all_pkts S)" using less_2_cases' [OF d] q by (auto simp: all_pkts_def)
  have o: "owns live (ss_nalloced S) (q # all_pkts ?S)" by (rule owns_perm [OF m]) (use p in \<open>simp add: pkts_ok_def\<close>)
  moreover have "in_ok qs" using p d q by (cases qs) (auto simp: pkts_ok_def in_ok_def dest!: spec [of _ d])
  ultimately show "pkts_ok (live - {pk_addr q}) ?S" using owns_put [OF o] p by (simp add: pkts_ok_def)
  show "pk_addr q \<in> live" using owns_Cons [OF o] by simp
qed

lemma relayed_drop_in:
  fixes S :: session
  assumes "relayed rcvd sent s S" and "d < 2" and "cn_in (ss_conns S d) = qs @ [q]" and "pk_data q = []"
  shows "relayed rcvd sent s (S\<lparr>ss_conns := (ss_conns S)(d := (ss_conns S d)\<lparr>cn_in := qs\<rparr>), ss_nalloced := n\<rparr>)"
proof -
  have "unsent q = []" using assms(4) by (simp add: unsent_def)
  then show ?thesis using assms less_2_cases' [of d] by (auto simp: relayed_def pend_def less_2_cases_iff)
qed

text \<open>The changes of an output queue: bytes of the first packet are sent, and a packet that is out goes back to the pool.\<close>

lemma pkts_ok_sent:
  fixes S :: session
  assumes p: "pkts_ok live S" and d: "d < 2" and q: "cn_out (ss_conns S d) = q # qs" and n: "n \<le> length (unsent q)"
  shows "pkts_ok live (S\<lparr>ss_conns := (ss_conns S)(d := (ss_conns S d)\<lparr>cn_out := q\<lparr>pk_sendpos := pk_sendpos q + n\<rparr> # qs\<rparr>)\<rparr>)"
    (is "pkts_ok _ ?S")
proof -
  let ?q = "q\<lparr>pk_sendpos := pk_sendpos q + n\<rparr>"
  have m: "mset (all_pkts S) = mset (q # (qs @ cn_out (ss_conns S (peer_of d)) @ cn_in (ss_conns S 0) @ cn_in (ss_conns S 1) @ ss_request S @ ss_response S))"
    (is "_ = mset (q # ?r)") using less_2_cases' [OF d] q by (auto simp: all_pkts_def)
  have m': "mset (all_pkts ?S) = mset (?q # ?r)" using less_2_cases' [OF d] q by (auto simp: all_pkts_def)
  have o: "owns live (ss_nalloced S) (q # ?r)" by (rule owns_perm [OF m [symmetric]]) (use p in \<open>simp add: pkts_ok_def\<close>)
  then have "pkt_ok ?q" using owns_Cons [OF o] n by (auto simp: pkt_ok_def unsent_def)
  then have "owns live (ss_nalloced S) (all_pkts ?S)" using owns_perm [OF m'] owns_change [OF o, of ?q] by simp
  then show ?thesis using p by (simp add: pkts_ok_def)
qed

lemma relayed_sent:
  fixes S :: session
  assumes r: "relayed rcvd sent s S" and d: "d < 2" and q: "cn_out (ss_conns S d) = q # qs"
  shows "relayed rcvd (sent((s, d) := sent (s, d) @ take n (unsent q))) s
    (S\<lparr>ss_conns := (ss_conns S)(d := (ss_conns S d)\<lparr>cn_out := q\<lparr>pk_sendpos := pk_sendpos q + n\<rparr> # qs\<rparr>)\<rparr>)"
proof -
  have "take n (unsent q) @ unsent (q\<lparr>pk_sendpos := pk_sendpos q + n\<rparr>) = unsent q"
    by (simp add: unsent_def add.commute flip: drop_drop)
  then have "take n (unsent q) @ unsent (q\<lparr>pk_sendpos := pk_sendpos q + n\<rparr>) @ xs = unsent q @ xs" for xs
    by (metis append_assoc)
  then show ?thesis using r q less_2_cases' [OF d] by (auto simp: relayed_def pend_def less_2_cases_iff)
qed

lemma pkts_ok_drop_out:
  fixes S :: session
  assumes p: "pkts_ok live S" and d: "d < 2" and q: "cn_out (ss_conns S d) = q # qs"
  shows "pkts_ok (live - {pk_addr q}) (S\<lparr>ss_conns := (ss_conns S)(d := (ss_conns S d)\<lparr>cn_out := qs\<rparr>), ss_nalloced := ss_nalloced S - 1\<rparr>)"
    (is "pkts_ok _ ?S") and "pk_addr q \<in> live"
proof -
  have m: "mset (q # all_pkts ?S) = mset (all_pkts S)" using less_2_cases' [OF d] q by (auto simp: all_pkts_def)
  have o: "owns live (ss_nalloced S) (q # all_pkts ?S)" by (rule owns_perm [OF m]) (use p in \<open>simp add: pkts_ok_def\<close>)
  then show "pkts_ok (live - {pk_addr q}) ?S" using owns_put [OF o] p by (simp add: pkts_ok_def)
  show "pk_addr q \<in> live" using owns_Cons [OF o] by simp
qed

lemma relayed_drop_out:
  fixes S :: session
  assumes "relayed rcvd sent s S" and "d < 2" and "cn_out (ss_conns S d) = q # qs" and "unsent q = []"
  shows "relayed rcvd sent s (S\<lparr>ss_conns := (ss_conns S)(d := (ss_conns S d)\<lparr>cn_out := qs\<rparr>), ss_nalloced := n\<rparr>)"
  using assms less_2_cases' [of d] by (auto simp: relayed_def pend_def less_2_cases_iff)

subsection \<open>Keeping the invariant\<close>

text \<open>
  What an operation on session \<open>s\<close> does to the worker: it keeps the invariant of the session, leaves other
  sessions, their logs and their packets alone, puts only session objects without packets into their pool, and
  queues only tasks of its two connections.
\<close>

definition addrs :: "addr \<Rightarrow> worker \<Rightarrow> addr set" where
  "addrs s w = (case wk_sessions w s of None \<Rightarrow> {} | Some S \<Rightarrow> pk_addr ` set (all_pkts S))"

definition others :: "addr \<Rightarrow> worker \<Rightarrow> addr set" where
  "others s w = wk_pkts w - addrs s w"

definition idle_ok :: "worker \<Rightarrow> bool" where
  "idle_ok w \<longleftrightarrow> (\<forall>t. ss_nalloced (wk_free w t) = 0) \<and> (\<forall>x\<in>set (wk_taskq w). snd x < 2)"

definition keeps :: "addr \<Rightarrow> worker \<Rightarrow> worker \<Rightarrow> bool" where
  "keeps s w w' \<longleftrightarrow> (sess_ok w s \<longrightarrow> sess_ok w' s \<and> others s w \<subseteq> others s w') \<and> (idle_ok w \<longrightarrow> idle_ok w') \<and>
     (\<forall>t. t \<noteq> s \<longrightarrow> wk_sessions w' t = wk_sessions w t \<and> (t \<in> wk_dying w' \<longleftrightarrow> t \<in> wk_dying w) \<and> (\<forall>d. wk_rcvd w' (t, d) = wk_rcvd w (t, d) \<and> wk_sent w' (t, d) = wk_sent w (t, d)))"

named_theorems keeps_intros

lemma keeps_refl [simp]: "keeps s w w"
  by (simp add: keeps_def)

lemma keeps_trans [trans]: "keeps s w0 w1 \<Longrightarrow> keeps s w1 w2 \<Longrightarrow> keeps s w0 w2"
  unfolding keeps_def by (metis subset_trans)

lemma keeps_same:
  "wk_sessions w' = wk_sessions w \<Longrightarrow> wk_pkts w' = wk_pkts w \<Longrightarrow> wk_rcvd w' = wk_rcvd w \<Longrightarrow> wk_sent w' = wk_sent w \<Longrightarrow>
     wk_free w' = wk_free w \<Longrightarrow> wk_dying w' = wk_dying w \<Longrightarrow>
     set (wk_taskq w') \<subseteq> set (wk_taskq w) \<Longrightarrow> keeps s w w'"
  by (auto simp add: keeps_def sess_ok_def others_def addrs_def idle_ok_def)

lemma keepsI:
  assumes "wk_sessions w s = Some S" and "wk_sessions w' = (wk_sessions w)(s \<mapsto> S')" and "wk_free w' = wk_free w"
    and "\<And>t d. t \<noteq> s \<Longrightarrow> wk_rcvd w' (t, d) = wk_rcvd w (t, d) \<and> wk_sent w' (t, d) = wk_sent w (t, d)"
    and "wk_dying w' = wk_dying w" and "wk_taskq w' = wk_taskq w"
    and "pkts_ok (wk_pkts w) S \<Longrightarrow> pkts_ok (wk_pkts w') S' \<and>
      wk_pkts w - pk_addr ` set (all_pkts S) \<subseteq> wk_pkts w' - pk_addr ` set (all_pkts S')"
    and "pkts_ok (wk_pkts w) S \<Longrightarrow> relayed (wk_rcvd w) (wk_sent w) s S \<Longrightarrow> relayed (wk_rcvd w') (wk_sent w') s S'"
  shows "keeps s w w'"
  using assms by (auto simp: keeps_def sess_ok_def others_def addrs_def idle_ok_def)

text \<open>Changes that concern no packet.\<close>

lemma all_pkts_conn:
  fixes S :: session
  assumes "\<And>c. cn_in (f c) = cn_in c" and "\<And>c. cn_out (f c) = cn_out c"
  shows "all_pkts (S\<lparr>ss_conns := (ss_conns S)(d := f (ss_conns S d))\<rparr>) = all_pkts S"
    "pend (S\<lparr>ss_conns := (ss_conns S)(d := f (ss_conns S d))\<rparr>) = pend S"
    "cn_in (((ss_conns S)(d := f (ss_conns S d))) e) = cn_in (ss_conns S e)"
  using assms by (auto simp: all_pkts_def pend_def fun_eq_iff)

lemma keeps_upd_conn:
  assumes "\<And>c. cn_in (f c) = cn_in c" and "\<And>c. cn_out (f c) = cn_out c" and "keeps s w0 w"
  shows "keeps s w0 (upd_conn s d f w)"
proof (cases "wk_sessions w s")
  case None
  then have "keeps s w (upd_conn s d f w)" by (intro keeps_same) (auto simp: upd_conn_def upd_sess_def)
  then show ?thesis using assms(3) keeps_trans by blast
next
  case (Some S)
  then have "keeps s w (upd_conn s d f w)"
    by (intro keepsI [OF Some]) (auto simp: upd_conn_def upd_sess_def pkts_ok_def relayed_def all_pkts_conn [of f, OF assms(1,2)] simp del: fun_upd_apply)
  then show ?thesis using assms(3) keeps_trans by blast
qed

lemma keeps_fields [keeps_intros]:
  assumes "keeps s w0 w"
  shows "keeps s w0 (tick w)" "keeps s w0 (w\<lparr>wk_open := A\<rparr>)" "keeps s w0 (w\<lparr>wk_shut := A\<rparr>)" "keeps s w0 (w\<lparr>wk_ssls := B\<rparr>)"
    "keeps s w0 (w\<lparr>lfds := L\<rparr>)" "keeps s w0 (fe_put fd fi w)" "keeps s w0 (task_del_queue t w)"
    "keeps s w0 (w\<lparr>wk_next_sid := n\<rparr>)" "keeps s w0 (w\<lparr>wk_fe := fe\<rparr>)"
  by (rule keeps_trans [OF assms], rule keeps_same; simp add: tick_def fe_put_def task_del_queue_def)+

lemma keeps_conn_fields [keeps_intros]:
  assumes "keeps s w0 w"
  shows "keeps s w0 (upd_conn s d (set_flag f) w)" "keeps s w0 (upd_conn s d (clear_flag f) w)"
    "keeps s w0 (upd_conn s d (\<lambda>c. c\<lparr>cn_task := ty\<rparr>) w)" "keeps s w0 (upd_conn s d (\<lambda>c. c\<lparr>cn_fd := fd\<rparr>) w)"
    "keeps s w0 (upd_conn s d (\<lambda>c. c\<lparr>cn_ssl := ss\<rparr>) w)" "keeps s w0 (upd_conn s d (\<lambda>c. c\<lparr>cn_peer := a\<rparr>) w)"
    "keeps s w0 (upd_conn s d (\<lambda>c. c\<lparr>cn_local := a\<rparr>) w)" "keeps s w0 (upd_conn s d (\<lambda>c. c\<lparr>cn_fd := fd, cn_ssl := ss, cn_peer := a\<rparr>) w)"
    "keeps s w0 (upd_conn s d (\<lambda>c. set_flag f (c\<lparr>cn_local := a\<rparr>)) w)"
  by (rule keeps_upd_conn [OF _ _ assms]; simp)+

lemma keeps_upd_sess [keeps_intros]:
  assumes k: "keeps s w0 w"
  shows "keeps s w0 (upd_sess s (\<lambda>S. S\<lparr>ss_svrdata := x\<rparr>) w)"
    "keeps s w0 (upd_sess s (\<lambda>S. S\<lparr>ss_worker := x1, ss_thread := x2, ss_policy := x3\<rparr>) w)"
proof -
  have q: "keeps s w (upd_sess s f w)"
    if "\<And>S. all_pkts (f S) = all_pkts S" "\<And>S. pend (f S) = pend S" "\<And>S. ss_conns (f S) = ss_conns S" "\<And>S. ss_nalloced (f S) = ss_nalloced S" for f
  proof (cases "wk_sessions w s")
    case None
    then show ?thesis by (intro keeps_same) (auto simp: upd_sess_def)
  next
    case (Some S)
    then show ?thesis by (intro keepsI [OF Some]) (auto simp: upd_sess_def pkts_ok_def relayed_def that)
  qed
  show "keeps s w0 (upd_sess s (\<lambda>S. S\<lparr>ss_svrdata := x\<rparr>) w)"
    by (rule keeps_trans [OF k q]) (simp_all add: all_pkts_def pend_def fun_eq_iff)
  show "keeps s w0 (upd_sess s (\<lambda>S. S\<lparr>ss_worker := x1, ss_thread := x2, ss_policy := x3\<rparr>) w)"
    by (rule keeps_trans [OF k q]) (simp_all add: all_pkts_def pend_def fun_eq_iff)
qed

lemma add_event_keeps [post_intros]: "keeps s w0 w \<Longrightarrow> post (\<lambda>(r, w'). keeps s w0 w' \<and> wk_sessions w' = wk_sessions w) (add_event fd ev cb w)"
  by (auto simp: add_event_def post_def split: option.splits intro: keeps_intros)

lemma fe_item_post [post_intros]: "post (\<lambda>_. True) (fe_item fd w)" "post (\<lambda>S. True) (wk_sessions w s)"
  by (rule post_True)+

lemma task_add_queue_keeps [post_intros]:
  assumes "keeps s w0 w" and "snd t < 2"
  shows "post (keeps s w0) (task_add_queue t w)"
proof -
  have "keeps s w (w\<lparr>wk_taskq := wk_taskq w @ [t], wk_ntask := wk_ntask w + 1\<rparr>)"
    using assms(2) by (auto simp: keeps_def sess_ok_def others_def addrs_def idle_ok_def)
  then show ?thesis using keeps_trans [OF assms(1)] by (auto simp: task_add_queue_def post_def)
qed

lemma queue_task_keeps [post_intros]: "keeps s w0 w \<Longrightarrow> d < 2 \<Longrightarrow> post (\<lambda>(r, w'). keeps s w0 w') (queue_task s d ty r w)"
  unfolding queue_task_def by (rule post_rules post_bind post_intros keeps_intros | assumption | clarsimp)+

subsection \<open>Receiving\<close>

text \<open>The pools hand out packets and sessions that are not in use.\<close>

definition pool_ok :: "io_env \<Rightarrow> bool" where
  "pool_ok io \<longleftrightarrow> (\<forall>t live. io_pkt io t live = NULL \<or> io_pkt io t live \<notin> live) \<and>
     (\<forall>t live. io_ssn io t live = NULL \<or> \<not> live (io_ssn io t live))"

text \<open>The packet at position \<open>i\<close> is the last of its queue and \<open>n\<close> more bytes fit.\<close>

definition slot_at :: "worker \<Rightarrow> addr \<Rightarrow> nat \<Rightarrow> nat \<Rightarrow> nat \<Rightarrow> bool" where
  "slot_at w s d i n \<longleftrightarrow> (\<exists>S qs q. wk_sessions w s = Some S \<and> cn_in (ss_conns S d) = qs @ [q] \<and> i = length qs \<and> length (pk_data q) + n \<le> pk_max q)"

lemma recv_slot_keeps:
  assumes run: "recv_slot io s d w = Some (r, w')" and d: "d < 2" and io: "pool_ok io"
  shows "keeps s w w'" "sess_ok w s \<Longrightarrow> r = Some i \<Longrightarrow> slot_at w' s d i 0"
proof -
  obtain S where S: "wk_sessions w s = Some S" using run by (auto simp: recv_slot_def bind_eq_Some_conv)
  let ?c = "ss_conns S d" and ?m = "io_pkt io (wk_tick w) (wk_pkts w)"
  consider (room) "r = Some 0" "w' = w" "cn_in ?c \<noteq> []" "length (pk_data (hd (cn_in ?c))) < pk_max (hd (cn_in ?c))"
    | (none) "r = None" "w' = tick w"
    | (new) "r = Some (length (cn_in ?c))" "?m \<noteq> NULL"
        "cn_in ?c \<noteq> [] \<Longrightarrow> length (pk_data (hd (cn_in ?c))) \<ge> pk_max (hd (cn_in ?c))"
        "w' = upd_sess s (\<lambda>S. S\<lparr>ss_nalloced := ss_nalloced S + 1\<rparr>)
           (upd_conn s d (\<lambda>c. c\<lparr>cn_in := cn_in c @ [PKT_INIT ?m]\<rparr>) ((tick w)\<lparr>wk_pkts := insert ?m (wk_pkts w)\<rparr>))"
    using run S by (auto simp: recv_slot_def Let_def not_less split: if_splits)
  then have "keeps s w w' \<and> (sess_ok w s \<longrightarrow> r = Some i \<longrightarrow> slot_at w' s d i 0)"
  proof cases
    case room
    have "slot_at w s d 0 0" if "sess_ok w s"
    proof -
      have "in_ok (cn_in ?c)" using that S d by (simp add: sess_ok_def pkts_ok_def)
      then obtain q where q: "cn_in ?c = [] @ [q]" using room by (cases "cn_in ?c"; cases "tl (cn_in ?c)") (auto simp: in_ok_def)
      then show ?thesis using room S by (fastforce simp: slot_at_def)
    qed
    then show ?thesis using room by auto
  next
    case none
    then show ?thesis by (auto intro: keeps_intros)
  next
    case new
    define S' where "S' = S\<lparr>ss_conns := (ss_conns S)(d := ?c\<lparr>cn_in := cn_in ?c @ [PKT_INIT ?m]\<rparr>), ss_nalloced := ss_nalloced S + 1\<rparr>"
    have fresh: "?m \<notin> wk_pkts w" using io new(2) by (metis pool_ok_def)
    have a: "pk_addr ` set (all_pkts S') = insert ?m (pk_addr ` set (all_pkts S))"
      using less_2_cases' [OF d] by (auto simp: S'_def all_pkts_def PKT_INIT_def)
    have w': "wk_sessions w' = (wk_sessions w)(s \<mapsto> S')" using S by (simp add: new S'_def)
    have "keeps s w w'"
    proof (rule keepsI [OF S w'])
      assume p: "pkts_ok (wk_pkts w) S"
      have "pkts_ok (wk_pkts w') S'" using pkts_ok_fresh [OF p d fresh new(3)] by (simp add: new S'_def)
      then show "pkts_ok (wk_pkts w') S' \<and> wk_pkts w - pk_addr ` set (all_pkts S) \<subseteq> wk_pkts w' - pk_addr ` set (all_pkts S')"
        using fresh by (auto simp: a new)
    next
      assume r: "relayed (wk_rcvd w) (wk_sent w) s S"
      show "relayed (wk_rcvd w') (wk_sent w') s S'" using r d by (simp add: relayed_def new S'_def pend_fresh)
    qed (simp_all add: new upd_sess_def upd_conn_def tick_def)
    moreover have "slot_at w' s d (length (cn_in ?c)) 0" using w' by (simp add: slot_at_def S'_def PKT_INIT_def)
    ultimately show ?thesis using new(1) by auto
  qed
  then show "keeps s w w'" "sess_ok w s \<Longrightarrow> r = Some i \<Longrightarrow> slot_at w' s d i 0" by blast+
qed

lemma store_bytes_keeps:
  assumes at: "slot_at w s d i (length bs)" and d: "d < 2"
  shows "keeps s w (store_bytes s d i bs w)" "slot_at (store_bytes s d i bs w) s d i 0"
proof -
  obtain S qs q where S: "wk_sessions w s = Some S" and q: "cn_in (ss_conns S d) = qs @ [q]" and i: "i = length qs"
    and fits: "length (pk_data q) + length bs \<le> pk_max q" using at by (auto simp: slot_at_def)
  define S' where "S' = S\<lparr>ss_conns := (ss_conns S)(d := (ss_conns S d)\<lparr>cn_in := qs @ [q\<lparr>pk_data := pk_data q @ bs\<rparr>]\<rparr>)\<rparr>"
  define w' where "w' = store_bytes s d i bs w"
  have w': "wk_sessions w' = (wk_sessions w)(s \<mapsto> S')" using S q by (simp add: w'_def store_bytes_def S'_def i)
  have x: "wk_pkts w' = wk_pkts w" "wk_free w' = wk_free w" "wk_dying w' = wk_dying w" "wk_taskq w' = wk_taskq w" "wk_sent w' = wk_sent w" "wk_rcvd w' = (wk_rcvd w)((s, d) := wk_rcvd w (s, d) @ bs)"
    by (simp_all add: w'_def store_bytes_def Let_def upd_conn_def upd_sess_def)
  have a: "pk_addr ` set (all_pkts S') = pk_addr ` set (all_pkts S)"
    using less_2_cases' [OF d] q by (auto simp: S'_def all_pkts_def)
  have "keeps s w w'"
  proof (rule keepsI [OF S w'])
    assume p: "pkts_ok (wk_pkts w) S"
    show "pkts_ok (wk_pkts w') S' \<and> wk_pkts w - pk_addr ` set (all_pkts S) \<subseteq> wk_pkts w' - pk_addr ` set (all_pkts S')"
      using pkts_ok_grow [OF p d q fits] by (simp add: x a S'_def [symmetric])
  next
    assume p: "pkts_ok (wk_pkts w) S" and r: "relayed (wk_rcvd w) (wk_sent w) s S"
    show "relayed (wk_rcvd w') (wk_sent w') s S'" using relayed_grow [OF r p d q, of bs] by (simp add: x S'_def [symmetric])
  qed (simp_all add: x)
  then show "keeps s w (store_bytes s d i bs w)" by (simp add: w'_def)
  have "slot_at w' s d i 0" using w' fits i by (simp add: slot_at_def S'_def)
  then show "slot_at (store_bytes s d i bs w) s d i 0" by (simp add: w'_def)
qed

text \<open>The last packet of a queue goes back to the pool when it is empty.\<close>

lemma drop_in_keeps:
  assumes S: "wk_sessions w s = Some S" and q: "cn_in (ss_conns S d) = qs @ [q]" and e: "pk_data q = []" and d: "d < 2"
    and run: "put_pkt s q (upd_conn s d (\<lambda>c. c\<lparr>cn_in := take (length qs) (cn_in c) @ drop (Suc (length qs)) (cn_in c)\<rparr>) w) = Some w'"
  shows "keeps s w w'"
proof -
  define S' where "S' = S\<lparr>ss_conns := (ss_conns S)(d := (ss_conns S d)\<lparr>cn_in := qs\<rparr>), ss_nalloced := ss_nalloced S - 1\<rparr>"
  have w': "wk_sessions w' = (wk_sessions w)(s \<mapsto> S')" using S q run by (auto simp: put_pkt_def S'_def split: if_splits)
  have x: "wk_pkts w' = wk_pkts w - {pk_addr q}" "wk_free w' = wk_free w" "wk_dying w' = wk_dying w" "wk_taskq w' = wk_taskq w" "wk_sent w' = wk_sent w" "wk_rcvd w' = wk_rcvd w"
    using run by (auto simp: put_pkt_def upd_conn_def upd_sess_def split: if_splits)
  have a: "pk_addr ` set (all_pkts S') \<subseteq> pk_addr ` set (all_pkts S)" "pk_addr q \<in> pk_addr ` set (all_pkts S)"
    using less_2_cases' [OF d] q by (auto simp: S'_def all_pkts_def)
  show ?thesis
  proof (rule keepsI [OF S w'])
    assume p: "pkts_ok (wk_pkts w) S"
    show "pkts_ok (wk_pkts w') S' \<and> wk_pkts w - pk_addr ` set (all_pkts S) \<subseteq> wk_pkts w' - pk_addr ` set (all_pkts S')"
      using pkts_ok_drop_in(1) [OF p d q] a unfolding x S'_def [symmetric] by blast
  next
    assume p: "pkts_ok (wk_pkts w) S" and r: "relayed (wk_rcvd w) (wk_sent w) s S"
    show "relayed (wk_rcvd w') (wk_sent w') s S'" using relayed_drop_in [OF r d q e, of "ss_nalloced S - 1"] unfolding x S'_def [symmetric] by blast
  qed (simp_all add: x)
qed

lemma recv_close_keeps:
  assumes run: "recv_close fd s d i w = Some (r, w')" and at: "slot_at w s d i 0" and d: "d < 2"
  shows "keeps s w w'"
proof -
  obtain S qs q where S: "wk_sessions w s = Some S" and q: "cn_in (ss_conns S d) = qs @ [q]" and i: "i = length qs"
    using at by (auto simp: slot_at_def)
  define w1 where "w1 = upd_conn s d (set_flag CONN_F_SHUTRD) w"
  define w2 where "w2 = (if cn_ssl (ss_conns S d) \<noteq> NULL then upd_conn s d (set_flag CONN_F_SSLSHUT) w1 else w1)"
  define ev cb where "ev = (if cn_ssl (ss_conns S d) \<noteq> NULL then FD_OUT else 0)"
    and "cb = (if cn_ssl (ss_conns S d) \<noteq> NULL then CB_SHUTDOWN else NULL)"
  obtain S1 where S1: "wk_sessions w1 s = Some S1" "cn_in (ss_conns S1 d) = qs @ [q]" "cn_ssl (ss_conns S1 d) = cn_ssl (ss_conns S d)"
    using S q by (simp add: w1_def)
  have k2: "keeps s w w2" by (auto simp: w2_def w1_def intro!: keeps_intros)
  have S2: "\<exists>S2. wk_sessions w2 s = Some S2 \<and> cn_in (ss_conns S2 d) = qs @ [q]" using S1 by (auto simp: w2_def)
  have eq: "recv_close fd s d i w = do { (ret, w3) \<leftarrow> add_event fd ev cb w2;
      if ret \<noteq> 0 then Some (ret, w3)
      else if pk_data q = [] then do { w \<leftarrow> put_pkt s q
         (upd_conn s d (\<lambda>c. c\<lparr>cn_in := take (length qs) (cn_in c) @ drop (Suc (length qs)) (cn_in c)\<rparr>) w3); Some (0, w) }
      else Some (0, w3) }"
    using S1 by (simp add: recv_close_def w1_def [symmetric] w2_def ev_def cb_def Let_def i cong del: prod.case_cong_weak if_weak_cong)
  obtain w3 ret where w3: "add_event fd ev cb w2 = Some (ret, w3)"
    and w': "w' = w3 \<or> pk_data q = [] \<and> put_pkt s q
         (upd_conn s d (\<lambda>c. c\<lparr>cn_in := take (length qs) (cn_in c) @ drop (Suc (length qs)) (cn_in c)\<rparr>) w3) = Some w'"
    using run [unfolded eq] by (auto simp: bind_eq_Some_conv split: if_splits)
  have k: "keeps s w w3" using postD [OF add_event_keeps [OF k2] w3] by simp
  obtain S3 where S3: "wk_sessions w3 s = Some S3" "cn_in (ss_conns S3 d) = qs @ [q]"
    using postD [OF add_event_keeps [OF k2] w3] S2 by auto
  show ?thesis using w' k drop_in_keeps [OF S3 _ d] keeps_trans [OF k] by blast
qed

lemma raw_recv_len:
  "conn_raw_recv io t fd ssl len = (n, bs, closed, hs) \<Longrightarrow> length bs \<le> len \<and> (0 \<le> n \<longrightarrow> n = int (length bs))"
  by (auto simp: conn_raw_recv_def sk_recv_def ssl_recv_def split: if_splits sum.splits prod.splits)

lemma recv_read_keeps:
  assumes "keeps s w0 w" and "slot_at w s d i 0" and "d < 2"
  shows "post (\<lambda>(r, w'). keeps s w0 w') (if c then recv_close fd s d i w else Some (0, w))"
  using recv_close_keeps [OF _ assms(2,3)] keeps_trans [OF assms(1)] assms(1) by (auto simp: post_def)

lemma recv_hand_keeps:
  assumes "keeps s w0 w" and "slot_at w s d i 0"
  shows "post (\<lambda>(r, w'). keeps s w0 w' \<and> slot_at w' s d i 0)
    (if hs then add_event fd FD_OUT CB_HANDSHAKE (upd_conn s d (set_flag CONN_F_SSLHSK) w) else Some (0, w))"
proof -
  have "slot_at w' s d i 0" if "wk_sessions w' = wk_sessions (upd_conn s d (set_flag CONN_F_SSLHSK) w)" for w'
    using that assms(2) by (auto simp: slot_at_def)
  then show ?thesis using add_event_keeps [of s w0 "upd_conn s d (set_flag CONN_F_SSLHSK) w" fd FD_OUT CB_HANDSHAKE] assms
    by (auto simp: post_def keeps_intros)
qed

lemma recv_round_keeps:
  assumes ok: "sess_ok w s" and d: "d < 2" and io: "pool_ok io"
  shows "post (\<lambda>(r, w'). keeps s w w') (recv_round io fd ev s d w)"
proof (cases "recv_slot io s d w")
  case None
  then show ?thesis by (simp add: recv_round_def post_None)
next
  case (Some x)
  obtain slot w1 where s1: "recv_slot io s d w = Some (slot, w1)" using Some by (cases x) simp
  have k1: "keeps s w w1" by (rule recv_slot_keeps(1) [OF s1 d io])
  show ?thesis
  proof (cases slot)
    case None
    then show ?thesis using s1 k1 by (simp add: recv_round_def post_Some)
  next
    case (Some i)
    obtain S qs q where S: "wk_sessions w1 s = Some S" and q: "cn_in (ss_conns S d) = qs @ [q]" and i: "i = length qs"
      and fits: "length (pk_data q) \<le> pk_max q" using recv_slot_keeps(2) [OF s1 d io ok Some] by (auto simp: slot_at_def)
    obtain n bs closed hs where rr: "conn_raw_recv io (wk_tick w1) fd (cn_ssl (ss_conns S d)) (pk_max q - length (pk_data q)) = (n, bs, closed, hs)"
      by (cases "conn_raw_recv io (wk_tick w1) fd (cn_ssl (ss_conns S d)) (pk_max q - length (pk_data q))")
    define w2 where "w2 = store_bytes s d i bs (tick w1)"
    have at2: "slot_at (tick w1) s d i (length bs)" using S q i fits raw_recv_len [OF rr] by (auto simp: slot_at_def)
    have k2: "keeps s w w2" "slot_at w2 s d i 0"
      using store_bytes_keeps [OF at2 d] keeps_trans [OF keeps_fields(1) [OF k1]] by (auto simp: w2_def)
    have nth: "cn_in (ss_conns S d) ! i = q" by (simp add: q i)
    show ?thesis unfolding recv_round_def Let_def
      apply (simp add: s1 Some S nth rr w2_def [symmetric] cong del: if_weak_cong split del: if_split)
      by (rule post_Some post_if post_prod post_bind [OF recv_hand_keeps [OF k2]] post_bind [OF recv_read_keeps [OF _ _ d]] keeps_intros k1 | assumption | clarsimp)+
  qed
qed

lemma recv_loop_keeps:
  assumes "recv_loop io fd ev s d w = Some x" and "d < 2" and "pool_ok io" and "sess_ok w s"
  shows "keeps s w (snd x)"
proof -
  have "d < 2 \<longrightarrow> pool_ok io \<longrightarrow> sess_ok w s \<longrightarrow> keeps s w (snd x)"
  proof (rule recv_loop.raw_induct [where P = "\<lambda>io fd ev s d w x. d < 2 \<longrightarrow> pool_ok io \<longrightarrow> sess_ok w s \<longrightarrow> keeps s w (snd x)", OF _ assms(1)],
      intro impI)
    fix f io fd ev s d w x
    assume IH: "\<And>io fd ev s d w x. f io fd ev s d w = Some x \<Longrightarrow> d < 2 \<longrightarrow> pool_ok io \<longrightarrow> sess_ok w s \<longrightarrow> keeps s w (snd x)"
      and run: "recv_round io fd ev s d w \<bind> (\<lambda>(r, w). case r of None \<Rightarrow> Some (None, w)
        | Some (n, again) \<Rightarrow> if again then f io fd ev s d w else Some (Some n, w)) = Some x"
      and d: "d < 2" and io: "pool_ok io" and ok: "sess_ok w s"
    obtain r w1 where r: "recv_round io fd ev s d w = Some (r, w1)" using run by (auto simp: bind_eq_Some_conv)
    have k: "keeps s w w1" using postD [OF recv_round_keeps [OF ok d io] r] by simp
    then have "sess_ok w1 s" using ok by (simp add: keeps_def)
    then show "keeps s w (snd x)"
      using run r k d io keeps_trans [OF k] IH by (auto split: option.splits prod.splits if_splits)
  qed
  then show ?thesis using assms by blast
qed

lemma conn_recv_data_keeps:
  assumes "sess_ok w s" and "d < 2" and "pool_ok io"
  shows "post (\<lambda>(r, w'). keeps s w w') (conn_recv_data io fd ev s d w)"
proof -
  have l: "post (\<lambda>(x, w'). keeps s w w') (recv_loop io fd ev s d w)"
    using recv_loop_keeps [OF _ assms(2,3,1)] by (fastforce simp: post_def)
  have "keeps s w w" by simp
  then show ?thesis unfolding conn_recv_data_def using assms(2)
    by - (rule post_rules post_bind l post_intros keeps_intros | assumption | clarsimp)+
qed

subsection \<open>Sending\<close>

lemma raw_send_len: "conn_raw_send io t fd ssl bs = n \<Longrightarrow> 0 \<le> n \<Longrightarrow> nat n \<le> length bs"
  by (auto simp: conn_raw_send_def sk_send_def ssl_send_def split: if_splits sum.splits prod.splits)

lemma sent_bytes_keeps:
  assumes S: "wk_sessions w s = Some S" and q: "cn_out (ss_conns S d) = q # qs" and n: "n \<le> length (unsent q)" and d: "d < 2"
  shows "keeps s w (sent_bytes s d n w)"
    "\<exists>S'. wk_sessions (sent_bytes s d n w) s = Some S' \<and> cn_out (ss_conns S' d) = q\<lparr>pk_sendpos := pk_sendpos q + n\<rparr> # qs"
proof -
  define S' where "S' = S\<lparr>ss_conns := (ss_conns S)(d := (ss_conns S d)\<lparr>cn_out := q\<lparr>pk_sendpos := pk_sendpos q + n\<rparr> # qs\<rparr>)\<rparr>"
  define w' where "w' = sent_bytes s d n w"
  have w': "wk_sessions w' = (wk_sessions w)(s \<mapsto> S')" using S q by (simp add: w'_def sent_bytes_def S'_def Let_def)
  have x: "wk_pkts w' = wk_pkts w" "wk_free w' = wk_free w" "wk_dying w' = wk_dying w" "wk_taskq w' = wk_taskq w" "wk_rcvd w' = wk_rcvd w"
    "wk_sent w' = (wk_sent w)((s, d) := wk_sent w (s, d) @ take n (unsent q))"
    using S q by (simp_all add: w'_def sent_bytes_def Let_def upd_conn_def upd_sess_def unsent_def)
  have a: "pk_addr ` set (all_pkts S') = pk_addr ` set (all_pkts S)"
    using less_2_cases' [OF d] q by (auto simp: S'_def all_pkts_def)
  have "keeps s w w'"
  proof (rule keepsI [OF S w'])
    assume p: "pkts_ok (wk_pkts w) S"
    show "pkts_ok (wk_pkts w') S' \<and> wk_pkts w - pk_addr ` set (all_pkts S) \<subseteq> wk_pkts w' - pk_addr ` set (all_pkts S')"
      using pkts_ok_sent [OF p d q n] by (simp add: x a S'_def [symmetric])
  next
    assume p: "pkts_ok (wk_pkts w) S" and r: "relayed (wk_rcvd w) (wk_sent w) s S"
    show "relayed (wk_rcvd w') (wk_sent w') s S'" using relayed_sent [OF r d q, of n] by (simp add: x S'_def [symmetric])
  qed (simp_all add: x)
  then show "keeps s w (sent_bytes s d n w)" by (simp add: w'_def)
  show "\<exists>S'. wk_sessions (sent_bytes s d n w) s = Some S' \<and> cn_out (ss_conns S' d) = q\<lparr>pk_sendpos := pk_sendpos q + n\<rparr> # qs"
    using w' by (simp add: S'_def w'_def)
qed

lemma drop_out_keeps:
  assumes S: "wk_sessions w s = Some S" and q: "cn_out (ss_conns S d) = q # qs" and e: "unsent q = []" and d: "d < 2"
    and p: "pk_addr p = pk_addr q" and run: "put_pkt s p (upd_conn s d (\<lambda>c. c\<lparr>cn_out := tl (cn_out c)\<rparr>) w) = Some w'"
  shows "keeps s w w' \<and> (\<exists>S'. wk_sessions w' s = Some S' \<and> cn_out (ss_conns S' d) = qs)"
proof -
  define S' where "S' = S\<lparr>ss_conns := (ss_conns S)(d := (ss_conns S d)\<lparr>cn_out := qs\<rparr>), ss_nalloced := ss_nalloced S - 1\<rparr>"
  have w': "wk_sessions w' = (wk_sessions w)(s \<mapsto> S')" using S q run by (auto simp: put_pkt_def S'_def split: if_splits)
  have x: "wk_pkts w' = wk_pkts w - {pk_addr q}" "wk_free w' = wk_free w" "wk_dying w' = wk_dying w" "wk_taskq w' = wk_taskq w" "wk_sent w' = wk_sent w" "wk_rcvd w' = wk_rcvd w"
    using run p by (auto simp: put_pkt_def upd_conn_def upd_sess_def split: if_splits)
  have a: "pk_addr ` set (all_pkts S') \<subseteq> pk_addr ` set (all_pkts S)" "pk_addr q \<in> pk_addr ` set (all_pkts S)"
    using less_2_cases' [OF d] q by (auto simp: S'_def all_pkts_def)
  have "keeps s w w'"
  proof (rule keepsI [OF S w'])
    assume p: "pkts_ok (wk_pkts w) S"
    show "pkts_ok (wk_pkts w') S' \<and> wk_pkts w - pk_addr ` set (all_pkts S) \<subseteq> wk_pkts w' - pk_addr ` set (all_pkts S')"
      using pkts_ok_drop_out(1) [OF p d q] a unfolding x S'_def [symmetric] by blast
  next
    assume p: "pkts_ok (wk_pkts w) S" and r: "relayed (wk_rcvd w) (wk_sent w) s S"
    show "relayed (wk_rcvd w') (wk_sent w') s S'" using relayed_drop_out [OF r d q e, of "ss_nalloced S - 1"] unfolding x S'_def [symmetric] by blast
  qed (simp_all add: x)
  then show ?thesis using w' by (simp add: S'_def)
qed

lemma send_blocked_keeps [post_intros]: "keeps s w0 w \<Longrightarrow> post (\<lambda>(r, w'). keeps s w0 w') (send_blocked fd s d w)"
  unfolding send_blocked_def by (rule post_rules post_bind post_intros keeps_intros | assumption | clarsimp)+

lemma send_loop_keeps:
  assumes "keeps s w0 w" and "d < 2" and "\<exists>S. wk_sessions w s = Some S \<and> cn_out (ss_conns S d) = ps"
  shows "post (\<lambda>(r, w'). keeps s w0 w') (send_loop io fd s d ps w)"
  using assms(1,3)
proof (induction ps arbitrary: w)
  case Nil
  then show ?case by (simp add: post_Some)
next
  case (Cons p ps)
  obtain S where S: "wk_sessions w s = Some S" and q: "cn_out (ss_conns S d) = p # ps" using Cons.prems by blast
  define n where "n = conn_raw_send io (wk_tick w) fd (cn_ssl (ss_conns S d)) (unsent p)"
  define w1 where "w1 = sent_bytes s d (nat n) (tick w)"
  show ?case
  proof (cases "n < 0")
    case True
    then show ?thesis using Cons.prems(1) S by (auto simp: n_def unsent_def post_def intro!: keeps_intros)
  next
    case False
    have le: "nat n \<le> length (unsent p)" using raw_send_len [of io "wk_tick w" fd "cn_ssl (ss_conns S d)" "unsent p" n] False by (simp add: n_def)
    have k1: "keeps s w0 w1"
      using keeps_trans [OF keeps_fields(1) [OF Cons.prems(1)]] sent_bytes_keeps(1) [of "tick w" s S d p ps, OF _ q le assms(2)] S
      by (simp add: w1_def)
    obtain S1 where S1: "wk_sessions w1 s = Some S1" "cn_out (ss_conns S1 d) = p\<lparr>pk_sendpos := pk_sendpos p + nat n\<rparr> # ps"
      using sent_bytes_keeps(2) [of "tick w" s S d p ps, OF _ q le assms(2)] S by (auto simp: w1_def)
    have eq: "send_loop io fd s d (p # ps) w = (if n \<noteq> int (length (unsent p)) then send_blocked fd s d w1
      else do { w \<leftarrow> put_pkt s p (upd_conn s d (\<lambda>c. c\<lparr>cn_out := tl (cn_out c)\<rparr>) w1); send_loop io fd s d ps w })"
      using S False by (simp add: n_def w1_def unsent_def Let_def)
    show ?thesis
    proof (cases "n = int (length (unsent p))")
      case True
      have e: "unsent (p\<lparr>pk_sendpos := pk_sendpos p + nat n\<rparr>) = []" using True by (simp add: unsent_def)
      show ?thesis unfolding eq
        using True drop_out_keeps [OF S1 e assms(2)] keeps_trans [OF k1] Cons.IH
        by (auto intro!: post_bind [OF post_True])
    next
      case False
      then show ?thesis unfolding eq using send_blocked_keeps [OF k1] by simp
    qed
  qed
qed

lemma send_unblock_keeps [post_intros]: "keeps s w0 w \<Longrightarrow> post (\<lambda>(r, w'). keeps s w0 w') (send_unblock fd s d w)"
  unfolding send_unblock_def by (rule post_rules post_bind post_intros keeps_intros | assumption | clarsimp)+

lemma send_close_keeps [post_intros]: "keeps s w0 w \<Longrightarrow> post (\<lambda>(r, w'). keeps s w0 w') (send_close fd s d w)"
  unfolding send_close_def
  by (rule post_rules post_bind post_weaken [OF add_event_keeps] keeps_intros fe_item_post | assumption | clarsimp)+

lemma send_fail_keeps [post_intros]: "keeps s w0 w \<Longrightarrow> d < 2 \<Longrightarrow> post (\<lambda>(r, w'). keeps s w0 w') (send_fail ev s d w)"
  unfolding send_fail_def by (rule post_rules post_bind post_intros keeps_intros | assumption | clarsimp)+

lemma conn_send_data_keeps [post_intros]:
  assumes "keeps s w0 w" and "d < 2"
  shows "post (\<lambda>(r, w'). keeps s w0 w') (conn_send_data io fd ev s d w)"
proof (cases "wk_sessions w s")
  case None
  then show ?thesis using assms(1) by (simp add: conn_send_data_def post_def)
next
  case (Some S)
  have l: "post (\<lambda>(r, w'). keeps s w0 w') (send_loop io fd s d (cn_out (ss_conns S d)) w)"
    using send_loop_keeps [OF assms] Some by blast
  have c [post_intros]: "post (\<lambda>(r, w'). keeps s w0 w') (case r of SendErr \<Rightarrow> a | SendRet \<Rightarrow> b | SendAll \<Rightarrow> c)"
    if "post (\<lambda>(r, w'). keeps s w0 w') a" "post (\<lambda>(r, w'). keeps s w0 w') b" "post (\<lambda>(r, w'). keeps s w0 w') c"
    for r and a b c :: "(int \<times> worker) option" using that by (cases r) simp_all
  show ?thesis unfolding conn_send_data_def Some Option.bind.simps using assms
    by - (rule post_rules post_bind l c post_intros keeps_intros | assumption | clarsimp)+
qed

subsection \<open>Handshake and shutdown\<close>

lemma handshake_tcp_keeps [post_intros]: "keeps s w0 w \<Longrightarrow> post (\<lambda>(r, w'). keeps s w0 w') (handshake_tcp io s d w)"
  unfolding handshake_tcp_def by (rule conjI impI post_rules post_bind post_intros keeps_intros | assumption | clarsimp)+

lemma wait_event_keeps [post_intros]:
  "keeps s w0 w \<Longrightarrow> post (\<lambda>(r, w'). keeps s w0 w') (if b then add_event fd ev cb w else Some (0, w))"
  using add_event_keeps [of s w0 w fd ev cb] by (auto simp: post_def)

lemma handshake_ssl_keeps [post_intros]: "keeps s w0 w \<Longrightarrow> post (\<lambda>(r, b, w'). keeps s w0 w') (handshake_ssl io fd ev s d w)"
  unfolding handshake_ssl_def
  by (rule post_bind_Some post_Some post_None post_bind [OF wait_event_keeps] post_if post_Let post_prod post_bind post_intros keeps_intros | assumption | clarsimp)+

lemma conn_handshake_keeps [post_intros]: "keeps s w0 w \<Longrightarrow> d < 2 \<Longrightarrow> post (\<lambda>(r, w'). keeps s w0 w') (conn_handshake io fd ev s d w)"
  unfolding conn_handshake_def by (rule post_rules post_bind post_intros keeps_intros | assumption | clarsimp)+

lemma shutdown_ssl_keeps [post_intros]: "keeps s w0 w \<Longrightarrow> post (\<lambda>(r, b, w'). keeps s w0 w') (shutdown_ssl io fd ev s d w)"
  unfolding shutdown_ssl_def
  by (rule post_bind_Some post_Some post_None post_bind [OF wait_event_keeps] post_if post_Let post_prod post_bind post_intros keeps_intros | assumption | clarsimp)+

lemma conn_shutdown_keeps [post_intros]: "keeps s w0 w \<Longrightarrow> d < 2 \<Longrightarrow> post (\<lambda>(r, w'). keeps s w0 w') (conn_shutdown io fd ev s d w)"
  unfolding conn_shutdown_def by (rule post_rules post_bind post_intros keeps_intros | assumption | clarsimp)+

subsection \<open>Freeing\<close>

text \<open>Operations on policies and server pools do not touch the state of the worker.\<close>

definition aside :: "worker \<Rightarrow> worker \<Rightarrow> bool" where
  "aside w w' \<longleftrightarrow> pl_heap.more w' = pl_heap.more w"

named_theorems aside_intros

lemma aside_refl: "aside w w"
  by (simp add: aside_def)

lemma aside_fields [aside_intros]:
  assumes "aside w0 w"
  shows "aside w0 (w\<lparr>servers := x1\<rparr>)" "aside w0 (w\<lparr>svrdatas := x2\<rparr>)" "aside w0 (w\<lparr>svrpools := x3\<rparr>)" "aside w0 (w\<lparr>spdatas := x4\<rparr>)"
    "aside w0 (w\<lparr>listeners := x5\<rparr>)" "aside w0 (w\<lparr>ltndatas := x6\<rparr>)" "aside w0 (w\<lparr>policies := x7\<rparr>)" "aside w0 (w\<lparr>ctxs := x8\<rparr>)"
  using assms by (simp_all add: aside_def)

lemma heap_post [post_intros]: "post (\<lambda>_. True) (servers w a)" "post (\<lambda>_. True) (svrdatas w a)" "post (\<lambda>_. True) (svrpools w a)"
    "post (\<lambda>_. True) (spdatas w a)" "post (\<lambda>_. True) (listeners w a)" "post (\<lambda>_. True) (ltndatas w a)" "post (\<lambda>_. True) (policies w a)"
    "post (\<lambda>_. True) (lfds w a)" "post (\<lambda>_. True) (tp_scan w x l)"
  by (rule post_True)+

lemma server_free_aside [aside_intros]: "aside w0 w \<Longrightarrow> post (\<lambda>(r, w'). aside w0 w') (server_free a w)"
  unfolding server_free_def by (rule post_rules post_bind heap_post aside_intros | assumption | clarsimp)+

lemma server_free_data_aside [aside_intros]: "aside w0 w \<Longrightarrow> post (\<lambda>(r, w'). aside w0 w') (server_free_data a w)"
  unfolding server_free_data_def by (rule post_rules post_bind heap_post aside_intros | assumption | clarsimp)+

lemma free_data_checked_aside [aside_intros]: "aside w0 w \<Longrightarrow> post (\<lambda>(r, w'). aside w0 w') (free_data_checked a w)"
  unfolding free_data_checked_def by (rule post_rules post_bind heap_post aside_intros | assumption | clarsimp)+

lemma server_clone_data_aside [aside_intros]: "aside w0 w \<Longrightarrow> post (\<lambda>(r, w'). aside w0 w') (server_clone_data a w)"
  unfolding server_clone_data_def by (rule post_rules post_bind heap_post aside_intros | assumption | clarsimp)+

lemma free_each_aside:
  assumes "\<And>a w. aside w0 w \<Longrightarrow> post (\<lambda>(r, w'). aside w0 w') (f a w)" and "aside w0 w"
  shows "post (aside w0) (free_each f as w)"
  using assms(2)
proof (induction as arbitrary: w)
  case (Cons a as)
  show ?case using assms(1) [OF Cons.prems, of a] Cons.IH by (auto simp: post_def split: option.splits)
qed (simp add: post_def)

lemma svrpool_free_aside [aside_intros]: "aside w0 w \<Longrightarrow> post (\<lambda>(r, w'). aside w0 w') (svrpool_free a w)"
  unfolding svrpool_free_def
  by (rule post_rules post_bind heap_post free_each_aside [OF server_free_aside] aside_intros | assumption | clarsimp)+

lemma svrpool_free_data_aside [aside_intros]: "aside w0 w \<Longrightarrow> post (\<lambda>(r, w'). aside w0 w') (svrpool_free_data a w)"
  unfolding svrpool_free_data_def
  by (rule post_rules post_bind heap_post free_each_aside [OF free_data_checked_aside] aside_intros | assumption | clarsimp)+

lemma listener_free_aside [aside_intros]: "aside w0 w \<Longrightarrow> post (\<lambda>(r, w'). aside w0 w') (listener_free a w)"
  unfolding listener_free_def by (rule post_rules post_bind heap_post aside_intros | assumption | clarsimp)+

lemma ssl_ctx_free_aside [aside_intros]: "aside w0 w \<Longrightarrow> post (aside w0) (ssl_ctx_free a w)"
  unfolding ssl_ctx_free_def by (rule post_rules aside_intros | assumption)+

lemma listener_free_data_aside [aside_intros]: "aside w0 w \<Longrightarrow> post (\<lambda>(r, w'). aside w0 w') (listener_free_data a w)"
proof -
  have "post (aside w0) (if b then ssl_ctx_free c w else Some w)" if "aside w0 w" for b c w
    using ssl_ctx_free_aside [OF that] that by (auto simp: post_def)
  then show "aside w0 w \<Longrightarrow> ?thesis"
    unfolding listener_free_data_def by - (rule post_bind_Some post_Some post_None post_if post_bind heap_post aside_intros | assumption | clarsimp)+
qed

text \<open>A part that is freed when there is one.\<close>

lemma free_part_aside [aside_intros]:
  assumes "post (\<lambda>(r, w'). aside w0 w') m" and "aside w0 w" and "\<And>r w'. aside w0 w' \<Longrightarrow> aside w0 (g r w')"
  shows "post (aside w0) (if b then m \<bind> (\<lambda>(r, w'). Some (g r w')) else Some w)"
  using assms by (auto simp: post_def bind_eq_Some_conv)

lemma policy_free_data_aside [aside_intros]: "aside w0 w \<Longrightarrow> post (\<lambda>(r, w'). aside w0 w') (policy_free_data a w)"
  unfolding policy_free_data_def
  by (rule aside_intros post_Some post_None post_if post_Let post_prod post_bind heap_post | assumption | clarsimp)+

lemma policy_free_aside [aside_intros]: "aside w0 w \<Longrightarrow> post (\<lambda>(r, w'). aside w0 w') (policy_free a w)"
  unfolding policy_free_def
  by (rule aside_intros post_Some post_None post_if post_Let post_prod post_bind heap_post | assumption | clarsimp)+

lemma policy_clone_aside [aside_intros]: "aside w0 w \<Longrightarrow> post (\<lambda>(r, w'). aside w0 w') (policy_clone a w)"
  "aside w0 w \<Longrightarrow> post (\<lambda>(r, w'). aside w0 w') (policy_clone_spdata a w)" "aside w0 w \<Longrightarrow> post (\<lambda>(r, w'). aside w0 w') (policy_clone_ltndata a w)"
  unfolding policy_clone_def policy_clone_spdata_def policy_clone_ltndata_def svrpool_clone_data_def listener_clone_data_def
  by (rule post_rules post_bind heap_post aside_intros | assumption | clarsimp)+

lemma svrpool_get_aside [aside_intros]: "aside w0 w \<Longrightarrow> post (\<lambda>(r, w'). aside w0 w') (svrpool_get_rp_server a w)"
  "aside w0 w \<Longrightarrow> post (\<lambda>(r, w'). aside w0 w') (svrpool_get_tp_server a b w)"
  unfolding svrpool_get_rp_server_def svrpool_get_tp_server_def
  by (rule post_rules post_bind heap_post aside_intros | assumption | clarsimp)+

lemma keeps_aside:
  assumes "aside w w'" and "keeps s w0 w"
  shows "keeps s w0 w' \<and> wk_sessions w' = wk_sessions w"
proof -
  have e: "wk_sessions w' = wk_sessions w" using assms(1) by (cases w; cases w') (auto simp: aside_def)
  moreover have "keeps s w w'" using assms(1) by (cases w; cases w') (auto simp: aside_def intro: keeps_same)
  ultimately show ?thesis using assms(2) keeps_trans by blast
qed

lemma keeps_by_aside:
  assumes "post (\<lambda>(r, w'). aside w w') m" and "keeps s w0 w"
  shows "post (\<lambda>(r, w'). keeps s w0 w' \<and> wk_sessions w' = wk_sessions w) m"
  using assms(1) keeps_aside [OF _ assms(2)] by (auto simp: post_def)

lemmas aside_keeps [post_intros] = keeps_by_aside [OF policy_free_aside [OF aside_refl]] keeps_by_aside [OF policy_clone_aside(1) [OF aside_refl]]
  keeps_by_aside [OF policy_clone_aside(2) [OF aside_refl]] keeps_by_aside [OF policy_clone_aside(3) [OF aside_refl]] keeps_by_aside [OF svrpool_get_aside(1) [OF aside_refl]]
  keeps_by_aside [OF svrpool_get_aside(2) [OF aside_refl]] keeps_by_aside [OF svrpool_free_data_aside [OF aside_refl]] keeps_by_aside [OF server_free_data_aside [OF aside_refl]]
  keeps_by_aside [OF listener_free_data_aside [OF aside_refl]]

text \<open>A whole queue goes back to the pool.\<close>

lemma put_pkts_effect:
  assumes "put_pkts s ps w = Some w'" and "wk_sessions w s = Some S"
  shows "wk_sessions w' = (wk_sessions w)(s \<mapsto> S\<lparr>ss_nalloced := ss_nalloced S - int (length ps)\<rparr>) \<and> wk_pkts w' = wk_pkts w - pk_addr ` set ps \<and>
    wk_rcvd w' = wk_rcvd w \<and> wk_sent w' = wk_sent w \<and> wk_free w' = wk_free w \<and> wk_dying w' = wk_dying w \<and> wk_taskq w' = wk_taskq w"
  using assms
proof (induction ps arbitrary: w S)
  case Nil
  then show ?case by (auto simp: fun_eq_iff)
next
  case (Cons p ps)
  define w1 where "w1 = upd_sess s (\<lambda>S. S\<lparr>ss_nalloced := ss_nalloced S - 1\<rparr>) (w\<lparr>wk_pkts := wk_pkts w - {pk_addr p}\<rparr>)"
  have "put_pkts s ps w1 = Some w'" using Cons.prems(1) by (auto simp: put_pkt_def w1_def bind_eq_Some_conv split: if_splits)
  moreover have "wk_sessions w1 s = Some (S\<lparr>ss_nalloced := ss_nalloced S - 1\<rparr>)" using Cons.prems(2) by (simp add: w1_def)
  ultimately have "wk_sessions w' = (wk_sessions w1)(s \<mapsto> S\<lparr>ss_nalloced := ss_nalloced S - 1 - int (length ps)\<rparr>) \<and> wk_pkts w' = wk_pkts w1 - pk_addr ` set ps \<and>
    wk_rcvd w' = wk_rcvd w1 \<and> wk_sent w' = wk_sent w1 \<and> wk_free w' = wk_free w1 \<and> wk_dying w' = wk_dying w1 \<and> wk_taskq w' = wk_taskq w1"
    using Cons.IH [of w1 "S\<lparr>ss_nalloced := ss_nalloced S - 1\<rparr>"] by (simp add: fun_upd_def)
  then show ?case by (auto simp: w1_def upd_sess_def algebra_simps)
qed

lemma owns_drop: "owns live n (ps @ qs) \<Longrightarrow> owns (live - pk_addr ` set ps) (n - int (length ps)) qs"
  by (auto simp: owns_def image_iff)

text \<open>A queue is dropped in a session that is being deleted.\<close>

lemma drop_queue_keeps:
  assumes run: "put_pkts s ps w = Some w1" and S: "wk_sessions w s = Some S" and dy: "s \<in> wk_dying w"
    and w': "wk_sessions w' = (wk_sessions w)(s \<mapsto> S')" "wk_pkts w' = wk_pkts w1" "wk_rcvd w' = wk_rcvd w" "wk_sent w' = wk_sent w"
      "wk_free w' = wk_free w" "wk_dying w' = wk_dying w" "wk_taskq w' = wk_taskq w"
    and m: "mset (all_pkts S) = mset (ps @ all_pkts S')" and n: "ss_nalloced S' = ss_nalloced S - int (length ps)"
    and i: "\<forall>d<2. in_ok (cn_in (ss_conns S d)) \<longrightarrow> in_ok (cn_in (ss_conns S' d))"
  shows "keeps s w w'"
proof -
  have live: "wk_pkts w' = wk_pkts w - pk_addr ` set ps" using put_pkts_effect [OF run S] w' by simp
  have set: "set (all_pkts S) = set ps \<union> set (all_pkts S')" using arg_cong [OF m, of set_mset] by simp
  have "pkts_ok (wk_pkts w') S'" if p: "pkts_ok (wk_pkts w) S"
  proof -
    have "owns (wk_pkts w) (ss_nalloced S) (ps @ all_pkts S')" by (rule owns_perm [OF m [symmetric]]) (use p in \<open>simp add: pkts_ok_def\<close>)
    then show ?thesis using owns_drop i p by (auto simp: pkts_ok_def live n)
  qed
  then show ?thesis using S w' dy set unfolding keeps_def sess_ok_def others_def addrs_def idle_ok_def live by auto
qed

lemma keeps_dying: "keeps s w (w\<lparr>wk_dying := insert s (wk_dying w)\<rparr>)"
  by (auto simp: keeps_def sess_ok_def others_def addrs_def idle_ok_def)

lemma conn_free_queues:
  assumes S: "wk_sessions w s = Some S" and d: "d < 2" and dy: "s \<in> wk_dying w" and run1: "put_pkts s (cn_in (ss_conns S d)) w = Some w1"
    and run2: "put_pkts s (cn_out (ss_conns S d)) (upd_conn s d (\<lambda>c. c\<lparr>cn_in := []\<rparr>) w1) = Some w3"
  shows "keeps s w (upd_conn s d (\<lambda>c. c\<lparr>cn_out := []\<rparr>) w3) \<and>
    (\<exists>S'. wk_sessions (upd_conn s d (\<lambda>c. c\<lparr>cn_out := []\<rparr>) w3) s = Some S' \<and> cn_in (ss_conns S' d) = [] \<and> cn_out (ss_conns S' d) = [])"
proof -
  let ?c = "ss_conns S d"
  define w2 where "w2 = upd_conn s d (\<lambda>c. c\<lparr>cn_in := []\<rparr>) w1"
  define S2 where "S2 = S\<lparr>ss_nalloced := ss_nalloced S - int (length (cn_in ?c)), ss_conns := (ss_conns S)(d := ?c\<lparr>cn_in := []\<rparr>)\<rparr>"
  note e1 = put_pkts_effect [OF run1 S]
  have w2: "wk_sessions w2 = (wk_sessions w)(s \<mapsto> S2)" using e1 by (simp add: w2_def S2_def)
  have k1: "keeps s w w2"
  proof (rule drop_queue_keeps [OF run1 S dy w2])
    show "mset (all_pkts S) = mset (cn_in ?c @ all_pkts S2)" using less_2_cases' [OF d] by (auto simp: S2_def all_pkts_def)
    show "\<forall>e<2. in_ok (cn_in (ss_conns S e)) \<longrightarrow> in_ok (cn_in (ss_conns S2 e))" by (simp add: S2_def in_ok_def)
  qed (use e1 in \<open>auto simp: w2_def S2_def upd_conn_def upd_sess_def\<close>)
  have S2: "wk_sessions w2 s = Some S2" using w2 by simp
  define w4 where "w4 = upd_conn s d (\<lambda>c. c\<lparr>cn_out := []\<rparr>) w3"
  define S4 where "S4 = S2\<lparr>ss_nalloced := ss_nalloced S2 - int (length (cn_out ?c)), ss_conns := (ss_conns S2)(d := (ss_conns S2 d)\<lparr>cn_out := []\<rparr>)\<rparr>"
  note run2' = run2 [folded w2_def]
  note e2 = put_pkts_effect [OF run2' S2]
  have w4: "wk_sessions w4 = (wk_sessions w2)(s \<mapsto> S4)" using e2 by (simp add: w4_def S4_def)
  have dy2: "s \<in> wk_dying w2" using e1 dy by (simp add: w2_def upd_conn_def upd_sess_def)
  have "keeps s w2 w4"
  proof (rule drop_queue_keeps [OF run2' S2 dy2 w4])
    show "mset (all_pkts S2) = mset (cn_out ?c @ all_pkts S4)" using less_2_cases' [OF d] by (auto simp: S2_def S4_def all_pkts_def)
    show "\<forall>e<2. in_ok (cn_in (ss_conns S2 e)) \<longrightarrow> in_ok (cn_in (ss_conns S4 e))" by (simp add: S4_def)
  qed (use e2 in \<open>auto simp: w4_def S4_def upd_conn_def upd_sess_def\<close>)
  then show ?thesis using keeps_trans [OF k1] w4 unfolding w4_def [symmetric] by (simp add: S4_def S2_def)
qed

lemma close_fd_keeps:
  "keeps s w0 w \<Longrightarrow> post (keeps s w0) (if 0 < fd then do { _ \<leftarrow> fe_item fd w; let w = fe_put fd new_item w;
     Some (upd_conn s d (\<lambda>c. c\<lparr>cn_fd := - 1\<rparr>) (w\<lparr>wk_open := wk_open w - {fd}\<rparr>)) } else Some w)"
  by (rule post_rules post_bind [OF post_True] keeps_intros | assumption)+

lemma conn_free_keeps [post_intros]:
  assumes k: "keeps s w0 w" and d: "d < 2"
  shows "post (keeps s w0) (conn_free s d w)"
proof (cases "wk_sessions w s")
  case None
  then show ?thesis by (simp add: conn_free_def post_def)
next
  case (Some S)
  let ?w = "w\<lparr>wk_dying := insert s (wk_dying w)\<rparr>"
  have k': "keeps s w0 ?w" using k keeps_dying keeps_trans by blast
  have q: "keeps s w0 (upd_conn s d (\<lambda>c. c\<lparr>cn_out := []\<rparr>) w3)" if "put_pkts s (cn_in (ss_conns S d)) ?w = Some w1"
      "put_pkts s (cn_out (ss_conns S d)) (upd_conn s d (\<lambda>c. c\<lparr>cn_in := []\<rparr>) w1) = Some w3" for w1 w3
    using conn_free_queues [OF _ d _ that] Some keeps_trans [OF k'] by simp
  show ?thesis unfolding conn_free_def Some Option.bind.simps
    by (rule post_bind [OF close_fd_keeps] post_rules post_bind [OF post_True] keeps_intros q | assumption | clarsimp)+
qed

lemma remove_session_keeps:
  assumes "keeps s w0 w" and S: "wk_sessions w s = Some S" and n: "ss_nalloced S = 0"
  shows "keeps s w0 (w\<lparr>wk_sessions := (wk_sessions w)(s := None), wk_free := (wk_free w)(s := S)\<rparr>)" (is "keeps s w0 ?w")
proof -
  have "all_pkts S = []" if "sess_ok w s" using that S n by (simp add: sess_ok_def pkts_ok_def owns_def)
  then have "keeps s w ?w" using S n by (auto simp: keeps_def sess_ok_def others_def addrs_def idle_ok_def)
  then show ?thesis using assms(1) keeps_trans by blast
qed

lemma remove_session_post:
  assumes "keeps s w0 w" and "wk_sessions w = W" and "W s = Some S" and "ss_nalloced S = 0"
  shows "post (\<lambda>(r, w'). keeps s w0 w') (do { S \<leftarrow> wk_sessions w s;
    Some (0, w\<lparr>wk_sessions := (wk_sessions w)(s := None), wk_free := (wk_free w)(s := S)\<rparr>) })"
  using remove_session_keeps [OF assms(1), of S] assms(2-4) by (auto simp: post_def)

lemma free_data_keeps:
  "keeps s w0 w \<Longrightarrow> post (\<lambda>w'. keeps s w0 w' \<and> wk_sessions w' = wk_sessions w)
     (if b then do { (r, w) \<leftarrow> server_free_data a w; Some w } else Some w)"
  using keeps_by_aside [OF server_free_data_aside [OF aside_refl, of w a], of s w0] by (auto simp: post_def bind_eq_Some_conv)

lemma session_end_keeps:
  assumes k: "keeps s w0 w"
  shows "post (\<lambda>(r, w'). keeps s w0 w') (do {
     S \<leftarrow> wk_sessions w s;
     if ss_nalloced S \<noteq> 0 then None
     else do {
       (r, w) \<leftarrow> policy_free (ss_policy S) w;
       let w = w\<lparr>lfds := (\<lambda>a. map_option (\<lambda>l. l\<lparr>lf_ssnlist := removeAll s (lf_ssnlist l)\<rparr>) (lfds w a))\<rparr>;
       w \<leftarrow> (if ss_svrdata S \<noteq> NULL then do { (r, w) \<leftarrow> server_free_data (ss_svrdata S) w; Some w } else Some w);
       S \<leftarrow> wk_sessions w s;
       Some (0, w\<lparr>wk_sessions := (wk_sessions w)(s := None), wk_free := (wk_free w)(s := S)\<rparr>) } })"
proof (rule post_bind [OF post_True], rule post_if, rule post_None)
  fix S assume S: "wk_sessions w s = Some S" and n: "\<not> ss_nalloced S \<noteq> 0"
  note pf = keeps_by_aside [OF policy_free_aside [OF aside_refl, of w "ss_policy S"] k]
  show "post (\<lambda>(r, w'). keeps s w0 w') (do {
       (r, w) \<leftarrow> policy_free (ss_policy S) w;
       let w = w\<lparr>lfds := (\<lambda>a. map_option (\<lambda>l. l\<lparr>lf_ssnlist := removeAll s (lf_ssnlist l)\<rparr>) (lfds w a))\<rparr>;
       w \<leftarrow> (if ss_svrdata S \<noteq> NULL then do { (r, w) \<leftarrow> server_free_data (ss_svrdata S) w; Some w } else Some w);
       S \<leftarrow> wk_sessions w s;
       Some (0, w\<lparr>wk_sessions := (wk_sessions w)(s := None), wk_free := (wk_free w)(s := S)\<rparr>) })"
    using S n by - (rule post_bind [OF pf] post_prod post_Let post_bind [OF free_data_keeps] remove_session_post [where W = "wk_sessions w"] keeps_intros
      | assumption | clarsimp)+
qed

lemma session_free_keeps [post_intros]:
  assumes "keeps s w0 w" and "d < 2"
  shows "post (\<lambda>(r, w'). keeps s w0 w') (session_free s d w)"
  unfolding session_free_def using assms
  by - (rule session_end_keeps post_Some post_None post_if post_bind [OF conn_free_keeps] post_bind [OF post_True] keeps_intros peer_of_less
    | assumption | clarsimp)+

subsection \<open>Parsing and forwarding\<close>

text \<open>Packets move from queue to queue.\<close>

lemma move_keeps:
  assumes S: "wk_sessions w s = Some S" and w': "wk_sessions w' = (wk_sessions w)(s \<mapsto> S')" "wk_pkts w' = wk_pkts w" "wk_rcvd w' = wk_rcvd w"
      "wk_sent w' = wk_sent w" "wk_free w' = wk_free w" "wk_dying w' = wk_dying w" "wk_taskq w' = wk_taskq w"
    and m: "mset (all_pkts S') = mset (all_pkts S)" and n: "ss_nalloced S' = ss_nalloced S"
    and i: "\<And>e. e < 2 \<Longrightarrow> in_ok (cn_in (ss_conns S e)) \<Longrightarrow> in_ok (cn_in (ss_conns S' e))"
    and p: "\<And>e. e < 2 \<Longrightarrow> pend S' e = pend S e"
  shows "keeps s w w'"
proof (rule keepsI [OF S w'(1)])
  assume "pkts_ok (wk_pkts w) S"
  then have "pkts_ok (wk_pkts w') S'" using owns_perm [OF m] i n w' by (simp add: pkts_ok_def)
  moreover have "set (all_pkts S') = set (all_pkts S)" using m by (rule mset_eq_setD)
  ultimately show "pkts_ok (wk_pkts w') S' \<and> wk_pkts w - pk_addr ` set (all_pkts S) \<subseteq> wk_pkts w' - pk_addr ` set (all_pkts S')"
    using w' by simp
next
  assume "relayed (wk_rcvd w) (wk_sent w) s S"
  then show "relayed (wk_rcvd w') (wk_sent w') s S'" using p w' by (simp add: relayed_def)
qed (simp_all add: w')

lemma session_fparse_keeps [post_intros]:
  assumes k: "keeps s w0 w" and d: "d < 2"
  shows "post (\<lambda>(r, w'). keeps s w0 w') (session_fparse s d w)"
proof (rule postI, clarify)
  fix r w' assume run: "session_fparse s d w = Some (r, w')"
  show "keeps s w0 w'"
  proof (cases "s = NULL")
    case True
    then show ?thesis using run k by (simp add: session_fparse_def)
  next
    case False
    obtain S where S: "wk_sessions w s = Some S" using run False by (auto simp: session_fparse_def bind_eq_Some_conv)
    define S1 where "S1 = (if d \<noteq> 0 then S\<lparr>ss_response := ss_response S @ cn_in (ss_conns S d)\<rparr>
      else S\<lparr>ss_request := ss_request S @ cn_in (ss_conns S d)\<rparr>)"
    define S' where "S' = S1\<lparr>ss_conns := (ss_conns S1)(d := (ss_conns S1 d)\<lparr>cn_in := []\<rparr>)\<rparr>"
    have w': "w' = upd_conn s d (\<lambda>c. c\<lparr>cn_in := []\<rparr>) (upd_sess s (\<lambda>T. if d \<noteq> 0
      then T\<lparr>ss_response := ss_response T @ cn_in (ss_conns S d)\<rparr> else T\<lparr>ss_request := ss_request T @ cn_in (ss_conns S d)\<rparr>) w)"
      using run False S by (auto simp: session_fparse_def Let_def split: if_splits)
    have "keeps s w w'"
    proof (rule move_keeps [OF S, of w' S'])
      show "wk_sessions w' = (wk_sessions w)(s \<mapsto> S')" using S by (simp add: w' S'_def S1_def)
      show "mset (all_pkts S') = mset (all_pkts S)" using less_2_cases' [OF d] by (auto simp: S'_def S1_def all_pkts_def)
      show "pend S' e = pend S e" if "e < 2" for e
        using less_2_cases' [OF d] that by (auto simp: S'_def S1_def pend_def less_2_cases_iff)
      show "in_ok (cn_in (ss_conns S' e))" if "e < 2" "in_ok (cn_in (ss_conns S e))" for e
        using that by (auto simp: S'_def S1_def in_ok_def)
    qed (auto simp: w' upd_conn_def upd_sess_def S'_def S1_def)
    then show ?thesis using k keeps_trans by blast
  qed
qed

lemma session_join_keeps [keeps_intros]:
  assumes k: "keeps s w0 w" and d: "d < 2"
  shows "keeps s w0 (session_join s d w)"
proof (cases "wk_sessions w s")
  case None
  then have "session_join s d w = w" by (simp add: session_join_def upd_sess_def fun_upd_idem)
  then show ?thesis using k by simp
next
  case (Some S)
  define S' where "S' = (if d \<noteq> 0 then S\<lparr>ss_conns := (ss_conns S)(d := (ss_conns S d)\<lparr>cn_out := cn_out (ss_conns S d) @ ss_request S\<rparr>), ss_request := []\<rparr>
     else S\<lparr>ss_conns := (ss_conns S)(d := (ss_conns S d)\<lparr>cn_out := cn_out (ss_conns S d) @ ss_response S\<rparr>), ss_response := []\<rparr>)"
  have "keeps s w (session_join s d w)"
  proof (rule move_keeps [OF Some, of _ S'])
    show "wk_sessions (session_join s d w) = (wk_sessions w)(s \<mapsto> S')" using Some by (simp add: session_join_def S'_def)
    show "mset (all_pkts S') = mset (all_pkts S)" using less_2_cases' [OF d] by (auto simp: S'_def all_pkts_def)
    show "pend S' e = pend S e" if "e < 2" for e
      using less_2_cases' [OF d] that by (auto simp: S'_def pend_def less_2_cases_iff)
    show "in_ok (cn_in (ss_conns S' e))" if "e < 2" "in_ok (cn_in (ss_conns S e))" for e
      using that by (auto simp: S'_def)
  qed (auto simp: session_join_def upd_sess_def S'_def)
  then show ?thesis using k keeps_trans by blast
qed

lemma session_choose_keeps [post_intros]: "keeps s w0 w \<Longrightarrow> post (\<lambda>(r, w'). keeps s w0 w') (session_choose sp s d pl w)"
proof -
  assume k: "keeps s w0 w"
  have rp: "post (\<lambda>(r, w'). keeps s w0 w') (svrpool_get_rp_server sp w)" "post (\<lambda>(r, w'). keeps s w0 w') (svrpool_get_tp_server sp x w)"
    if "keeps s w0 w" for x w
    using keeps_by_aside [OF svrpool_get_aside(1) [OF aside_refl] that] keeps_by_aside [OF svrpool_get_aside(2) [OF aside_refl] that]
    by (auto intro: post_weaken)
  show ?thesis unfolding session_choose_def
    by (rule post_rules post_bind rp post_intros keeps_intros k | assumption | clarsimp)+
qed

lemma session_get_server_keeps [post_intros]: "keeps s w0 w \<Longrightarrow> post (\<lambda>(r, w'). keeps s w0 w') (session_get_server io s d w)"
  unfolding session_get_server_def
  by (rule post_rules post_bind post_intros keeps_intros | assumption | clarsimp)+

lemma session_connect_keeps: "keeps s w0 w \<Longrightarrow> session_connect io s d pl w = (fd, wt, w') \<Longrightarrow> keeps s w0 w'"
  by (auto simp: session_connect_def Let_def split: if_splits prod.splits intro!: keeps_intros)

lemma session_register_keeps [post_intros]: "keeps s w0 w \<Longrightarrow> post (\<lambda>(r, w'). keeps s w0 w') (session_register io fd wt s d w)"
  unfolding session_register_def
  by (rule post_rules post_bind post_intros keeps_intros | assumption | clarsimp split del: if_split)+

lemma session_forward_keeps [post_intros]:
  "keeps s w0 w \<Longrightarrow> d < 2 \<Longrightarrow> post (\<lambda>(r, w'). keeps s w0 w') (session_forward io s d w)"
  unfolding session_forward_def
  by (rule post_rules post_bind post_intros keeps_intros | assumption | erule session_connect_keeps [rotated] | clarsimp)+

subsection \<open>Tasks\<close>

lemma post_task:
  "(t = TASK_NONE \<Longrightarrow> post Q a) \<Longrightarrow> (t = TASK_PARSE \<Longrightarrow> post Q b) \<Longrightarrow> (t = TASK_SEND \<Longrightarrow> post Q c) \<Longrightarrow> (t = TASK_DELETE \<Longrightarrow> post Q e) \<Longrightarrow>
     post Q (case t of TASK_NONE \<Rightarrow> a | TASK_PARSE \<Rightarrow> b | TASK_SEND \<Rightarrow> c | TASK_DELETE \<Rightarrow> e)"
  by (cases t) simp_all

lemma free_on_error_keeps:
  assumes "keeps s w0 w" and "d < 2"
  shows "post (keeps s w0) (if b then do { (r, w) \<leftarrow> session_free s d w; Some w } else Some w)"
  using session_free_keeps [OF assms] assms(1) by (auto simp: post_def bind_eq_Some_conv)

lemma session_run_task_keeps [post_intros]:
  assumes "keeps s w0 w" and "d < 2"
  shows "post (\<lambda>(r, w'). keeps s w0 w') (session_run_task io s d w)"
  unfolding session_run_task_def using assms
  by - (rule post_task post_bind [OF free_on_error_keeps] post_bind [OF session_free_keeps] post_bind [OF session_fparse_keeps]
      post_bind [OF session_forward_keeps] post_bind [OF conn_send_data_keeps] post_bind [OF post_True]
      post_Some post_None post_if post_prod peer_of_less | assumption | clarsimp)+

subsection \<open>All sessions of a worker\<close>

text \<open>Every session satisfies its invariant, no packet belongs to two sessions, and idle session objects count no packets.\<close>

definition worker_ok :: "worker \<Rightarrow> bool" where
  "worker_ok w \<longleftrightarrow> (\<forall>s. sess_ok w s) \<and> (\<forall>s t. s \<noteq> t \<longrightarrow> addrs s w \<inter> addrs t w = {}) \<and> idle_ok w"

lemma worker_ok_sess: "worker_ok w \<Longrightarrow> sess_ok w s"
  by (simp add: worker_ok_def)

lemma worker_ok_keeps:
  assumes ok: "worker_ok w" and k: "keeps s w w'"
  shows "worker_ok w'"
proof -
  have live: "addrs t w \<subseteq> wk_pkts w" for t
    using ok by (auto simp: worker_ok_def sess_ok_def addrs_def pkts_ok_def owns_def split: option.splits)
  have o: "others s w \<subseteq> others s w'" and s: "sess_ok w' s" and idle: "idle_ok w'"
    using k ok by (simp_all add: keeps_def worker_ok_def)
  have same: "wk_sessions w' t = wk_sessions w t" "t \<in> wk_dying w' \<longleftrightarrow> t \<in> wk_dying w" "wk_rcvd w' (t, d) = wk_rcvd w (t, d)"
    "wk_sent w' (t, d) = wk_sent w (t, d)" if "t \<noteq> s" for t d using k that by (simp_all add: keeps_def)
  have eq: "addrs t w' = addrs t w" if "t \<noteq> s" for t using same(1) [OF that] by (simp add: addrs_def)
  have sub: "addrs t w \<subseteq> others s w'" if "t \<noteq> s" for t
    using o ok live [of t] that by (fastforce simp: others_def worker_ok_def)
  have "sess_ok w' t" if "t \<noteq> s" for t
    using worker_ok_sess [OF ok, of t] same [OF that] sub [OF that]
    by (fastforce simp: sess_ok_def addrs_def others_def pkts_ok_def owns_def relayed_def)
  moreover have "addrs t w' \<inter> addrs u w' = {}" if "t \<noteq> u" for t u
    using that ok eq sub [of t] sub [of u] by (cases "t = s"; cases "u = s") (auto simp: others_def worker_ok_def)
  ultimately show ?thesis using s idle by (metis worker_ok_def)
qed

lemma worker_ok_post:
  assumes "worker_ok w" and "keeps s w w \<Longrightarrow> post (\<lambda>(r, w'). keeps s w w') m"
  shows "post (\<lambda>(r, w'). worker_ok w') m"
  using assms worker_ok_keeps [OF assms(1)] by (auto simp: post_def)

end
