(* ===== verification/Worker.thy ===== *)
theory Worker
  imports Session_Correct
begin

text \<open>
  Worker threads, \<^verbatim>\<open>network/proxy/tproxy/worker.c\<close>: commands from the main thread add and remove policies, the event
  layer calls the connections and listeners back, and the tasks they leave behind are run.  The loop of a
  worker is a step relation; its invariant is that of all its sessions.
\<close>

subsection \<open>Commands\<close>

text \<open>\<open>m\<close> is what \<^verbatim>\<open>calloc\<close> returns for the listening descriptor, \<open>srv\<close> the server socket; \<open>wi\<close> and \<open>ti\<close> are worker and thread.\<close>

definition worker_add_policy ::
  "addr \<Rightarrow> (ip_port \<Rightarrow> int \<Rightarrow> int \<Rightarrow> int) \<Rightarrow> addr \<Rightarrow> addr \<Rightarrow> addr \<Rightarrow> worker \<Rightarrow> (int \<times> worker) option" where
  "worker_add_policy m srv wi ti pl w = do {
     p \<leftarrow> policies w pl;
     if pl_listener p = NULL then None
     else do {
       (l, w) \<leftarrow> listener_alloc_fd m srv (pl_listener p) (pl_mode p) w;
       if l = NULL then Some (- 1, w)
       else do {
         lf \<leftarrow> lfds w l;
         let w = w\<lparr>lfds := (lfds w)(l \<mapsto> lf\<lparr>lf_worker := wi, lf_thread := ti, lf_policy := pl\<rparr>), wk_open := insert (lf_fd lf) (wk_open w)\<rparr>;
         _ \<leftarrow> fe_item (lf_fd lf) w;
         let w = fe_put (lf_fd lf) (new_item\<lparr>fdstate := FD_READY, arg := l\<rparr>) w;
         (ret, w) \<leftarrow> add_event (lf_fd lf) FD_IN CB_ACCEPT w;
         if ret \<noteq> 0 then do { (r, w) \<leftarrow> listener_free_fd l w; Some (- 1, w) }
         else Some (0, w\<lparr>wk_lfdlist := wk_lfdlist w @ [l]\<rparr>) } } }"

fun find_lfd :: "worker \<Rightarrow> addr \<Rightarrow> addr list \<Rightarrow> addr option option" where
  "find_lfd w pl [] = Some None"
| "find_lfd w pl (l # ls) = do { lf \<leftarrow> lfds w l; if lf_policy lf = pl then Some (Some l) else find_lfd w pl ls }"

definition worker_del_policy :: "addr \<Rightarrow> worker \<Rightarrow> (int \<times> worker) option" where
  "worker_del_policy pl w = do {
     r \<leftarrow> find_lfd w pl (wk_lfdlist w);
     let w = (case r of None \<Rightarrow> w | Some l \<Rightarrow> w\<lparr>wk_lfdlist := remove1 l (wk_lfdlist w)\<rparr>);
     (x, w) \<leftarrow> policy_free pl w;
     case r of None \<Rightarrow> Some (- 1, w)
     | Some l \<Rightarrow> do { (y, w) \<leftarrow> listener_free_fd l w; Some (0, w) } }"

text \<open>An unknown command is read after it was freed.\<close>

definition worker_run_cmd ::
  "addr \<Rightarrow> (ip_port \<Rightarrow> int \<Rightarrow> int \<Rightarrow> int) \<Rightarrow> addr \<Rightarrow> addr \<Rightarrow> worker_cmd \<times> addr \<Rightarrow> worker \<Rightarrow> (int \<times> worker) option" where
  "worker_run_cmd m srv wi ti c w = (case c of
     (WORKER_CMD_ADD_POLICY, pl) \<Rightarrow> do { (r, w) \<leftarrow> worker_add_policy m srv wi ti pl w; Some (0, w) }
   | (WORKER_CMD_DEL_POLICY, pl) \<Rightarrow> do { (r, w) \<leftarrow> worker_del_policy pl w; Some (0, w) }
   | (WORKER_CMD_MAX, pl) \<Rightarrow> None)"

fun run_cmds ::
  "(nat \<Rightarrow> addr) \<Rightarrow> (ip_port \<Rightarrow> int \<Rightarrow> int \<Rightarrow> int) \<Rightarrow> addr \<Rightarrow> addr \<Rightarrow> (worker_cmd \<times> addr) list \<Rightarrow> worker \<Rightarrow> worker option" where
  "run_cmds ms srv wi ti [] w = Some w"
| "run_cmds ms srv wi ti (c # cs) w = do {
     (r, w) \<leftarrow> worker_run_cmd (ms (length cs)) srv wi ti c w;
     run_cmds ms srv wi ti cs w }"

definition worker_get_cmd ::
  "(nat \<Rightarrow> addr) \<Rightarrow> (ip_port \<Rightarrow> int \<Rightarrow> int \<Rightarrow> int) \<Rightarrow> addr \<Rightarrow> addr \<Rightarrow> worker \<Rightarrow> worker option" where
  "worker_get_cmd ms srv wi ti w =
    (if wk_ncmd w > 0 then run_cmds ms srv wi ti (wk_cmds w) (w\<lparr>wk_cmds := [], wk_ncmd := 0\<rparr>) else Some w)"

definition worker_add_cmd :: "worker_cmd \<times> addr \<Rightarrow> worker \<Rightarrow> int \<times> worker" where
  "worker_add_cmd c w = (0, w\<lparr>wk_cmds := wk_cmds w @ [c], wk_ncmd := wk_ncmd w + 1\<rparr>)"

text \<open>The listeners of a worker that stops.\<close>

fun free_lfds :: "addr list \<Rightarrow> worker \<Rightarrow> worker option" where
  "free_lfds [] w = Some w"
| "free_lfds (l # ls) w = do { (r, w) \<leftarrow> listener_free_fd l (w\<lparr>wk_lfdlist := remove1 l (wk_lfdlist w)\<rparr>); free_lfds ls w }"

text \<open>The pools of packets and sessions are freed with what is still in use.\<close>

definition worker_free :: "worker \<Rightarrow> worker option" where
  "worker_free w = do {
     w \<leftarrow> free_lfds (wk_lfdlist w) w;
     let w = task_free_queue (w\<lparr>wk_pkts := {}\<rparr>);
     Some (w\<lparr>wk_sessions := (\<lambda>_. None)\<rparr>) }"

text \<open>The event layer, seen from the worker.\<close>

definition worker_flush :: "(int \<Rightarrow> bool) \<Rightarrow> worker \<Rightarrow> worker option" where
  "worker_flush ok w = (case fd_epoll_flush_events ok (Some (wk_fe w)) of
     Some (r, Some fe) \<Rightarrow> Some (w\<lparr>wk_fe := fe\<rparr>) | _ \<Rightarrow> None)"

text \<open>A ready descriptor whose item has this callback and argument.\<close>

definition called :: "worker \<Rightarrow> int \<Rightarrow> u32 \<Rightarrow> addr \<Rightarrow> addr \<Rightarrow> bool" where
  "called w fd ev cb a \<longleftrightarrow> ev \<noteq> 0 \<and> (case fe_item fd w of None \<Rightarrow> False
     | Some fi \<Rightarrow> fdstate fi = FD_READY \<and> iocb fi = cb \<and> arg fi = a \<and> a \<noteq> NULL)"

subsection \<open>The loop\<close>

text \<open>
  One step of the loop: a command arrives, the commands are run, the changes of the event layer are flushed, one
  callback of \<^verbatim>\<open>fd_epoll_poll\<close>, the task queue, the end.  A fault has no step.
\<close>

inductive worker_step :: "worker \<Rightarrow> worker \<Rightarrow> bool" where
  add_cmd: "worker_step w (snd (worker_add_cmd c w))"
| get_cmd: "worker_get_cmd ms srv wi ti w = Some w' \<Longrightarrow> worker_step w w'"
| flush: "worker_flush ok w = Some w' \<Longrightarrow> worker_step w w'"
| accept: "pool_ok io \<Longrightarrow> called w fd ev CB_ACCEPT l \<Longrightarrow> listener_accept io fd ev l w = Some (r, w') \<Longrightarrow> worker_step w w'"
| recv: "pool_ok io \<Longrightarrow> d < 2 \<Longrightarrow> called w fd ev CB_RECV (conn_addr s d) \<Longrightarrow> conn_recv_data io fd ev s d w = Some (r, w') \<Longrightarrow> worker_step w w'"
| send: "d < 2 \<Longrightarrow> called w fd ev CB_SEND (conn_addr s d) \<Longrightarrow> conn_send_data io fd ev s d w = Some (r, w') \<Longrightarrow> worker_step w w'"
| handshake: "d < 2 \<Longrightarrow> called w fd ev CB_HANDSHAKE (conn_addr s d) \<Longrightarrow> conn_handshake io fd ev s d w = Some (r, w') \<Longrightarrow> worker_step w w'"
| shutdown: "d < 2 \<Longrightarrow> called w fd ev CB_SHUTDOWN (conn_addr s d) \<Longrightarrow> conn_shutdown io fd ev s d w = Some (r, w') \<Longrightarrow> worker_step w w'"
| tasks: "task_run_queue io w = Some w' \<Longrightarrow> worker_step w w'"
| stop: "worker_free w = Some w' \<Longrightarrow> worker_step w w'"

inductive_cases worker_stepE: "worker_step w w'"

text \<open>A worker that has just been set up.\<close>

definition worker_init :: "worker \<Rightarrow> bool" where
  "worker_init w \<longleftrightarrow> wk_sessions w = (\<lambda>_. None) \<and> wk_pkts w = {} \<and> wk_taskq w = [] \<and> (\<forall>t. ss_nalloced (wk_free w t) = 0)"

subsection \<open>The invariant of the loop\<close>

text \<open>Changes outside the sessions.\<close>

definition harmless :: "worker \<Rightarrow> worker \<Rightarrow> bool" where
  "harmless w w' \<longleftrightarrow> wk_sessions w' = wk_sessions w \<and> wk_pkts w' = wk_pkts w \<and> wk_rcvd w' = wk_rcvd w \<and> wk_sent w' = wk_sent w \<and>
     wk_free w' = wk_free w \<and> wk_dying w' = wk_dying w \<and> wk_taskq w' = wk_taskq w"

lemma worker_ok_harmless: "worker_ok w \<Longrightarrow> harmless w w' \<Longrightarrow> worker_ok w'"
  using worker_ok_keeps [of w 0 w'] keeps_same [of w' w 0] by (simp add: harmless_def)

lemma worker_ok_aside: "worker_ok w \<Longrightarrow> aside w w' \<Longrightarrow> worker_ok w'"
  using worker_ok_keeps [of w 0 w'] keeps_aside [of w w' 0 w] by simp

lemma aside_ok:
  assumes "worker_ok w" and "post (\<lambda>(r, w'). aside w w') m"
  shows "post (\<lambda>(r, w'). worker_ok w') m"
  using assms worker_ok_aside by (auto simp: post_def)

named_theorems ok_intros

lemma ok_fields [ok_intros]:
  assumes "worker_ok w"
  shows "worker_ok (tick w)" "worker_ok (w\<lparr>wk_open := A\<rparr>)" "worker_ok (w\<lparr>wk_ssls := B\<rparr>)" "worker_ok (w\<lparr>lfds := L\<rparr>)"
    "worker_ok (w\<lparr>lfds := L, wk_open := A\<rparr>)" "worker_ok (fe_put fd fi w)" "worker_ok (w\<lparr>wk_lfdlist := ls\<rparr>)" "worker_ok (w\<lparr>wk_cmds := cs, wk_ncmd := n\<rparr>)"
    "worker_ok (w\<lparr>wk_fe := fe\<rparr>)"
  by (rule worker_ok_harmless [OF assms]; simp add: harmless_def tick_def fe_put_def)+

lemma add_event_ok_post [ok_intros]: "worker_ok w \<Longrightarrow> post (\<lambda>(r, w'). worker_ok w') (add_event fd ev cb w)"
  by (auto simp: add_event_def post_def split: option.splits intro: ok_intros)

lemma listener_alloc_fd_ok [ok_intros]: "worker_ok w \<Longrightarrow> post (\<lambda>(r, w'). worker_ok w') (listener_alloc_fd m srv a mode w)"
  by (auto simp: listener_alloc_fd_def post_def bind_eq_Some_conv Let_def split: if_splits intro: ok_intros)

lemmas aside_ok_intros [ok_intros] = aside_ok [OF _ policy_free_aside [OF aside_refl]] aside_ok [OF _ policy_clone_aside(1) [OF aside_refl]]
  aside_ok [OF _ policy_clone_aside(3) [OF aside_refl]] aside_ok [OF _ listener_free_data_aside [OF aside_refl]]

lemma session_free_ok [ok_intros]: "worker_ok w \<Longrightarrow> d < 2 \<Longrightarrow> post (\<lambda>(r, w'). worker_ok w') (session_free s d w)"
  by (rule worker_ok_post) (auto intro: session_free_keeps)

lemma session_run_task_ok: "worker_ok w \<Longrightarrow> d < 2 \<Longrightarrow> post (\<lambda>(r, w'). worker_ok w') (session_run_task io s d w)"
  by (rule worker_ok_post) (auto intro: session_run_task_keeps)

lemma task_del_ok: "worker_ok w \<Longrightarrow> worker_ok (task_del_queue t w)"
  using worker_ok_keeps [of w 0] keeps_fields(7) [of 0 w w t] by simp

lemma task_run_loop_ok:
  assumes run: "task_run_loop io e b w = Some w'" and "worker_ok w" and "\<forall>t. e = Some t \<or> b = Some t \<longrightarrow> snd t < 2"
  shows "worker_ok w'"
proof -
  let ?P = "\<lambda>io e b w w'. worker_ok w \<longrightarrow> (\<forall>t. e = Some t \<or> b = Some t \<longrightarrow> snd t < 2) \<longrightarrow> worker_ok w'"
  have "?P io e b w w'"
  proof (rule task_run_loop.raw_induct [where P = ?P, OF _ run], intro impI)
    fix f io e b w w'
    assume IH: "\<And>io e b w w'. f io e b w = Some w' \<Longrightarrow> ?P io e b w w'"
      and step: "(case e of None \<Rightarrow> Some w | Some (s, d) \<Rightarrow> session_run_task io s d (task_del_queue (s, d) w) \<bind>
        (\<lambda>(r, w). case b of None \<Rightarrow> Some w | Some t \<Rightarrow> if t \<in> set (wk_taskq w) then f io b (ring_next t (wk_taskq w)) w else None)) = Some w'"
      and ok: "worker_ok w" and small: "\<forall>t. e = Some t \<or> b = Some t \<longrightarrow> snd t < 2"
    show "worker_ok w'"
    proof (cases e)
      case None
      then show ?thesis using step ok by simp
    next
      case (Some t)
      obtain s d where t: "t = (s, d)" by (cases t)
      obtain r w1 where r: "session_run_task io s d (task_del_queue (s, d) w) = Some (r, w1)"
        using step Some t by (auto simp: bind_eq_Some_conv)
      have ok1: "worker_ok w1"
        using postD [OF session_run_task_ok [OF task_del_ok [OF ok]] r] small Some t by auto
      have n: "snd u < 2" if "ring_next x (wk_taskq w1) = Some u" for x u
      proof -
        have "ring_next x q = Some u \<Longrightarrow> u \<in> set q" for q :: "(addr \<times> nat) list"
          by (induction x q rule: ring_next.induct) (auto split: if_splits list.splits)
        then show ?thesis using that ok1 by (auto simp: worker_ok_def idle_ok_def)
      qed
      show ?thesis
      proof (cases b)
        case None
        then show ?thesis using step Some t r ok1 by simp
      next
        case (Some u)
        have "f io b (ring_next u (wk_taskq w1)) w1 = Some w'" using step \<open>e = Some t\<close> Some t r by (simp split: if_splits)
        then show ?thesis using IH ok1 small Some n by blast
      qed
    qed
  qed
  then show ?thesis using assms by blast
qed

lemma task_run_queue_ok: "worker_ok w \<Longrightarrow> task_run_queue io w = Some w' \<Longrightarrow> worker_ok w'"
proof -
  assume ok: "worker_ok w" and run: "task_run_queue io w = Some w'"
  show "worker_ok w'"
  proof (cases "wk_taskq w")
    case Nil
    then show ?thesis using run ok by (simp add: task_run_queue_def)
  next
    case (Cons t ts)
    have "snd t < 2" "ring_next t (wk_taskq w) = Some u \<Longrightarrow> snd u < 2" for u
      using ok Cons by (auto simp: worker_ok_def idle_ok_def split: list.splits)
    moreover have "task_run_loop io (Some t) (ring_next t (wk_taskq w)) w = Some w'" using run Cons by (simp add: task_run_queue_def)
    ultimately show ?thesis using task_run_loop_ok [OF _ ok] by blast
  qed
qed

text \<open>A session between its allocation and its start: it has no packets yet, so it can go back to its pool.\<close>

definition born :: "addr \<Rightarrow> worker \<Rightarrow> worker \<Rightarrow> bool" where
  "born s w0 w \<longleftrightarrow> keeps s w0 w \<and> (\<exists>S. wk_sessions w s = Some S \<and> ss_nalloced S = 0)"

named_theorems born_intros

lemma born_fields [born_intros]:
  assumes "born s w0 w"
  shows "born s w0 (tick w)" "born s w0 (w\<lparr>wk_open := A\<rparr>)" "born s w0 (w\<lparr>wk_ssls := B\<rparr>)" "born s w0 (w\<lparr>lfds := L\<rparr>)"
    "born s w0 (fe_put fd fi w)" "born s w0 (upd_conn s d (\<lambda>c. c\<lparr>cn_fd := f, cn_ssl := x, cn_peer := a\<rparr>) w)"
    "born s w0 (upd_conn s d (\<lambda>c. set_flag g (c\<lparr>cn_local := a\<rparr>)) w)"
    "born s w0 (upd_sess s (\<lambda>S. S\<lparr>ss_worker := x1, ss_thread := x2, ss_policy := x3\<rparr>) w)"
  using assms by (auto simp: born_def fe_put_def intro!: keeps_intros)

lemma born_add_event [born_intros]: "born s w0 w \<Longrightarrow> post (\<lambda>(r, w'). born s w0 w') (add_event fd ev cb w)"
  using add_event_keeps [of s w0 w fd ev cb] by (auto simp: born_def post_def)

lemma born_policy_clone [born_intros]: "born s w0 w \<Longrightarrow> post (\<lambda>(r, w'). born s w0 w') (policy_clone a w)"
  using keeps_by_aside [OF policy_clone_aside(1) [OF aside_refl, of w a], of s w0] by (auto simp: born_def post_def)

lemma born_ltn_ssl: "born s w0 w \<Longrightarrow> ltn_ssl io ld w = (x, ok, w') \<Longrightarrow> born s w0 w'"
  by (auto simp: ltn_ssl_def Let_def split: if_splits intro!: born_intros)

lemma born_ltn_local: "born s w0 w \<Longrightarrow> ltn_local io m a w = (x, w') \<Longrightarrow> born s w0 w'"
  by (auto simp: ltn_local_def split: if_splits intro!: born_intros)

lemma born_keeps: "born s w0 w \<Longrightarrow> keeps s w0 w"
  by (simp add: born_def)

lemma ltn_fail_keeps: "born s w0 w \<Longrightarrow> post (\<lambda>(r, w'). keeps s w0 w') (ltn_fail s x fd w)"
proof -
  assume b: "born s w0 w"
  then obtain S where S: "keeps s w0 w" "wk_sessions w s = Some S" "ss_nalloced S = 0" by (auto simp: born_def)
  show ?thesis using remove_session_keeps [OF S] S(1,2)
    by (auto simp: ltn_fail_def post_def Let_def bind_eq_Some_conv intro!: keeps_intros split: if_splits)
qed

lemma new_session_born:
  assumes idle: "idle_ok w" and none: "wk_sessions w s = None"
    and W: "w' = w\<lparr>wk_sessions := (wk_sessions w)(s \<mapsto> (session_init (wk_free w s))\<lparr>ss_sid := x\<rparr>), wk_next_sid := y,
      wk_rcvd := (\<lambda>(t, d). if t = s then [] else wk_rcvd w (t, d)), wk_sent := (\<lambda>(t, d). if t = s then [] else wk_sent w (t, d)),
      wk_dying := wk_dying w - {s}\<rparr>"
  shows "born s w w'"
proof -
  have n: "ss_nalloced (wk_free w s) = 0" using idle by (simp add: idle_ok_def)
  have a: "all_pkts ((session_init (wk_free w s))\<lparr>ss_sid := x\<rparr>) = []" by (simp add: all_pkts_def session_init_def conn_init_def)
  have p: "pend ((session_init (wk_free w s))\<lparr>ss_sid := x\<rparr>) d = []" for d by (simp add: pend_def session_init_def conn_init_def)
  have "sess_ok w' s" using n a p by (simp add: W sess_ok_def pkts_ok_def owns_def in_ok_def relayed_def session_init_def conn_init_def)
  moreover have "others s w \<subseteq> others s w'" using none a by (simp add: others_def addrs_def W)
  ultimately have "keeps s w w'" using idle by (auto simp: keeps_def W idle_ok_def)
  then show ?thesis using n by (simp add: born_def W session_init_def)
qed

lemma ltn_session_keeps:
  assumes b: "born s w0 w"
  shows "post (\<lambda>(r, w'). keeps s w0 w') (ltn_session io l lf ltd clifd cli svr s w)"
  unfolding ltn_session_def using b
  by - (rule ltn_fail_keeps post_bind_Some post_Some post_if post_Let post_option post_prod post_bind [OF born_add_event] post_bind [OF born_policy_clone] post_bind [OF post_True]
      born_keeps born_intros | assumption | erule born_ltn_ssl [rotated] | erule born_ltn_local [rotated] | clarsimp split del: if_split)+

lemma ltn_accept_ok [ok_intros]:
  assumes ok: "worker_ok w" and io: "pool_ok io"
  shows "post (\<lambda>(r, w'). worker_ok w') (ltn_accept io fd l ltd w)"
proof -
  define w1 where "w1 = (\<lambda>clifd. tick ((tick w)\<lparr>wk_open := insert clifd (wk_open w)\<rparr>))"
  have ok1: "worker_ok (w1 x)" for x using ok by (auto simp: w1_def intro: ok_intros)
  have sess: "post (\<lambda>(r, w'). worker_ok w') (ltn_session io l lf ltd clifd cli svr s w2)"
    if s: "s \<notin> dom (wk_sessions (w1 clifd))" and w2: "w2 = (w1 clifd)\<lparr>wk_sessions := (wk_sessions (w1 clifd))(s \<mapsto> (session_init (wk_free (w1 clifd) s))\<lparr>ss_sid := x\<rparr>), wk_next_sid := y,
      wk_rcvd := (\<lambda>(t, d). if t = s then [] else wk_rcvd (w1 clifd) (t, d)), wk_sent := (\<lambda>(t, d). if t = s then [] else wk_sent (w1 clifd) (t, d)),
      wk_dying := wk_dying (w1 clifd) - {s}\<rparr>" for s lf clifd cli svr x y w2
  proof -
    have "born s (w1 clifd) w2" using ok1 [of clifd] s new_session_born [OF _ _ w2] by (auto simp: worker_ok_def)
    then show ?thesis using ltn_session_keeps worker_ok_post [OF ok1 [of clifd]] by blast
  qed
  have fresh: "s \<notin> dom (wk_sessions (w1 clifd))" if "s = io_ssn io t (\<lambda>a. wk_sessions w a \<noteq> None)" "s \<noteq> NULL" for s t clifd
  proof -
    have "wk_sessions w s = None" using io that by (metis (mono_tags, lifting) pool_ok_def)
    then show ?thesis by (simp add: w1_def domIff)
  qed
  have bad: "post (\<lambda>(r, w'). worker_ok w') (ltn_fail NULL NULL clifd (w1 clifd))" for clifd
    using ok1 by (auto simp: ltn_fail_def post_def intro: ok_intros)
  show ?thesis
  proof (cases "fd < 1 \<or> l = NULL \<or> lfds w l = None \<or> (\<exists>e. io_accept io (wk_tick w) = Inr e)")
    case True
    then show ?thesis using ok by (auto simp: ltn_accept_def post_def bind_eq_Some_conv intro: ok_intros split: if_splits)
  next
    case False
    then obtain lf clifd cli svr where lf: "lfds w l = Some lf" "io_accept io (wk_tick w) = Inl (clifd, cli, svr)"
      by (cases "io_accept io (wk_tick w)") auto
    define s where "s = io_ssn io (Suc (wk_tick w)) (\<lambda>a. wk_sessions w a \<noteq> None)"
    define w2 where "w2 = (w1 clifd)\<lparr>wk_sessions := (wk_sessions (w1 clifd))(s \<mapsto> (session_init (wk_free (w1 clifd) s))\<lparr>ss_sid := wk_next_sid (w1 clifd)\<rparr>),
      wk_next_sid := wk_next_sid (w1 clifd) + 1,
      wk_rcvd := (\<lambda>(t, d). if t = s then [] else wk_rcvd (w1 clifd) (t, d)), wk_sent := (\<lambda>(t, d). if t = s then [] else wk_sent (w1 clifd) (t, d)),
      wk_dying := wk_dying (w1 clifd) - {s}\<rparr>"
    have "ltn_accept io fd l ltd w = (if s = NULL then ltn_fail NULL NULL clifd (w1 clifd) else ltn_session io l lf ltd clifd cli svr s w2)"
      using False lf by (simp add: ltn_accept_def Let_def w2_def w1_def s_def cong del: prod.case_cong_weak if_weak_cong)
    then show ?thesis using bad sess [OF fresh [OF s_def] w2_def] by simp
  qed
qed

lemma accept_loop_ok [ok_intros]:
  "worker_ok w \<Longrightarrow> pool_ok io \<Longrightarrow> post (\<lambda>(r, w'). worker_ok w') (accept_loop io fd l ltd n w)"
proof (induction n arbitrary: w)
  case (Suc n)
  show ?case using postD [OF ltn_accept_ok [OF Suc.prems]] Suc.IH Suc.prems(2)
    by (fastforce simp: post_def bind_eq_Some_conv split: if_splits)
qed (simp add: post_Some)

lemma listener_accept_ok: "worker_ok w \<Longrightarrow> pool_ok io \<Longrightarrow> post (\<lambda>(r, w'). worker_ok w') (listener_accept io fd ev l w)"
  unfolding listener_accept_def by (rule post_rules post_bind [OF aside_ok_intros(3)] post_bind [OF accept_loop_ok] post_bind [OF aside_ok_intros(4)]
    post_bind [OF post_True] | assumption | clarsimp)+

lemma free_sessions_ok [ok_intros]: "worker_ok w \<Longrightarrow> post worker_ok (free_sessions l ss w)"
proof (induction ss arbitrary: w)
  case (Cons s ss)
  show ?case unfolding free_sessions.simps
    by (rule post_bind [OF post_True] post_bind [OF session_free_ok] ok_intros Cons post_prod | clarsimp)+
qed (simp add: post_Some)

lemma listener_free_fd_ok [ok_intros]: "worker_ok w \<Longrightarrow> post (\<lambda>(r, w'). worker_ok w') (listener_free_fd l w)"
proof -
  assume ok: "worker_ok w"
  have p: "post worker_ok (if b then do { (r, w) \<leftarrow> policy_free a w; Some w } else Some w)" if "worker_ok w" for a w b
    using aside_ok_intros(1) [OF that] that by (auto simp: post_def bind_eq_Some_conv)
  have q: "worker_ok (if b then w\<lparr>wk_open := A\<rparr> else w)" if "worker_ok w" for b w A using that by (simp add: ok_intros)
  show ?thesis unfolding listener_free_fd_def using ok
    by - (rule post_bind [OF p] post_bind [OF free_sessions_ok] post_Some post_if post_Let post_bind [OF post_True] ok_intros q | assumption
      | clarsimp split del: if_split)+
qed

lemma free_lfds_ok: "worker_ok w \<Longrightarrow> post worker_ok (free_lfds ls w)"
proof (induction ls arbitrary: w)
  case (Cons l ls)
  show ?case unfolding free_lfds.simps
    by (rule post_bind [OF listener_free_fd_ok] ok_intros Cons post_prod | clarsimp)+
qed (simp add: post_Some)

lemma worker_add_policy_ok: "worker_ok w \<Longrightarrow> post (\<lambda>(r, w'). worker_ok w') (worker_add_policy m srv wi ti pl w)"
  unfolding worker_add_policy_def
  by (rule post_bind [OF listener_alloc_fd_ok] post_bind [OF listener_free_fd_ok] post_bind [OF add_event_ok_post] post_bind [OF post_True] post_rules ok_intros
    | assumption | clarsimp)+

lemma worker_del_policy_ok: "worker_ok w \<Longrightarrow> post (\<lambda>(r, w'). worker_ok w') (worker_del_policy pl w)"
proof -
  assume ok: "worker_ok w"
  have q: "worker_ok (case r of None \<Rightarrow> w | Some l \<Rightarrow> w\<lparr>wk_lfdlist := f l\<rparr>)" for r f using ok by (cases r) (simp_all add: ok_intros)
  show ?thesis unfolding worker_del_policy_def
    by (rule post_bind [OF aside_ok_intros(1)] post_bind [OF listener_free_fd_ok] post_bind [OF post_True] post_rules q | assumption | clarsimp)+
qed

lemma run_cmds_ok: "worker_ok w \<Longrightarrow> post worker_ok (run_cmds ms srv wi ti cs w)"
proof (induction cs arbitrary: w)
  case (Cons c cs)
  have "post (\<lambda>(r, w'). worker_ok w') (worker_run_cmd m srv wi ti c w)" for m
    using worker_add_policy_ok [OF Cons.prems] worker_del_policy_ok [OF Cons.prems]
    by (auto simp: worker_run_cmd_def post_def bind_eq_Some_conv split: prod.splits worker_cmd.splits)
  then show ?case using Cons.IH by (fastforce simp: post_def bind_eq_Some_conv)
qed (simp add: post_Some)

lemma worker_step_ok: "worker_step w w' \<Longrightarrow> worker_ok w \<Longrightarrow> worker_ok w'"
proof (induction rule: worker_step.induct)
  case (add_cmd w c)
  then show ?case by (simp add: worker_add_cmd_def ok_intros)
next
  case (get_cmd ms srv wi ti w w')
  then show ?case using postD [OF run_cmds_ok [OF ok_fields(8)]] by (auto simp: worker_get_cmd_def split: if_splits)
next
  case (flush ok w w')
  then show ?case by (auto simp: worker_flush_def split: option.splits intro: ok_intros)
next
  case (accept io w fd ev l r w')
  then show ?case using postD [OF listener_accept_ok] by blast
next
  case (recv io d w fd ev s r w')
  show ?case using worker_ok_keeps [OF recv.prems, of s w'] postD [OF conn_recv_data_keeps [OF worker_ok_sess [OF recv.prems] recv(2,1)] recv(4)]
    by simp
next
  case (send d w fd ev s io r w')
  then show ?case using worker_ok_post [of w s "conn_send_data io fd ev s d w"] conn_send_data_keeps [of s w w d] by (auto simp: post_def)
next
  case (handshake d w fd ev s io r w')
  then show ?case using worker_ok_post [of w s "conn_handshake io fd ev s d w"] conn_handshake_keeps [of s w w d] by (auto simp: post_def)
next
  case (shutdown d w fd ev s io r w')
  then show ?case using worker_ok_post [of w s "conn_shutdown io fd ev s d w"] conn_shutdown_keeps [of s w w d] by (auto simp: post_def)
next
  case (tasks io w w')
  then show ?case using task_run_queue_ok by blast
next
  case (stop w w')
  then obtain w1 where "free_lfds (wk_lfdlist w) w = Some w1" "w' = (task_free_queue (w1\<lparr>wk_pkts := {}\<rparr>))\<lparr>wk_sessions := (\<lambda>_. None)\<rparr>"
    by (auto simp: worker_free_def Let_def bind_eq_Some_conv)
  moreover from this have "worker_ok w1" using postD [OF free_lfds_ok [OF stop.prems]] by blast
  ultimately show ?case by (simp add: worker_ok_def sess_ok_def addrs_def idle_ok_def task_free_queue_def)
qed

lemma worker_init_ok: "worker_init w \<Longrightarrow> worker_ok w"
  by (simp add: worker_init_def worker_ok_def sess_ok_def addrs_def idle_ok_def)

interpretation wk: inductive_invariant worker_init worker_step worker_ok
  by unfold_locales (auto intro: worker_init_ok worker_step_ok)

lemma relay_reach:
  assumes "reach worker_init worker_step w" and "wk_sessions w s = Some S" and "s \<notin> wk_dying w" and "d < 2"
  shows "wk_rcvd w (s, d) = wk_sent w (s, peer_of d) @ pend S d"
  using wk.reach_inv [OF assms(1)] assms(2-4) by (simp add: worker_ok_def sess_ok_def relayed_def)

end
