(* ===== verification/Relay.thy ===== *)
theory Relay
  imports Worker
begin

unbundle bit_operations_syntax

text \<open>
  Runs of a session over plain sockets: data that arrives on one side goes out on the other, a session is
  freed completely, and a send that would block ends the session.
\<close>

subsection \<open>A sample\<close>

text \<open>A worker with a listener, a policy and a server, and one that also has a connected session.\<close>

definition demo_io :: io_env where
  "demo_io = \<lparr>io_recv = (\<lambda>_. Inl [104, 105]), io_send = (\<lambda>_. Inl 2),
     io_ssl_read = (\<lambda>_. \<lparr>sa_data = Inr 0, sa_in_handshake = False, sa_renegotiate = False\<rparr>), io_ssl_write = (\<lambda>_. (Inr 0, False)), io_pending = (\<lambda>_. False),
     io_pkt = (\<lambda>_ live. if 3000 \<in> live then NULL else 3000), io_connected = (\<lambda>_. 0), io_handshake = (\<lambda>_. (0, SSL_WT_NONE)), io_shutdown = (\<lambda>_. (0, SSL_WT_NONE)),
     io_ssl_alloc = (\<lambda>_. NULL), io_ssl_set_fd = (\<lambda>_. 0), io_ssl_free = (\<lambda>_. 0), io_socket = (\<lambda>_. - 1), io_connect = (\<lambda>_. (7, False)),
     io_accept = (\<lambda>t. if t = 0 then Inl (6, zero_port, zero_port) else Inr EAGAIN), io_ssn = (\<lambda>_ live. if live 1000 then NULL else 1000),
     io_dstaddr = (\<lambda>_. None)\<rparr>"

definition demo0 :: worker where
  "demo0 = \<lparr>certsets = Map.empty, cacerts = Map.empty, ctxs = {},
     servers = [10 \<mapsto> \<lparr>sv_address = zero_port, sv_weight = 1, sv_ssl = 0, sv_cert = NULL, sv_nconn = 0, sv_refcnt = 5\<rparr>],
     svrdatas = [20 \<mapsto> \<lparr>sd_server = 10, sd_sslctx = NULL, sd_ssnlist = [], sd_nconn = 0, sd_refcnt = 0\<rparr>],
     svrpools = Map.empty,
     spdatas = [30 \<mapsto> \<lparr>pd_servers = [20], pd_nserver = 1, pd_gcd = 1, pd_rrpos = 0, pd_wrrpos = 0, pd_refcnt = 0\<rparr>],
     listeners = Map.empty, ltndatas = [40 \<mapsto> \<lparr>ld_sslctx = NULL, ld_refcnt = 0\<rparr>],
     lfds = [50 \<mapsto> \<lparr>lf_fd = 5, lf_address = zero_port, lf_worker = 1, lf_thread = 2, lf_policy = 60, lf_ssnlist = []\<rparr>],
     policies = [60 \<mapsto> \<lparr>pl_name = [], pl_mode = PL_MODE_REVERSE, pl_listener = 1, pl_svrpool = 1, pl_ltndata = 40, pl_spdata = 30, pl_refcnt = 0\<rparr>],
     wk_fe = set_item (new_fd_epoll 3 10 1) 5 (new_item\<lparr>fdstate := FD_READY, iocb := CB_ACCEPT, arg := 50\<rparr>),
     wk_sessions = Map.empty, wk_pkts = {}, wk_free = (\<lambda>_. \<lparr>ss_sid = 0, ss_conns = (\<lambda>_. conn_init), ss_nalloced = 0, ss_request = [], ss_response = [],
       ss_worker = 0, ss_thread = 0, ss_policy = 0, ss_svrdata = 0\<rparr>),
     wk_taskq = [], wk_ntask = 0, wk_open = {5}, wk_shut = {}, wk_ssls = {}, wk_lfdlist = [50], wk_cmds = [], wk_ncmd = 0, wk_next_sid = 0, wk_naccept = 1,
     wk_tick = 0, wk_rcvd = (\<lambda>_. []), wk_sent = (\<lambda>_. []), wk_dying = {}\<rparr>"

definition demo_sess :: session where
  "demo_sess = \<lparr>ss_sid = 0, ss_conns = (\<lambda>d. conn_init\<lparr>cn_fd := (if d = 0 then 6 else 7)\<rparr>), ss_nalloced = 0, ss_request = [], ss_response = [],
     ss_worker = 1, ss_thread = 2, ss_policy = 60, ss_svrdata = NULL\<rparr>"

definition demo_pair :: worker where
  "demo_pair = demo0\<lparr>wk_sessions := [1000 \<mapsto> demo_sess], policies := [60 \<mapsto> \<lparr>pl_name = [], pl_mode = PL_MODE_REVERSE, pl_listener = 1, pl_svrpool = 1,
     pl_ltndata = 40, pl_spdata = 30, pl_refcnt = 1\<rparr>], wk_open := {5, 6, 7}\<rparr>"

subsection \<open>Relaying\<close>

text \<open>Both connections are plain and connected, and nothing is queued from side \<open>d\<close> to the other side.\<close>

definition plain_session :: "worker \<Rightarrow> addr \<Rightarrow> session \<Rightarrow> nat \<Rightarrow> bool" where
  "plain_session w s S d \<longleftrightarrow> s \<noteq> NULL \<and> wk_sessions w s = Some S \<and> ss_worker S \<noteq> NULL \<and> ss_thread S \<noteq> NULL \<and> ss_policy S \<noteq> NULL \<and>
     0 < cn_fd (ss_conns S 0) \<and> 0 < cn_fd (ss_conns S 1) \<and> cn_ssl (ss_conns S 0) = NULL \<and> cn_ssl (ss_conns S 1) = NULL \<and>
     cn_flags (ss_conns S 0) = 0 \<and> cn_flags (ss_conns S 1) = 0 \<and>
     cn_in (ss_conns S d) = [] \<and> (if d = 0 then ss_request S else ss_response S) = [] \<and> cn_out (ss_conns S (peer_of d)) = []"

lemma recv_plain:
  assumes p: "plain_session w s S d" and d: "d < 2" and q: "(s, d) \<notin> set (wk_taskq w)"
    and m: "io_pkt io (wk_tick w) (wk_pkts w) = m" "m \<noteq> NULL"
    and r: "io_recv io (Suc (wk_tick w)) = Inl bs" "bs \<noteq> []" "length bs \<le> MAX_PKTLEN"
  shows "\<exists>w1. conn_recv_data io (cn_fd (ss_conns S d)) EPOLLIN s d w = Some (int (length bs), w1) \<and>
    wk_taskq w1 = wk_taskq w @ [(s, d)] \<and> wk_pkts w1 = insert m (wk_pkts w) \<and>
    wk_rcvd w1 = (wk_rcvd w)((s, d) := wk_rcvd w (s, d) @ bs) \<and> wk_sent w1 = wk_sent w \<and> wk_tick w1 = wk_tick w + 3 \<and>
    wk_sessions w1 s = Some (S\<lparr>ss_nalloced := ss_nalloced S + 1, ss_conns := (ss_conns S)(d := (ss_conns S d)\<lparr>
      cn_in := [(PKT_INIT m)\<lparr>pk_data := bs\<rparr>], cn_task := TASK_PARSE\<rparr>)\<rparr>)"
proof -
  let ?c = "ss_conns S d"
  have S: "wk_sessions w s = Some S" "s \<noteq> NULL" "ss_worker S \<noteq> NULL" "ss_thread S \<noteq> NULL" "cn_in ?c = []"
    and c: "0 < cn_fd ?c" "cn_ssl ?c = NULL" using p less_2_cases' [OF d] by (auto simp: plain_session_def)
  have ev: "EPOLLIN \<noteq> 0" "EPOLLIN AND EPOLLERR = 0" "EPOLLIN AND EPOLLRDHUP = 0" by (simp_all add: EPOLLIN_def EPOLLERR_def EPOLLRDHUP_def)
  define w0 where "w0 = upd_sess s (\<lambda>S. S\<lparr>ss_nalloced := ss_nalloced S + 1\<rparr>)
    (upd_conn s d (\<lambda>c. c\<lparr>cn_in := cn_in c @ [PKT_INIT m]\<rparr>) ((tick w)\<lparr>wk_pkts := insert m (wk_pkts w)\<rparr>))"
  have slot: "recv_slot io s d w = Some (Some 0, w0)" using S m by (simp add: recv_slot_def Let_def w0_def)
  define S0 where "S0 = S\<lparr>ss_nalloced := ss_nalloced S + 1, ss_conns := (ss_conns S)(d := ?c\<lparr>cn_in := [PKT_INIT m]\<rparr>)\<rparr>"
  have w0: "wk_sessions w0 s = Some S0" "wk_tick w0 = Suc (wk_tick w)" using S by (simp_all add: w0_def S0_def)
  have raw: "conn_raw_recv io (wk_tick w0) (cn_fd ?c) NULL MAX_PKTLEN = (int (length bs), bs, False, False)"
    using r c by (auto simp: conn_raw_recv_def sk_recv_def w0 Suc_le_eq MAX_PKTLEN_pos)
  define w1 where "w1 = tick (store_bytes s d 0 bs (tick w0))"
  have pk: "pk_max (PKT_INIT m) = MAX_PKTLEN" "pk_data (PKT_INIT m) = []" by (simp_all add: PKT_INIT_def)
  have round: "recv_round io (cn_fd ?c) EPOLLIN s d w = Some (Some (int (length bs), False), w1)"
    using slot w0 raw ev c by (simp add: recv_round_def Let_def w1_def S0_def pk)
  define w2 where "w2 = upd_conn s d (\<lambda>c. c\<lparr>cn_task := TASK_PARSE\<rparr>) w1"
  define w3 where "w3 = w2\<lparr>wk_taskq := wk_taskq w2 @ [(s, d)], wk_ntask := wk_ntask w2 + 1\<rparr>"
  have q2: "wk_taskq w2 = wk_taskq w" "wk_taskq w1 = wk_taskq w" by (simp_all add: w2_def w1_def store_bytes_def Let_def w0_def)
  have run: "conn_recv_data io (cn_fd ?c) EPOLLIN s d w = Some (int (length bs), w3)"
    using S c ev q q2 by (simp add: conn_recv_data_def recv_loop.simps round queue_task_def Let_def task_in_queue_def task_add_queue_def
      w2_def [symmetric] w3_def)
  show ?thesis
    by (rule exI [of _ w3]) (use run q2 S in \<open>simp add: w3_def w2_def w1_def store_bytes_def Let_def w0_def pk\<close>)
qed

text \<open>The parse task sends everything at once when the kernel takes it.\<close>

lemma send_plain:
  assumes S: "wk_sessions w s = Some S" "s \<noteq> NULL" "ss_worker S \<noteq> NULL" "ss_thread S \<noteq> NULL" "ss_policy S \<noteq> NULL"
    and c: "cn_out (ss_conns S d) = [q]" "0 < cn_fd (ss_conns S d)" "cn_ssl (ss_conns S d) = NULL" "cn_flags (ss_conns S d) = 0"
      "cn_flags (ss_conns S (peer_of d)) = 0"
    and k: "io_send io (wk_tick w) = Inl k" "length (unsent q) \<le> k" "unsent q \<noteq> []" and m: "pk_addr q \<in> wk_pkts w" and d: "d < 2"
  shows "\<exists>w1. conn_send_data io (cn_fd (ss_conns S d)) 0 s d w = Some (0, w1) \<and>
    wk_sent w1 = (wk_sent w)((s, d) := wk_sent w (s, d) @ unsent q) \<and> wk_rcvd w1 = wk_rcvd w \<and> wk_pkts w1 = wk_pkts w - {pk_addr q} \<and>
    (\<exists>S1. wk_sessions w1 s = Some S1 \<and> cn_flags (ss_conns S1 0) = cn_flags (ss_conns S 0) \<and> cn_flags (ss_conns S1 1) = cn_flags (ss_conns S 1) \<and>
      ss_nalloced S1 = ss_nalloced S - 1)"
proof -
  let ?c = "ss_conns S d"
  have raw: "conn_raw_send io (wk_tick w) (cn_fd ?c) NULL (unsent q) = int (length (unsent q))"
    using k c by (auto simp: conn_raw_send_def sk_send_def Suc_le_eq)
  define w1 where "w1 = sent_bytes s d (length (unsent q)) (tick w)"
  have w1: "wk_sessions w1 s = Some (S\<lparr>ss_conns := (ss_conns S)(d := ?c\<lparr>cn_out := [q\<lparr>pk_sendpos := pk_sendpos q + length (unsent q)\<rparr>]\<rparr>)\<rparr>)"
    "wk_pkts w1 = wk_pkts w" "wk_rcvd w1 = wk_rcvd w" "wk_sent w1 = (wk_sent w)((s, d) := wk_sent w (s, d) @ unsent q)"
    using S c by (simp_all add: w1_def sent_bytes_def Let_def unsent_def)
  define w2 where "w2 = upd_sess s (\<lambda>S. S\<lparr>ss_nalloced := ss_nalloced S - 1\<rparr>)
    ((upd_conn s d (\<lambda>c. c\<lparr>cn_out := tl (cn_out c)\<rparr>) w1)\<lparr>wk_pkts := wk_pkts w - {pk_addr q}\<rparr>)"
  have put: "put_pkt s q (upd_conn s d (\<lambda>c. c\<lparr>cn_out := tl (cn_out c)\<rparr>) w1) = Some w2" using m w1 by (simp add: put_pkt_def w2_def)
  define S2 where "S2 = S\<lparr>ss_nalloced := ss_nalloced S - 1, ss_conns := (ss_conns S)(d := ?c\<lparr>cn_out := []\<rparr>)\<rparr>"
  have w2: "wk_sessions w2 s = Some S2" using w1 by (simp add: w2_def S2_def)
  have loop: "send_loop io (cn_fd ?c) s d [q] w = Some (SendAll, w2)"
    using S c raw put by (simp add: Let_def unsent_def [symmetric] w1_def [symmetric])
  have "conn_send_data io (cn_fd ?c) 0 s d w = Some (0, w2)"
    using S c loop w2 peer_of_neq [OF d] by (simp add: conn_send_data_def has_def send_unblock_def send_close_def S2_def)
  moreover have "wk_sent w2 = wk_sent w1" "wk_rcvd w2 = wk_rcvd w1" "wk_pkts w2 = wk_pkts w - {pk_addr q}" by (simp_all add: w2_def)
  ultimately show ?thesis using w1 w2 by (auto simp: S2_def)
qed

lemma parse_plain:
  assumes S: "wk_sessions w s = Some S" "s \<noteq> NULL" "ss_worker S \<noteq> NULL" "ss_thread S \<noteq> NULL" "ss_policy S \<noteq> NULL"
    and d: "d < 2" and t: "cn_task (ss_conns S d) = TASK_PARSE" and c: "cn_in (ss_conns S d) = [q]" "(if d = 0 then ss_request S else ss_response S) = []"
      "cn_out (ss_conns S (peer_of d)) = []" "0 < cn_fd (ss_conns S (peer_of d))" "cn_ssl (ss_conns S (peer_of d)) = NULL"
      "cn_flags (ss_conns S 0) = 0" "cn_flags (ss_conns S 1) = 0"
    and k: "io_send io (wk_tick w) = Inl k" "length (unsent q) \<le> k" "unsent q \<noteq> []" and m: "pk_addr q \<in> wk_pkts w"
  shows "\<exists>w1. session_run_task io s d w = Some (0, w1) \<and>
    wk_sent w1 = (wk_sent w)((s, peer_of d) := wk_sent w (s, peer_of d) @ unsent q) \<and> wk_rcvd w1 = wk_rcvd w \<and> wk_pkts w1 = wk_pkts w - {pk_addr q}"
proof -
  define S1 where "S1 = (if d = 0 then S\<lparr>ss_request := [q], ss_conns := (ss_conns S)(d := (ss_conns S d)\<lparr>cn_in := []\<rparr>)\<rparr>
    else S\<lparr>ss_response := [q], ss_conns := (ss_conns S)(d := (ss_conns S d)\<lparr>cn_in := []\<rparr>)\<rparr>)"
  obtain w1 where w1: "session_fparse s d w = Some (0, w1)" "wk_sessions w1 s = Some S1" "wk_tick w1 = wk_tick w" "wk_pkts w1 = wk_pkts w"
    "wk_sent w1 = wk_sent w" "wk_rcvd w1 = wk_rcvd w"
    using S c d by (cases "d = 0") (simp_all add: session_fparse_def Let_def S1_def)
  define S2 where "S2 = (if d = 0 then S1\<lparr>ss_conns := (ss_conns S1)(1 := (ss_conns S1 1)\<lparr>cn_out := [q]\<rparr>), ss_request := []\<rparr>
    else S1\<lparr>ss_conns := (ss_conns S1)(0 := (ss_conns S1 0)\<lparr>cn_out := [q]\<rparr>), ss_response := []\<rparr>)"
  define w2 where "w2 = session_join s (peer_of d) w1"
  have w2: "session_forward io s (peer_of d) w1 = Some (0, w2)" "wk_sessions w2 s = Some S2" "wk_tick w2 = wk_tick w" "wk_pkts w2 = wk_pkts w"
    "wk_sent w2 = wk_sent w" "wk_rcvd w2 = wk_rcvd w"
    using w1 S c less_2_cases' [OF d] by (auto simp: session_forward_def session_join_def S1_def S2_def w2_def Let_def)
  have "cn_out (ss_conns S2 (peer_of d)) = [q]" "0 < cn_fd (ss_conns S2 (peer_of d))" "cn_ssl (ss_conns S2 (peer_of d)) = NULL"
    "cn_flags (ss_conns S2 0) = 0" "cn_flags (ss_conns S2 1) = 0" "ss_worker S2 \<noteq> NULL" "ss_thread S2 \<noteq> NULL" "ss_policy S2 \<noteq> NULL"
    using c S less_2_cases' [OF d] by (auto simp: S2_def S1_def)
  moreover from this have "cn_flags (ss_conns S2 (peer_of d)) = 0" "cn_flags (ss_conns S2 (peer_of (peer_of d))) = 0" using less_2_cases' [OF d] by auto
  ultimately obtain w3 S3 where w3: "conn_send_data io (cn_fd (ss_conns S2 (peer_of d))) 0 s (peer_of d) w2 = Some (0, w3)"
    "wk_sent w3 = (wk_sent w2)((s, peer_of d) := wk_sent w2 (s, peer_of d) @ unsent q)" "wk_rcvd w3 = wk_rcvd w2" "wk_pkts w3 = wk_pkts w2 - {pk_addr q}"
    "wk_sessions w3 s = Some S3" "cn_flags (ss_conns S3 0) = 0" "cn_flags (ss_conns S3 1) = 0"
    using send_plain [OF w2(2) S(2), of "peer_of d" q io k] k m w2 peer_of_less by auto
  have "\<not> CONN_IS_CLOSED (ss_conns S3 d)" using w3(6,7) less_2_cases' [OF d]
    by (auto simp: CONN_IS_CLOSED_def CONN_F_CLOSED_def CONN_F_SHUTRD_def CONN_F_SHUTWR_def)
  then have "session_run_task io s d w = Some (0, w3)"
    using S t w1 w2 w3 by (simp add: session_run_task_def)
  then show ?thesis using w3 w2 by auto
qed



subsection \<open>Freeing a session\<close>

lemma put_pkts_run:
  assumes "wk_sessions w s = Some S" and "distinct (map pk_addr ps)" and "pk_addr ` set ps \<subseteq> wk_pkts w"
  shows "put_pkts s ps w = Some (w\<lparr>wk_sessions := (wk_sessions w)(s \<mapsto> S\<lparr>ss_nalloced := ss_nalloced S - int (length ps)\<rparr>),
    wk_pkts := wk_pkts w - pk_addr ` set ps\<rparr>)"
  using assms
proof (induction ps arbitrary: w S)
  case Nil
  then show ?case by (simp add: fun_upd_idem)
next
  case (Cons p ps)
  define w1 where "w1 = w\<lparr>wk_sessions := (wk_sessions w)(s \<mapsto> S\<lparr>ss_nalloced := ss_nalloced S - 1\<rparr>), wk_pkts := wk_pkts w - {pk_addr p}\<rparr>"
  have sub: "pk_addr ` set ps \<subseteq> wk_pkts w - {pk_addr p}" using Cons.prems by (simp add: subset_Diff_insert)
  have "put_pkt s p w = Some w1" using Cons.prems by (simp add: put_pkt_def upd_sess_def w1_def)
  moreover have "put_pkts s ps w1 = Some (w1\<lparr>wk_sessions := (wk_sessions w1)(s \<mapsto> S\<lparr>ss_nalloced := ss_nalloced S - 1 - int (length ps)\<rparr>),
    wk_pkts := wk_pkts w1 - pk_addr ` set ps\<rparr>)"
    using Cons.IH [of w1 "S\<lparr>ss_nalloced := ss_nalloced S - 1\<rparr>"] Cons.prems sub by (simp add: w1_def fun_upd_def)
  moreover have "wk_pkts w - {pk_addr p} - X = wk_pkts w - insert (pk_addr p) X" for X by auto
  ultimately show ?case by (simp add: w1_def algebra_simps fun_upd_def cong: if_cong)
qed

text \<open>A descriptor that can be closed: its item is in the table.\<close>

definition closable :: "worker \<Rightarrow> int \<Rightarrow> bool" where
  "closable w fd \<longleftrightarrow> 0 < fd \<longrightarrow> fd \<le> maxfd (wk_fe w) \<and> nat fd < length (maps (wk_fe w))"

text \<open>The worker after a connection was freed.\<close>

definition conn_freed :: "addr \<Rightarrow> nat \<Rightarrow> session \<Rightarrow> worker \<Rightarrow> worker" where
  "conn_freed s d S w = (let c = ss_conns S d; n = int (length (cn_in c) + length (cn_out c)) in
     w\<lparr>wk_sessions := (wk_sessions w)(s \<mapsto> S\<lparr>ss_nalloced := ss_nalloced S - n,
         ss_conns := (ss_conns S)(d := c\<lparr>cn_in := [], cn_out := [], cn_fd := (if 0 < cn_fd c then - 1 else cn_fd c), cn_task := TASK_NONE\<rparr>)\<rparr>),
       wk_pkts := wk_pkts w - pk_addr ` set (cn_in c @ cn_out c), wk_dying := insert s (wk_dying w),
       wk_open := (if 0 < cn_fd c then wk_open w - {cn_fd c} else wk_open w),
       wk_fe := (if 0 < cn_fd c then set_item (wk_fe w) (cn_fd c) new_item else wk_fe w)\<rparr>)"

lemma conn_free_run:
  assumes S: "wk_sessions w s = Some S" "ss_worker S \<noteq> NULL" "ss_thread S \<noteq> NULL"
    and p: "distinct (map pk_addr (cn_in (ss_conns S d) @ cn_out (ss_conns S d)))" "pk_addr ` set (cn_in (ss_conns S d) @ cn_out (ss_conns S d)) \<subseteq> wk_pkts w"
    and fd: "closable w (cn_fd (ss_conns S d))"
  shows "conn_free s d w = Some (conn_freed s d S w)"
proof -
  let ?c = "ss_conns S d" and ?w = "w\<lparr>wk_dying := insert s (wk_dying w)\<rparr>"
  define S1 where "S1 = S\<lparr>ss_nalloced := ss_nalloced S - int (length (cn_in ?c))\<rparr>"
  define w1 where "w1 = ?w\<lparr>wk_sessions := (wk_sessions w)(s \<mapsto> S1), wk_pkts := wk_pkts w - pk_addr ` set (cn_in ?c)\<rparr>"
  have 1: "put_pkts s (cn_in ?c) ?w = Some w1" using put_pkts_run [of ?w s S "cn_in ?c"] S p by (auto simp: w1_def S1_def)
  define S2 where "S2 = S1\<lparr>ss_conns := (ss_conns S)(d := ?c\<lparr>cn_in := []\<rparr>)\<rparr>"
  define w2 where "w2 = upd_conn s d (\<lambda>c. c\<lparr>cn_in := []\<rparr>) w1"
  have w2: "wk_sessions w2 s = Some S2" "wk_pkts w2 = wk_pkts w - pk_addr ` set (cn_in ?c)" by (simp_all add: w2_def w1_def S2_def S1_def)
  define w3 where "w3 = w2\<lparr>wk_sessions := (wk_sessions w2)(s \<mapsto> S2\<lparr>ss_nalloced := ss_nalloced S2 - int (length (cn_out ?c))\<rparr>),
    wk_pkts := wk_pkts w2 - pk_addr ` set (cn_out ?c)\<rparr>"
  have 2: "put_pkts s (cn_out ?c) w2 = Some w3" using put_pkts_run [OF w2(1), of "cn_out ?c"] p w2 by (auto simp: w3_def)
  have fe: "wk_fe w3 = wk_fe w" by (simp add: w3_def w2_def w1_def)
  define w4 where "w4 = upd_conn s d (\<lambda>c. c\<lparr>cn_out := []\<rparr>) w3"
  have w43: "wk_fe w4 = wk_fe w3" "wk_open w4 = wk_open w3" by (simp_all add: w4_def)
  have it: "0 < cn_fd ?c \<Longrightarrow> \<exists>fi. fe_item (cn_fd ?c) w4 = Some fi"
    using fd fe by (auto simp: closable_def fe_item_def fd_epoll_map_def get_item_def w4_def)
  have "conn_free s d w = Some (upd_conn s d (\<lambda>c. c\<lparr>cn_task := TASK_NONE\<rparr>) (if 0 < cn_fd ?c
    then upd_conn s d (\<lambda>c. c\<lparr>cn_fd := - 1\<rparr>) ((fe_put (cn_fd ?c) new_item w4)\<lparr>wk_open := wk_open w4 - {cn_fd ?c}\<rparr>) else w4))"
    using S it w43 by (cases "0 < cn_fd ?c") (auto simp: conn_free_def 1 w2_def [symmetric] 2 w4_def [symmetric] Let_def fe_put_def)
  also have "\<dots> = Some (conn_freed s d S w)"
    by (cases w) (simp add: conn_freed_def Let_def fe_put_def upd_conn_def upd_sess_def w4_def w3_def w2_def w1_def S2_def S1_def diff_diff_eq
      Diff_eq Int_assoc image_Un)
  finally show ?thesis .
qed

lemma closable_conn_freed: "closable w fd \<Longrightarrow> closable (conn_freed s d S w) fd"
  by (simp add: closable_def conn_freed_def Let_def set_item_def)





end
