(* ===== verification/Relay_Run.thy ===== *)
theory Relay_Run
  imports Relay
begin

text \<open>
  What holds in every reachable state of a worker, and a run of the model: a listener accepts a client, which
  sends two bytes.
\<close>

subsection \<open>A run\<close>

text \<open>A listener accepts a client on descriptor 6, which sends two bytes.\<close>

definition demo1 :: worker where "demo1 = snd (the (listener_accept demo_io 5 1 50 demo0))"
definition demo2 :: worker where "demo2 = snd (the (conn_recv_data demo_io 6 1 1000 0 demo1))"
lemma demo_pool: "pool_ok demo_io"
  by (simp add: pool_ok_def demo_io_def)

lemma demo_accept: "called demo0 5 1 CB_ACCEPT 50" "\<exists>r. listener_accept demo_io 5 1 50 demo0 = Some (r, demo1)"
proof -
  show "called demo0 5 1 CB_ACCEPT 50" by code_simp
  have "listener_accept demo_io 5 1 50 demo0 \<noteq> None" by code_simp
  then show "\<exists>r. listener_accept demo_io 5 1 50 demo0 = Some (r, demo1)" by (auto simp: demo1_def)
qed

lemma demo_recv: "called demo1 6 1 CB_RECV (conn_addr 1000 0)" "\<exists>r. conn_recv_data demo_io 6 1 1000 0 demo1 = Some (r, demo2)"
proof -
  show "called demo1 6 1 CB_RECV (conn_addr 1000 0)" by code_simp
  have "conn_recv_data demo_io 6 1 1000 0 demo1 \<noteq> None" by code_simp
  then show "\<exists>r. conn_recv_data demo_io 6 1 1000 0 demo1 = Some (r, demo2)" by (auto simp: demo2_def)
qed

lemma demo_reach: "reach worker_init worker_step demo2"
proof -
  have "reach worker_init worker_step demo0" by (rule reach_init) (simp add: worker_init_def demo0_def)
  moreover have "worker_step demo0 demo1" using worker_step.accept [OF demo_pool demo_accept(1)] demo_accept(2) by blast
  moreover have "worker_step demo1 demo2" using worker_step.recv [OF demo_pool _ demo_recv(1)] demo_recv(2) by fastforce
  ultimately show ?thesis by (blast intro: reach_step)
qed

lemma demo_facts: "wk_sessions demo2 1000 \<noteq> None" "1000 \<notin> wk_dying demo2" "wk_rcvd demo2 (1000, 0) = [104, 105]"
  by code_simp+

text \<open>
  C1: In every reachable state of a worker, for every session whose deletion has not begun and for both
  directions, the bytes received from one side are exactly the bytes sent to the other side followed by
  those still queued in the session: nothing is lost, duplicated or reordered.
\<close>

theorem relay_correct:
  assumes "reach worker_init worker_step w" and "wk_sessions w s = Some S" and "s \<notin> wk_dying w" and "d < 2"
  shows "wk_rcvd w (s, d) = wk_sent w (s, peer_of d) @ pend S d"
  by (rule relay_reach [OF assms])

theorem relay_correct_witness:
  "wk_rcvd demo2 (1000, 0) = wk_sent demo2 (1000, peer_of 0) @ pend (the (wk_sessions demo2 1000)) 0 \<and> wk_rcvd demo2 (1000, 0) = [104, 105]"
  using relay_correct [OF demo_reach, of 1000 "the (wk_sessions demo2 1000)" 0] demo_facts by auto

text \<open>
  C2: In every reachable state the packets in the queues of a session are as many as it has counted, taken
  from the pool and not given back, all different, within their buffers, and no other session has one of them.
\<close>

theorem packets_owned:
  assumes "reach worker_init worker_step w" and "wk_sessions w s = Some S"
  shows "ss_nalloced S = int (length (all_pkts S)) \<and> distinct (map pk_addr (all_pkts S)) \<and> pk_addr ` set (all_pkts S) \<subseteq> wk_pkts w \<and>
    (\<forall>p\<in>set (all_pkts S). pk_sendpos p \<le> length (pk_data p) \<and> length (pk_data p) \<le> MAX_PKTLEN) \<and>
    (\<forall>t T. t \<noteq> s \<longrightarrow> wk_sessions w t = Some T \<longrightarrow> pk_addr ` set (all_pkts S) \<inter> pk_addr ` set (all_pkts T) = {})"
proof -
  have ok: "worker_ok w" by (rule wk.reach_inv [OF assms(1)])
  have "pkts_ok (wk_pkts w) S" using ok assms(2) by (simp add: worker_ok_def sess_ok_def)
  moreover have "pk_addr ` set (all_pkts S) \<inter> pk_addr ` set (all_pkts T) = {}" if "t \<noteq> s" "wk_sessions w t = Some T" for t T
    using ok assms(2) that by (simp add: worker_ok_def addrs_def) (metis option.simps(5))
  ultimately show ?thesis by (auto simp: pkts_ok_def owns_def pkt_ok_def)
qed

theorem packets_owned_witness:
  "ss_nalloced (the (wk_sessions demo2 1000)) = int (length (all_pkts (the (wk_sessions demo2 1000)))) \<and>
   distinct (map pk_addr (all_pkts (the (wk_sessions demo2 1000))))"
  using packets_owned [OF demo_reach, of 1000 "the (wk_sessions demo2 1000)"] demo_facts(1) by auto

end
