(* ===== verification/Proxy.thy ===== *)
theory Proxy
  imports Policy
begin

text \<open>
  The proxy object, \<^verbatim>\<open>network/proxy/tproxy/proxy.c\<close>: the lists of certificate sets, listeners, server pools and
  policies, with their names.  The heap extends that of the policies by the proxies; ring lists
  appear as the lists of their members.
\<close>

datatype bind_algo = THREAD_BIND_RR | THREAD_BIND_ODD | THREAD_BIND_EVEN
datatype bind_ht = THREAD_HT_FULL | THREAD_HT_LOW | THREAD_HT_HIGH

record proxy_cfg =
  nworker :: int
  nice :: int
  naccept :: int
  use_splice :: int
  use_nbsplice :: int
  bind_cpu :: int
  bind_cpu_algo :: bind_algo
  bind_cpu_ht :: bind_ht
  maxconn :: int
  debug :: int
  flow :: int
  http :: int
  timestamp :: int

text \<open>Of the running data only the limit of descriptors is kept here; the threads of the workers are arguments of the code that starts them.  The
  statistics are never updated.\<close>

record proxy =
  py_cfg :: proxy_cfg
  py_maxfd :: int
  py_certlist :: "addr list"
  py_ncert :: int
  py_ltnlist :: "addr list"
  py_nlistener :: int
  py_splist :: "addr list"
  py_nsvrpool :: int
  py_pllist :: "addr list"
  py_npolicy :: int

definition MAX_NAME :: nat where "MAX_NAME = 32"
definition MAX_CERTSET :: int where "MAX_CERTSET = 128"
definition MAX_LISTENER :: int where "MAX_LISTENER = 128"
definition MAX_SVRPOOL :: int where "MAX_SVRPOOL = 128"
definition MAX_POLICY :: int where "MAX_POLICY = 128"

record py_heap = pl_heap +
  proxies :: "addr \<rightharpoonup> proxy"

subsection \<open>Allocation and release\<close>

definition zero_cfg :: proxy_cfg where
  "zero_cfg = \<lparr>nworker = 0, nice = 0, naccept = 0, use_splice = 0, use_nbsplice = 0, bind_cpu = 0, bind_cpu_algo = THREAD_BIND_RR,
     bind_cpu_ht = THREAD_HT_FULL, maxconn = 0, debug = 0, flow = 0, http = 0, timestamp = 0\<rparr>"

definition proxy_alloc :: "addr \<Rightarrow> 'a py_heap_scheme \<Rightarrow> addr \<times> 'a py_heap_scheme" where
  "proxy_alloc m h = (if m = NULL then (NULL, h)
     else (m, h\<lparr>proxies := (proxies h)(m \<mapsto> \<lparr>py_cfg = zero_cfg\<lparr>nworker := 1, naccept := 1\<rparr>, py_maxfd = 0, py_certlist = [], py_ncert = 0,
       py_ltnlist = [], py_nlistener = 0, py_splist = [], py_nsvrpool = 0, py_pllist = [], py_npolicy = 0\<rparr>)\<rparr>))"

text \<open>The certificate sets of the proxy are not freed.\<close>

definition proxy_free :: "addr \<Rightarrow> 'a py_heap_scheme \<Rightarrow> (int \<times> 'a py_heap_scheme) option" where
  "proxy_free py h = (if py = NULL then Some (- 1, h) else do {
     p \<leftarrow> proxies h py;
     h \<leftarrow> free_each listener_free (py_ltnlist p) h;
     h \<leftarrow> free_each svrpool_free (py_splist p) h;
     h \<leftarrow> free_each policy_free (py_pllist p) h;
     Some (0, h\<lparr>proxies := (proxies h)(py := None)\<rparr>) })"

subsection \<open>Adding\<close>

definition proxy_add_certset :: "addr \<Rightarrow> addr \<Rightarrow> 'a py_heap_scheme \<Rightarrow> (int \<times> 'a py_heap_scheme) option" where
  "proxy_add_certset py a h = (if py = NULL \<or> a = NULL then Some (- 1, h) else do {
     p \<leftarrow> proxies h py;
     if py_ncert p > MAX_CERTSET then Some (- 1, h)
     else Some (0, h\<lparr>proxies := (proxies h)(py \<mapsto> p\<lparr>py_certlist := py_certlist p @ [a], py_ncert := py_ncert p + 1\<rparr>)\<rparr>) })"

definition proxy_add_listener :: "addr \<Rightarrow> addr \<Rightarrow> 'a py_heap_scheme \<Rightarrow> (int \<times> 'a py_heap_scheme) option" where
  "proxy_add_listener py a h = (if py = NULL \<or> a = NULL then Some (- 1, h) else do {
     p \<leftarrow> proxies h py;
     if py_nlistener p > MAX_LISTENER then Some (- 1, h)
     else Some (0, h\<lparr>proxies := (proxies h)(py \<mapsto> p\<lparr>py_ltnlist := py_ltnlist p @ [a], py_nlistener := py_nlistener p + 1\<rparr>)\<rparr>) })"

definition proxy_add_svrpool :: "addr \<Rightarrow> addr \<Rightarrow> 'a py_heap_scheme \<Rightarrow> (int \<times> 'a py_heap_scheme) option" where
  "proxy_add_svrpool py a h = (if py = NULL \<or> a = NULL then Some (- 1, h) else do {
     p \<leftarrow> proxies h py;
     if py_nsvrpool p > MAX_SVRPOOL then Some (- 1, h)
     else Some (0, h\<lparr>proxies := (proxies h)(py \<mapsto> p\<lparr>py_splist := py_splist p @ [a], py_nsvrpool := py_nsvrpool p + 1\<rparr>)\<rparr>) })"

definition proxy_add_policy :: "addr \<Rightarrow> addr \<Rightarrow> 'a py_heap_scheme \<Rightarrow> (int \<times> 'a py_heap_scheme) option" where
  "proxy_add_policy py a h = (if py = NULL \<or> a = NULL then Some (- 1, h) else do {
     p \<leftarrow> proxies h py;
     if py_npolicy p > MAX_POLICY then Some (- 1, h)
     else Some (0, h\<lparr>proxies := (proxies h)(py \<mapsto> p\<lparr>py_pllist := py_pllist p @ [a], py_npolicy := py_npolicy p + 1\<rparr>)\<rparr>) })"

subsection \<open>Finding by name\<close>

text \<open>
  \<open>nm\<close> reads the name of a member.  Certificate sets are searched for the first match, the other lists are
  read to their end, so that the last match counts.
\<close>

fun find_first :: "(addr \<Rightarrow> string option) \<Rightarrow> string \<Rightarrow> addr list \<Rightarrow> addr option" where
  "find_first nm s [] = Some NULL"
| "find_first nm s (a # as) = do { n \<leftarrow> nm a; if n = s then Some a else find_first nm s as }"

fun find_last :: "(addr \<Rightarrow> string option) \<Rightarrow> string \<Rightarrow> addr list \<Rightarrow> addr \<Rightarrow> addr option" where
  "find_last nm s [] r = Some r"
| "find_last nm s (a # as) r = do { n \<leftarrow> nm a; find_last nm s as (if n = s then a else r) }"

definition cert_name :: "'a py_heap_scheme \<Rightarrow> addr \<Rightarrow> string option" where
  "cert_name h a = map_option cs_name (certsets h a)"

definition ltn_name :: "'a py_heap_scheme \<Rightarrow> addr \<Rightarrow> string option" where
  "ltn_name h a = map_option lt_name (listeners h a)"

definition pool_name :: "'a py_heap_scheme \<Rightarrow> addr \<Rightarrow> string option" where
  "pool_name h a = map_option sp_name (svrpools h a)"

definition plc_name :: "'a py_heap_scheme \<Rightarrow> addr \<Rightarrow> string option" where
  "plc_name h a = map_option pl_name (policies h a)"

definition proxy_find_certset :: "addr \<Rightarrow> string option \<Rightarrow> 'a py_heap_scheme \<Rightarrow> addr option" where
  "proxy_find_certset py name h = (case name of None \<Rightarrow> Some NULL | Some s \<Rightarrow>
     if py = NULL then Some NULL else do { p \<leftarrow> proxies h py; find_first (cert_name h) s (py_certlist p) })"

definition proxy_find_listener :: "addr \<Rightarrow> string option \<Rightarrow> 'a py_heap_scheme \<Rightarrow> addr option" where
  "proxy_find_listener py name h = (case name of None \<Rightarrow> Some NULL | Some s \<Rightarrow>
     if py = NULL then Some NULL else do { p \<leftarrow> proxies h py; find_last (ltn_name h) s (py_ltnlist p) NULL })"

definition proxy_find_svrpool :: "addr \<Rightarrow> string option \<Rightarrow> 'a py_heap_scheme \<Rightarrow> addr option" where
  "proxy_find_svrpool py name h = (case name of None \<Rightarrow> Some NULL | Some s \<Rightarrow>
     if py = NULL then Some NULL else do { p \<leftarrow> proxies h py; find_last (pool_name h) s (py_splist p) NULL })"

definition proxy_find_policy :: "addr \<Rightarrow> string option \<Rightarrow> 'a py_heap_scheme \<Rightarrow> addr option" where
  "proxy_find_policy py name h = (case name of None \<Rightarrow> Some NULL | Some s \<Rightarrow>
     if py = NULL then Some NULL else do { p \<leftarrow> proxies h py; find_last (plc_name h) s (py_pllist p) NULL })"

subsection \<open>Searching lists of live objects with different names\<close>

text \<open>Over live members both searches return, and what they return tells whether the name is taken.\<close>

lemma find_first_live:
  assumes "\<forall>a\<in>set as. nm a \<noteq> None" and "NULL \<notin> set as"
  shows "\<exists>r. find_first nm s as = Some r \<and> (r = NULL \<longleftrightarrow> (\<forall>a\<in>set as. nm a \<noteq> Some s)) \<and> (r \<noteq> NULL \<longrightarrow> r \<in> set as \<and> nm r = Some s)"
  using assms
proof (induction as)
  case (Cons a as)
  obtain n where "nm a = Some n" using Cons.prems(1) by auto
  then show ?case using Cons by (cases "n = s") auto
qed auto

lemma find_last_live:
  assumes "\<forall>a\<in>set as. nm a \<noteq> None" and "NULL \<notin> set as" and "r0 = NULL \<or> nm r0 = Some s"
  shows "\<exists>r. find_last nm s as r0 = Some r \<and> (r = NULL \<longleftrightarrow> r0 = NULL \<and> (\<forall>a\<in>set as. nm a \<noteq> Some s)) \<and>
    (r \<noteq> NULL \<longrightarrow> (r = r0 \<or> r \<in> set as) \<and> nm r = Some s)"
  using assms
proof (induction as arbitrary: r0)
  case (Cons a as)
  obtain n where n: "nm a = Some n" using Cons.prems(1) by auto
  have "(if n = s then a else r0) = NULL \<or> nm (if n = s then a else r0) = Some s" using Cons.prems(3) n by auto
  from Cons.IH [OF _ _ this] Cons.prems n show ?case by (auto split: if_splits)
qed auto

end
