(* ===== verification/Proxy_config.thy ===== *)
theory Proxy_config
  imports Proxy
begin

text \<open>
  The configuration file, \<^verbatim>\<open>network/proxy/utils/proxy_config.c\<close>: sections of keywords with arguments that
  build the objects of the proxy.  Error messages and the line numbers in them are left out.
\<close>

datatype cfg_section = CFG_PROXY | CFG_CERTSET | CFG_LISTENER | CFG_SVRPOOL | CFG_POLICY

text \<open>The pointer to a member \<^verbatim>\<open>cfg\<close> is the address of the object it belongs to.\<close>

record cfg_pctx =
  pc_section :: cfg_section
  pc_lineno :: int
  pc_cfg :: addr

definition PATH_MAX :: nat where "PATH_MAX = 4096"

text \<open>Copying a string into an array of \<open>n\<close> characters.\<close>

definition strcpy_to :: "nat \<Rightarrow> string \<Rightarrow> string option" where
  "strcpy_to n s = (if length s < n then Some s else None)"

definition cfg_atoi :: "string option \<Rightarrow> int" where
  "cfg_atoi str = (case str of None \<Rightarrow> - 1 | Some s \<Rightarrow>
     let p = (if s \<noteq> [] \<and> (hd s = CHR ''-'' \<or> hd s = CHR ''+'') then tl s else s);
         p = dropWhile isdigit p
     in if p \<noteq> [] then - 1 else atoi s)"

subsection \<open>Checking a section that ends\<close>

definition cfg_check_proxy :: "addr \<Rightarrow> int" where
  "cfg_check_proxy a = (if a = NULL then - 1 else 0)"

definition cfg_check_certset :: "addr \<Rightarrow> 'a py_heap_scheme \<Rightarrow> int option" where
  "cfg_check_certset a h = (if a = NULL then Some (- 1) else do {
     c \<leftarrow> certsets h a;
     if cs_name c = [] then Some (- 1)
     else case cs_type c of
       CERT_X509 \<Rightarrow> if cs_cert c = [] then Some (- 1) else if cs_pkey c = [] then Some (- 1) else Some 0
     | CERT_PKCS12 \<Rightarrow> if cs_cert c = [] then Some (- 1) else Some 0 })"

definition cfg_check_listener :: "addr \<Rightarrow> 'a py_heap_scheme \<Rightarrow> int option" where
  "cfg_check_listener a h = (if a = NULL then Some (- 1) else do {
     l \<leftarrow> listeners h a;
     if lt_name l = [] then Some (- 1)
     else if family (lt_address l) = 0 then Some (- 1)
     else if lt_ssl l \<noteq> 0 \<and> lt_cert l = NULL then Some (- 1)
     else Some 0 })"

definition cfg_check_svrpool :: "addr \<Rightarrow> 'a py_heap_scheme \<Rightarrow> int option" where
  "cfg_check_svrpool a h = (if a = NULL then Some (- 1) else do {
     s \<leftarrow> svrpools h a;
     if sp_name s = [] then Some (- 1) else if sp_nserver s < 1 then Some (- 1) else Some 0 })"

definition cfg_check_policy :: "addr \<Rightarrow> 'a py_heap_scheme \<Rightarrow> int option" where
  "cfg_check_policy a h = (if a = NULL then Some (- 1) else do {
     p \<leftarrow> policies h a;
     if pl_name p = [] then Some (- 1)
     else if pl_listener p = NULL then Some (- 1)
     else if pl_svrpool p = NULL then Some (- 1)
     else Some 0 })"

definition cfg_check_section :: "cfg_pctx \<Rightarrow> 'a py_heap_scheme \<Rightarrow> int option" where
  "cfg_check_section pc h = (case pc_section pc of
     CFG_PROXY \<Rightarrow> Some (cfg_check_proxy (pc_cfg pc))
   | CFG_CERTSET \<Rightarrow> cfg_check_certset (pc_cfg pc) h
   | CFG_LISTENER \<Rightarrow> cfg_check_listener (pc_cfg pc) h
   | CFG_SVRPOOL \<Rightarrow> cfg_check_svrpool (pc_cfg pc) h
   | CFG_POLICY \<Rightarrow> cfg_check_policy (pc_cfg pc) h)"

subsection \<open>The keywords of the proxy section\<close>

text \<open>The three kinds of arguments: a number in a range, \<^verbatim>\<open>yes\<close> or \<^verbatim>\<open>no\<close>, one of several words.\<close>

definition num_arg :: "string list \<Rightarrow> int \<Rightarrow> int \<Rightarrow> int option" where
  "num_arg args lo hi = (if length args \<noteq> 1 then None
     else let val = cfg_atoi (Some (args ! 0)) in if val < lo \<or> val > hi then None else Some val)"

definition yes_no :: "string list \<Rightarrow> int option" where
  "yes_no args = (if length args \<noteq> 1 then None
     else if args ! 0 = ''yes'' then Some 1 else if args ! 0 = ''no'' then Some 0 else None)"

definition word_arg :: "string list \<Rightarrow> (string \<times> 'v) list \<Rightarrow> 'v option" where
  "word_arg args tab = (if length args \<noteq> 1 then None else map_of tab (args ! 0))"

text \<open>The new configuration, or nothing when the line is refused.\<close>

definition proxy_keyword :: "string \<Rightarrow> string list \<Rightarrow> proxy_cfg \<Rightarrow> proxy_cfg option" where
  "proxy_keyword kw args c =
    (if kw = ''worker'' then map_option (\<lambda>v. c\<lparr>nworker := v\<rparr>) (num_arg args 1 40)
     else if kw = ''nice'' then map_option (\<lambda>v. c\<lparr>nice := v\<rparr>) (num_arg args (- 20) 19)
     else if kw = ''naccept'' then map_option (\<lambda>v. c\<lparr>naccept := v\<rparr>) (num_arg args 1 16)
     else if kw = ''use_splice'' then map_option (\<lambda>v. c\<lparr>use_splice := v\<rparr>) (yes_no args)
     else if kw = ''use_nbsplice'' then map_option (\<lambda>v. c\<lparr>use_nbsplice := v\<rparr>) (yes_no args)
     else if kw = ''maxconn'' then map_option (\<lambda>v. c\<lparr>maxconn := v\<rparr>) (num_arg args 1 5000000)
     else if kw = ''bind_cpu'' then map_option (\<lambda>v. c\<lparr>bind_cpu := v\<rparr>) (yes_no args)
     else if kw = ''bind_cpu_algo'' then map_option (\<lambda>v. c\<lparr>bind_cpu_algo := v\<rparr>)
       (word_arg args [(''rr'', THREAD_BIND_RR), (''odd'', THREAD_BIND_ODD), (''even'', THREAD_BIND_EVEN)])
     else if kw = ''bind_cpu_ht'' then map_option (\<lambda>v. c\<lparr>bind_cpu_ht := v\<rparr>)
       (word_arg args [(''low'', THREAD_HT_LOW), (''high'', THREAD_HT_HIGH), (''full'', THREAD_HT_FULL)])
     else if kw = ''debug'' then map_option (\<lambda>v. c\<lparr>debug := v\<rparr>) (num_arg args 0 7)
     else if kw = ''flow'' then map_option (\<lambda>v. c\<lparr>flow := v\<rparr>) (num_arg args 0 7)
     else if kw = ''http'' then map_option (\<lambda>v. c\<lparr>http := v\<rparr>) (num_arg args 0 7)
     else if kw = ''timestamp'' then map_option (\<lambda>v. c\<lparr>timestamp := v\<rparr>) (yes_no args)
     else None)"

definition cfg_parse_proxy ::
  "cfg_pctx \<Rightarrow> addr \<Rightarrow> string \<Rightarrow> string list \<Rightarrow> 'a py_heap_scheme \<Rightarrow> (int \<times> 'a py_heap_scheme) option" where
  "cfg_parse_proxy pc py kw args h = (if pc_cfg pc = NULL then Some (- 1, h) else do {
     p \<leftarrow> proxies h (pc_cfg pc);
     case proxy_keyword kw args (py_cfg p) of
       None \<Rightarrow> Some (- 1, h)
     | Some c \<Rightarrow> Some (0, h\<lparr>proxies := (proxies h)(pc_cfg pc \<mapsto> p\<lparr>py_cfg := c\<rparr>)\<rparr>) })"

subsection \<open>The keywords of a certificate set\<close>

text \<open>\<open>m\<close> is what \<^verbatim>\<open>calloc\<close> returns for a certificate.\<close>

definition set_cert :: "addr \<Rightarrow> (certset \<Rightarrow> certset) \<Rightarrow> 'a py_heap_scheme \<Rightarrow> (int \<times> 'a py_heap_scheme) option" where
  "set_cert a f h = do { c \<leftarrow> certsets h a; Some (0, h\<lparr>certsets := (certsets h)(a \<mapsto> f c)\<rparr>) }"

definition cfg_parse_certset ::
  "addr \<Rightarrow> cfg_pctx \<Rightarrow> addr \<Rightarrow> string \<Rightarrow> string list \<Rightarrow> 'a py_heap_scheme \<Rightarrow> (int \<times> 'a py_heap_scheme) option" where
  "cfg_parse_certset m pc py kw args h = do {
     let a = pc_cfg pc;
     c \<leftarrow> certsets h a;
     if kw = ''name'' then
       if length args \<noteq> 1 then Some (- 1, h)
       else if length (args ! 0) \<ge> MAX_NAME then Some (- 1, h)
       else if cs_name c \<noteq> [] then Some (- 1, h)
       else do {
         r \<leftarrow> proxy_find_certset py (Some (args ! 0)) h;
         if r \<noteq> NULL then Some (- 1, h)
         else do { s \<leftarrow> strcpy_to MAX_NAME (args ! 0); set_cert a (\<lambda>c. c\<lparr>cs_name := s\<rparr>) h } }
     else if kw = ''domain'' then
       if length args \<noteq> 1 then Some (- 1, h)
       else if length (args ! 0) \<ge> MAX_NAME then Some (- 1, h)
       else if cs_domain c \<noteq> [] then Some (- 1, h)
       else do { s \<leftarrow> strcpy_to MAX_NAME (args ! 0); set_cert a (\<lambda>c. c\<lparr>cs_domain := s\<rparr>) h }
     else if kw = ''certificate'' then
       if length args \<noteq> 1 then Some (- 1, h)
       else if cs_type c = CERT_PKCS12 then Some (- 1, h)
       else if cs_cert c \<noteq> [] then Some (- 1, h)
       else do { s \<leftarrow> strcpy_to PATH_MAX (args ! 0); set_cert a (\<lambda>c. c\<lparr>cs_cert := s\<rparr>) h }
     else if kw = ''privatekey'' then
       if length args \<noteq> 1 then Some (- 1, h)
       else if cs_type c = CERT_PKCS12 then Some (- 1, h)
       else if cs_pkey c \<noteq> [] then Some (- 1, h)
       else do { s \<leftarrow> strcpy_to PATH_MAX (args ! 0); set_cert a (\<lambda>c. c\<lparr>cs_pkey := s\<rparr>) h }
     else if kw = ''pkcs12'' then
       if length args \<noteq> 1 then Some (- 1, h)
       else if cs_type c = CERT_PKCS12 then Some (- 1, h)
       else if cs_cert c \<noteq> [] then Some (- 1, h)
       else if cs_pkey c \<noteq> [] then Some (- 1, h)
       else do { s \<leftarrow> strcpy_to PATH_MAX (args ! 0); set_cert a (\<lambda>c. c\<lparr>cs_cert := s\<rparr>) h }
     else if kw = ''intca'' then
       if length args \<noteq> 1 then Some (- 1, h)
       else do {
         (ca, h) \<leftarrow> cacert_alloc m (Some (args ! 0)) h;
         if ca = NULL then Some (- 1, h)
         else set_cert a (\<lambda>c. c\<lparr>cs_intcalist := cs_intcalist c @ [ca], cs_nintca := cs_nintca c + 1\<rparr>) h }
     else if kw = ''ca'' then
       if length args \<noteq> 1 then Some (- 1, h)
       else do {
         (ca, h) \<leftarrow> cacert_alloc m (Some (args ! 0)) h;
         if ca = NULL then Some (- 1, h)
         else set_cert a (\<lambda>c. c\<lparr>cs_calist := cs_calist c @ [ca], cs_nca := cs_nca c + 1\<rparr>) h }
     else if kw = ''crl'' then
       if length args \<noteq> 1 then Some (- 1, h)
       else if cs_crl c \<noteq> [] then Some (- 1, h)
       else do { s \<leftarrow> strcpy_to PATH_MAX (args ! 0); set_cert a (\<lambda>c. c\<lparr>cs_crl := s\<rparr>) h }
     else Some (- 1, h) }"

subsection \<open>The keywords of a listener\<close>

text \<open>\<open>junk\<close> is what the local variable for the address holds before it is parsed.\<close>

definition set_ltn :: "addr \<Rightarrow> (listener \<Rightarrow> listener) \<Rightarrow> 'a py_heap_scheme \<Rightarrow> (int \<times> 'a py_heap_scheme) option" where
  "set_ltn a f h = do { l \<leftarrow> listeners h a; Some (0, h\<lparr>listeners := (listeners h)(a \<mapsto> f l)\<rparr>) }"

definition cfg_parse_listener ::
  "ip_port \<Rightarrow> cfg_pctx \<Rightarrow> addr \<Rightarrow> string \<Rightarrow> string list \<Rightarrow> 'a py_heap_scheme \<Rightarrow> (int \<times> 'a py_heap_scheme) option" where
  "cfg_parse_listener junk pc py kw args h = do {
     let a = pc_cfg pc;
     l \<leftarrow> listeners h a;
     if kw = ''name'' then
       if length args \<noteq> 1 then Some (- 1, h)
       else if length (args ! 0) \<ge> MAX_NAME then Some (- 1, h)
       else if lt_name l \<noteq> [] then Some (- 1, h)
       else do {
         r \<leftarrow> proxy_find_listener py (Some (args ! 0)) h;
         if r \<noteq> NULL then Some (- 1, h)
         else do { s \<leftarrow> strcpy_to MAX_NAME (args ! 0); set_ltn a (\<lambda>l. l\<lparr>lt_name := s\<rparr>) h } }
     else if kw = ''address'' then
       if length args \<noteq> 1 then Some (- 1, h)
       else do {
         (r, ip) \<leftarrow> ip_port_from_str (Some junk) (Some (args ! 0));
         if r \<noteq> 0 then Some (- 1, h) else set_ltn a (\<lambda>l. l\<lparr>lt_address := the ip\<rparr>) h }
     else if kw = ''ssl'' then
       (case yes_no args of None \<Rightarrow> Some (- 1, h) | Some v \<Rightarrow> set_ltn a (\<lambda>l. l\<lparr>lt_ssl := v\<rparr>) h)
     else if kw = ''certset'' then
       if length args \<noteq> 1 then Some (- 1, h)
       else if length (args ! 0) \<ge> PATH_MAX then Some (- 1, h)
       else do {
         c \<leftarrow> proxy_find_certset py (Some (args ! 0)) h;
         if c = NULL then Some (- 1, h)
         else do { (c, h) \<leftarrow> certset_clone c h; set_ltn a (\<lambda>l. l\<lparr>lt_cert := c\<rparr>) h } }
     else Some (- 1, h) }"

subsection \<open>The keywords of a server pool\<close>

definition set_pool :: "addr \<Rightarrow> (svrpool \<Rightarrow> svrpool) \<Rightarrow> 'a py_heap_scheme \<Rightarrow> (int \<times> 'a py_heap_scheme) option" where
  "set_pool a f h = do { s \<leftarrow> svrpools h a; Some (0, h\<lparr>svrpools := (svrpools h)(a \<mapsto> f s)\<rparr>) }"

definition cfg_parse_server ::
  "addr \<Rightarrow> ip_port \<Rightarrow> addr \<Rightarrow> string list \<Rightarrow> 'a py_heap_scheme \<Rightarrow> (int \<times> 'a py_heap_scheme) option" where
  "cfg_parse_server m junk a args h =
    (if length args \<noteq> 3 then Some (- 1, h)
     else let val = cfg_atoi (Some (args ! 0)) in
       if val < 1 \<or> val \<ge> 100 then Some (- 1, h)
       else case map_of [(''http'', 0), (''https'', 1)] (args ! 1) of
         None \<Rightarrow> Some (- 1, h)
       | Some ssl \<Rightarrow> do {
           (r, ip) \<leftarrow> ip_port_from_str (Some junk) (Some (args ! 2));
           if r \<noteq> 0 then Some (- 1, h)
           else do {
             (s, h) \<leftarrow> Some (server_alloc m h);
             if s = NULL then Some (- 1, h)
             else do {
               v \<leftarrow> servers h s;
               let h = h\<lparr>servers := (servers h)(s \<mapsto> v\<lparr>sv_ssl := ssl, sv_weight := val, sv_address := the ip\<rparr>)\<rparr>;
               set_pool a (\<lambda>p. p\<lparr>sp_svrlist := sp_svrlist p @ [s], sp_nserver := sp_nserver p + 1\<rparr>) h } } })"

definition cfg_parse_svrpool ::
  "addr \<Rightarrow> ip_port \<Rightarrow> cfg_pctx \<Rightarrow> addr \<Rightarrow> string \<Rightarrow> string list \<Rightarrow> 'a py_heap_scheme \<Rightarrow> (int \<times> 'a py_heap_scheme) option" where
  "cfg_parse_svrpool m junk pc py kw args h = (if pc_cfg pc = NULL then Some (- 1, h) else do {
     let a = pc_cfg pc;
     p \<leftarrow> svrpools h a;
     if kw = ''name'' then
       if length args \<noteq> 1 then Some (- 1, h)
       else if sp_name p \<noteq> [] then Some (- 1, h)
       else do {
         r \<leftarrow> proxy_find_svrpool py (Some (args ! 0)) h;
         if r \<noteq> NULL then Some (- 1, h)
         else if length (args ! 0) \<ge> MAX_NAME then Some (- 1, h)
         else do { s \<leftarrow> strcpy_to MAX_NAME (args ! 0); set_pool a (\<lambda>p. p\<lparr>sp_name := s\<rparr>) h } }
     else if kw = ''algo'' then
       (case word_arg args [(''rr'', SP_ALGO_RR), (''wrr'', SP_ALGO_WRR), (''lc'', SP_ALGO_LC), (''hash'', SP_ALGO_HASH)] of
          None \<Rightarrow> Some (- 1, h) | Some v \<Rightarrow> set_pool a (\<lambda>p. p\<lparr>sp_algo := v\<rparr>) h)
     else if kw = ''server'' then cfg_parse_server m junk a args h
     else Some (- 1, h) })"

subsection \<open>The keywords of a policy\<close>

definition set_plc :: "addr \<Rightarrow> (policy \<Rightarrow> policy) \<Rightarrow> 'a py_heap_scheme \<Rightarrow> (int \<times> 'a py_heap_scheme) option" where
  "set_plc a f h = do { p \<leftarrow> policies h a; Some (0, h\<lparr>policies := (policies h)(a \<mapsto> f p)\<rparr>) }"

text \<open>Whether a policy of the list uses the listener.\<close>

fun listener_used :: "'a py_heap_scheme \<Rightarrow> addr \<Rightarrow> addr list \<Rightarrow> bool option" where
  "listener_used h l [] = Some False"
| "listener_used h l (a # as) = do { p \<leftarrow> policies h a; if pl_listener p = l then Some True else listener_used h l as }"

definition cfg_parse_policy ::
  "cfg_pctx \<Rightarrow> addr \<Rightarrow> string \<Rightarrow> string list \<Rightarrow> 'a py_heap_scheme \<Rightarrow> (int \<times> 'a py_heap_scheme) option" where
  "cfg_parse_policy pc py kw args h = do {
     let a = pc_cfg pc;
     p \<leftarrow> policies h a;
     if kw = ''name'' then
       if length args \<noteq> 1 then Some (- 1, h)
       else if length (args ! 0) \<ge> MAX_NAME then Some (- 1, h)
       else if pl_name p \<noteq> [] then Some (- 1, h)
       else do {
         r \<leftarrow> proxy_find_policy py (Some (args ! 0)) h;
         if r \<noteq> NULL then Some (- 1, h)
         else do { s \<leftarrow> strcpy_to MAX_NAME (args ! 0); set_plc a (\<lambda>p. p\<lparr>pl_name := s\<rparr>) h } }
     else if kw = ''mode'' then
       (case word_arg args [(''reverse'', PL_MODE_REVERSE), (''trapt'', PL_MODE_TRAPT), (''tproxy'', PL_MODE_TPROXY)] of
          None \<Rightarrow> Some (- 1, h) | Some v \<Rightarrow> set_plc a (\<lambda>p. p\<lparr>pl_mode := v\<rparr>) h)
     else if kw = ''listener'' then
       if length args \<noteq> 1 then Some (- 1, h)
       else do {
         l \<leftarrow> proxy_find_listener py (Some (args ! 0)) h;
         if l = NULL then Some (- 1, h)
         else do {
           P \<leftarrow> proxies h py;
           used \<leftarrow> listener_used h l (py_pllist P);
           if used then Some (- 1, h)
           else do { (l, h) \<leftarrow> listener_clone l h; set_plc a (\<lambda>p. p\<lparr>pl_listener := l\<rparr>) h } } }
     else if kw = ''svrpool'' then
       if length args \<noteq> 1 then Some (- 1, h)
       else do {
         s \<leftarrow> proxy_find_svrpool py (Some (args ! 0)) h;
         if s = NULL then Some (- 1, h)
         else do { (s, h) \<leftarrow> svrpool_clone s h; set_plc a (\<lambda>p. p\<lparr>pl_svrpool := s\<rparr>) h } }
     else Some (- 1, h) }"

subsection \<open>One line\<close>

text \<open>
  A section that begins: the previous one is checked, a new object is allocated and added to the proxy, and
  freed again when the proxy has no room.
\<close>

definition begin_section ::
  "(addr \<Rightarrow> 'a py_heap_scheme \<Rightarrow> addr \<times> 'a py_heap_scheme) \<Rightarrow>
   (addr \<Rightarrow> addr \<Rightarrow> 'a py_heap_scheme \<Rightarrow> (int \<times> 'a py_heap_scheme) option) \<Rightarrow>
   (addr \<Rightarrow> 'a py_heap_scheme \<Rightarrow> (int \<times> 'a py_heap_scheme) option) \<Rightarrow> cfg_section \<Rightarrow> addr \<Rightarrow> cfg_pctx \<Rightarrow> addr \<Rightarrow>
   'a py_heap_scheme \<Rightarrow> (int \<times> cfg_pctx \<times> 'a py_heap_scheme) option" where
  "begin_section alloc add free sec m pc py h = do {
     r \<leftarrow> cfg_check_section pc h;
     if r \<noteq> 0 then Some (- 1, pc, h)
     else do {
       (a, h) \<leftarrow> Some (alloc m h);
       if a = NULL then Some (- 1, pc, h)
       else do {
         (r, h) \<leftarrow> add py a h;
         if r \<noteq> 0 then do { (x, h) \<leftarrow> free a h; Some (- 1, pc, h) }
         else Some (0, pc\<lparr>pc_section := sec, pc_cfg := a\<rparr>, h) } } }"

definition cfg_parse_line ::
  "addr \<Rightarrow> ip_port \<Rightarrow> cfg_pctx \<Rightarrow> addr \<Rightarrow> string \<Rightarrow> string list \<Rightarrow> 'a py_heap_scheme \<Rightarrow> (int \<times> cfg_pctx \<times> 'a py_heap_scheme) option" where
  "cfg_parse_line m junk pc py kw args h =
    (if py = NULL then Some (- 1, pc, h)
     else if pc_cfg pc = NULL then Some (- 1, pc, h)
     else if kw = ''[proxy]'' then do {
       r \<leftarrow> cfg_check_section pc h;
       if r \<noteq> 0 then Some (- 1, pc, h) else Some (0, pc\<lparr>pc_section := CFG_PROXY, pc_cfg := py\<rparr>, h) }
     else if kw = ''[certset]'' then begin_section certset_alloc proxy_add_certset certset_free CFG_CERTSET m pc py h
     else if kw = ''[listener]'' then begin_section listener_alloc proxy_add_listener listener_free CFG_LISTENER m pc py h
     else if kw = ''[svrpool]'' then begin_section svrpool_alloc proxy_add_svrpool svrpool_free CFG_SVRPOOL m pc py h
     else if kw = ''[policy]'' then begin_section policy_alloc proxy_add_policy policy_free CFG_POLICY m pc py h
     else do {
       (r, h) \<leftarrow> (case pc_section pc of
           CFG_PROXY \<Rightarrow> cfg_parse_proxy pc py kw args h
         | CFG_CERTSET \<Rightarrow> cfg_parse_certset m pc py kw args h
         | CFG_LISTENER \<Rightarrow> cfg_parse_listener junk pc py kw args h
         | CFG_SVRPOOL \<Rightarrow> cfg_parse_svrpool m junk pc py kw args h
         | CFG_POLICY \<Rightarrow> cfg_parse_policy pc py kw args h);
       Some (r, pc, h) })"

subsection \<open>The file\<close>

definition NL :: char where "NL = CHR 0x0A"
definition NUL :: char where "NUL = CHR 0x00"

definition is_delim :: "char \<Rightarrow> bool" where
  "is_delim c \<longleftrightarrow> c = CHR '' '' \<or> c = CHR 0x09"

text \<open>\<^verbatim>\<open>fgets\<close> with room for \<open>n\<close> characters besides the terminator: the characters read and the rest of the file.\<close>

fun fgets :: "nat \<Rightarrow> string \<Rightarrow> string \<times> string" where
  "fgets 0 s = ([], s)"
| "fgets (Suc n) [] = ([], [])"
| "fgets (Suc n) (c # s) = (if c = NL then ([c], s) else case fgets n s of (l, r) \<Rightarrow> (c # l, r))"

text \<open>\<^verbatim>\<open>strtok_r\<close>: the next token and the string it continues with.\<close>

definition strtok_r :: "string \<Rightarrow> string option \<times> string" where
  "strtok_r s = (let s = dropWhile is_delim s in
     if s = [] then (None, []) else (Some (takeWhile (\<lambda>c. \<not> is_delim c) s), tl (dropWhile (\<lambda>c. \<not> is_delim c) s)))"

text \<open>At most \<open>n\<close> arguments, up to the end of the line or a comment.\<close>

fun get_args :: "nat \<Rightarrow> string \<Rightarrow> string list" where
  "get_args 0 s = []"
| "get_args (Suc n) s = (case strtok_r s of
     (None, r) \<Rightarrow> [] | (Some a, r) \<Rightarrow> if hd a = CHR ''#'' then [] else a # get_args n r)"

text \<open>The characters of the array up to the terminator, without the final newline; a line that begins with a
  terminator is read and written before the array.\<close>

definition chomp :: "string \<Rightarrow> string option" where
  "chomp l = (let s = takeWhile (\<lambda>c. c \<noteq> NUL) l in
     if s = [] then None else Some (if last s = NL then butlast s else s))"

text \<open>The environment answers the allocation made in a line and has the junk of its local variable.\<close>

record cfg_env =
  ce_mem :: "nat \<Rightarrow> addr"
  ce_junk :: "nat \<Rightarrow> ip_port"

lemma fgets_rest_le: "length (snd (fgets n s)) \<le> length s"
  by (induction n s rule: fgets.induct) (auto split: prod.splits)

lemma fgets_rest:
  assumes "fgets n (c # s) = (l, r)" and "0 < n"
  shows "length r < length (c # s)"
proof -
  obtain k where "n = Suc k" using assms(2) by (cases n) auto
  then show ?thesis using fgets_rest_le [of k s] assms(1) by (auto split: if_splits prod.splits)
qed

text \<open>
  The loop over the lines, with the number of lines read so far.  The second result tells whether the file is
  still open on return.
\<close>

function cfg_load_lines ::
  "cfg_env \<Rightarrow> nat \<Rightarrow> cfg_pctx \<Rightarrow> addr \<Rightarrow> string \<Rightarrow> 'a py_heap_scheme \<Rightarrow> (int \<times> bool \<times> 'a py_heap_scheme) option" where
  "cfg_load_lines e i pc py [] h = do {
     r \<leftarrow> cfg_check_section pc h;
     if r \<noteq> 0 then Some (- 1, True, h) else Some (0, False, h) }"
| "cfg_load_lines e i pc py (c # cs) h = (case fgets 1023 (c # cs) of (l, rest) \<Rightarrow>
     let buf = l @ replicate (1024 - length l) NUL in
     if buf ! 1023 \<noteq> NL \<and> buf ! 1023 \<noteq> NUL then Some (- 1, False, h)
     else case chomp l of None \<Rightarrow> None | Some s \<Rightarrow>
       (case strtok_r s of
          (None, _) \<Rightarrow> cfg_load_lines e (i + 1) pc py rest h
        | (Some kw, s) \<Rightarrow>
            if hd kw = CHR ''#'' then cfg_load_lines e (i + 1) pc py rest h
            else let args = get_args 4 s in
              if length args \<ge> 4 then Some (- 1, False, h)
              else case cfg_parse_line (ce_mem e i) (ce_junk e i) pc py kw args h of
                None \<Rightarrow> None
              | Some (r, pc, h) \<Rightarrow>
                  if r \<noteq> 0 then Some (- 1, False, h)
                  else cfg_load_lines e (i + 1) (pc\<lparr>pc_lineno := pc_lineno pc + 1\<rparr>) py rest h))"
  by pat_completeness auto
termination
  by (relation "measure (\<lambda>(e, i, pc, py, s, h). length s)") (auto dest: fgets_rest [OF sym] fgets_rest)

text \<open>\<open>file\<close> is the contents of the file, nothing when it cannot be opened.\<close>

definition cfg_load_file :: "cfg_env \<Rightarrow> addr \<Rightarrow> string option \<Rightarrow> 'a py_heap_scheme \<Rightarrow> (int \<times> bool \<times> 'a py_heap_scheme) option" where
  "cfg_load_file e py file h = (case file of None \<Rightarrow> Some (- 1, False, h)
     | Some s \<Rightarrow> cfg_load_lines e 0 \<lparr>pc_section = CFG_PROXY, pc_lineno = 1, pc_cfg = py\<rparr> py s h)"

end
