(* ===== verification/Proxy_config_Correct.thy ===== *)
theory Proxy_config_Correct
  imports Proxy_config "HOL-Library.Sublist"
begin

text \<open>
  What loading a configuration file guarantees: every object the proxy has afterwards is live and complete,
  names identify objects, policies refer to objects of the proxy and hold references to them, and
  no array is overrun on the way.
\<close>

subsection \<open>Lists of objects with names\<close>

text \<open>Two members never have the same name; a member may have none yet.\<close>

definition named :: "('a \<Rightarrow> string) \<Rightarrow> (addr \<rightharpoonup> 'a) \<Rightarrow> addr list \<Rightarrow> bool" where
  "named nm M as \<longleftrightarrow> distinct as \<and> NULL \<notin> set as \<and> set as \<subseteq> dom M \<and> (\<forall>a\<in>set as. length (nm (the (M a))) < MAX_NAME) \<and>
     (\<forall>a\<in>set as. \<forall>b\<in>set as. a \<noteq> b \<longrightarrow> nm (the (M a)) = nm (the (M b)) \<longrightarrow> nm (the (M a)) = [])"

lemma named_same: "named nm M as \<Longrightarrow> M a = Some x \<Longrightarrow> nm y = nm x \<Longrightarrow> named nm (M(a \<mapsto> y)) as"
  unfolding named_def by (auto simp: fun_upd_def) fastforce

lemma named_new: "named nm M as \<Longrightarrow> M a = None \<Longrightarrow> named nm (M(a \<mapsto> y)) as"
  unfolding named_def by (auto simp: fun_upd_def dom_def split: if_splits)

lemma named_set:
  assumes "named nm M as" and "a \<in> set as" and "length s < MAX_NAME" and "\<forall>b\<in>set as. nm (the (M b)) \<noteq> s" and "nm y = s"
  shows "named nm (M(a \<mapsto> y)) as"
  using assms unfolding named_def by (auto simp: fun_upd_def)

lemma named_add:
  assumes "named nm M as" and "M a = None" and "a \<noteq> NULL" and "nm y = []"
  shows "named nm (M(a \<mapsto> y)) (as @ [a])"
proof -
  have "a \<notin> set as" using assms(1,2) by (auto simp: named_def)
  then show ?thesis using assms unfolding named_def by (auto simp: fun_upd_def MAX_NAME_def)
qed

lemma named_live: "named nm M as \<Longrightarrow> a \<in> set as \<Longrightarrow> \<exists>x. M a = Some x"
  by (auto simp: named_def)

text \<open>
  The contract of a list of named objects: \<open>members\<close> of a proxy, and \<open>find\<close> by name.
\<close>

locale registry =
  fixes nm :: "'a \<Rightarrow> string"
    and objs :: "'h \<Rightarrow> addr \<rightharpoonup> 'a"
    and members :: "'h \<Rightarrow> addr \<rightharpoonup> addr list"
    and find :: "addr \<Rightarrow> string option \<Rightarrow> 'h \<Rightarrow> addr option"
  assumes find_live: "py \<noteq> NULL \<Longrightarrow> members h py = Some as \<Longrightarrow> named nm (objs h) as \<Longrightarrow>
    \<exists>r. find py (Some s) h = Some r \<and> (r = NULL \<longleftrightarrow> (\<forall>a\<in>set as. nm (the (objs h a)) \<noteq> s)) \<and>
      (r \<noteq> NULL \<longrightarrow> r \<in> set as \<and> nm (the (objs h r)) = s)"
begin

lemma find_wp:
  assumes "py \<noteq> NULL" and "members h py = Some as" and "named nm (objs h) as"
  shows "wp c (\<lambda>r. (r = NULL \<longrightarrow> (\<forall>a\<in>set as. nm (the (objs h a)) \<noteq> s)) \<and> (r \<noteq> NULL \<longrightarrow> r \<in> set as \<and> (\<exists>x. objs h r = Some x)))
    (find py (Some s) h)"
  using find_live [OF assms, of s] named_live [OF assms(3)] by (auto simp: wp_def post_def)

text \<open>A name belongs to one member, and this is the one found.\<close>

lemma find_unique:
  assumes "py \<noteq> NULL" and "members h py = Some as" and "named nm (objs h) as" and "s \<noteq> []" and "a \<in> set as" and "nm (the (objs h a)) = s"
  shows "find py (Some s) h = Some a"
proof -
  obtain r where r: "find py (Some s) h = Some r" "r \<noteq> NULL" "r \<in> set as" "nm (the (objs h r)) = s"
    using find_live [OF assms(1-3), of s] assms(5,6) by auto
  have "r = a" using assms(3-6) r(3,4) unfolding named_def by (metis)
  then show ?thesis using r(1) by simp
qed

end

lemma names_live:
  assumes "named nm M as"
  shows "\<forall>a\<in>set as. map_option nm (M a) \<noteq> None" "NULL \<notin> set as"
    and "(\<forall>a\<in>set as. map_option nm (M a) \<noteq> Some s) \<longleftrightarrow> (\<forall>a\<in>set as. nm (the (M a)) \<noteq> s)"
  using assms by (auto simp: named_def) force

interpretation cert_reg: registry cs_name certsets "\<lambda>h py. map_option py_certlist (proxies h py)" proxy_find_certset
proof
  fix py s and h :: "'a py_heap_scheme" and as
  assume a: "py \<noteq> NULL" "map_option py_certlist (proxies h py) = Some as" "named cs_name (certsets h) as"
  note n = names_live [OF a(3)]
  show "\<exists>r. proxy_find_certset py (Some s) h = Some r \<and> (r = NULL \<longleftrightarrow> (\<forall>a\<in>set as. cs_name (the (certsets h a)) \<noteq> s)) \<and>
      (r \<noteq> NULL \<longrightarrow> r \<in> set as \<and> cs_name (the (certsets h r)) = s)"
    using find_first_live [of as "cert_name h" s] n a by (auto simp: proxy_find_certset_def cert_name_def)
qed

interpretation ltn_reg: registry lt_name listeners "\<lambda>h py. map_option py_ltnlist (proxies h py)" proxy_find_listener
proof
  fix py s and h :: "'a py_heap_scheme" and as
  assume a: "py \<noteq> NULL" "map_option py_ltnlist (proxies h py) = Some as" "named lt_name (listeners h) as"
  note n = names_live [OF a(3)]
  show "\<exists>r. proxy_find_listener py (Some s) h = Some r \<and> (r = NULL \<longleftrightarrow> (\<forall>a\<in>set as. lt_name (the (listeners h a)) \<noteq> s)) \<and>
      (r \<noteq> NULL \<longrightarrow> r \<in> set as \<and> lt_name (the (listeners h r)) = s)"
    using find_last_live [of as "ltn_name h" NULL s] n a by (auto simp: proxy_find_listener_def ltn_name_def)
qed

interpretation pool_reg: registry sp_name svrpools "\<lambda>h py. map_option py_splist (proxies h py)" proxy_find_svrpool
proof
  fix py s and h :: "'a py_heap_scheme" and as
  assume a: "py \<noteq> NULL" "map_option py_splist (proxies h py) = Some as" "named sp_name (svrpools h) as"
  note n = names_live [OF a(3)]
  show "\<exists>r. proxy_find_svrpool py (Some s) h = Some r \<and> (r = NULL \<longleftrightarrow> (\<forall>a\<in>set as. sp_name (the (svrpools h a)) \<noteq> s)) \<and>
      (r \<noteq> NULL \<longrightarrow> r \<in> set as \<and> sp_name (the (svrpools h r)) = s)"
    using find_last_live [of as "pool_name h" NULL s] n a by (auto simp: proxy_find_svrpool_def pool_name_def)
qed

interpretation plc_reg: registry pl_name policies "\<lambda>h py. map_option py_pllist (proxies h py)" proxy_find_policy
proof
  fix py s and h :: "'a py_heap_scheme" and as
  assume a: "py \<noteq> NULL" "map_option py_pllist (proxies h py) = Some as" "named pl_name (policies h) as"
  note n = names_live [OF a(3)]
  show "\<exists>r. proxy_find_policy py (Some s) h = Some r \<and> (r = NULL \<longleftrightarrow> (\<forall>a\<in>set as. pl_name (the (policies h a)) \<noteq> s)) \<and>
      (r \<noteq> NULL \<longrightarrow> r \<in> set as \<and> pl_name (the (policies h r)) = s)"
    using find_last_live [of as "plc_name h" NULL s] n a by (auto simp: proxy_find_policy_def plc_name_def)
qed

subsection \<open>References\<close>

text \<open>
  \<open>f\<close> is the object a policy refers to.  An object has at least the references of the policies that refer to it;
  it has more when a keyword was given twice, but never more than \<open>n\<close>.
\<close>

definition uses :: "('p \<Rightarrow> addr) \<Rightarrow> (addr \<rightharpoonup> 'p) \<Rightarrow> addr list \<Rightarrow> addr \<Rightarrow> nat" where
  "uses f M ps x = length (filter (\<lambda>a. f (the (M a)) = x) ps)"

definition refs :: "nat \<Rightarrow> ('p \<Rightarrow> addr) \<Rightarrow> (addr \<rightharpoonup> 'p) \<Rightarrow> addr list \<Rightarrow> ('t \<Rightarrow> u32) \<Rightarrow> (addr \<rightharpoonup> 't) \<Rightarrow> addr list \<Rightarrow> bool" where
  "refs n f M ps rc L ts \<longleftrightarrow> (\<forall>x\<in>set ts. \<exists>k. rc (the (L x)) = of_nat k \<and> uses f M ps x \<le> k \<and> k \<le> n)"

lemma uses_same: "f y = f (the (M a)) \<Longrightarrow> uses f (M(a \<mapsto> y)) ps x = uses f M ps x"
  by (auto simp: uses_def intro: arg_cong [where f = length] filter_cong)

lemma uses_notin: "a \<notin> set ps \<Longrightarrow> uses f (M(a \<mapsto> y)) ps x = uses f M ps x"
  by (auto simp: uses_def intro!: arg_cong [where f = length] filter_cong)

lemma uses_simps [simp]:
  "uses f M [] x = 0"
  "uses f M (b # ps) x = (if f (the (M b)) = x then 1 else 0) + uses f M ps x"
  "uses f M (ps @ qs) x = uses f M ps x + uses f M qs x"
  by (auto simp: uses_def)

lemma uses_upd: "distinct ps \<Longrightarrow> uses f (M(a \<mapsto> y)) ps x \<le> uses f M ps x + (if f y = x then 1 else 0)"
proof (induction ps)
  case (Cons b ps)
  then show ?case using uses_notin [of a ps f M y x] by (cases "b = a") (auto simp: fun_upd_def)
qed simp

lemma uses_0: "\<forall>p\<in>set ps. f (the (M p)) \<noteq> x \<Longrightarrow> uses f M ps x = 0"
  by (induction ps) auto

lemma refs_mono: "refs n f M ps rc L ts \<Longrightarrow> n \<le> n' \<Longrightarrow> refs n' f M ps rc L ts"
  unfolding refs_def by (meson le_trans)

lemma refs_Suc: "refs n f M ps rc L ts \<Longrightarrow> refs (Suc n) f M ps rc L ts"
  by (erule refs_mono) simp

lemma refs_same: "refs n f M ps rc L ts \<Longrightarrow> f y = f (the (M a)) \<Longrightarrow> refs n f (M(a \<mapsto> y)) ps rc L ts"
  by (simp add: refs_def uses_same)

lemma refs_target: "refs n f M ps rc L ts \<Longrightarrow> rc y = rc (the (L a)) \<Longrightarrow> refs n f M ps rc (L(a \<mapsto> y)) ts"
  by (auto simp: refs_def)

lemma refs_target_new: "refs n f M ps rc L ts \<Longrightarrow> a \<notin> set ts \<Longrightarrow> refs n f M ps rc (L(a \<mapsto> y)) ts"
  unfolding refs_def by (metis fun_upd_other)

lemma refs_new: "refs n f M ps rc L ts \<Longrightarrow> a \<notin> set ps \<Longrightarrow> refs n f (M(a \<mapsto> y)) ps rc L ts"
  by (simp add: refs_def uses_notin)

lemma refs_add_target:
  assumes "refs n f M ps rc L ts" and "\<forall>p\<in>set ps. f (the (M p)) \<noteq> a" and "a \<notin> set ts" and "rc y = 0"
  shows "refs n f M ps rc (L(a \<mapsto> y)) (ts @ [a])"
  using refs_target_new [OF assms(1,3)] uses_0 [OF assms(2)] assms(4) by (auto simp: refs_def intro!: exI [of _ 0])

lemma refs_add: "refs n f M ps rc L ts \<Longrightarrow> a \<notin> set ps \<Longrightarrow> f y \<notin> set ts \<Longrightarrow> refs n f (M(a \<mapsto> y)) (ps @ [a]) rc L ts"
  by (auto simp: refs_def uses_notin)

text \<open>A policy takes a reference.\<close>

lemma refs_take:
  assumes "refs n f M ps rc L ts" and "distinct ps" and "t \<in> set ts" and "rc z = rc (the (L t)) + 1" and "f y = t"
  shows "refs (Suc n) f (M(a \<mapsto> y)) ps rc (L(t \<mapsto> z)) ts"
  unfolding refs_def
proof
  fix x assume x: "x \<in> set ts"
  obtain k where k: "rc (the (L x)) = of_nat k" "uses f M ps x \<le> k" "k \<le> n" using assms(1) x by (auto simp: refs_def)
  show "\<exists>k. rc (the ((L(t \<mapsto> z)) x)) = of_nat k \<and> uses f (M(a \<mapsto> y)) ps x \<le> k \<and> k \<le> Suc n"
  proof (cases "x = t")
    case True
    then show ?thesis using k assms(4) uses_upd [OF assms(2), of f M a y x] by (intro exI [of _ "Suc k"]) (auto split: if_splits)
  next
    case False
    then show ?thesis using k assms(5) uses_upd [OF assms(2), of f M a y x] by (intro exI [of _ k]) auto
  qed
qed

subsection \<open>The state between two lines\<close>

definition cfg_range :: "proxy_cfg \<Rightarrow> bool" where
  "cfg_range c \<longleftrightarrow> nworker c \<in> {1..40} \<and> nice c \<in> {- 20..19} \<and> naccept c \<in> {1..16} \<and> maxconn c \<in> {0..5000000} \<and>
     debug c \<in> {0..7} \<and> flow c \<in> {0..7} \<and> http c \<in> {0..7} \<and> {use_splice c, use_nbsplice c, bind_cpu c, timestamp c} \<subseteq> {0, 1}"

definition counted :: "proxy \<Rightarrow> bool" where
  "counted P \<longleftrightarrow> py_ncert P = int (length (py_certlist P)) \<and> py_ncert P \<le> MAX_CERTSET + 1 \<and>
     py_nlistener P = int (length (py_ltnlist P)) \<and> py_nlistener P \<le> MAX_LISTENER + 1 \<and>
     py_nsvrpool P = int (length (py_splist P)) \<and> py_nsvrpool P \<le> MAX_SVRPOOL + 1 \<and>
     py_npolicy P = int (length (py_pllist P)) \<and> py_npolicy P \<le> MAX_POLICY + 1"

definition cert_inv :: "(addr \<rightharpoonup> certset) \<Rightarrow> addr list \<Rightarrow> bool" where
  "cert_inv M as \<longleftrightarrow> named cs_name M as \<and> (\<forall>a\<in>set as. cs_type (the (M a)) = CERT_X509)"

definition ltn_inv :: "addr list \<Rightarrow> (addr \<rightharpoonup> listener) \<Rightarrow> addr list \<Rightarrow> bool" where
  "ltn_inv cs M as \<longleftrightarrow> named lt_name M as \<and>
     (\<forall>a\<in>set as. lt_ssl (the (M a)) \<in> {0, 1} \<and> lt_cert (the (M a)) \<in> insert NULL (set cs))"

definition svr_ok :: "server \<Rightarrow> bool" where
  "svr_ok v \<longleftrightarrow> sv_weight v \<in> {1..99} \<and> sv_ssl v \<in> {0, 1} \<and> sv_cert v = NULL \<and> sv_refcnt v = 0"

definition pool_inv :: "(addr \<rightharpoonup> server) \<Rightarrow> (addr \<rightharpoonup> svrpool) \<Rightarrow> addr list \<Rightarrow> bool" where
  "pool_inv S M as \<longleftrightarrow> named sp_name M as \<and>
     (\<forall>a\<in>set as. sp_nserver (the (M a)) = int (length (sp_svrlist (the (M a)))) \<and> distinct (sp_svrlist (the (M a))) \<and>
        (\<forall>s\<in>set (sp_svrlist (the (M a))). s \<noteq> NULL \<and> (\<exists>v. S s = Some v \<and> svr_ok v))) \<and>
     (\<forall>a\<in>set as. \<forall>b\<in>set as. a \<noteq> b \<longrightarrow> set (sp_svrlist (the (M a))) \<inter> set (sp_svrlist (the (M b))) = {})"

definition plc_inv :: "addr list \<Rightarrow> addr list \<Rightarrow> (addr \<rightharpoonup> policy) \<Rightarrow> addr list \<Rightarrow> bool" where
  "plc_inv ls ss M as \<longleftrightarrow> named pl_name M as \<and>
     (\<forall>a\<in>set as. pl_listener (the (M a)) \<in> insert NULL (set ls) \<and> pl_svrpool (the (M a)) \<in> insert NULL (set ss) \<and>
        pl_refcnt (the (M a)) = 0 \<and> pl_spdata (the (M a)) = NULL \<and> pl_ltndata (the (M a)) = NULL) \<and>
     (\<forall>a\<in>set as. \<forall>b\<in>set as. a \<noteq> b \<longrightarrow> pl_listener (the (M a)) = pl_listener (the (M b)) \<longrightarrow> pl_listener (the (M a)) = NULL)"

text \<open>What the checks at the end of a section ask for.\<close>

definition cert_done :: "certset \<Rightarrow> bool" where
  "cert_done c \<longleftrightarrow> cs_name c \<noteq> [] \<and> cs_cert c \<noteq> [] \<and> (cs_type c = CERT_X509 \<longrightarrow> cs_pkey c \<noteq> [])"

definition ltn_done :: "listener \<Rightarrow> bool" where
  "ltn_done l \<longleftrightarrow> lt_name l \<noteq> [] \<and> family (lt_address l) \<noteq> 0 \<and> (lt_ssl l \<noteq> 0 \<longrightarrow> lt_cert l \<noteq> NULL)"

definition pool_done :: "svrpool \<Rightarrow> bool" where
  "pool_done s \<longleftrightarrow> sp_name s \<noteq> [] \<and> 1 \<le> sp_nserver s"

definition plc_done :: "policy \<Rightarrow> bool" where
  "plc_done p \<longleftrightarrow> pl_name p \<noteq> [] \<and> pl_listener p \<noteq> NULL \<and> pl_svrpool p \<noteq> NULL"

text \<open>Every object is complete, except the one the current section describes.\<close>

definition complete :: "cfg_section \<Rightarrow> ('a \<Rightarrow> bool) \<Rightarrow> cfg_pctx \<Rightarrow> (addr \<rightharpoonup> 'a) \<Rightarrow> addr list \<Rightarrow> bool" where
  "complete sec D pc M as \<longleftrightarrow> (\<forall>a\<in>set as. pc_section pc = sec \<and> a = pc_cfg pc \<or> D (the (M a)))"

definition at_section :: "cfg_pctx \<Rightarrow> addr \<Rightarrow> proxy \<Rightarrow> bool" where
  "at_section pc py P \<longleftrightarrow> (case pc_section pc of
     CFG_PROXY \<Rightarrow> pc_cfg pc = py
   | CFG_CERTSET \<Rightarrow> pc_cfg pc \<in> set (py_certlist P)
   | CFG_LISTENER \<Rightarrow> pc_cfg pc \<in> set (py_ltnlist P)
   | CFG_SVRPOOL \<Rightarrow> pc_cfg pc \<in> set (py_splist P)
   | CFG_POLICY \<Rightarrow> pc_cfg pc \<in> set (py_pllist P))"

definition cfg_inv :: "nat \<Rightarrow> proxy \<Rightarrow> 'a py_heap_scheme \<Rightarrow> bool" where
  "cfg_inv n P h \<longleftrightarrow> cfg_range (py_cfg P) \<and> counted P \<and> cert_inv (certsets h) (py_certlist P) \<and>
     ltn_inv (py_certlist P) (listeners h) (py_ltnlist P) \<and> pool_inv (servers h) (svrpools h) (py_splist P) \<and>
     plc_inv (py_ltnlist P) (py_splist P) (policies h) (py_pllist P) \<and>
     refs n pl_listener (policies h) (py_pllist P) lt_refcnt (listeners h) (py_ltnlist P) \<and>
     refs n pl_svrpool (policies h) (py_pllist P) sp_refcnt (svrpools h) (py_splist P)"

definition all_complete :: "cfg_pctx \<Rightarrow> proxy \<Rightarrow> 'a py_heap_scheme \<Rightarrow> bool" where
  "all_complete pc P h \<longleftrightarrow> complete CFG_CERTSET cert_done pc (certsets h) (py_certlist P) \<and>
     complete CFG_LISTENER ltn_done pc (listeners h) (py_ltnlist P) \<and>
     complete CFG_SVRPOOL pool_done pc (svrpools h) (py_splist P) \<and> complete CFG_POLICY plc_done pc (policies h) (py_pllist P)"

definition cfg_st :: "nat \<Rightarrow> cfg_pctx \<Rightarrow> addr \<Rightarrow> 'a py_heap_scheme \<Rightarrow> bool" where
  "cfg_st n pc py h \<longleftrightarrow> py \<noteq> NULL \<and> (\<exists>P. proxies h py = Some P \<and> cfg_inv n P h \<and> all_complete pc P h \<and> at_section pc py P)"

text \<open>The addresses in use.\<close>

definition live :: "'a py_heap_scheme \<Rightarrow> addr set" where
  "live h = dom (certsets h) \<union> dom (cacerts h) \<union> dom (servers h) \<union> dom (svrpools h) \<union> dom (listeners h) \<union> dom (policies h) \<union> dom (proxies h)"

lemmas cfg_st_defs = cfg_st_def cfg_inv_def all_complete_def

subsection \<open>Changing one object\<close>

lemma complete_upd:
  "complete sec D pc M as \<Longrightarrow> M a = Some x \<Longrightarrow> pc_section pc = sec \<and> a = pc_cfg pc \<or> D y = D x \<Longrightarrow> complete sec D pc (M(a \<mapsto> y)) as"
  by (auto simp: complete_def)

text \<open>The name of an object stays, or is one that no member has.\<close>

definition name_ok :: "('a \<Rightarrow> string) \<Rightarrow> (addr \<rightharpoonup> 'a) \<Rightarrow> addr list \<Rightarrow> addr \<Rightarrow> string \<Rightarrow> bool" where
  "name_ok nm M as a s \<longleftrightarrow> nm (the (M a)) = s \<or> a \<in> set as \<and> length s < MAX_NAME \<and> (\<forall>b\<in>set as. nm (the (M b)) \<noteq> s)"

lemma named_upd: "named nm M as \<Longrightarrow> M a = Some x \<Longrightarrow> name_ok nm M as a (nm y) \<Longrightarrow> named nm (M(a \<mapsto> y)) as"
  by (auto simp: name_ok_def intro: named_same named_set)

lemma cfg_st_cert:
  assumes "cfg_st n pc py h" and "proxies h py = Some P" and "certsets h a = Some c" and "cs_type y = cs_type c"
    and "name_ok cs_name (certsets h) (py_certlist P) a (cs_name y)"
    and "pc_section pc = CFG_CERTSET \<and> a = pc_cfg pc \<or> cert_done y = cert_done c"
  shows "cfg_st n pc py (h\<lparr>certsets := (certsets h)(a \<mapsto> y)\<rparr>)"
proof -
  have "cert_inv ((certsets h)(a \<mapsto> y)) (py_certlist P)"
    using assms named_upd [of cs_name "certsets h" "py_certlist P" a c y] by (auto simp: cfg_st_defs cert_inv_def)
  moreover have "complete CFG_CERTSET cert_done pc ((certsets h)(a \<mapsto> y)) (py_certlist P)"
    using assms complete_upd [of CFG_CERTSET cert_done pc "certsets h" "py_certlist P" a c y] by (auto simp: cfg_st_defs)
  ultimately show ?thesis using assms(1,2) by (auto simp: cfg_st_defs)
qed

lemma cfg_st_ltn:
  assumes "cfg_st n pc py h" and "proxies h py = Some P" and "listeners h a = Some l" and "lt_refcnt y = lt_refcnt l"
    and "lt_ssl y \<in> {0, 1}" and "lt_cert y \<in> insert NULL (set (py_certlist P))"
    and "name_ok lt_name (listeners h) (py_ltnlist P) a (lt_name y)"
    and "pc_section pc = CFG_LISTENER \<and> a = pc_cfg pc \<or> ltn_done y = ltn_done l"
  shows "cfg_st n pc py (h\<lparr>listeners := (listeners h)(a \<mapsto> y)\<rparr>)"
proof -
  have "ltn_inv (py_certlist P) ((listeners h)(a \<mapsto> y)) (py_ltnlist P)"
    using assms named_upd [of lt_name "listeners h" "py_ltnlist P" a l y] by (auto simp: cfg_st_defs ltn_inv_def)
  moreover have "complete CFG_LISTENER ltn_done pc ((listeners h)(a \<mapsto> y)) (py_ltnlist P)"
    using assms complete_upd [of CFG_LISTENER ltn_done pc "listeners h" "py_ltnlist P" a l y] by (auto simp: cfg_st_defs)
  moreover have "refs n pl_listener (policies h) (py_pllist P) lt_refcnt ((listeners h)(a \<mapsto> y)) (py_ltnlist P)"
    using assms refs_target [of n pl_listener "policies h" "py_pllist P" lt_refcnt "listeners h" "py_ltnlist P" y a]
    by (auto simp: cfg_st_defs)
  ultimately show ?thesis using assms(1,2) by (auto simp: cfg_st_defs)
qed

lemma pool_inv_upd:
  assumes "pool_inv S M as" and "M a = Some p" and "named sp_name (M(a \<mapsto> y)) as"
    and "sp_nserver y = sp_nserver p" and "sp_svrlist y = sp_svrlist p"
  shows "pool_inv S (M(a \<mapsto> y)) as"
proof -
  have same: "sp_svrlist (the ((M(a \<mapsto> y)) b)) = sp_svrlist (the (M b))" "sp_nserver (the ((M(a \<mapsto> y)) b)) = sp_nserver (the (M b))" for b
    using assms by auto
  show ?thesis using assms(1,3) unfolding pool_inv_def same by blast
qed

lemma pool_inv_server:
  assumes "pool_inv S M as" and "M a = Some p" and "a \<in> set as" and "S s = None" and "s \<noteq> NULL" and "svr_ok v" and "sp_name y = sp_name p"
    and "sp_nserver y = sp_nserver p + 1" and "sp_svrlist y = sp_svrlist p @ [s]"
  shows "pool_inv (S(s \<mapsto> v)) (M(a \<mapsto> y)) as"
proof -
  have new: "s \<notin> set (sp_svrlist (the (M b)))" if "b \<in> set as" for b
    using assms(1,4) that by (auto simp: pool_inv_def) fastforce
  have "named sp_name (M(a \<mapsto> y)) as" using assms(1,2,7) by (auto simp: pool_inv_def intro: named_same)
  moreover have "sp_nserver (the ((M(a \<mapsto> y)) b)) = int (length (sp_svrlist (the ((M(a \<mapsto> y)) b)))) \<and>
      distinct (sp_svrlist (the ((M(a \<mapsto> y)) b))) \<and> (\<forall>x\<in>set (sp_svrlist (the ((M(a \<mapsto> y)) b))). x \<noteq> NULL \<and> (\<exists>w. (S(s \<mapsto> v)) x = Some w \<and> svr_ok w))"
    if b: "b \<in> set as" for b
    using assms new [OF b] b by (auto simp: pool_inv_def)
  moreover have "set (sp_svrlist (the ((M(a \<mapsto> y)) b))) \<inter> set (sp_svrlist (the ((M(a \<mapsto> y)) c))) = {}" if "b \<in> set as" "c \<in> set as" "b \<noteq> c" for b c
  proof -
    have "set (sp_svrlist (the (M b))) \<inter> set (sp_svrlist (the (M c))) = {}" using assms(1) that by (auto simp: pool_inv_def)
    then show ?thesis using assms(2,9) new [OF that(1)] new [OF that(2)] that(3) by auto
  qed
  ultimately show ?thesis unfolding pool_inv_def by blast
qed

lemma cfg_st_pool:
  assumes "cfg_st n pc py h" and "proxies h py = Some P" and "svrpools h a = Some p" and "sp_refcnt y = sp_refcnt p"
    and "sp_nserver y = sp_nserver p" and "sp_svrlist y = sp_svrlist p"
    and "name_ok sp_name (svrpools h) (py_splist P) a (sp_name y)"
    and "pc_section pc = CFG_SVRPOOL \<and> a = pc_cfg pc \<or> pool_done y = pool_done p"
  shows "cfg_st n pc py (h\<lparr>svrpools := (svrpools h)(a \<mapsto> y)\<rparr>)"
proof -
  have inv: "pool_inv (servers h) (svrpools h) (py_splist P)" using assms(1,2) by (auto simp: cfg_st_defs)
  then have "named sp_name ((svrpools h)(a \<mapsto> y)) (py_splist P)" using assms(3,7) by (auto simp: pool_inv_def intro: named_upd)
  then have "pool_inv (servers h) ((svrpools h)(a \<mapsto> y)) (py_splist P)" by (rule pool_inv_upd [OF inv assms(3) _ assms(5,6)])
  moreover have "complete CFG_SVRPOOL pool_done pc ((svrpools h)(a \<mapsto> y)) (py_splist P)"
    using assms complete_upd [of CFG_SVRPOOL pool_done pc "svrpools h" "py_splist P" a p y] by (auto simp: cfg_st_defs)
  moreover have "refs n pl_svrpool (policies h) (py_pllist P) sp_refcnt ((svrpools h)(a \<mapsto> y)) (py_splist P)"
    using assms refs_target [of n pl_svrpool "policies h" "py_pllist P" sp_refcnt "svrpools h" "py_splist P" y a]
    by (auto simp: cfg_st_defs)
  ultimately show ?thesis using assms(1,2) by (auto simp: cfg_st_defs)
qed

lemma cfg_st_server:
  assumes "cfg_st n pc py h" and "proxies h py = Some P" and "svrpools h a = Some p" and "a \<in> set (py_splist P)" and "sp_refcnt y = sp_refcnt p"
    and "servers h s = None" and "s \<noteq> NULL" and "svr_ok v" and "sp_name y = sp_name p"
    and "sp_nserver y = sp_nserver p + 1" and "sp_svrlist y = sp_svrlist p @ [s]" and "pc_section pc = CFG_SVRPOOL \<and> a = pc_cfg pc"
  shows "cfg_st n pc py (h\<lparr>servers := (servers h)(s \<mapsto> v), svrpools := (svrpools h)(a \<mapsto> y)\<rparr>)"
proof -
  have "pool_inv ((servers h)(s \<mapsto> v)) ((svrpools h)(a \<mapsto> y)) (py_splist P)"
    using assms by (auto simp: cfg_st_defs intro: pool_inv_server)
  moreover have "complete CFG_SVRPOOL pool_done pc ((svrpools h)(a \<mapsto> y)) (py_splist P)"
    using assms complete_upd [of CFG_SVRPOOL pool_done pc "svrpools h" "py_splist P" a p y] by (auto simp: cfg_st_defs)
  moreover have "refs n pl_svrpool (policies h) (py_pllist P) sp_refcnt ((svrpools h)(a \<mapsto> y)) (py_splist P)"
    using assms refs_target [of n pl_svrpool "policies h" "py_pllist P" sp_refcnt "svrpools h" "py_splist P" y a]
    by (auto simp: cfg_st_defs)
  ultimately show ?thesis using assms(1,2) by (auto simp: cfg_st_defs)
qed

lemma plc_inv_upd:
  assumes "plc_inv ls ss M as" and "M a = Some p" and "named pl_name (M(a \<mapsto> y)) as"
    and "pl_refcnt y = pl_refcnt p" and "pl_spdata y = pl_spdata p" and "pl_ltndata y = pl_ltndata p"
    and "pl_svrpool y = pl_svrpool p \<or> pl_svrpool y \<in> set ss"
    and "pl_listener y = pl_listener p \<or> pl_listener y \<in> set ls \<and> (\<forall>b\<in>set as. pl_listener (the (M b)) \<noteq> pl_listener y)"
  shows "plc_inv ls ss (M(a \<mapsto> y)) as"
proof -
  have "pl_listener (the ((M(a \<mapsto> y)) b)) \<in> insert NULL (set ls) \<and> pl_svrpool (the ((M(a \<mapsto> y)) b)) \<in> insert NULL (set ss) \<and>
        pl_refcnt (the ((M(a \<mapsto> y)) b)) = 0 \<and> pl_spdata (the ((M(a \<mapsto> y)) b)) = NULL \<and> pl_ltndata (the ((M(a \<mapsto> y)) b)) = NULL"
    if "b \<in> set as" for b
    using assms that by (cases "b = a") (auto simp: plc_inv_def)
  moreover have "pl_listener (the ((M(a \<mapsto> y)) b)) = NULL"
    if "b \<in> set as" "c \<in> set as" "b \<noteq> c" "pl_listener (the ((M(a \<mapsto> y)) b)) = pl_listener (the ((M(a \<mapsto> y)) c))" for b c
  proof -
    have "pl_listener (the (M b)) = pl_listener (the (M c)) \<longrightarrow> pl_listener (the (M b)) = NULL"
      using assms(1) that(1-3) by (auto simp: plc_inv_def)
    then show ?thesis using assms(2,8) that by (auto split: if_splits)
  qed
  ultimately show ?thesis using assms(3) unfolding plc_inv_def by blast
qed

text \<open>Names, modes: a policy changes but for what it refers to.\<close>

lemma cfg_st_plc:
  assumes "cfg_st n pc py h" and "proxies h py = Some P" and "policies h a = Some p"
    and "pl_refcnt y = pl_refcnt p" and "pl_spdata y = pl_spdata p" and "pl_ltndata y = pl_ltndata p"
    and "pl_svrpool y = pl_svrpool p" and "pl_listener y = pl_listener p"
    and "name_ok pl_name (policies h) (py_pllist P) a (pl_name y)"
    and "pc_section pc = CFG_POLICY \<and> a = pc_cfg pc \<or> plc_done y = plc_done p"
  shows "cfg_st n pc py (h\<lparr>policies := (policies h)(a \<mapsto> y)\<rparr>)"
proof -
  have inv: "plc_inv (py_ltnlist P) (py_splist P) (policies h) (py_pllist P)" using assms(1,2) by (auto simp: cfg_st_defs)
  then have "named pl_name ((policies h)(a \<mapsto> y)) (py_pllist P)" using assms(3,9) by (auto simp: plc_inv_def intro: named_upd)
  then have "plc_inv (py_ltnlist P) (py_splist P) ((policies h)(a \<mapsto> y)) (py_pllist P)"
    using plc_inv_upd [OF inv assms(3) _ assms(4-6)] assms(7,8) by simp
  moreover have "complete CFG_POLICY plc_done pc ((policies h)(a \<mapsto> y)) (py_pllist P)"
    using assms complete_upd [of CFG_POLICY plc_done pc "policies h" "py_pllist P" a p y] by (auto simp: cfg_st_defs)
  moreover have "refs n pl_listener ((policies h)(a \<mapsto> y)) (py_pllist P) lt_refcnt (listeners h) (py_ltnlist P)"
    using assms by (intro refs_same) (auto simp: cfg_st_defs)
  moreover have "refs n pl_svrpool ((policies h)(a \<mapsto> y)) (py_pllist P) sp_refcnt (svrpools h) (py_splist P)"
    using assms by (intro refs_same) (auto simp: cfg_st_defs)
  ultimately show ?thesis using assms(1,2) by (auto simp: cfg_st_defs)
qed

text \<open>A policy takes a reference to a listener no other policy has, or to a pool.\<close>

lemma cfg_st_plc_listener:
  assumes st: "cfg_st n pc py h" and P: "proxies h py = Some P" and p: "policies h (pc_cfg pc) = Some p" and l: "listeners h l = Some lt"
    and mem: "l \<in> set (py_ltnlist P)" and free: "\<forall>b\<in>set (py_pllist P). pl_listener (the (policies h b)) \<noteq> l" and sec: "pc_section pc = CFG_POLICY"
  shows "cfg_st (Suc n) pc py (h\<lparr>listeners := (listeners h)(l \<mapsto> lt\<lparr>lt_refcnt := lt_refcnt lt + 1\<rparr>),
    policies := (policies h)(pc_cfg pc \<mapsto> p\<lparr>pl_listener := l\<rparr>)\<rparr>)"
proof -
  let ?L = "(listeners h)(l \<mapsto> lt\<lparr>lt_refcnt := lt_refcnt lt + 1\<rparr>)" and ?M = "(policies h)(pc_cfg pc \<mapsto> p\<lparr>pl_listener := l\<rparr>)"
  have inv: "cfg_inv n P h" "all_complete pc P h" using st P by (auto simp: cfg_st_def)
  then have "ltn_inv (py_certlist P) ?L (py_ltnlist P)" using l
    by (auto simp: cfg_inv_def ltn_inv_def intro: named_same)
  moreover have "named pl_name ?M (py_pllist P)" using inv p by (auto simp: cfg_inv_def plc_inv_def intro: named_same)
  then have "plc_inv (py_ltnlist P) (py_splist P) ?M (py_pllist P)"
    using inv p mem free by (auto simp: cfg_inv_def intro: plc_inv_upd)
  moreover have "refs (Suc n) pl_listener ?M (py_pllist P) lt_refcnt ?L (py_ltnlist P)"
    using inv mem l by (intro refs_take) (auto simp: cfg_inv_def plc_inv_def named_def)
  moreover have "refs (Suc n) pl_svrpool ?M (py_pllist P) sp_refcnt (svrpools h) (py_splist P)"
    using inv p by (intro refs_same) (auto simp: cfg_inv_def intro: refs_Suc)
  moreover have "complete CFG_LISTENER ltn_done pc ?L (py_ltnlist P)"
    using inv l by (intro complete_upd) (auto simp: all_complete_def ltn_done_def)
  moreover have "complete CFG_POLICY plc_done pc ?M (py_pllist P)"
    using inv p sec by (intro complete_upd) (auto simp: all_complete_def)
  ultimately show ?thesis using st P by (auto simp: cfg_st_defs)
qed

lemma cfg_st_plc_svrpool:
  assumes st: "cfg_st n pc py h" and P: "proxies h py = Some P" and p: "policies h (pc_cfg pc) = Some p" and s: "svrpools h s = Some sp"
    and mem: "s \<in> set (py_splist P)" and sec: "pc_section pc = CFG_POLICY"
  shows "cfg_st (Suc n) pc py (h\<lparr>svrpools := (svrpools h)(s \<mapsto> sp\<lparr>sp_refcnt := sp_refcnt sp + 1\<rparr>),
    policies := (policies h)(pc_cfg pc \<mapsto> p\<lparr>pl_svrpool := s\<rparr>)\<rparr>)"
proof -
  let ?L = "(svrpools h)(s \<mapsto> sp\<lparr>sp_refcnt := sp_refcnt sp + 1\<rparr>)" and ?M = "(policies h)(pc_cfg pc \<mapsto> p\<lparr>pl_svrpool := s\<rparr>)"
  have inv: "cfg_inv n P h" "all_complete pc P h" using st P by (auto simp: cfg_st_def)
  then have "named sp_name ?L (py_splist P)" using s by (auto simp: cfg_inv_def pool_inv_def intro: named_same)
  then have "pool_inv (servers h) ?L (py_splist P)" using inv s by (auto simp: cfg_inv_def intro: pool_inv_upd)
  moreover have "named pl_name ?M (py_pllist P)" using inv p by (auto simp: cfg_inv_def plc_inv_def intro: named_same)
  then have "plc_inv (py_ltnlist P) (py_splist P) ?M (py_pllist P)"
    using inv p mem by (auto simp: cfg_inv_def intro: plc_inv_upd)
  moreover have "refs (Suc n) pl_svrpool ?M (py_pllist P) sp_refcnt ?L (py_splist P)"
    using inv mem s by (intro refs_take) (auto simp: cfg_inv_def plc_inv_def named_def)
  moreover have "refs (Suc n) pl_listener ?M (py_pllist P) lt_refcnt (listeners h) (py_ltnlist P)"
    using inv p by (intro refs_same) (auto simp: cfg_inv_def intro: refs_Suc)
  moreover have "complete CFG_SVRPOOL pool_done pc ?L (py_splist P)"
    using inv s by (intro complete_upd) (auto simp: all_complete_def pool_done_def)
  moreover have "complete CFG_POLICY plc_done pc ?M (py_pllist P)"
    using inv p sec by (intro complete_upd) (auto simp: all_complete_def)
  ultimately show ?thesis using st P by (auto simp: cfg_st_defs)
qed

lemma cfg_st_mono: "cfg_st n pc py h \<Longrightarrow> n \<le> n' \<Longrightarrow> cfg_st n' pc py h"
  by (auto simp: cfg_st_defs intro: refs_mono)

lemma cfg_st_Suc: "cfg_st n pc py h \<Longrightarrow> cfg_st (Suc n) pc py h"
  by (erule cfg_st_mono) simp

lemma cfg_st_lineno: "cfg_st n (pc\<lparr>pc_lineno := k\<rparr>) py h = cfg_st n pc py h"
  by (simp add: cfg_st_defs complete_def at_section_def cong: cfg_section.case_cong)

lemma cfg_st_cacerts: "cfg_st n pc py (h\<lparr>cacerts := C\<rparr>) = cfg_st n pc py h"
  by (simp add: cfg_st_defs)

end
