(* ===== verification/Proxy_load.thy ===== *)
theory Proxy_load
  imports Proxy_config_Correct
begin

text \<open>Every line of a configuration file keeps the state in order, and loading a file gives a valid configuration.\<close>

subsection \<open>What a keyword does\<close>

text \<open>An argument that fits every buffer and does not make the address parser fault.\<close>

definition safe_arg :: "string \<Rightarrow> bool" where
  "safe_arg s \<longleftrightarrow> length s < PATH_MAX \<and> (\<forall>j. ip_port_from_str (Some j) (Some s) \<noteq> None)"

definition safe :: "addr \<Rightarrow> string list \<Rightarrow> bool" where
  "safe m args \<longleftrightarrow> m \<noteq> NULL \<and> (\<forall>s\<in>set args. safe_arg s)"

definition line_post :: "nat \<Rightarrow> cfg_pctx \<Rightarrow> addr \<Rightarrow> addr \<Rightarrow> 'a py_heap_scheme \<Rightarrow> int \<times> 'a py_heap_scheme \<Rightarrow> bool" where
  "line_post n pc py m h = (\<lambda>(r, h'). cfg_st (Suc n) pc py h' \<and> live h' \<subseteq> insert m (live h))"

lemma line_stay: "cfg_st n pc py h' \<Longrightarrow> live h' \<subseteq> insert m (live h) \<Longrightarrow> line_post n pc py m h (r, h')"
  by (simp add: line_post_def cfg_st_Suc)

lemma strcpy_wp: "(c \<Longrightarrow> length s < n) \<Longrightarrow> wp c (\<lambda>x. x = s \<and> length s < n) (strcpy_to n s)"
  by (auto simp: strcpy_to_def wp_def post_def)

lemma cacert_wp: "wp (safe m args) (\<lambda>(ca, h'). ca = m \<and> m \<noteq> NULL \<and> h' = h\<lparr>cacerts := (cacerts h)(m \<mapsto> take 4095 s)\<rparr>) (cacert_alloc m (Some s) h)"
  by (auto simp: cacert_alloc_def wp_def post_def safe_def)

lemma address_wp: "s \<in> set args \<Longrightarrow> wp (safe m args) (\<lambda>_. True) (ip_port_from_str (Some j) (Some s))"
  by (auto simp: wp_def post_def safe_def safe_arg_def)

lemma safe_nth: "safe m args \<Longrightarrow> length args = 1 \<Longrightarrow> length (args ! 0) < PATH_MAX"
  by (cases args) (auto simp: safe_def safe_arg_def)

lemma live_stay: "live h \<subseteq> insert m (live h)"
  by auto

lemma live_cacert: "live (h\<lparr>cacerts := (cacerts h)(m \<mapsto> s)\<rparr>) \<subseteq> insert m (live h)"
  by (auto simp: live_def)

lemma name_same: "M a = Some x \<Longrightarrow> nm x = s \<Longrightarrow> name_ok nm M as a s"
  by (simp add: name_ok_def)

lemma name_new: "a \<in> set as \<Longrightarrow> length s < MAX_NAME \<Longrightarrow> \<forall>b\<in>set as. nm (the (M b)) \<noteq> s \<Longrightarrow> name_ok nm M as a s"
  by (simp add: name_ok_def)

lemma set_cert_wp:
  assumes "cfg_st n pc py h'" and "live h' \<subseteq> insert m (live h)" and "proxies h' py = Some P" and "certsets h' (pc_cfg pc) = Some x"
    and "pc_section pc = CFG_CERTSET" and "cs_type (f x) = cs_type x"
    and "name_ok cs_name (certsets h') (py_certlist P) (pc_cfg pc) (cs_name (f x))"
  shows "wp c (line_post n pc py m h) (set_cert (pc_cfg pc) f h')"
proof -
  have "cfg_st n pc py (h'\<lparr>certsets := (certsets h')(pc_cfg pc \<mapsto> f x)\<rparr>)"
    using assms by (intro cfg_st_cert) auto
  moreover have "live (h'\<lparr>certsets := (certsets h')(pc_cfg pc \<mapsto> f x)\<rparr>) \<subseteq> insert m (live h)"
    using assms(2,4) by (auto simp: live_def)
  ultimately show ?thesis using assms(4) by (simp add: set_cert_def wp_Some line_stay)
qed

lemma cfg_parse_certset_wp:
  assumes st: "cfg_st n pc py h" and sec: "pc_section pc = CFG_CERTSET"
  shows "wp (safe m args) (line_post n pc py m h) (cfg_parse_certset m pc py kw args h)"
proof -
  obtain P where P: "proxies h py = Some P" "cert_inv (certsets h) (py_certlist P)" "pc_cfg pc \<in> set (py_certlist P)" and py: "py \<noteq> NULL"
    using st sec by (auto simp: cfg_st_defs at_section_def)
  then obtain c where c: "certsets h (pc_cfg pc) = Some c" unfolding cert_inv_def using named_live by blast
  have mem: "map_option py_certlist (proxies h py) = Some (py_certlist P)" using P by simp
  have named: "named cs_name (certsets h) (py_certlist P)" using P by (simp add: cert_inv_def)
  have cs: "cfg_st n pc py (h\<lparr>cacerts := C\<rparr>)" for C using st by (simp add: cfg_st_cacerts)
  note find = wp_bind [OF cert_reg.find_wp [OF py mem named]]
  note set = set_cert_wp [OF st live_stay P(1) c sec] set_cert_wp [OF cs live_cacert _ _ sec, where P = P and x = c]
  show ?thesis unfolding cfg_parse_certset_def
    by (rule line_stay [OF st live_stay] wp_rules wp_bind_Some [OF c] find wp_bind [OF strcpy_wp] wp_bind [OF cacert_wp] set name_same name_new
      | (simp add: P c safe_nth; fail) | clarsimp)+
qed

subsection \<open>Listeners\<close>

lemma set_ltn_wp:
  assumes "cfg_st n pc py h'" and "live h' \<subseteq> insert m (live h)" and "proxies h' py = Some P" and "listeners h' (pc_cfg pc) = Some x"
    and "pc_section pc = CFG_LISTENER" and "lt_refcnt (f x) = lt_refcnt x" and "lt_ssl (f x) = 0 \<or> lt_ssl (f x) = 1"
    and "lt_cert (f x) = NULL \<or> lt_cert (f x) \<in> set (py_certlist P)" and "name_ok lt_name (listeners h') (py_ltnlist P) (pc_cfg pc) (lt_name (f x))"
  shows "wp c (line_post n pc py m h) (set_ltn (pc_cfg pc) f h')"
proof -
  have "cfg_st n pc py (h'\<lparr>listeners := (listeners h')(pc_cfg pc \<mapsto> f x)\<rparr>)"
    using assms by (intro cfg_st_ltn) auto
  moreover have "live (h'\<lparr>listeners := (listeners h')(pc_cfg pc \<mapsto> f x)\<rparr>) \<subseteq> insert m (live h)"
    using assms(2,4) by (auto simp: live_def)
  ultimately show ?thesis using assms(4) by (simp add: set_ltn_def wp_Some line_stay)
qed

lemma yes_no_bool: "yes_no args = Some v \<Longrightarrow> v = 0 \<or> v = 1"
  by (auto simp: yes_no_def split: if_splits)

lemma certset_clone_wp:
  assumes "cfg_st n pc py h" and "proxies h py = Some P" and "r \<in> set (py_certlist P)" and "r \<noteq> NULL"
  shows "wp c (\<lambda>(a, h'). a = r \<and> cfg_st n pc py h' \<and> live h' \<subseteq> insert m (live h) \<and> proxies h' = proxies h \<and> listeners h' = listeners h)
    (certset_clone r h)"
proof -
  have "cert_inv (certsets h) (py_certlist P)" using assms(1,2) by (auto simp: cfg_st_defs)
  then obtain x where x: "certsets h r = Some x" unfolding cert_inv_def using named_live assms(3) by blast
  have "cfg_st n pc py (h\<lparr>certsets := (certsets h)(r \<mapsto> x\<lparr>cs_refcnt := cs_refcnt x + 1\<rparr>)\<rparr>)"
    using assms x by (intro cfg_st_cert) (auto simp: name_ok_def cert_done_def)
  then show ?thesis using x assms(4) by (auto simp: certset_clone_def live_def intro!: wp_Some split: if_splits)
qed

lemma cfg_parse_listener_wp:
  assumes st: "cfg_st n pc py h" and sec: "pc_section pc = CFG_LISTENER"
  shows "wp (safe m args) (line_post n pc py m h) (cfg_parse_listener junk pc py kw args h)"
proof -
  obtain P where P: "proxies h py = Some P" "ltn_inv (py_certlist P) (listeners h) (py_ltnlist P)" "pc_cfg pc \<in> set (py_ltnlist P)"
      "cert_inv (certsets h) (py_certlist P)" and py: "py \<noteq> NULL"
    using st sec by (auto simp: cfg_st_defs at_section_def)
  then obtain l where l: "listeners h (pc_cfg pc) = Some l" unfolding ltn_inv_def using named_live by blast
  have ok: "lt_ssl l = 0 \<or> lt_ssl l = 1" "lt_cert l = NULL \<or> lt_cert l \<in> set (py_certlist P)" using P l by (auto simp: ltn_inv_def)
  have mem: "map_option py_ltnlist (proxies h py) = Some (py_ltnlist P)" "map_option py_certlist (proxies h py) = Some (py_certlist P)"
    using P by simp_all
  have named: "named lt_name (listeners h) (py_ltnlist P)" "named cs_name (certsets h) (py_certlist P)" using P by (simp_all add: ltn_inv_def cert_inv_def)
  note find = wp_bind [OF ltn_reg.find_wp [OF py mem(1) named(1)]] wp_bind [OF cert_reg.find_wp [OF py mem(2) named(2)]]
  note set = set_ltn_wp [OF st live_stay P(1) l sec] set_ltn_wp [OF _ _ _ _ sec, where P = P and x = l]
  show ?thesis unfolding cfg_parse_listener_def
    by (rule line_stay [OF st live_stay] wp_rules wp_bind_Some [OF l] find wp_bind [OF strcpy_wp] wp_bind [OF address_wp]
        wp_bind [OF certset_clone_wp [OF st P(1), where m = m]] set name_same name_new
      | (simp add: P l ok safe_nth yes_no_bool nth_mem; fail) | (assumption) | clarsimp simp: ok)+
qed

subsection \<open>Server pools\<close>

lemma set_pool_wp:
  assumes "cfg_st n pc py h'" and "live h' \<subseteq> insert m (live h)" and "proxies h' py = Some P" and "svrpools h' (pc_cfg pc) = Some x"
    and "pc_section pc = CFG_SVRPOOL" and "sp_refcnt (f x) = sp_refcnt x" and "sp_nserver (f x) = sp_nserver x"
    and "sp_svrlist (f x) = sp_svrlist x" and "name_ok sp_name (svrpools h') (py_splist P) (pc_cfg pc) (sp_name (f x))"
  shows "wp c (line_post n pc py m h) (set_pool (pc_cfg pc) f h')"
proof -
  have "cfg_st n pc py (h'\<lparr>svrpools := (svrpools h')(pc_cfg pc \<mapsto> f x)\<rparr>)"
    using assms by (intro cfg_st_pool) auto
  moreover have "live (h'\<lparr>svrpools := (svrpools h')(pc_cfg pc \<mapsto> f x)\<rparr>) \<subseteq> insert m (live h)"
    using assms(2,4) by (auto simp: live_def)
  ultimately show ?thesis using assms(4) by (simp add: set_pool_def wp_Some line_stay)
qed

lemma set_server_wp:
  assumes "cfg_st n pc py h" and "proxies h py = Some P" and "svrpools h (pc_cfg pc) = Some x" and "pc_cfg pc \<in> set (py_splist P)"
    and "pc_section pc = CFG_SVRPOOL" and "m \<noteq> NULL" and "m \<notin> live h" and "svr_ok v"
  shows "wp c (line_post n pc py m h)
    (set_pool (pc_cfg pc) (\<lambda>p. p\<lparr>sp_svrlist := sp_svrlist p @ [m], sp_nserver := sp_nserver p + 1\<rparr>) (h\<lparr>servers := (servers h)(m \<mapsto> v)\<rparr>))"
proof -
  let ?h = "h\<lparr>servers := (servers h)(m \<mapsto> v), svrpools := (svrpools h)(pc_cfg pc \<mapsto> x\<lparr>sp_svrlist := sp_svrlist x @ [m], sp_nserver := sp_nserver x + 1\<rparr>)\<rparr>"
  have "servers h m = None" using assms(7) by (auto simp: live_def)
  then have "cfg_st n pc py ?h" using assms by (intro cfg_st_server) auto
  moreover have "live ?h \<subseteq> insert m (live h)" using assms(3) by (auto simp: live_def split: if_splits)
  ultimately show ?thesis using assms(3) by (simp add: set_pool_def wp_Some line_stay)
qed

lemma upd_upd: "(\<lambda>a. if a = m then x else f a)(m := y) = f(m := y)"
  by auto

lemma cfg_parse_server_wp:
  assumes st: "cfg_st n pc py h" and sec: "pc_section pc = CFG_SVRPOOL" and m: "m = NULL \<or> m \<notin> live h"
    and P: "proxies h py = Some P" and p: "svrpools h (pc_cfg pc) = Some p" and mem: "pc_cfg pc \<in> set (py_splist P)"
  shows "wp (safe m args) (line_post n pc py m h) (cfg_parse_server m junk (pc_cfg pc) args h)"
proof (cases "m = NULL")
  case True
  then show ?thesis unfolding cfg_parse_server_def
    by - (rule line_stay [OF st live_stay] wp_rules wp_bind [OF address_wp] wp_bind_Some
      | (simp add: server_alloc_def nth_mem; fail) | clarsimp simp: server_alloc_def)+
next
  case False
  then have m: "m \<noteq> NULL" "m \<notin> live h" using m by auto
  note set = set_server_wp [OF st P p mem sec m]
  show ?thesis unfolding cfg_parse_server_def using m(1)
    by - (rule line_stay [OF st live_stay] wp_rules wp_bind [OF address_wp] wp_bind_Some set
      | (simp add: server_alloc_def nth_mem svr_ok_def; fail) | clarsimp simp: server_alloc_def upd_upd split: if_splits)+
qed

lemma cfg_parse_svrpool_wp:
  assumes st: "cfg_st n pc py h" and sec: "pc_section pc = CFG_SVRPOOL" and m: "m = NULL \<or> m \<notin> live h"
  shows "wp (safe m args) (line_post n pc py m h) (cfg_parse_svrpool m junk pc py kw args h)"
proof -
  obtain P where P: "proxies h py = Some P" "pool_inv (servers h) (svrpools h) (py_splist P)" "pc_cfg pc \<in> set (py_splist P)" and py: "py \<noteq> NULL"
    using st sec by (auto simp: cfg_st_defs at_section_def)
  then have "named sp_name (svrpools h) (py_splist P)" by (simp add: pool_inv_def)
  then obtain p where p: "svrpools h (pc_cfg pc) = Some p" using named_live P(3) by blast
  have mem: "map_option py_splist (proxies h py) = Some (py_splist P)" using P by simp
  have named: "named sp_name (svrpools h) (py_splist P)" using P by (simp add: pool_inv_def)
  note find = wp_bind [OF pool_reg.find_wp [OF py mem named]] and keep = name_same [where M = "svrpools h", OF p]
  note set = set_pool_wp [OF st live_stay P(1) p sec] cfg_parse_server_wp [OF st sec m P(1) p P(3)]
  show ?thesis unfolding cfg_parse_svrpool_def
    by (rule line_stay [OF st live_stay] wp_rules wp_bind_Some [OF p] find wp_bind [OF strcpy_wp] set
      | (simp add: P p safe_nth name_new keep; fail) | clarsimp)+
qed

subsection \<open>Policies\<close>

lemma set_plc_wp:
  assumes "cfg_st n pc py h'" and "live h' \<subseteq> insert m (live h)" and "proxies h' py = Some P" and "policies h' (pc_cfg pc) = Some x"
    and "pc_section pc = CFG_POLICY" and "pl_refcnt (f x) = pl_refcnt x" and "pl_spdata (f x) = pl_spdata x" and "pl_ltndata (f x) = pl_ltndata x"
    and "pl_svrpool (f x) = pl_svrpool x" and "pl_listener (f x) = pl_listener x"
    and "name_ok pl_name (policies h') (py_pllist P) (pc_cfg pc) (pl_name (f x))"
  shows "wp c (line_post n pc py m h) (set_plc (pc_cfg pc) f h')"
proof -
  have "cfg_st n pc py (h'\<lparr>policies := (policies h')(pc_cfg pc \<mapsto> f x)\<rparr>)"
    using assms by (intro cfg_st_plc) auto
  moreover have "live (h'\<lparr>policies := (policies h')(pc_cfg pc \<mapsto> f x)\<rparr>) \<subseteq> insert m (live h)"
    using assms(2,4) by (auto simp: live_def)
  ultimately show ?thesis using assms(4) by (simp add: set_plc_def wp_Some line_stay)
qed

lemma listener_used_live:
  "\<forall>a\<in>set as. \<exists>p. policies h a = Some p \<Longrightarrow> listener_used h l as = Some (\<exists>a\<in>set as. pl_listener (the (policies h a)) = l)"
  by (induction as) auto

lemma listener_used_wp:
  assumes "cfg_st n pc py h" and "proxies h py = Some P"
  shows "wp c (\<lambda>b. b = (\<exists>a\<in>set (py_pllist P). pl_listener (the (policies h a)) = l)) (listener_used h l (py_pllist P))"
proof -
  have "named pl_name (policies h) (py_pllist P)" using assms by (auto simp: cfg_st_defs plc_inv_def)
  then have "\<forall>a\<in>set (py_pllist P). \<exists>p. policies h a = Some p" using named_live by blast
  then show ?thesis using listener_used_live [of "py_pllist P" h l] by (simp add: wp_Some)
qed

lemma take_listener_wp:
  assumes "cfg_st n pc py h" and "proxies h py = Some P" and "policies h (pc_cfg pc) = Some p" and "\<exists>x. listeners h l = Some x" and "l \<noteq> NULL"
    and "l \<in> set (py_ltnlist P)" and "\<forall>b\<in>set (py_pllist P). pl_listener (the (policies h b)) \<noteq> l" and "pc_section pc = CFG_POLICY"
  shows "wp c (line_post n pc py m h) (do { (l, h) \<leftarrow> listener_clone l h; set_plc (pc_cfg pc) (\<lambda>p. p\<lparr>pl_listener := l\<rparr>) h })"
  using assms(4) cfg_st_plc_listener [OF assms(1-3) _ assms(6-8)] assms(3,5)
  by (auto simp: listener_clone_def set_plc_def line_post_def live_def intro!: wp_Some split: if_splits)

lemma take_svrpool_wp:
  assumes "cfg_st n pc py h" and "proxies h py = Some P" and "policies h (pc_cfg pc) = Some p" and "\<exists>x. svrpools h s = Some x" and "s \<noteq> NULL"
    and "s \<in> set (py_splist P)" and "pc_section pc = CFG_POLICY"
  shows "wp c (line_post n pc py m h) (do { (s, h) \<leftarrow> svrpool_clone s h; set_plc (pc_cfg pc) (\<lambda>p. p\<lparr>pl_svrpool := s\<rparr>) h })"
  using assms(4) cfg_st_plc_svrpool [OF assms(1-3) _ assms(6,7)] assms(3,5)
  by (auto simp: svrpool_clone_def set_plc_def line_post_def live_def intro!: wp_Some split: if_splits)

lemma cfg_parse_policy_wp:
  assumes st: "cfg_st n pc py h" and sec: "pc_section pc = CFG_POLICY"
  shows "wp (safe m args) (line_post n pc py m h) (cfg_parse_policy pc py kw args h)"
proof -
  obtain P where P: "proxies h py = Some P" "plc_inv (py_ltnlist P) (py_splist P) (policies h) (py_pllist P)" "pc_cfg pc \<in> set (py_pllist P)"
      "named lt_name (listeners h) (py_ltnlist P)" "named sp_name (svrpools h) (py_splist P)" and py: "py \<noteq> NULL"
    using st sec by (auto simp: cfg_st_defs at_section_def ltn_inv_def pool_inv_def)
  then obtain p where p: "policies h (pc_cfg pc) = Some p" unfolding plc_inv_def using named_live by blast
  have mem: "map_option py_ltnlist (proxies h py) = Some (py_ltnlist P)" "map_option py_splist (proxies h py) = Some (py_splist P)"
     "map_option py_pllist (proxies h py) = Some (py_pllist P)" using P by simp_all
  have named: "named pl_name (policies h) (py_pllist P)" using P by (simp add: plc_inv_def)
  note find = wp_bind [OF ltn_reg.find_wp [OF py mem(1) P(4)]] wp_bind [OF pool_reg.find_wp [OF py mem(2) P(5)]] wp_bind [OF plc_reg.find_wp [OF py mem(3) named]]
  note keep = name_same [where M = "policies h", OF p]
  note set = take_listener_wp [OF st P(1) p] take_svrpool_wp [OF st P(1) p] set_plc_wp [OF st live_stay P(1) p sec]
  show ?thesis unfolding cfg_parse_policy_def
    by (rule line_stay [OF st live_stay] wp_rules wp_bind_Some [OF p] wp_bind_Some [OF P(1)] find set wp_bind [OF strcpy_wp]
        wp_bind [OF listener_used_wp [OF st P(1)]]
      | (simp add: P p sec safe_nth name_new keep; fail) | assumption | clarsimp)+
qed

subsection \<open>The proxy section\<close>

lemma post_args:
  "(\<And>v. lo \<le> v \<Longrightarrow> v \<le> hi \<Longrightarrow> Q (f v)) \<Longrightarrow> post Q (map_option f (num_arg args lo hi))"
  "Q (f 0) \<Longrightarrow> Q (f 1) \<Longrightarrow> post Q (map_option f (yes_no args))"
  by (auto simp: post_def num_arg_def yes_no_def Let_def split: if_splits)

lemma post_word: "(\<And>v. Q (f v)) \<Longrightarrow> post Q (map_option f (word_arg args tab))"
  by (auto simp: post_def)

lemma proxy_keyword_range:
  assumes "cfg_range c"
  shows "post cfg_range (proxy_keyword kw args c)"
  using assms unfolding proxy_keyword_def
  by - (rule post_if post_args post_word post_None | (simp add: cfg_range_def; fail))+

lemma cfg_parse_proxy_wp:
  assumes st: "cfg_st n pc py h" and sec: "pc_section pc = CFG_PROXY"
  shows "wp c (line_post n pc py m h) (cfg_parse_proxy pc py kw args h)"
proof -
  obtain P where P: "proxies h py = Some P" and py: "py \<noteq> NULL" and a: "pc_cfg pc = py"
    using st sec by (auto simp: cfg_st_defs at_section_def)
  have "cfg_st n pc py (h\<lparr>proxies := (proxies h)(py \<mapsto> P\<lparr>py_cfg := k\<rparr>)\<rparr>)" if "proxy_keyword kw args (py_cfg P) = Some k" for k
    using st P sec postD [OF proxy_keyword_range that] by (auto simp: cfg_st_defs counted_def at_section_def)
  moreover have "live (h\<lparr>proxies := (proxies h)(py \<mapsto> P\<lparr>py_cfg := k\<rparr>)\<rparr>) = live h" for k using P by (auto simp: live_def)
  ultimately show ?thesis using P py st
    by (auto simp: cfg_parse_proxy_def a live_stay intro!: wp_Some line_stay split: option.splits)
qed

subsection \<open>The beginning of a section\<close>

definition finished :: "proxy \<Rightarrow> 'a py_heap_scheme \<Rightarrow> bool" where
  "finished P h \<longleftrightarrow> (\<forall>a\<in>set (py_certlist P). cert_done (the (certsets h a))) \<and> (\<forall>a\<in>set (py_ltnlist P). ltn_done (the (listeners h a))) \<and>
     (\<forall>a\<in>set (py_splist P). pool_done (the (svrpools h a))) \<and> (\<forall>a\<in>set (py_pllist P). plc_done (the (policies h a)))"

lemma check_section_wp:
  assumes "cfg_st n pc py h" and P: "proxies h py = Some P"
  shows "wp c (\<lambda>r. r = 0 \<longrightarrow> finished P h) (cfg_check_section pc h)"
proof -
  have st: "cfg_inv n P h" "all_complete pc P h" "at_section pc py P" "py \<noteq> NULL"
    using assms by (auto simp: cfg_st_def)
  have nm: "named cs_name (certsets h) (py_certlist P)" "named lt_name (listeners h) (py_ltnlist P)"
     "named sp_name (svrpools h) (py_splist P)" "named pl_name (policies h) (py_pllist P)"
    using st(1) by (auto simp: cfg_inv_def cert_inv_def ltn_inv_def pool_inv_def plc_inv_def)
  show ?thesis
    using st(2-4) nm [THEN named_live, of "pc_cfg pc"]
    by (auto simp: cfg_check_section_def at_section_def wp_def post_def all_complete_def complete_def finished_def cfg_check_proxy_def
        cfg_check_certset_def cfg_check_listener_def cfg_check_svrpool_def cfg_check_policy_def
        cert_done_def ltn_done_def pool_done_def plc_done_def split: cfg_section.splits if_splits cert_type.splits)
qed

text \<open>A new object without a name becomes the current one.\<close>

definition fresh_st :: "nat \<Rightarrow> addr \<Rightarrow> addr \<Rightarrow> proxy \<Rightarrow> 'a py_heap_scheme \<Rightarrow> bool" where
  "fresh_st n py m P h \<longleftrightarrow> py \<noteq> NULL \<and> proxies h py = Some P \<and> cfg_inv n P h \<and> finished P h \<and> m \<noteq> NULL \<and> m \<notin> live h"

lemma new_certset:
  assumes st: "fresh_st n py m P h" and y: "cs_name y = []" "cs_type y = CERT_X509" and room: "\<not> py_ncert P > MAX_CERTSET"
  shows "cfg_st n (pc\<lparr>pc_section := CFG_CERTSET, pc_cfg := m\<rparr>) py (h\<lparr>certsets := (certsets h)(m \<mapsto> y),
    proxies := (proxies h)(py \<mapsto> P\<lparr>py_certlist := py_certlist P @ [m], py_ncert := py_ncert P + 1\<rparr>)\<rparr>)"
proof -
  have new: "certsets h m = None" "m \<noteq> NULL" using st by (auto simp: live_def fresh_st_def)
  have inv: "cert_inv (certsets h) (py_certlist P)" "ltn_inv (py_certlist P) (listeners h) (py_ltnlist P)" using st by (auto simp: fresh_st_def cfg_inv_def)
  have "m \<notin> set (py_certlist P)" using inv(1) new by (auto simp: cert_inv_def named_def)
  then have "cert_inv ((certsets h)(m \<mapsto> y)) (py_certlist P @ [m])" "complete CFG_CERTSET cert_done (pc\<lparr>pc_section := CFG_CERTSET, pc_cfg := m\<rparr>) ((certsets h)(m \<mapsto> y)) (py_certlist P @ [m])"
    using inv(1) new y st by (auto simp: cert_inv_def complete_def fresh_st_def finished_def intro: named_add)
  moreover have "ltn_inv (py_certlist P @ [m]) (listeners h) (py_ltnlist P)" using inv(2) by (auto simp: ltn_inv_def)
  ultimately show ?thesis using st room
    by (auto simp: fresh_st_def finished_def cfg_st_defs complete_def [of CFG_LISTENER] complete_def [of CFG_SVRPOOL] complete_def [of CFG_POLICY] at_section_def counted_def)
qed

lemma new_listener:
  assumes st: "fresh_st n py m P h" and y: "lt_name y = []" "lt_ssl y = 0" "lt_cert y = NULL" "lt_refcnt y = 0" and room: "\<not> py_nlistener P > MAX_LISTENER"
  shows "cfg_st n (pc\<lparr>pc_section := CFG_LISTENER, pc_cfg := m\<rparr>) py (h\<lparr>listeners := (listeners h)(m \<mapsto> y),
    proxies := (proxies h)(py \<mapsto> P\<lparr>py_ltnlist := py_ltnlist P @ [m], py_nlistener := py_nlistener P + 1\<rparr>)\<rparr>)"
proof -
  have new: "listeners h m = None" "m \<noteq> NULL" using st by (auto simp: live_def fresh_st_def)
  have inv: "ltn_inv (py_certlist P) (listeners h) (py_ltnlist P)" "plc_inv (py_ltnlist P) (py_splist P) (policies h) (py_pllist P)"
      "refs n pl_listener (policies h) (py_pllist P) lt_refcnt (listeners h) (py_ltnlist P)"
    using st by (auto simp: fresh_st_def cfg_inv_def)
  have notin: "m \<notin> set (py_ltnlist P)" using inv(1) new by (auto simp: ltn_inv_def named_def)
  then have "ltn_inv (py_certlist P) ((listeners h)(m \<mapsto> y)) (py_ltnlist P @ [m])" "complete CFG_LISTENER ltn_done (pc\<lparr>pc_section := CFG_LISTENER, pc_cfg := m\<rparr>) ((listeners h)(m \<mapsto> y)) (py_ltnlist P @ [m])"
    using inv(1) new y st by (auto simp: ltn_inv_def complete_def fresh_st_def finished_def intro: named_add)
  moreover have "plc_inv (py_ltnlist P @ [m]) (py_splist P) (policies h) (py_pllist P)" using inv(2) by (auto simp: plc_inv_def)
  moreover have "refs n pl_listener (policies h) (py_pllist P) lt_refcnt ((listeners h)(m \<mapsto> y)) (py_ltnlist P @ [m])"
    using inv(2,3) notin new y(4) by (intro refs_add_target) (auto simp: plc_inv_def)
  ultimately show ?thesis using st room
    by (auto simp: fresh_st_def finished_def cfg_st_defs complete_def [of CFG_CERTSET] complete_def [of CFG_SVRPOOL] complete_def [of CFG_POLICY] at_section_def counted_def)
qed

lemma pool_inv_add:
  assumes "pool_inv S M as" and "M m = None" and "m \<noteq> NULL" and "sp_name y = []" and "sp_svrlist y = []" and "sp_nserver y = 0"
  shows "pool_inv S (M(m \<mapsto> y)) (as @ [m])"
proof -
  have "m \<notin> set as" using assms(1,2) by (auto simp: pool_inv_def named_def)
  moreover have "named sp_name (M(m \<mapsto> y)) (as @ [m])" using assms by (auto simp: pool_inv_def intro: named_add)
  ultimately show ?thesis using assms(1,5,6) unfolding pool_inv_def by auto
qed

lemma new_svrpool:
  assumes st: "fresh_st n py m P h" and y: "sp_name y = []" "sp_svrlist y = []" "sp_nserver y = 0" "sp_refcnt y = 0" and room: "\<not> py_nsvrpool P > MAX_SVRPOOL"
  shows "cfg_st n (pc\<lparr>pc_section := CFG_SVRPOOL, pc_cfg := m\<rparr>) py (h\<lparr>svrpools := (svrpools h)(m \<mapsto> y),
    proxies := (proxies h)(py \<mapsto> P\<lparr>py_splist := py_splist P @ [m], py_nsvrpool := py_nsvrpool P + 1\<rparr>)\<rparr>)"
proof -
  have new: "svrpools h m = None" "m \<noteq> NULL" using st by (auto simp: live_def fresh_st_def)
  have inv: "pool_inv (servers h) (svrpools h) (py_splist P)" "plc_inv (py_ltnlist P) (py_splist P) (policies h) (py_pllist P)"
      "refs n pl_svrpool (policies h) (py_pllist P) sp_refcnt (svrpools h) (py_splist P)"
    using st by (auto simp: fresh_st_def cfg_inv_def)
  have notin: "m \<notin> set (py_splist P)" using inv(1) new by (auto simp: pool_inv_def named_def)
  then have "complete CFG_SVRPOOL pool_done (pc\<lparr>pc_section := CFG_SVRPOOL, pc_cfg := m\<rparr>) ((svrpools h)(m \<mapsto> y)) (py_splist P @ [m])"
    using st by (auto simp: complete_def fresh_st_def finished_def)
  moreover have "plc_inv (py_ltnlist P) (py_splist P @ [m]) (policies h) (py_pllist P)" using inv(2) by (auto simp: plc_inv_def)
  moreover have "refs n pl_svrpool (policies h) (py_pllist P) sp_refcnt ((svrpools h)(m \<mapsto> y)) (py_splist P @ [m])"
    using inv(2,3) notin new y(4) by (intro refs_add_target) (auto simp: plc_inv_def)
  ultimately show ?thesis using st room pool_inv_add [OF inv(1) new y(1-3)]
    by (auto simp: fresh_st_def finished_def cfg_st_defs complete_def [of CFG_CERTSET] complete_def [of CFG_LISTENER] complete_def [of CFG_POLICY] at_section_def counted_def)
qed

lemma plc_inv_add:
  assumes "plc_inv ls ss M as" and "M m = None" and "m \<noteq> NULL" and "pl_name y = []" and "pl_listener y = NULL" and "pl_svrpool y = NULL"
    and "pl_refcnt y = 0" and "pl_spdata y = NULL" and "pl_ltndata y = NULL"
  shows "plc_inv ls ss (M(m \<mapsto> y)) (as @ [m])"
proof -
  have "m \<notin> set as" using assms(1,2) by (auto simp: plc_inv_def named_def)
  moreover have "named pl_name (M(m \<mapsto> y)) (as @ [m])" using assms by (auto simp: plc_inv_def intro: named_add)
  ultimately show ?thesis using assms(1,5-9) unfolding plc_inv_def by auto
qed

lemma new_policy:
  assumes st: "fresh_st n py m P h" and y: "pl_name y = []" "pl_listener y = NULL" "pl_svrpool y = NULL" "pl_refcnt y = 0" "pl_spdata y = NULL" "pl_ltndata y = NULL"
    and room: "\<not> py_npolicy P > MAX_POLICY"
  shows "cfg_st n (pc\<lparr>pc_section := CFG_POLICY, pc_cfg := m\<rparr>) py (h\<lparr>policies := (policies h)(m \<mapsto> y),
    proxies := (proxies h)(py \<mapsto> P\<lparr>py_pllist := py_pllist P @ [m], py_npolicy := py_npolicy P + 1\<rparr>)\<rparr>)"
proof -
  have new: "policies h m = None" "m \<noteq> NULL" using st by (auto simp: live_def fresh_st_def)
  have inv: "plc_inv (py_ltnlist P) (py_splist P) (policies h) (py_pllist P)" "ltn_inv (py_certlist P) (listeners h) (py_ltnlist P)"
      "pool_inv (servers h) (svrpools h) (py_splist P)"
      "refs n pl_listener (policies h) (py_pllist P) lt_refcnt (listeners h) (py_ltnlist P)"
      "refs n pl_svrpool (policies h) (py_pllist P) sp_refcnt (svrpools h) (py_splist P)"
    using st by (auto simp: fresh_st_def cfg_inv_def)
  have notin: "m \<notin> set (py_pllist P)" "NULL \<notin> set (py_ltnlist P)" "NULL \<notin> set (py_splist P)"
    using inv(1-3) new by (auto simp: plc_inv_def ltn_inv_def pool_inv_def named_def)
  then have "complete CFG_POLICY plc_done (pc\<lparr>pc_section := CFG_POLICY, pc_cfg := m\<rparr>) ((policies h)(m \<mapsto> y)) (py_pllist P @ [m])"
    using st by (auto simp: complete_def fresh_st_def finished_def)
  moreover have "refs n pl_listener ((policies h)(m \<mapsto> y)) (py_pllist P @ [m]) lt_refcnt (listeners h) (py_ltnlist P)"
      "refs n pl_svrpool ((policies h)(m \<mapsto> y)) (py_pllist P @ [m]) sp_refcnt (svrpools h) (py_splist P)"
    using inv(4,5) notin y by (auto intro!: refs_add)
  ultimately show ?thesis using st room plc_inv_add [OF inv(1) new y(1-6)]
    by (auto simp: fresh_st_def finished_def cfg_st_defs complete_def [of CFG_CERTSET] complete_def [of CFG_LISTENER] complete_def [of CFG_SVRPOOL] at_section_def counted_def)
qed

definition line_end :: "nat \<Rightarrow> addr \<Rightarrow> addr \<Rightarrow> 'a py_heap_scheme \<Rightarrow> int \<times> cfg_pctx \<times> 'a py_heap_scheme \<Rightarrow> bool" where
  "line_end n py m h = (\<lambda>(r, pc, h'). cfg_st (Suc n) pc py h' \<and> live h' \<subseteq> insert m (live h))"

text \<open>
  The shape of the four kinds of sections: allocating puts a new object on the heap, adding it either has the
  effect above or fails and changes nothing, and freeing it restores the heap.
\<close>

lemma begin_section_wp:
  assumes st: "cfg_st n pc py h" and P: "proxies h py = Some P" and m: "m = NULL \<or> m \<notin> live h"
    and null: "m = NULL \<Longrightarrow> alloc m h = (NULL, h)"
    and made: "m \<noteq> NULL \<Longrightarrow> m \<notin> live h \<Longrightarrow> alloc m h = (m, hm)"
    and room: "m \<noteq> NULL \<Longrightarrow> m \<notin> live h \<Longrightarrow> b \<Longrightarrow> add py m hm = Some (0, hn)"
    and full: "m \<noteq> NULL \<Longrightarrow> m \<notin> live h \<Longrightarrow> \<not> b \<Longrightarrow> add py m hm = Some (- 1, hm)"
    and undo: "m \<noteq> NULL \<Longrightarrow> m \<notin> live h \<Longrightarrow> \<exists>x. free m hm = Some (x, h)"
    and good: "fresh_st n py m P h \<Longrightarrow> b \<Longrightarrow> cfg_st n (pc\<lparr>pc_section := sec, pc_cfg := m\<rparr>) py hn"
    and more: "live hn \<subseteq> insert m (live h)"
  shows "wp c (line_end n py m h) (begin_section alloc add free sec m pc py h)"
proof (cases "m = NULL")
  case True
  then show ?thesis unfolding begin_section_def using null st
    by - (rule wp_bind [OF check_section_wp [OF st P]] wp_rules wp_bind_Some | simp add: line_end_def cfg_st_Suc live_stay)+
next
  case False
  then have fr: "m \<noteq> NULL" "m \<notin> live h" using m by auto
  have st': "fresh_st n py m P h" if "finished P h" using that st P fr by (auto simp: fresh_st_def cfg_st_def)
  have end2: "line_end n py m h (0, pc\<lparr>pc_section := sec, pc_cfg := m\<rparr>, hn)" if "finished P h" b
    using good [OF st' [OF that(1)] that(2)] more by (simp add: line_end_def cfg_st_Suc)
  have same: "line_end n py m h (- 1, pc, h)" using st by (simp add: line_end_def cfg_st_Suc live_stay)
  show ?thesis unfolding begin_section_def
    by (rule wp_bind [OF check_section_wp [OF st P]]) (use made [OF fr] room [OF fr] full [OF fr] undo [OF fr] end2 same fr(1) in \<open>cases b; auto intro!: wp_Some\<close>)
qed

lemma upd_none: "f m = None \<Longrightarrow> f(m := None) = f"
  by (rule fun_upd_idem)

lemma begin_certset_wp:
  assumes "cfg_st n pc py h" and "m = NULL \<or> m \<notin> live h"
  shows "wp c (line_end n py m h) (begin_section certset_alloc proxy_add_certset certset_free CFG_CERTSET m pc py h)"
proof -
  obtain P where P: "proxies h py = Some P" and py: "py \<noteq> NULL" using assms(1) by (auto simp: cfg_st_def)
  obtain y where y: "m \<noteq> NULL \<Longrightarrow> certset_alloc m h = (m, h\<lparr>certsets := (certsets h)(m \<mapsto> y)\<rparr>)"
      "cs_name y = []" "cs_type y = CERT_X509" "cs_refcnt y = 0" "cs_intcalist y = []" "cs_calist y = []"
    by (auto simp: certset_alloc_def)
  show ?thesis
  proof (rule begin_section_wp [OF assms(1) P assms(2), where b = "\<not> py_ncert P > MAX_CERTSET"
      and hn = "h\<lparr>certsets := (certsets h)(m \<mapsto> y), proxies := (proxies h)(py \<mapsto> P\<lparr>py_certlist := py_certlist P @ [m], py_ncert := py_ncert P + 1\<rparr>)\<rparr>"])
    show "\<exists>x. certset_free m (h\<lparr>certsets := (certsets h)(m \<mapsto> y)\<rparr>) = Some (x, h)" if "m \<noteq> NULL" "m \<notin> live h"
      using that y by (auto simp: certset_free_def live_def upd_none)
    show "cfg_st n (pc\<lparr>pc_section := CFG_CERTSET, pc_cfg := m\<rparr>) py (h\<lparr>certsets := (certsets h)(m \<mapsto> y), proxies := (proxies h)(py \<mapsto> P\<lparr>py_certlist := py_certlist P @ [m], py_ncert := py_ncert P + 1\<rparr>)\<rparr>)"
      if "fresh_st n py m P h" "\<not> py_ncert P > MAX_CERTSET" by (rule new_certset [OF that(1) y(2,3) that(2)])
  qed (use P py y in \<open>auto simp: certset_alloc_def proxy_add_certset_def live_def split: if_splits\<close>)
qed

lemma begin_listener_wp:
  assumes "cfg_st n pc py h" and "m = NULL \<or> m \<notin> live h"
  shows "wp c (line_end n py m h) (begin_section listener_alloc proxy_add_listener listener_free CFG_LISTENER m pc py h)"
proof -
  obtain P where P: "proxies h py = Some P" and py: "py \<noteq> NULL" using assms(1) by (auto simp: cfg_st_def)
  obtain y where y: "m \<noteq> NULL \<Longrightarrow> listener_alloc m h = (m, h\<lparr>listeners := (listeners h)(m \<mapsto> y)\<rparr>)"
      "lt_name y = []" "lt_ssl y = 0" "lt_cert y = NULL" "lt_refcnt y = 0"
    by (auto simp: listener_alloc_def)
  show ?thesis
  proof (rule begin_section_wp [OF assms(1) P assms(2), where b = "\<not> py_nlistener P > MAX_LISTENER"
      and hn = "h\<lparr>listeners := (listeners h)(m \<mapsto> y), proxies := (proxies h)(py \<mapsto> P\<lparr>py_ltnlist := py_ltnlist P @ [m], py_nlistener := py_nlistener P + 1\<rparr>)\<rparr>"])
    show "\<exists>x. listener_free m (h\<lparr>listeners := (listeners h)(m \<mapsto> y)\<rparr>) = Some (x, h)" if "m \<noteq> NULL" "m \<notin> live h"
      using that y by (auto simp: listener_free_def live_def upd_none)
    show "cfg_st n (pc\<lparr>pc_section := CFG_LISTENER, pc_cfg := m\<rparr>) py (h\<lparr>listeners := (listeners h)(m \<mapsto> y), proxies := (proxies h)(py \<mapsto> P\<lparr>py_ltnlist := py_ltnlist P @ [m], py_nlistener := py_nlistener P + 1\<rparr>)\<rparr>)"
      if "fresh_st n py m P h" "\<not> py_nlistener P > MAX_LISTENER" by (rule new_listener [OF that(1) y(2-5) that(2)])
  qed (use P py y in \<open>auto simp: listener_alloc_def proxy_add_listener_def live_def split: if_splits\<close>)
qed

lemma begin_svrpool_wp:
  assumes "cfg_st n pc py h" and "m = NULL \<or> m \<notin> live h"
  shows "wp c (line_end n py m h) (begin_section svrpool_alloc proxy_add_svrpool svrpool_free CFG_SVRPOOL m pc py h)"
proof -
  obtain P where P: "proxies h py = Some P" and py: "py \<noteq> NULL" using assms(1) by (auto simp: cfg_st_def)
  obtain y where y: "m \<noteq> NULL \<Longrightarrow> svrpool_alloc m h = (m, h\<lparr>svrpools := (svrpools h)(m \<mapsto> y)\<rparr>)"
      "sp_name y = []" "sp_svrlist y = []" "sp_nserver y = 0" "sp_refcnt y = 0"
    by (auto simp: svrpool_alloc_def)
  show ?thesis
  proof (rule begin_section_wp [OF assms(1) P assms(2), where b = "\<not> py_nsvrpool P > MAX_SVRPOOL"
      and hn = "h\<lparr>svrpools := (svrpools h)(m \<mapsto> y), proxies := (proxies h)(py \<mapsto> P\<lparr>py_splist := py_splist P @ [m], py_nsvrpool := py_nsvrpool P + 1\<rparr>)\<rparr>"])
    show "\<exists>x. svrpool_free m (h\<lparr>svrpools := (svrpools h)(m \<mapsto> y)\<rparr>) = Some (x, h)" if "m \<noteq> NULL" "m \<notin> live h"
      using that y by (auto simp: svrpool_free_def live_def upd_none)
    show "cfg_st n (pc\<lparr>pc_section := CFG_SVRPOOL, pc_cfg := m\<rparr>) py (h\<lparr>svrpools := (svrpools h)(m \<mapsto> y), proxies := (proxies h)(py \<mapsto> P\<lparr>py_splist := py_splist P @ [m], py_nsvrpool := py_nsvrpool P + 1\<rparr>)\<rparr>)"
      if "fresh_st n py m P h" "\<not> py_nsvrpool P > MAX_SVRPOOL" by (rule new_svrpool [OF that(1) y(2-5) that(2)])
  qed (use P py y in \<open>auto simp: svrpool_alloc_def proxy_add_svrpool_def live_def split: if_splits\<close>)
qed

lemma begin_policy_wp:
  assumes "cfg_st n pc py h" and "m = NULL \<or> m \<notin> live h"
  shows "wp c (line_end n py m h) (begin_section policy_alloc proxy_add_policy policy_free CFG_POLICY m pc py h)"
proof -
  obtain P where P: "proxies h py = Some P" and py: "py \<noteq> NULL" using assms(1) by (auto simp: cfg_st_def)
  obtain y where y: "m \<noteq> NULL \<Longrightarrow> policy_alloc m h = (m, h\<lparr>policies := (policies h)(m \<mapsto> y)\<rparr>)"
      "pl_name y = []" "pl_listener y = NULL" "pl_svrpool y = NULL" "pl_refcnt y = 0" "pl_spdata y = NULL" "pl_ltndata y = NULL"
    by (auto simp: policy_alloc_def)
  show ?thesis
  proof (rule begin_section_wp [OF assms(1) P assms(2), where b = "\<not> py_npolicy P > MAX_POLICY"
      and hn = "h\<lparr>policies := (policies h)(m \<mapsto> y), proxies := (proxies h)(py \<mapsto> P\<lparr>py_pllist := py_pllist P @ [m], py_npolicy := py_npolicy P + 1\<rparr>)\<rparr>"])
    show "\<exists>x. policy_free m (h\<lparr>policies := (policies h)(m \<mapsto> y)\<rparr>) = Some (x, h)" if "m \<noteq> NULL" "m \<notin> live h"
      using that y by (auto simp: policy_free_def policy_free_data_def live_def upd_none)
    show "cfg_st n (pc\<lparr>pc_section := CFG_POLICY, pc_cfg := m\<rparr>) py (h\<lparr>policies := (policies h)(m \<mapsto> y), proxies := (proxies h)(py \<mapsto> P\<lparr>py_pllist := py_pllist P @ [m], py_npolicy := py_npolicy P + 1\<rparr>)\<rparr>)"
      if "fresh_st n py m P h" "\<not> py_npolicy P > MAX_POLICY" by (rule new_policy [OF that(1) y(2-7) that(2)])
  qed (use P py y in \<open>auto simp: policy_alloc_def proxy_add_policy_def live_def split: if_splits\<close>)
qed

lemma cfg_parse_line_wp:
  assumes st: "cfg_st n pc py h" and m: "m = NULL \<or> m \<notin> live h"
  shows "wp (safe m args) (line_end n py m h) (cfg_parse_line m junk pc py kw args h)"
proof -
  obtain P where P: "proxies h py = Some P" "at_section pc py P" "cfg_inv n P h" and py: "py \<noteq> NULL" using st by (auto simp: cfg_st_def)
  have stay: "line_end n py m h (r, pc, h)" for r using st by (simp add: line_end_def cfg_st_Suc live_stay)
  have proxy: "line_end n py m h (0, pc\<lparr>pc_section := CFG_PROXY, pc_cfg := py\<rparr>, h)" if "finished P h"
    using that P py by (auto simp: line_end_def cfg_st_def all_complete_def complete_def finished_def at_section_def live_def cfg_inv_def intro: refs_Suc)
  have key: "wp (safe m args) (line_post n pc py m h) (case pc_section pc of
           CFG_PROXY \<Rightarrow> cfg_parse_proxy pc py kw args h
         | CFG_CERTSET \<Rightarrow> cfg_parse_certset m pc py kw args h
         | CFG_LISTENER \<Rightarrow> cfg_parse_listener junk pc py kw args h
         | CFG_SVRPOOL \<Rightarrow> cfg_parse_svrpool m junk pc py kw args h
         | CFG_POLICY \<Rightarrow> cfg_parse_policy pc py kw args h)"
    using st m by (auto simp: cfg_parse_proxy_wp cfg_parse_certset_wp cfg_parse_listener_wp cfg_parse_svrpool_wp cfg_parse_policy_wp split: cfg_section.split)
  show ?thesis unfolding cfg_parse_line_def
    by (rule wp_if wp_Some stay proxy begin_certset_wp [OF st m] begin_listener_wp [OF st m] begin_svrpool_wp [OF st m] begin_policy_wp [OF st m]
        wp_bind [OF key] wp_bind [OF check_section_wp [OF st P(1)]] wp_prod
      | (simp add: proxy line_post_def line_end_def; fail) | clarsimp)+
qed

subsection \<open>Lines and tokens\<close>

lemma fgets_append: "fgets n s = (l, r) \<Longrightarrow> l @ r = s \<and> length l \<le> n"
  by (induction n s arbitrary: l r rule: fgets.induct) (auto split: if_splits prod.splits)

lemma fgets_nonempty: "fgets n (c # s) = (l, r) \<Longrightarrow> 0 < n \<Longrightarrow> \<exists>k. l = c # k"
  by (cases n) (auto split: if_splits prod.splits)

text \<open>The array always ends with a terminator, so that no line counts as too long.\<close>

lemma never_too_long: "length l \<le> 1023 \<Longrightarrow> (l @ replicate (1024 - length l) NUL) ! 1023 = NUL"
  by (simp add: nth_append)

lemma strtok_Some:
  assumes "strtok_r s = (Some t, r)"
  shows "t \<noteq> []" and "sublist t s" and "sublist r s"
proof -
  let ?s = "dropWhile is_delim s"
  have ne: "?s \<noteq> []" and t: "t = takeWhile (\<lambda>c. \<not> is_delim c) ?s" and r: "r = tl (dropWhile (\<lambda>c. \<not> is_delim c) ?s)"
    using assms by (auto simp: strtok_r_def Let_def split: if_splits)
  have "suffix ?s s" by (rule suffix_dropWhile)
  moreover have "prefix t ?s" unfolding t by (rule takeWhile_is_prefix)
  ultimately show "sublist t s" by (meson prefix_imp_sublist sublist_order.order_trans suffix_imp_sublist)
  have "suffix r ?s" unfolding r by (meson suffix_dropWhile suffix_order.trans suffix_tl)
  then show "sublist r s" using \<open>suffix ?s s\<close> by (meson suffix_imp_sublist suffix_order.trans)
  have "\<not> is_delim (hd ?s)" by (rule hd_dropWhile [OF ne])
  then show "t \<noteq> []" using ne unfolding t by (cases ?s) auto
qed

lemma get_args_sublist: "t \<in> set (get_args n s) \<Longrightarrow> sublist t s"
proof (induction n s rule: get_args.induct)
  case (2 n s)
  obtain t0 r where tok: "strtok_r s = (t0, r)" by fastforce
  obtain a where o: "t0 = Some a" "t = a \<or> t \<in> set (get_args n r)" "hd a \<noteq> CHR ''#''"
    using "2.prems" tok by (auto split: option.splits if_splits)
  have a: "strtok_r s = (Some a, r)" "t = a \<or> t \<in> set (get_args n r)" "hd a \<noteq> CHR ''#''" using tok o by auto
  then show ?case using strtok_Some [OF a(1)] "2.IH" [OF a(1)[symmetric] refl a(3)] by (meson sublist_order.order_trans)
qed simp

lemma chomp_sublist: "chomp l = Some s \<Longrightarrow> sublist s l"
proof -
  let ?s = "takeWhile (\<lambda>c. c \<noteq> NUL) l"
  assume "chomp l = Some s"
  then have "prefix s ?s" by (auto simp: chomp_def Let_def prefixeq_butlast split: if_splits)
  then show ?thesis by (meson prefix_imp_sublist prefix_order.trans takeWhile_is_prefix)
qed

lemma chomp_Some: "l \<noteq> [] \<Longrightarrow> NUL \<notin> set l \<Longrightarrow> chomp l \<noteq> None"
proof -
  assume "l \<noteq> []" "NUL \<notin> set l"
  moreover have "takeWhile (\<lambda>c. c \<noteq> NUL) l = l" using \<open>NUL \<notin> set l\<close> by (auto simp: takeWhile_eq_all_conv)
  ultimately show ?thesis unfolding chomp_def Let_def by (simp only: if_False option.distinct not_False_eq_True)
qed

subsection \<open>The file\<close>

text \<open>What the environment may give: addresses that are not in use, each once.\<close>

definition fresh_mem :: "cfg_env \<Rightarrow> nat \<Rightarrow> 'a py_heap_scheme \<Rightarrow> bool" where
  "fresh_mem e i h \<longleftrightarrow> (\<forall>j\<ge>i. ce_mem e j = NULL \<or> ce_mem e j \<notin> live h) \<and>
     (\<forall>j k. i \<le> j \<longrightarrow> j < k \<longrightarrow> ce_mem e j = ce_mem e k \<longrightarrow> ce_mem e j = NULL)"

text \<open>Memory does not run out, the file has no terminator and no word of it makes the address parser fault.\<close>

definition good_file :: "cfg_env \<Rightarrow> string \<Rightarrow> bool" where
  "good_file e s \<longleftrightarrow> (\<forall>j. ce_mem e j \<noteq> NULL) \<and> NUL \<notin> set s \<and>
     (\<forall>t. sublist t s \<longrightarrow> length t < 1024 \<longrightarrow> (\<forall>j. ip_port_from_str (Some j) (Some t) \<noteq> None))"

definition file_end :: "nat \<Rightarrow> addr \<Rightarrow> int \<times> bool \<times> 'a py_heap_scheme \<Rightarrow> bool" where
  "file_end n py = (\<lambda>(r, op, h). \<exists>P. proxies h py = Some P \<and> cfg_inv n P h \<and> (r = 0 \<longrightarrow> finished P h))"

lemma file_end_mono: "file_end n py x \<Longrightarrow> n \<le> n' \<Longrightarrow> file_end n' py x"
  by (auto simp: file_end_def cfg_inv_def intro: refs_mono)

lemma file_end_stop: "cfg_st n pc py h \<Longrightarrow> file_end n py (- 1, op, h)"
  by (auto simp: file_end_def cfg_st_def)

lemma fresh_mem_Suc: "fresh_mem e i h \<Longrightarrow> live h' \<subseteq> insert (ce_mem e i) (live h) \<Longrightarrow> fresh_mem e (Suc i) h'"
proof -
  assume f: "fresh_mem e i h" and sub: "live h' \<subseteq> insert (ce_mem e i) (live h)"
  have "ce_mem e j = NULL \<or> ce_mem e j \<notin> live h'" if "Suc i \<le> j" for j
  proof -
    have "ce_mem e j = NULL \<or> ce_mem e j \<notin> live h" "ce_mem e i = ce_mem e j \<longrightarrow> ce_mem e i = NULL"
      using f that by (auto simp: fresh_mem_def)
    then show ?thesis using sub by auto
  qed
  moreover have "\<forall>j k. Suc i \<le> j \<longrightarrow> j < k \<longrightarrow> ce_mem e j = ce_mem e k \<longrightarrow> ce_mem e j = NULL"
    using f unfolding fresh_mem_def by (meson Suc_leD)
  ultimately show ?thesis by (simp add: fresh_mem_def)
qed

lemma good_file_rest: "good_file e s \<Longrightarrow> fgets n s = (l, r) \<Longrightarrow> good_file e r"
proof -
  assume g: "good_file e s" and "fgets n s = (l, r)"
  then have s: "s = l @ r" using fgets_append [of n s l r] by simp
  then have "sublist t r \<longrightarrow> sublist t s" for t by (meson sublist_append_leftI sublist_order.order_trans)
  then show ?thesis using g s by (auto simp: good_file_def)
qed

lemma good_file_safe:
  assumes "good_file e s" and "fgets 1023 s = (l, r)" and "chomp l = Some x" and "strtok_r x = (Some kw, y)"
  shows "safe (ce_mem e i) (get_args 4 y)"
proof -
  have l: "l @ r = s" "length l \<le> 1023" using fgets_append [OF assms(2)] by auto
  have "safe_arg t" if "t \<in> set (get_args 4 y)" for t
  proof -
    have "sublist t l" using get_args_sublist [OF that] strtok_Some(3) [OF assms(4)] chomp_sublist [OF assms(3)] by (meson sublist_order.order_trans)
    moreover have "sublist l s" using l(1) by (auto simp: sublist_def intro: exI [of _ "[]"])
    moreover have "length t \<le> length l" using \<open>sublist t l\<close> by (rule sublist_length_le)
    ultimately show ?thesis using assms(1) l(2) unfolding good_file_def safe_arg_def PATH_MAX_def by (auto dest: sublist_order.order_trans)
  qed
  then show ?thesis using assms(1) by (auto simp: safe_def good_file_def)
qed

lemma cfg_load_lines_wp:
  fixes h :: "'a py_heap_scheme"
  assumes "cfg_st i pc py h" and "fresh_mem e i h"
  shows "wp (good_file e s) (file_end (i + length s) py) (cfg_load_lines e i pc py s h)"
  using assms
proof (induction "length s" arbitrary: i pc s h rule: less_induct)
  case less
  show ?case
  proof (cases s)
    case Nil
    obtain P where P: "proxies h py = Some P" "cfg_inv i P h" using less.prems by (auto simp: cfg_st_def)
    show ?thesis using P file_end_stop [OF less.prems(1)] Nil
      by (auto simp: file_end_def intro!: wp_bind [OF check_section_wp [OF less.prems(1) P(1)]] wp_Some)
  next
    case (Cons c cs)
    obtain l rest where f: "fgets 1023 (c # cs) = (l, rest)" by fastforce
    obtain k where l: "l = c # k" using fgets_nonempty [OF f] by auto
    have app: "l @ rest = c # cs" "length l \<le> 1023" using fgets_append [OF f] by auto
    have long: "(l @ replicate (1024 - length l) NUL) ! 1023 = NUL" by (rule never_too_long [OF app(2)])
    have rest: "length rest < length s" using fgets_rest [OF f] Cons by simp
    have fresh: "ce_mem e i = NULL \<or> ce_mem e i \<notin> live h" using less.prems(2) by (auto simp: fresh_mem_def)
    have stop: "file_end (i + length s) py (- 1, False, h')" if "cfg_st (i + 1) pc' py h'" for pc' and h' :: "'a py_heap_scheme"
      using file_end_mono [OF file_end_stop [OF that]] rest by simp
    have go: "wp (good_file e s) (file_end (i + length s) py) (cfg_load_lines e (i + 1) pc' py rest h')"
      if "cfg_st (i + 1) pc' py h'" "fresh_mem e (i + 1) h'" for pc' and h' :: "'a py_heap_scheme"
    proof -
      have "wp (good_file e rest) (file_end (i + 1 + length rest) py) (cfg_load_lines e (i + 1) pc' py rest h')"
        by (rule less.hyps [OF rest that])
      then show ?thesis using good_file_rest [OF _ f] Cons rest file_end_mono [of "i + 1 + length rest" py _ "i + length s"]
        by (auto simp: wp_def post_def)
    qed
    have same: "cfg_st (i + 1) pc py h" "fresh_mem e (i + 1) h"
      using less.prems fresh_mem_Suc [OF less.prems(2) live_stay] by (simp_all add: cfg_st_Suc)
    show ?thesis
    proof (cases "chomp l")
      case None
      then have "\<not> good_file e s" using chomp_Some [of l] l app(1) Cons by (auto simp: good_file_def)
      then show ?thesis using None f long Cons by (simp add: wp_None)
    next
      case (Some x)
      obtain tk y where tk: "strtok_r x = (tk, y)" by fastforce
      have line: "wp (good_file e s) (line_end i py (ce_mem e i) h) (cfg_parse_line (ce_mem e i) j pc py kw (get_args 4 y) h)" if "tk = Some kw" for kw j
        using cfg_parse_line_wp [OF less.prems(1) fresh] good_file_safe [OF _ f Some] tk that Cons by (auto simp: wp_def)
      let ?args = "get_args 4 y"
      show ?thesis
      proof (cases tk)
        case None
        then show ?thesis using Some tk f long Cons go [OF same] by simp
      next
        case kw: (Some kw)
        have eq: "cfg_load_lines e i pc py s h =
          (if hd kw = CHR ''#'' then cfg_load_lines e (i + 1) pc py rest h
           else if length ?args \<ge> 4 then Some (- 1, False, h)
           else case cfg_parse_line (ce_mem e i) (ce_junk e i) pc py kw ?args h of None \<Rightarrow> None
             | Some (r, pc, h) \<Rightarrow> if r \<noteq> 0 then Some (- 1, False, h) else cfg_load_lines e (i + 1) (pc\<lparr>pc_lineno := pc_lineno pc + 1\<rparr>) py rest h)"
          using Some tk f long Cons kw by (simp add: Let_def)
        have more: "wp (good_file e s) (file_end (i + length s) py)
            (case x of (r, pc, h) \<Rightarrow> if r \<noteq> 0 then Some (- 1, False, h) else cfg_load_lines e (i + 1) (pc\<lparr>pc_lineno := pc_lineno pc + 1\<rparr>) py rest h)"
          if "line_end i py (ce_mem e i) h x" for x
        proof -
          obtain r pc' h' where x: "x = (r, pc', h')" by (cases x) auto
          have ok: "cfg_st (i + 1) pc' py h'" "fresh_mem e (i + 1) h'" "cfg_st (i + 1) (pc'\<lparr>pc_lineno := pc_lineno pc' + 1\<rparr>) py h'"
            using that x fresh_mem_Suc [OF less.prems(2), of h'] by (simp_all add: line_end_def cfg_st_lineno)
          show ?thesis unfolding x prod.case using go [OF ok(3,2)] stop [OF ok(1)] by (auto intro!: wp_Some)
        qed
        have ln: "wp (good_file e s) (line_end i py (ce_mem e i) h) (cfg_parse_line (ce_mem e i) (ce_junk e i) pc py kw ?args h)" by (rule line [OF kw])
        show ?thesis unfolding eq
          by (intro wp_if wp_option wp_Some go [OF same] stop [OF same(1)])
            (use ln more [OF wpD [OF ln]] in \<open>auto simp: wp_def [of _ "line_end _ _ _ _"] intro!: wp_None\<close>)
      qed
    qed
  qed
qed

lemma cfg_st_alloc:
  assumes "proxy_alloc m h0 = (py, h)" and "m \<noteq> NULL"
  shows "cfg_st 0 \<lparr>pc_section = CFG_PROXY, pc_lineno = k, pc_cfg = py\<rparr> py h"
  using assms by (auto simp: proxy_alloc_def cfg_st_defs cfg_range_def zero_cfg_def counted_def MAX_CERTSET_def MAX_LISTENER_def MAX_SVRPOOL_def
      MAX_POLICY_def cert_inv_def ltn_inv_def pool_inv_def plc_inv_def named_def refs_def complete_def at_section_def)

lemma cfg_load_file_wp:
  assumes "proxy_alloc m h0 = (py, h)" and "m \<noteq> NULL" and "fresh_mem e 0 h"
  shows "wp (good_file e s) (file_end (length s) py) (cfg_load_file e py (Some s) h)"
  using cfg_load_lines_wp [OF cfg_st_alloc [OF assms(1,2)] assms(3), where s = s] by (simp add: cfg_load_file_def)

subsection \<open>A valid configuration\<close>

definition valid_cfg :: "proxy \<Rightarrow> 'a py_heap_scheme \<Rightarrow> bool" where
  "valid_cfg P h \<longleftrightarrow> cfg_range (py_cfg P) \<and>
     distinct (map (cert_name h) (py_certlist P)) \<and> distinct (map (ltn_name h) (py_ltnlist P)) \<and>
     distinct (map (pool_name h) (py_splist P)) \<and> distinct (map (plc_name h) (py_pllist P)) \<and>
     (\<forall>a\<in>set (py_certlist P). \<exists>c. certsets h a = Some c \<and> cs_name c \<noteq> [] \<and> length (cs_name c) < MAX_NAME \<and> cs_cert c \<noteq> [] \<and> cs_pkey c \<noteq> []) \<and>
     (\<forall>a\<in>set (py_ltnlist P). \<exists>l. listeners h a = Some l \<and> lt_name l \<noteq> [] \<and> length (lt_name l) < MAX_NAME \<and> family (lt_address l) \<noteq> 0 \<and>
        (lt_ssl l \<noteq> 0 \<longrightarrow> lt_cert l \<in> set (py_certlist P))) \<and>
     (\<forall>a\<in>set (py_splist P). \<exists>p. svrpools h a = Some p \<and> sp_name p \<noteq> [] \<and> length (sp_name p) < MAX_NAME \<and> sp_svrlist p \<noteq> [] \<and>
        (\<forall>s\<in>set (sp_svrlist p). \<exists>v. servers h s = Some v \<and> sv_weight v \<in> {1..99} \<and> sv_ssl v \<in> {0, 1})) \<and>
     (\<forall>a\<in>set (py_pllist P). \<exists>p. policies h a = Some p \<and> pl_name p \<noteq> [] \<and> length (pl_name p) < MAX_NAME \<and>
        pl_listener p \<in> set (py_ltnlist P) \<and> pl_svrpool p \<in> set (py_splist P)) \<and>
     distinct (map (\<lambda>a. pl_listener (the (policies h a))) (py_pllist P))"

lemma named_distinct:
  assumes "named nm M as" and "\<forall>a\<in>set as. nm (the (M a)) \<noteq> []"
  shows "distinct (map (\<lambda>a. map_option nm (M a)) as)"
proof -
  have "inj_on (\<lambda>a. map_option nm (M a)) (set as)"
  proof (rule inj_onI)
    fix a b assume ab: "a \<in> set as" "b \<in> set as" "map_option nm (M a) = map_option nm (M b)"
    then have "nm (the (M a)) = nm (the (M b))" using named_live [OF assms(1)] by (metis option.map_sel option.distinct(1))
    then show "a = b" using assms ab unfolding named_def by metis
  qed
  then show ?thesis using assms(1) by (simp add: distinct_map named_def)
qed

lemma finished_valid:
  assumes inv: "cfg_inv n P h" and fin: "finished P h"
  shows "valid_cfg P h"
proof -
  have nm: "named cs_name (certsets h) (py_certlist P)" "named lt_name (listeners h) (py_ltnlist P)"
     "named sp_name (svrpools h) (py_splist P)" "named pl_name (policies h) (py_pllist P)"
    using inv by (auto simp: cfg_inv_def cert_inv_def ltn_inv_def pool_inv_def plc_inv_def)
  have d: "\<forall>a\<in>set (py_certlist P). cs_name (the (certsets h a)) \<noteq> []" "\<forall>a\<in>set (py_ltnlist P). lt_name (the (listeners h a)) \<noteq> []"
     "\<forall>a\<in>set (py_splist P). sp_name (the (svrpools h a)) \<noteq> []" "\<forall>a\<in>set (py_pllist P). pl_name (the (policies h a)) \<noteq> []"
    using fin by (auto simp: finished_def cert_done_def ltn_done_def pool_done_def plc_done_def)
  have names: "distinct (map (cert_name h) (py_certlist P))" "distinct (map (ltn_name h) (py_ltnlist P))"
     "distinct (map (pool_name h) (py_splist P))" "distinct (map (plc_name h) (py_pllist P))"
    using named_distinct [OF nm(1) d(1)] named_distinct [OF nm(2) d(2)] named_distinct [OF nm(3) d(3)] named_distinct [OF nm(4) d(4)]
    by (simp_all add: cert_name_def [abs_def] ltn_name_def [abs_def] pool_name_def [abs_def] plc_name_def [abs_def])
  have "\<exists>c. certsets h a = Some c \<and> cs_name c \<noteq> [] \<and> length (cs_name c) < MAX_NAME \<and> cs_cert c \<noteq> [] \<and> cs_pkey c \<noteq> []"
    if a: "a \<in> set (py_certlist P)" for a
  proof -
    obtain x where x: "certsets h a = Some x" using named_live [OF nm(1) a] by blast
    have "cert_done (the (certsets h a))" "cs_type (the (certsets h a)) = CERT_X509" "length (cs_name (the (certsets h a))) < MAX_NAME"
      using inv fin nm(1) a by (simp_all add: cfg_inv_def cert_inv_def finished_def named_def)
    then show ?thesis using x by (auto simp: cert_done_def)
  qed
  moreover have "\<exists>l. listeners h a = Some l \<and> lt_name l \<noteq> [] \<and> length (lt_name l) < MAX_NAME \<and> family (lt_address l) \<noteq> 0 \<and> (lt_ssl l \<noteq> 0 \<longrightarrow> lt_cert l \<in> set (py_certlist P))"
    if a: "a \<in> set (py_ltnlist P)" for a
  proof -
    obtain x where x: "listeners h a = Some x" using named_live [OF nm(2) a] by blast
    have "ltn_done (the (listeners h a))" "lt_cert (the (listeners h a)) = NULL \<or> lt_cert (the (listeners h a)) \<in> set (py_certlist P)" "length (lt_name (the (listeners h a))) < MAX_NAME"
      using inv fin nm(2) a by (simp_all add: cfg_inv_def ltn_inv_def finished_def named_def)
    then show ?thesis using x by (auto simp: ltn_done_def)
  qed
  moreover have "\<exists>p. svrpools h a = Some p \<and> sp_name p \<noteq> [] \<and> length (sp_name p) < MAX_NAME \<and> sp_svrlist p \<noteq> [] \<and>
        (\<forall>s\<in>set (sp_svrlist p). \<exists>v. servers h s = Some v \<and> sv_weight v \<in> {1..99} \<and> sv_ssl v \<in> {0, 1})"
    if a: "a \<in> set (py_splist P)" for a
  proof -
    obtain x where x: "svrpools h a = Some x" using named_live [OF nm(3) a] by blast
    have "pool_done (the (svrpools h a))" "sp_nserver (the (svrpools h a)) = int (length (sp_svrlist (the (svrpools h a))))" "length (sp_name (the (svrpools h a))) < MAX_NAME" "\<forall>s\<in>set (sp_svrlist (the (svrpools h a))). s \<noteq> NULL \<and> (\<exists>v. servers h s = Some v \<and> svr_ok v)"
      using inv fin nm(3) a by (simp_all add: cfg_inv_def pool_inv_def finished_def named_def)
    then show ?thesis using x by (auto simp: pool_done_def svr_ok_def)
  qed
  moreover have "\<exists>p. policies h a = Some p \<and> pl_name p \<noteq> [] \<and> length (pl_name p) < MAX_NAME \<and> pl_listener p \<in> set (py_ltnlist P) \<and> pl_svrpool p \<in> set (py_splist P)"
    if a: "a \<in> set (py_pllist P)" for a
  proof -
    obtain x where x: "policies h a = Some x" using named_live [OF nm(4) a] by blast
    have "plc_done (the (policies h a))" "pl_listener (the (policies h a)) = NULL \<or> pl_listener (the (policies h a)) \<in> set (py_ltnlist P)" "pl_svrpool (the (policies h a)) = NULL \<or> pl_svrpool (the (policies h a)) \<in> set (py_splist P)" "length (pl_name (the (policies h a))) < MAX_NAME"
      using inv fin nm(4) a by (simp_all add: cfg_inv_def plc_inv_def finished_def named_def)
    then show ?thesis using x by (auto simp: plc_done_def)
  qed
  moreover have "distinct (map (\<lambda>a. pl_listener (the (policies h a))) (py_pllist P))"
  proof -
    have "\<forall>a\<in>set (py_pllist P). pl_listener (the (policies h a)) \<noteq> NULL" using fin by (simp add: finished_def plc_done_def)
    moreover have "\<forall>a\<in>set (py_pllist P). \<forall>b\<in>set (py_pllist P). a \<noteq> b \<longrightarrow>
        pl_listener (the (policies h a)) = pl_listener (the (policies h b)) \<longrightarrow> pl_listener (the (policies h a)) = NULL"
      using inv unfolding cfg_inv_def plc_inv_def by blast
    moreover have "distinct (py_pllist P)" using nm(4) by (simp add: named_def)
    ultimately show ?thesis unfolding distinct_map inj_on_def by metis
  qed
  moreover have "cfg_range (py_cfg P)" using inv by (simp add: cfg_inv_def)
  ultimately show ?thesis using names unfolding valid_cfg_def by blast
qed

subsection \<open>A small configuration\<close>

definition empty_heap :: py_heap where
  "empty_heap = \<lparr>certsets = (\<lambda>_. None), cacerts = (\<lambda>_. None), ctxs = {}, servers = (\<lambda>_. None), svrdatas = (\<lambda>_. None), svrpools = (\<lambda>_. None),
     spdatas = (\<lambda>_. None), listeners = (\<lambda>_. None), ltndatas = (\<lambda>_. None), lfds = (\<lambda>_. None), policies = (\<lambda>_. None), proxies = (\<lambda>_. None)\<rparr>"

definition demo_env :: cfg_env where
  "demo_env = \<lparr>ce_mem = (\<lambda>i. i + 2), ce_junk = (\<lambda>_. zero_port)\<rparr>"

definition demo_heap :: py_heap where
  "demo_heap = snd (proxy_alloc 1 empty_heap)"

definition demo_file :: string where
  "demo_file = concat (map (\<lambda>l. l @ [NL]) [''worker 4 # threads'', ''[listener]'', ''name l'', ''address 1.2.3.4:80'', ''[svrpool]'', ''name s'',
     ''server 5 http 5.6.7.8:81'', ''[policy]'', ''name p'', ''listener l'', ''svrpool s''])"

definition demo_result :: "(int \<times> bool \<times> py_heap) option" where
  "demo_result = cfg_load_file demo_env 1 (Some demo_file) demo_heap"

lemma demo_alloc: "proxy_alloc 1 empty_heap = (1, demo_heap)"
  by (simp add: demo_heap_def proxy_alloc_def)

lemma demo_fresh: "fresh_mem demo_env 0 demo_heap"
  by (auto simp: fresh_mem_def demo_env_def demo_heap_def proxy_alloc_def empty_heap_def live_def)

lemma demo_result: "map_option (\<lambda>(r, op, h). (r, op, map_option py_npolicy (proxies h 1))) demo_result = Some (0, False, Some 1)"
  by code_simp

text \<open>
  C5: A configuration file that loads gives a valid configuration: all settings are within their ranges, names
  identify objects, a listener with SSL has a certificate set of the proxy, every pool has servers with
  weights from 1 to 99, and every policy has a listener and a pool of the proxy, no listener being shared.
\<close>

theorem cfg_load_valid:
  assumes "proxy_alloc m h0 = (py, h)" and "m \<noteq> NULL" and "fresh_mem e 0 h" and "cfg_load_file e py (Some s) h = Some (0, op, h')"
  shows "\<exists>P. proxies h' py = Some P \<and> valid_cfg P h'"
  using wpD [OF cfg_load_file_wp [OF assms(1-3)] assms(4)] finished_valid by (auto simp: file_end_def)

theorem cfg_load_valid_witness:
  "\<exists>op h' P. cfg_load_file demo_env 1 (Some demo_file) demo_heap = Some (0, op, h') \<and> proxies h' 1 = Some P \<and> valid_cfg P h' \<and> py_npolicy P = 1"
proof -
  obtain op h' where h': "cfg_load_file demo_env 1 (Some demo_file) demo_heap = Some (0, op, h')" "map_option py_npolicy (proxies h' 1) = Some 1"
    using demo_result by (auto simp: demo_result_def)
  then show ?thesis using cfg_load_valid [OF demo_alloc _ demo_fresh h'(1)] by auto
qed




lemma no_bracket_safe: "CHR ''['' \<notin> set t \<Longrightarrow> ip_port_from_str (Some j) (Some t) \<noteq> None"
  by (cases t) (auto simp: ip_port_from_str_def Let_def IP_STR_LEN_def split: option.splits prod.splits)


end
