(* ===== verification/Proxy_release.thy ===== *)
theory Proxy_release
  imports Proxy_load
begin

text \<open>
  Releasing a proxy after its configuration was loaded, successfully or not: \<^verbatim>\<open>proxy_free\<close> frees its listeners,
  pools and policies without touching freed memory, although policies share listeners and pools.
\<close>

subsection \<open>Giving back one reference\<close>

text \<open>How many references an object has left; -1 once it is freed.\<close>

definition left :: "('t \<Rightarrow> u32) \<Rightarrow> (addr \<rightharpoonup> 't) \<Rightarrow> addr \<Rightarrow> int" where
  "left rc L x = (case L x of None \<Rightarrow> - 1 | Some t \<Rightarrow> uint (rc t))"

lemma left_None: "left rc L x = - 1 \<longleftrightarrow> L x = None"
proof -
  have "uint w \<noteq> - 1" for w :: u32 using uint_nonnegative [of w] by linarith
  then show ?thesis by (simp add: left_def split: option.split)
qed

lemma uint_pred:
  fixes w :: u32
  assumes "w \<noteq> 0"
  shows "uint (w - 1) = uint w - 1"
proof -
  have "uint w \<noteq> 0" using assms by (simp add: uint_0_iff)
  then have "1 \<le> uint w" using uint_nonnegative [of w] by linarith
  then show ?thesis using uint_sub_lem [of 1 w] by simp
qed

lemma left_upd: "L x = Some t \<Longrightarrow> rc d = rc t - 1 \<Longrightarrow>
    left rc (L(x := if rc t = 0 then None else Some d)) y = left rc L y - (if y = x then 1 else 0)"
  by (auto simp: left_def uint_pred)

definition ltn_dec :: "listener \<Rightarrow> listener option" where
  "ltn_dec l = (if lt_refcnt l = 0 then None else Some (l\<lparr>lt_refcnt := lt_refcnt l - 1\<rparr>))"

definition pool_dec :: "svrpool \<Rightarrow> svrpool option" where
  "pool_dec s = (if sp_refcnt s = 0 then None else Some (s\<lparr>sp_refcnt := sp_refcnt s - 1\<rparr>))"

lemma left_ltn: "L x = Some t \<Longrightarrow> left lt_refcnt (L(x := ltn_dec t)) y = left lt_refcnt L y - (if y = x then 1 else 0)"
  unfolding ltn_dec_def by (rule left_upd) auto

lemma left_pool: "L x = Some t \<Longrightarrow> left sp_refcnt (L(x := pool_dec t)) y = left sp_refcnt L y - (if y = x then 1 else 0)"
  unfolding pool_dec_def by (rule left_upd) auto

lemma listener_free_dec: "l \<noteq> NULL \<Longrightarrow> listeners h l = Some t \<Longrightarrow> listener_free l h = Some (0, h\<lparr>listeners := (listeners h)(l := ltn_dec t)\<rparr>)"
  by (auto simp: listener_free_def ltn_dec_def)

text \<open>The pools of a set own different servers, all live.\<close>

definition owners :: "addr set \<Rightarrow> (addr \<rightharpoonup> svrpool) \<Rightarrow> (addr \<rightharpoonup> server) \<Rightarrow> bool" where
  "owners T M S \<longleftrightarrow> (\<forall>a\<in>T. \<forall>p. M a = Some p \<longrightarrow> distinct (sp_svrlist p) \<and> (\<forall>s\<in>set (sp_svrlist p). s \<noteq> NULL \<and> S s \<noteq> None)) \<and>
     (\<forall>a\<in>T. \<forall>b\<in>T. \<forall>p q. a \<noteq> b \<longrightarrow> M a = Some p \<longrightarrow> M b = Some q \<longrightarrow> set (sp_svrlist p) \<inter> set (sp_svrlist q) = {})"

lemma svrpool_free_dec:
  assumes own: "owners T (svrpools h) (servers h)" and a: "a \<in> T" "a \<noteq> NULL" "svrpools h a = Some p"
  shows "\<exists>S. svrpool_free a h = Some (0, h\<lparr>servers := S, svrpools := (svrpools h)(a := pool_dec p)\<rparr>) \<and> owners T ((svrpools h)(a := pool_dec p)) S"
proof (cases "sp_refcnt p = 0")
  case True
  have "distinct (sp_svrlist p)" "\<forall>x\<in>set (sp_svrlist p). x \<noteq> NULL \<and> servers h x \<noteq> None" using own a by (auto simp: owners_def)
  then obtain f where f: "free_each server_free (sp_svrlist p) h = Some (h\<lparr>servers := f\<rparr>)" "\<And>x. x \<notin> set (sp_svrlist p) \<Longrightarrow> f x = servers h x"
    using free_each_servers [of "sp_svrlist p" h] by blast
  have "owners T ((svrpools h)(a := None)) f"
    unfolding owners_def
  proof (intro conjI ballI allI impI)
    fix b q assume b: "b \<in> T" "((svrpools h)(a := None)) b = Some q"
    then have ne: "b \<noteq> a" "svrpools h b = Some q" by (auto split: if_splits)
    show "distinct (sp_svrlist q)" using own b ne by (auto simp: owners_def)
    fix s assume s: "s \<in> set (sp_svrlist q)"
    then have "s \<notin> set (sp_svrlist p)" using own a b ne unfolding owners_def by blast
    then show "s \<noteq> NULL" "f s \<noteq> None" using f(2) own b ne s by (auto simp: owners_def)
  next
    fix b c q r assume "b \<in> T" "c \<in> T" "b \<noteq> c" "((svrpools h)(a := None)) b = Some q" "((svrpools h)(a := None)) c = Some r"
    then show "set (sp_svrlist q) \<inter> set (sp_svrlist r) = {}" using own unfolding owners_def by (metis fun_upd_apply option.distinct(1))
  qed
  then show ?thesis using True f(1) a by (auto simp: svrpool_free_def pool_dec_def intro!: exI [of _ f])
next
  case False
  have "owners T ((svrpools h)(a \<mapsto> p\<lparr>sp_refcnt := sp_refcnt p - 1\<rparr>)) (servers h)"
    unfolding owners_def
  proof (intro conjI ballI allI impI)
    fix b q assume b: "b \<in> T" "((svrpools h)(a \<mapsto> p\<lparr>sp_refcnt := sp_refcnt p - 1\<rparr>)) b = Some q"
    then show "distinct (sp_svrlist q)" using own a by (auto simp: owners_def split: if_splits)
    show "s \<noteq> NULL" "servers h s \<noteq> None" if "s \<in> set (sp_svrlist q)" for s using that own a b by (auto simp: owners_def split: if_splits)
  next
    fix b c q r assume bc: "b \<in> T" "c \<in> T" "b \<noteq> c" and q: "((svrpools h)(a \<mapsto> p\<lparr>sp_refcnt := sp_refcnt p - 1\<rparr>)) b = Some q"
      and r: "((svrpools h)(a \<mapsto> p\<lparr>sp_refcnt := sp_refcnt p - 1\<rparr>)) c = Some r"
    obtain q' r' where "svrpools h b = Some q'" "sp_svrlist q' = sp_svrlist q" "svrpools h c = Some r'" "sp_svrlist r' = sp_svrlist r"
      using q r a by (auto split: if_splits)
    then show "set (sp_svrlist q) \<inter> set (sp_svrlist r) = {}" using own bc unfolding owners_def by metis
  qed
  then show ?thesis using False a by (auto simp: svrpool_free_def pool_dec_def intro!: exI [of _ "servers h"])
qed

subsection \<open>The first two loops\<close>

lemma free_listeners:
  assumes "distinct ls" and "NULL \<notin> set ls" and "set ls \<subseteq> dom (listeners h)"
  shows "\<exists>L. free_each listener_free ls h = Some (h\<lparr>listeners := L\<rparr>) \<and>
    (\<forall>x. left lt_refcnt L x = left lt_refcnt (listeners h) x - (if x \<in> set ls then 1 else 0))"
  using assms
proof (induction ls arbitrary: h)
  case Nil
  then show ?case by (auto intro!: exI [of _ "listeners h"])
next
  case (Cons l ls)
  obtain t where t: "listeners h l = Some t" using Cons.prems by auto
  let ?h = "h\<lparr>listeners := (listeners h)(l := ltn_dec t)\<rparr>"
  have ls: "distinct ls" "NULL \<notin> set ls" "set ls \<subseteq> dom (listeners ?h)" using Cons.prems by auto
  obtain L where L: "free_each listener_free ls ?h = Some (?h\<lparr>listeners := L\<rparr>)"
      "\<And>x. left lt_refcnt L x = left lt_refcnt (listeners ?h) x - (if x \<in> set ls then 1 else 0)"
    using Cons.IH [OF ls] by blast
  have "listener_free l h = Some (0, ?h)" using listener_free_dec [OF _ t] Cons.prems by simp
  then have "free_each listener_free (l # ls) h = Some (h\<lparr>listeners := L\<rparr>)" using L(1) by simp
  moreover have "left lt_refcnt L x = left lt_refcnt (listeners h) x - (if x \<in> set (l # ls) then 1 else 0)" for x
    using L(2) [of x] left_ltn [of "listeners h" l t x, OF t] Cons.prems(1) by auto
  ultimately show ?case by blast
qed

lemma free_pools:
  assumes "distinct ls" and "NULL \<notin> set ls" and "set ls \<subseteq> dom (svrpools h)" and "set ls \<subseteq> T" and "owners T (svrpools h) (servers h)"
  shows "\<exists>M S. free_each svrpool_free ls h = Some (h\<lparr>servers := S, svrpools := M\<rparr>) \<and> owners T M S \<and>
    (\<forall>x. left sp_refcnt M x = left sp_refcnt (svrpools h) x - (if x \<in> set ls then 1 else 0))"
  using assms
proof (induction ls arbitrary: h)
  case Nil
  then show ?case by (auto intro!: exI [of _ "svrpools h"] exI [of _ "servers h"])
next
  case (Cons l ls)
  obtain t where t: "svrpools h l = Some t" using Cons.prems by auto
  obtain S where S: "svrpool_free l h = Some (0, h\<lparr>servers := S, svrpools := (svrpools h)(l := pool_dec t)\<rparr>)" "owners T ((svrpools h)(l := pool_dec t)) S"
    using svrpool_free_dec [OF Cons.prems(5) _ _ t] Cons.prems by auto
  let ?h = "h\<lparr>servers := S, svrpools := (svrpools h)(l := pool_dec t)\<rparr>"
  have ls: "distinct ls" "NULL \<notin> set ls" "set ls \<subseteq> dom (svrpools ?h)" "set ls \<subseteq> T" using Cons.prems by auto
  have own: "owners T (svrpools ?h) (servers ?h)" using S(2) by (simp del: fun_upd_apply)
  obtain M S' where M: "free_each svrpool_free ls ?h = Some (?h\<lparr>servers := S', svrpools := M\<rparr>)" "owners T M S'"
      "\<And>x. left sp_refcnt M x = left sp_refcnt (svrpools ?h) x - (if x \<in> set ls then 1 else 0)"
    using Cons.IH [OF ls own] by blast
  have "free_each svrpool_free (l # ls) h = Some (h\<lparr>servers := S', svrpools := M\<rparr>)" using S(1) M(1) by simp
  moreover have "left sp_refcnt M x = left sp_refcnt (svrpools h) x - (if x \<in> set (l # ls) then 1 else 0)" for x
    using M(3) [of x] left_pool [of "svrpools h" l t x, OF t] Cons.prems(1) by auto
  ultimately show ?case using M(2) by blast
qed

subsection \<open>The policies\<close>

text \<open>
  While the policies are freed, an object has as many references left as the remaining policies have to it, and
  those that no policy gives back.
\<close>

definition balance :: "(addr \<Rightarrow> int) \<Rightarrow> (policy \<Rightarrow> addr) \<Rightarrow> (addr \<rightharpoonup> policy) \<Rightarrow> addr list \<Rightarrow> ('t \<Rightarrow> u32) \<Rightarrow> (addr \<rightharpoonup> 't) \<Rightarrow> addr set \<Rightarrow> bool" where
  "balance ex f M ps rc L A \<longleftrightarrow> (\<forall>x\<in>A. ex x \<ge> 0 \<and> left rc L x = ex x + int (uses f M ps x) - 1)"

lemma uses_other: "a \<notin> set ps \<Longrightarrow> uses f (M(a := z)) ps x = uses f M ps x"
  by (auto simp: uses_def intro!: arg_cong [where f = length] filter_cong)

lemma balance_live:
  assumes "balance ex f M (p # ps) rc L A" and "f (the (M p)) \<in> A"
  shows "\<exists>t. L (f (the (M p))) = Some t"
proof -
  have "left rc L (f (the (M p))) \<noteq> - 1" using assms by (auto simp: balance_def)
  then show ?thesis by (simp add: left_None)
qed

lemma balance_step:
  assumes "balance ex f M (p # ps) rc L A" and "p \<notin> set ps" and "\<And>y. left rc L' y = left rc L y - (if y = f (the (M p)) then 1 else 0)"
  shows "balance ex f (M(p := z)) ps rc L' A"
  using assms by (auto simp: balance_def uses_other)

lemma balance_skip:
  assumes "balance ex f M (p # ps) rc L A" and "p \<notin> set ps" and "f (the (M p)) \<notin> A"
  shows "balance ex f (M(p := z)) ps rc L A"
  using assms by (auto simp: balance_def uses_other)

lemma policy_free_parts:
  assumes "p \<noteq> NULL" and "policies h p = Some pl" and "pl_refcnt pl = 0" and "pl_spdata pl = NULL" and "pl_ltndata pl = NULL"
    and "pl_listener pl = NULL \<or> listeners h (pl_listener pl) = Some lt" and "owners T (svrpools h) (servers h)"
    and "pl_svrpool pl = NULL \<or> pl_svrpool pl \<in> T \<and> svrpools h (pl_svrpool pl) = Some sp"
  shows "\<exists>S. policy_free p h = Some (0, h\<lparr>listeners := if pl_listener pl = NULL then listeners h else (listeners h)(pl_listener pl := ltn_dec lt),
      servers := S, svrpools := if pl_svrpool pl = NULL then svrpools h else (svrpools h)(pl_svrpool pl := pool_dec sp), policies := (policies h)(p := None)\<rparr>) \<and>
    owners T (if pl_svrpool pl = NULL then svrpools h else (svrpools h)(pl_svrpool pl := pool_dec sp)) S"
proof -
  let ?h = "h\<lparr>policies := (policies h)(p \<mapsto> pl\<lparr>pl_refcnt := pl_refcnt pl - 1\<rparr>)\<rparr>"
  let ?g = "?h\<lparr>listeners := if pl_listener pl = NULL then listeners h else (listeners h)(pl_listener pl := ltn_dec lt)\<rparr>"
  have l: "(if pl_listener pl \<noteq> NULL then do { (r, h) \<leftarrow> listener_free (pl_listener pl) ?h; Some h } else Some ?h) = Some ?g"
    using listener_free_dec [of "pl_listener pl" ?h lt] assms(6) by auto
  obtain S where S: "(if pl_svrpool pl \<noteq> NULL then do { (r, h) \<leftarrow> svrpool_free (pl_svrpool pl) ?g; Some h } else Some ?g) =
      Some (?g\<lparr>servers := S, svrpools := if pl_svrpool pl = NULL then svrpools h else (svrpools h)(pl_svrpool pl := pool_dec sp)\<rparr>)"
      "owners T (if pl_svrpool pl = NULL then svrpools h else (svrpools h)(pl_svrpool pl := pool_dec sp)) S"
  proof (cases "pl_svrpool pl = NULL")
    case True
    then show ?thesis using that [of "servers h"] assms(7) by simp
  next
    case False
    then show ?thesis using svrpool_free_dec [of T ?g "pl_svrpool pl" sp] assms(7,8) that by auto
  qed
  let ?k = "?g\<lparr>servers := S, svrpools := if pl_svrpool pl = NULL then svrpools h else (svrpools h)(pl_svrpool pl := pool_dec sp)\<rparr>"
  have "policies ?k p = Some (pl\<lparr>pl_refcnt := pl_refcnt pl - 1\<rparr>)" by simp
  then have d: "policy_free_data p ?k = Some (0, ?k)" using assms(1,4,5) by (simp add: policy_free_data_def del: fun_upd_apply)
  have "policy_free p h = do { h \<leftarrow> (if pl_listener pl \<noteq> NULL then do { (r, h) \<leftarrow> listener_free (pl_listener pl) ?h; Some h } else Some ?h);
      h \<leftarrow> (if pl_svrpool pl \<noteq> NULL then do { (r, h) \<leftarrow> svrpool_free (pl_svrpool pl) h; Some h } else Some h);
      (r, h) \<leftarrow> policy_free_data p h; Some (0, h\<lparr>policies := (policies h)(p := None)\<rparr>) }"
    unfolding policy_free_def assms(2,3) Let_def Option.bind.bind_lunit using assms(1) by (simp only: if_False if_True refl)
  also have "\<dots> = Some (0, ?k\<lparr>policies := (policies ?k)(p := None)\<rparr>)"
    unfolding l Option.bind.bind_lunit S(1) d by (simp only: prod.case Option.bind.bind_lunit)
  finally show ?thesis using S(2) by (intro exI [of _ S]) (simp del: fun_upd_apply)
qed

text \<open>The policies that are still to be freed.\<close>

definition to_free :: "addr set \<Rightarrow> addr set \<Rightarrow> addr list \<Rightarrow> 'a py_heap_scheme \<Rightarrow> bool" where
  "to_free A T ps h \<longleftrightarrow> distinct ps \<and> NULL \<notin> set ps \<and> NULL \<notin> A \<and> NULL \<notin> T \<and> (\<forall>p\<in>set ps. \<exists>pl. policies h p = Some pl \<and> pl_refcnt pl = 0 \<and>
     pl_spdata pl = NULL \<and> pl_ltndata pl = NULL \<and> pl_listener pl \<in> insert NULL A \<and> pl_svrpool pl \<in> insert NULL T)"

lemma free_policies:
  assumes "to_free A T ps h" and "owners T (svrpools h) (servers h)"
    and "balance ea pl_listener (policies h) ps lt_refcnt (listeners h) A" and "balance et pl_svrpool (policies h) ps sp_refcnt (svrpools h) T"
  shows "\<exists>h'. free_each policy_free ps h = Some h' \<and> (\<forall>p\<in>set ps. policies h' p = None) \<and> (\<forall>p. policies h p = None \<longrightarrow> policies h' p = None) \<and>
    certsets h' = certsets h \<and> proxies h' = proxies h \<and>
    (\<forall>x\<in>A. left lt_refcnt (listeners h') x = ea x - 1) \<and> (\<forall>x\<in>T. left sp_refcnt (svrpools h') x = et x - 1)"
  using assms
proof (induction ps arbitrary: h)
  case Nil
  then show ?case by (auto simp: balance_def)
next
  case (Cons p ps)
  obtain pl where pl: "policies h p = Some pl" "pl_refcnt pl = 0" "pl_spdata pl = NULL" "pl_ltndata pl = NULL"
      "pl_listener pl \<in> insert NULL A" "pl_svrpool pl \<in> insert NULL T" and p: "p \<noteq> NULL" "p \<notin> set ps" and nul: "NULL \<notin> A" "NULL \<notin> T"
    using Cons.prems(1) by (auto simp: to_free_def)
  obtain lt where lt: "pl_listener pl = NULL \<or> listeners h (pl_listener pl) = Some lt"
    using balance_live [OF Cons.prems(3)] pl(1,5) by auto
  obtain sp where sp: "pl_svrpool pl = NULL \<or> pl_svrpool pl \<in> T \<and> svrpools h (pl_svrpool pl) = Some sp"
    using balance_live [OF Cons.prems(4)] pl(1,6) by auto
  define L where "L = (if pl_listener pl = NULL then listeners h else (listeners h)(pl_listener pl := ltn_dec lt))"
  define M where "M = (if pl_svrpool pl = NULL then svrpools h else (svrpools h)(pl_svrpool pl := pool_dec sp))"
  obtain S where S: "policy_free p h = Some (0, h\<lparr>listeners := L, servers := S, svrpools := M, policies := (policies h)(p := None)\<rparr>)" "owners T M S"
    using policy_free_parts [OF p(1) pl(1-4) lt Cons.prems(2) sp] unfolding L_def M_def by blast
  let ?h = "h\<lparr>listeners := L, servers := S, svrpools := M, policies := (policies h)(p := None)\<rparr>"
  have l: "balance ea pl_listener ((policies h)(p := None)) ps lt_refcnt L A"
  proof (cases "pl_listener pl = NULL")
    case True
    then show ?thesis using balance_skip [OF Cons.prems(3) p(2)] pl(1) nul by (simp add: L_def)
  next
    case False
    then show ?thesis using left_ltn [of "listeners h" "pl_listener pl" lt] lt pl(1) unfolding L_def
      by (intro balance_step [OF Cons.prems(3) p(2)]) auto
  qed
  have s: "balance et pl_svrpool ((policies h)(p := None)) ps sp_refcnt M T"
  proof (cases "pl_svrpool pl = NULL")
    case True
    then show ?thesis using balance_skip [OF Cons.prems(4) p(2)] pl(1) nul by (simp add: M_def)
  next
    case False
    then show ?thesis using left_pool [of "svrpools h" "pl_svrpool pl" sp] sp pl(1) unfolding M_def
      by (intro balance_step [OF Cons.prems(4) p(2)]) auto
  qed
  have rest: "to_free A T ps ?h" using Cons.prems(1) p(2) by (auto simp: to_free_def)
  obtain h' where h': "free_each policy_free ps ?h = Some h'" "\<forall>q\<in>set ps. policies h' q = None" "\<forall>q. policies ?h q = None \<longrightarrow> policies h' q = None"
      "certsets h' = certsets ?h" "proxies h' = proxies ?h"
      "\<forall>x\<in>A. left lt_refcnt (listeners h') x = ea x - 1" "\<forall>x\<in>T. left sp_refcnt (svrpools h') x = et x - 1"
    using Cons.IH [OF rest] S(2) l s by (auto simp del: fun_upd_apply)
  have "free_each policy_free (p # ps) h = Some h'" using S(1) h'(1) by simp
  moreover have "\<forall>q\<in>set (p # ps). policies h' q = None" "\<forall>q. policies h q = None \<longrightarrow> policies h' q = None" using h'(2,3) by auto
  ultimately show ?case using h'(4-7) by auto
qed

subsection \<open>The whole proxy\<close>

lemma balance_start:
  assumes "refs n f M ps rc L ts" and "n < 2 ^ 32" and "set ts \<subseteq> dom L" and "\<forall>x\<in>set ts. left rc L' x = left rc L x - 1"
  shows "balance (\<lambda>x. uint (rc (the (L x))) - int (uses f M ps x)) f M ps rc L' (set ts)"
  unfolding balance_def
proof
  fix x assume x: "x \<in> set ts"
  obtain k where k: "rc (the (L x)) = of_nat k" "uses f M ps x \<le> k" "k \<le> n" using assms(1) x by (auto simp: refs_def)
  obtain t where t: "L x = Some t" using assms(3) x by auto
  have "uint (rc (the (L x))) = int k" using k assms(2) by (simp add: unsigned_of_nat take_bit_nat_eq_self)
  then show "uint (rc (the (L x))) - int (uses f M ps x) \<ge> 0 \<and> left rc L' x = uint (rc (the (L x))) - int (uses f M ps x) + int (uses f M ps x) - 1"
    using k t assms(4) x by (simp add: left_def)
qed

lemma proxy_free_inv:
  assumes inv: "cfg_inv n P h" and n: "n < 2 ^ 32" and py: "py \<noteq> NULL" "proxies h py = Some P"
  shows "\<exists>h'. proxy_free py h = Some (0, h') \<and> proxies h' py = None \<and> (\<forall>a\<in>set (py_pllist P). policies h' a = None) \<and> certsets h' = certsets h \<and>
    (\<forall>a\<in>set (py_ltnlist P). listeners h' a = None \<longleftrightarrow> uint (lt_refcnt (the (listeners h a))) = int (uses pl_listener (policies h) (py_pllist P) a)) \<and>
    (\<forall>a\<in>set (py_splist P). svrpools h' a = None \<longleftrightarrow> uint (sp_refcnt (the (svrpools h a))) = int (uses pl_svrpool (policies h) (py_pllist P) a))"
proof -
  let ?A = "py_ltnlist P" and ?T = "py_splist P" and ?ps = "py_pllist P"
  have nm: "named lt_name (listeners h) ?A" "named sp_name (svrpools h) ?T" "named pl_name (policies h) ?ps"
    and rf: "refs n pl_listener (policies h) ?ps lt_refcnt (listeners h) ?A" "refs n pl_svrpool (policies h) ?ps sp_refcnt (svrpools h) ?T"
    using inv by (auto simp: cfg_inv_def ltn_inv_def pool_inv_def plc_inv_def)
  obtain L where L: "free_each listener_free ?A h = Some (h\<lparr>listeners := L\<rparr>)" "\<And>x. left lt_refcnt L x = left lt_refcnt (listeners h) x - (if x \<in> set ?A then 1 else 0)"
    using free_listeners [of ?A h] nm(1) by (auto simp: named_def)
  let ?h = "h\<lparr>listeners := L\<rparr>"
  have own: "owners (set ?T) (svrpools ?h) (servers ?h)"
    unfolding owners_def
  proof (intro conjI ballI allI impI)
    fix a p s assume a: "a \<in> set ?T" "svrpools ?h a = Some p"
    have "distinct (sp_svrlist (the (svrpools h a))) \<and> (\<forall>s\<in>set (sp_svrlist (the (svrpools h a))). s \<noteq> NULL \<and> (\<exists>v. servers h s = Some v \<and> svr_ok v))"
      using inv a(1) by (simp add: cfg_inv_def pool_inv_def)
    then show "distinct (sp_svrlist p)" "s \<in> set (sp_svrlist p) \<Longrightarrow> s \<noteq> NULL" "s \<in> set (sp_svrlist p) \<Longrightarrow> servers ?h s \<noteq> None" using a(2) by auto
  next
    fix a b p q assume ab: "a \<in> set ?T" "b \<in> set ?T" "a \<noteq> b" and pq: "svrpools ?h a = Some p" "svrpools ?h b = Some q"
    have "set (sp_svrlist (the (svrpools h a))) \<inter> set (sp_svrlist (the (svrpools h b))) = {}" using inv ab by (simp add: cfg_inv_def pool_inv_def)
    then show "set (sp_svrlist p) \<inter> set (sp_svrlist q) = {}" using pq by simp
  qed
  obtain M S where M: "free_each svrpool_free ?T ?h = Some (?h\<lparr>servers := S, svrpools := M\<rparr>)" "owners (set ?T) M S"
      "\<And>x. left sp_refcnt M x = left sp_refcnt (svrpools h) x - (if x \<in> set ?T then 1 else 0)"
    using free_pools [OF _ _ _ _ own, of ?T] nm(2) by (auto simp: named_def)
  let ?g = "?h\<lparr>servers := S, svrpools := M\<rparr>"
  have "\<exists>pl. policies h p = Some pl \<and> pl_refcnt pl = 0 \<and> pl_spdata pl = NULL \<and> pl_ltndata pl = NULL \<and> pl_listener pl \<in> insert NULL (set ?A) \<and>
      pl_svrpool pl \<in> insert NULL (set ?T)" if p: "p \<in> set ?ps" for p
  proof -
    obtain pl where "policies h p = Some pl" using named_live [OF nm(3) p] by blast
    moreover have "pl_listener (the (policies h p)) \<in> insert NULL (set ?A) \<and> pl_svrpool (the (policies h p)) \<in> insert NULL (set ?T) \<and>
        pl_refcnt (the (policies h p)) = 0 \<and> pl_spdata (the (policies h p)) = NULL \<and> pl_ltndata (the (policies h p)) = NULL"
      using inv p unfolding cfg_inv_def plc_inv_def by blast
    ultimately show ?thesis by simp
  qed
  then have tf: "to_free (set ?A) (set ?T) ?ps ?g" using nm by (simp add: to_free_def named_def)
  have ba: "balance (\<lambda>x. uint (lt_refcnt (the (listeners h x))) - int (uses pl_listener (policies h) ?ps x)) pl_listener (policies ?g) ?ps lt_refcnt (listeners ?g) (set ?A)"
    using balance_start [OF rf(1) n] nm(1) L(2) by (simp add: named_def)
  have bt: "balance (\<lambda>x. uint (sp_refcnt (the (svrpools h x))) - int (uses pl_svrpool (policies h) ?ps x)) pl_svrpool (policies ?g) ?ps sp_refcnt (svrpools ?g) (set ?T)"
    using balance_start [OF rf(2) n] nm(2) M(3) by (simp add: named_def)
  have "owners (set ?T) (svrpools ?g) (servers ?g)" using M(2) by simp
  from free_policies [OF tf this ba bt] obtain h' where h': "free_each policy_free ?ps ?g = Some h'" "\<forall>p\<in>set ?ps. policies h' p = None"
      "certsets h' = certsets h" "proxies h' = proxies h"
      "\<forall>x\<in>set ?A. left lt_refcnt (listeners h') x = uint (lt_refcnt (the (listeners h x))) - int (uses pl_listener (policies h) ?ps x) - 1"
      "\<forall>x\<in>set ?T. left sp_refcnt (svrpools h') x = uint (sp_refcnt (the (svrpools h x))) - int (uses pl_svrpool (policies h) ?ps x) - 1"
    by auto
  have "proxy_free py h = Some (0, h'\<lparr>proxies := (proxies h')(py := None)\<rparr>)" using py L(1) M(1) h'(1) by (simp add: proxy_free_def)
  moreover have "listeners h' a = None \<longleftrightarrow> uint (lt_refcnt (the (listeners h a))) = int (uses pl_listener (policies h) ?ps a)" if "a \<in> set ?A" for a
    using h'(5) that left_None [of lt_refcnt "listeners h'" a] by force
  moreover have "svrpools h' a = None \<longleftrightarrow> uint (sp_refcnt (the (svrpools h a))) = int (uses pl_svrpool (policies h) ?ps a)" if "a \<in> set ?T" for a
    using h'(6) that left_None [of sp_refcnt "svrpools h'" a] by force
  ultimately show ?thesis using h'(2,3) by auto
qed

text \<open>
  C6: Whatever loading a file of less than 2^32 characters returned, freeing the proxy afterwards touches no
  freed memory.  It frees the proxy and its policies, and it frees a listener or a pool exactly when all its
  references belong to policies; the certificate sets stay allocated.
\<close>

theorem proxy_free_after_load:
  assumes "proxy_alloc m h0 = (py, h)" and "m \<noteq> NULL" and "fresh_mem e 0 h" and "cfg_load_file e py (Some s) h = Some (r, op, h1)"
    and "length s < 2 ^ 32"
  shows "\<exists>P h'. proxies h1 py = Some P \<and> proxy_free py h1 = Some (0, h') \<and> proxies h' py = None \<and> (\<forall>a\<in>set (py_pllist P). policies h' a = None) \<and>
    certsets h' = certsets h1 \<and>
    (\<forall>a\<in>set (py_ltnlist P). listeners h' a = None \<longleftrightarrow> uint (lt_refcnt (the (listeners h1 a))) = int (uses pl_listener (policies h1) (py_pllist P) a)) \<and>
    (\<forall>a\<in>set (py_splist P). svrpools h' a = None \<longleftrightarrow> uint (sp_refcnt (the (svrpools h1 a))) = int (uses pl_svrpool (policies h1) (py_pllist P) a))"
proof -
  have "py \<noteq> NULL" using assms(1,2) by (auto simp: proxy_alloc_def)
  moreover obtain P where "proxies h1 py = Some P" "cfg_inv (length s) P h1"
    using wpD [OF cfg_load_file_wp [OF assms(1-3)] assms(4)] by (auto simp: file_end_def)
  ultimately show ?thesis using proxy_free_inv [OF _ assms(5)] by blast
qed

theorem proxy_free_after_load_witness:
  "\<exists>h1 h' P. cfg_load_file demo_env 1 (Some demo_file) demo_heap = Some (0, False, h1) \<and> proxies h1 1 = Some P \<and>
     proxy_free 1 h1 = Some (0, h') \<and> proxies h' 1 = None \<and> (\<forall>a\<in>set (py_pllist P). policies h' a = None)"
proof -
  obtain h1 where h1: "cfg_load_file demo_env 1 (Some demo_file) demo_heap = Some (0, False, h1)"
    using demo_result by (auto simp: demo_result_def)
  have "length demo_file < 2 ^ 32" by (simp add: demo_file_def)
  then show ?thesis using proxy_free_after_load [OF demo_alloc _ demo_fresh h1] h1 by auto
qed

end
