(* ===== verification/Proxy_text.thy ===== *)
theory Proxy_text
  imports Proxy_release
begin

text \<open>
  The words and numbers of a configuration file: the tokenizer agrees with splitting a line at blanks, numbers
  are read as they are printed, and what the checks of numbers and of the server count let through.
\<close>

subsection \<open>Words\<close>

text \<open>The reference: the pieces between delimiters, and those of them that are not empty.\<close>

fun pieces :: "string \<Rightarrow> string list" where
  "pieces [] = [[]]"
| "pieces (c # s) = (if is_delim c then [] # pieces s else (c # hd (pieces s)) # tl (pieces s))"

definition words :: "string \<Rightarrow> string list" where
  "words s = filter (\<lambda>w. w \<noteq> []) (pieces s)"

lemma pieces_first:
  "pieces s = takeWhile (\<lambda>c. \<not> is_delim c) s # (case dropWhile (\<lambda>c. \<not> is_delim c) s of [] \<Rightarrow> [] | _ # r \<Rightarrow> pieces r)"
  by (induction s) auto

lemma words_skip: "words (dropWhile is_delim s) = words s"
  by (induction s) (auto simp: words_def)

lemma words_Nil: "words [] = []"
  by (simp add: words_def)

lemma words_first:
  assumes "s \<noteq> []" and "\<not> is_delim (hd s)"
  shows "words s = takeWhile (\<lambda>c. \<not> is_delim c) s # words (tl (dropWhile (\<lambda>c. \<not> is_delim c) s))"
proof -
  have ne: "takeWhile (\<lambda>c. \<not> is_delim c) s \<noteq> []" using assms by (cases s) auto
  define d where "d = dropWhile (\<lambda>c. \<not> is_delim c) s"
  have p: "pieces s = takeWhile (\<lambda>c. \<not> is_delim c) s # (case d of [] \<Rightarrow> [] | _ # r \<Rightarrow> pieces r)"
    unfolding d_def by (rule pieces_first)
  show ?thesis unfolding words_def p d_def [symmetric] using ne by (cases d) auto
qed

lemma strtok_words:
  "words s = [] \<Longrightarrow> strtok_r s = (None, [])"
  "words s = w # ws \<Longrightarrow> \<exists>r. strtok_r s = (Some w, r) \<and> words r = ws"
proof -
  let ?s = "dropWhile is_delim s"
  have ws: "words s = words ?s" by (simp add: words_skip)
  have ne: "?s \<noteq> [] \<Longrightarrow> \<not> is_delim (hd ?s)" by (rule hd_dropWhile)
  show "strtok_r s = (None, [])" if "words s = []"
    using that words_first [OF _ ne] by (auto simp: strtok_r_def Let_def ws)
  show "\<exists>r. strtok_r s = (Some w, r) \<and> words r = ws" if "words s = w # ws"
  proof (cases "?s = []")
    case True
    have "words s = []" unfolding ws True by (rule words_Nil)
    then show ?thesis using that by simp
  next
    case False
    then show ?thesis using that words_first [OF False ne] unfolding ws by (auto simp: strtok_r_def Let_def)
  qed
qed

text \<open>
  C32: The arguments the tokenizer finds in a line are its words up to the first one that begins a comment, but
  not more than it was asked for.
\<close>

theorem get_args_words: "get_args n s = take n (takeWhile (\<lambda>w. hd w \<noteq> CHR ''#'') (words s))"
proof (induction n arbitrary: s)
  case (Suc n)
  show ?case
  proof (cases "words s")
    case Nil
    then show ?thesis using strtok_words(1) by simp
  next
    case (Cons w ws)
    then obtain r where "strtok_r s = (Some w, r)" "words r = ws" using strtok_words(2) by blast
    then show ?thesis using Suc [of r] Cons by simp
  qed
qed simp

subsection \<open>Numbers\<close>

lemma atoi_minus:
  assumes "xs \<noteq> []" and "\<forall>c\<in>set xs. isdigit c" and "read_dec 0 xs \<le> 2 ^ 31"
  shows "atoi (CHR ''-'' # xs) = - int (read_dec 0 xs)"
proof -
  have "signed_take_bit 31 (- int (read_dec 0 xs)) = - int (read_dec 0 xs)"
    by (rule signed_take_bit_int_eq_self) (use assms(3) in auto)
  moreover have "max (- (2 ^ 63)) (- int (read_dec 0 xs)) = - int (read_dec 0 xs)" using assms(3) by (simp add: max_def)
  ultimately show ?thesis by (simp add: atoi_def isspace_def)
qed

lemma digits_dropped: "\<forall>c\<in>set s. isdigit c \<Longrightarrow> dropWhile isdigit s = []"
  by (induction s) auto

lemma digits: "print_num 10 n \<noteq> [] \<and> (\<forall>c\<in>set (print_num 10 n). isdigit c)"
  using print_num_digits by auto

text \<open>Every number that fits the type is read as it is printed.\<close>

theorem cfg_atoi_roundtrip:
  assumes "- (2 ^ 31) \<le> z" and "z < 2 ^ 31"
  shows "cfg_atoi (Some (print_int z)) = z"
proof (cases "z < 0")
  case True
  have "read_dec 0 (print_num 10 (nat (- z))) \<le> 2 ^ 31" using assms(1) by (simp add: read_dec_print)
  then show ?thesis using True atoi_minus [of "print_num 10 (nat (- z))"] digits [of "nat (- z)"]
    by (simp add: cfg_atoi_def print_int_def digits_dropped read_dec_print)
next
  case False
  obtain c t where ct: "print_num 10 (nat z) = c # t" using digits [of "nat z"] by (cases "print_num 10 (nat z)") auto
  then have "isdigit c" using digits [of "nat z"] by auto
  then show ?thesis using False assms(2) digits [of "nat z"] ct atoi_print_num [of "nat z"] isdigit_not_special [of c]
    by (auto simp: cfg_atoi_def print_int_def digits_dropped)
qed

lemma print_17: "print_int (- 17) = ''-17''"
  by code_simp

theorem cfg_atoi_roundtrip_witness: "cfg_atoi (Some ''-17'') = - 17"
  using cfg_atoi_roundtrip [of "- 17"] by (simp add: print_17)

text \<open>
  A word that is no number is read as -1, which \<^verbatim>\<open>nice\<close> accepts; other settings refuse it.
\<close>

theorem nice_accepts_words:
  assumes "dropWhile isdigit s \<noteq> []" and "hd s \<noteq> CHR ''-''" and "hd s \<noteq> CHR ''+''"
  shows "proxy_keyword ''nice'' [s] c = Some (c\<lparr>nice := - 1\<rparr>)"
  using assms by (simp add: proxy_keyword_def num_arg_def cfg_atoi_def)

subsection \<open>The number of servers\<close>

lemma alloc_each_overrun: "length arr < i + length ss \<Longrightarrow> i \<le> length arr \<Longrightarrow> alloc_each ms e ss i arr h = None"
proof (induction ss arbitrary: i arr h)
  case (Cons s ss)
  then show ?case by (cases "server_alloc_data (ms i) e s h") (auto split: prod.splits)
qed simp

text \<open>
  Nothing limits the number of servers in a file; the running data of a pool with more than 256 of them
  overruns its array.
\<close>

theorem too_many_servers:
  assumes "policies h a = Some p" and "a \<noteq> NULL" and "pl_listener p \<noteq> NULL" and "pl_svrpool p \<noteq> NULL" and "svrpools h (pl_svrpool p) = Some sp"
    and "MAX_SERVER < length (sp_svrlist sp)" and "m1 \<noteq> NULL"
  shows "policy_init_data m1 ms m2 e a h = None"
proof -
  have "alloc_each ms e (sp_svrlist sp) 0 (replicate MAX_SERVER NULL) h = None"
    by (rule alloc_each_overrun) (use assms(6) in simp_all)
  then have "svrpool_alloc_data m1 ms e (pl_svrpool p) h = None" using assms(4,5,7) by (simp add: svrpool_alloc_data_def)
  then show ?thesis using assms(1-4) by (simp add: policy_init_data_def)
qed

definition crowd_policy :: policy where
  "crowd_policy = \<lparr>pl_name = ''p'', pl_mode = PL_MODE_REVERSE, pl_listener = 5, pl_svrpool = 6, pl_ltndata = NULL, pl_spdata = NULL, pl_refcnt = 0\<rparr>"

definition crowd_pool :: svrpool where
  "crowd_pool = \<lparr>sp_name = ''s'', sp_algo = SP_ALGO_RR, sp_svrlist = [8..<265], sp_nserver = 257, sp_refcnt = 1\<rparr>"

theorem too_many_servers_witness:
  "\<forall>e. policy_init_data 1 (\<lambda>i. 300 + i) 2 e 7 (empty_heap\<lparr>policies := [7 \<mapsto> crowd_policy], svrpools := [6 \<mapsto> crowd_pool]\<rparr>) = None"
proof
  fix e
  show "policy_init_data 1 (\<lambda>i. 300 + i) 2 e 7 (empty_heap\<lparr>policies := [7 \<mapsto> crowd_policy], svrpools := [6 \<mapsto> crowd_pool]\<rparr>) = None"
    by (rule too_many_servers [where p = crowd_policy and sp = crowd_pool]) (simp_all add: crowd_policy_def crowd_pool_def MAX_SERVER_def del: upt_rec_numeral)
qed

end
