(* ===== verification/Proxy_start.thy ===== *)
theory Proxy_start
  imports Proxy_text Worker
begin

text \<open>
  Starting a proxy: \<^verbatim>\<open>network/proxy/utils/thread.c\<close>, the policies handed to the kernel by \<^verbatim>\<open>tproxy/trapt_util.c\<close> and
  \<^verbatim>\<open>tproxy/tproxy_util.c\<close>, and the running data and commands of \<^verbatim>\<open>tproxy/proxy.c\<close>.  System calls are arguments.
\<close>

subsection \<open>Threads\<close>

record thread =
  th_tid :: nat
  th_index :: int
  th_cfg :: addr
  th_priv :: addr
  th_stack :: addr

text \<open>\<open>i\<close>, \<open>p\<close> and \<open>q\<close> are the results of the attribute calls and \<open>c\<close> is the one of \<^verbatim>\<open>pthread_create\<close>, with the thread it made.\<close>

definition thread_create :: "int \<Rightarrow> int \<Rightarrow> int \<Rightarrow> int \<times> nat \<Rightarrow> thread option \<Rightarrow> int \<Rightarrow> bool \<Rightarrow> int \<times> thread option" where
  "thread_create i p q c ti index func = (case ti of None \<Rightarrow> (- 1, None) | Some t \<Rightarrow>
     if \<not> func then (- 1, ti)
     else if i \<noteq> 0 then (- 1, ti)
     else if p \<noteq> 0 then (- 1, ti)
     else if q \<noteq> 0 then (- 1, ti)
     else let t = t\<lparr>th_index := index\<rparr> in
       if fst c \<noteq> 0 then (- 1, Some t) else (0, Some (t\<lparr>th_tid := snd c\<rparr>)))"

definition thread_join :: "(nat \<Rightarrow> int) \<Rightarrow> thread option \<Rightarrow> int" where
  "thread_join join ti = (case ti of None \<Rightarrow> - 1 | Some t \<Rightarrow>
     if th_tid t = 0 then - 1 else if join (th_tid t) \<noteq> 0 then - 1 else 0)"

text \<open>\<open>ncpu\<close> is the number of CPUs and \<open>aff\<close> the result of \<^verbatim>\<open>pthread_setaffinity_np\<close> for a CPU.\<close>

definition thread_bind_cpu :: "int \<Rightarrow> (int \<Rightarrow> int) \<Rightarrow> int \<Rightarrow> bind_algo \<Rightarrow> bind_ht \<Rightarrow> int" where
  "thread_bind_cpu ncpu aff index algo ht =
    (if index < 0 then - 1
     else if ncpu < 2 then 0
     else let (start, m) = (case ht of THREAD_HT_FULL \<Rightarrow> (0, ncpu) | THREAD_HT_LOW \<Rightarrow> (0, ncpu div 2) | THREAD_HT_HIGH \<Rightarrow> (ncpu div 2, ncpu div 2));
              cpu = (case algo of THREAD_BIND_RR \<Rightarrow> index mod m + start | THREAD_BIND_ODD \<Rightarrow> (index * 2) mod m + start
                     | THREAD_BIND_EVEN \<Rightarrow> (index * 2 + 1) mod m + start)
          in if aff cpu \<noteq> 0 then - 1 else cpu)"

text \<open>
  A worker is bound to a CPU that exists, in the half of the CPUs that was asked for; with round robin,
  workers with different numbers below the number of these CPUs are bound to different ones.
\<close>

theorem thread_bind_cpu_range:
  assumes "0 \<le> index" and "2 \<le> ncpu" and "\<And>c. aff c = 0"
  shows "0 \<le> thread_bind_cpu ncpu aff index algo ht \<and> thread_bind_cpu ncpu aff index algo ht < ncpu \<and>
    (ht = THREAD_HT_LOW \<longrightarrow> thread_bind_cpu ncpu aff index algo ht < ncpu div 2) \<and>
    (ht = THREAD_HT_HIGH \<longrightarrow> ncpu div 2 \<le> thread_bind_cpu ncpu aff index algo ht) \<and>
    (\<forall>j. 0 \<le> j \<and> j < ncpu div 2 \<and> index < ncpu div 2 \<and> j \<noteq> index \<longrightarrow>
       thread_bind_cpu ncpu aff j THREAD_BIND_RR ht \<noteq> thread_bind_cpu ncpu aff index THREAD_BIND_RR ht)"
proof -
  define m where "m = ncpu div 2"
  have m: "1 \<le> m" "2 * m \<le> ncpu" using assms(2) by (auto simp: m_def)
  have bnd: "0 \<le> x mod m" "x mod m < m" "0 \<le> x mod ncpu" "x mod ncpu < ncpu" for x using m assms(2) by simp_all
  have rr: "x mod ncpu = x" if "0 \<le> x" "x < m" for x using that m by simp
  have b2: "x mod m + m < ncpu" "x mod m < ncpu" for x using bnd(2) [of x] m by linarith+
  show ?thesis
    unfolding thread_bind_cpu_def m_def [symmetric] using assms b2 bnd rr m
    by (cases ht; cases algo) (simp_all add: Let_def)
qed

theorem thread_bind_cpu_range_witness:
  "0 \<le> thread_bind_cpu 8 (\<lambda>_. 0) 3 THREAD_BIND_EVEN THREAD_HT_HIGH \<and> thread_bind_cpu 8 (\<lambda>_. 0) 3 THREAD_BIND_EVEN THREAD_HT_HIGH < 8"
  using thread_bind_cpu_range [of 3 8 "\<lambda>_. 0" THREAD_BIND_EVEN THREAD_HT_HIGH] by simp

subsection \<open>Policies for the kernel: redirection\<close>

text \<open>The request for one policy; the array of server addresses has room for 256 entries of address and port.
  The fields that are never set are zero and left out.\<close>

record tat_policy =
  tp_name :: string
  tp_vsaddr :: u32
  tp_vsport :: u16
  tp_psaddrs :: "(u32 \<times> u16) list"
  tp_npsaddr :: u16

definition TRAPT_NAMELEN :: nat where "TRAPT_NAMELEN = 97"

text \<open>\<^verbatim>\<open>sizeof(tat_addr_t)\<close>: the pointer into the array of such entries is moved by this many \<^emph>\<open>entries\<close> for each server.\<close>

definition TAT_ADDR_SIZE :: nat where "TAT_ADDR_SIZE = 8"

fun tat_fill :: "'a py_heap_scheme \<Rightarrow> addr list \<Rightarrow> nat \<Rightarrow> (u32 \<times> u16) list \<Rightarrow> (u32 \<times> u16) list option" where
  "tat_fill h [] i arr = Some arr"
| "tat_fill h (s # ss) i arr = do {
     v \<leftarrow> servers h s;
     if i < length arr then tat_fill h ss (i + TAT_ADDR_SIZE) (arr[i := (s_addr (sv_address v), port (sv_address v))]) else None }"

text \<open>\<open>fd\<close> is the result of opening the device and \<open>ioctl\<close> the one of the request.\<close>

definition tat_add_policy :: "int \<Rightarrow> (tat_policy \<Rightarrow> int) \<Rightarrow> tat_policy option \<Rightarrow> int" where
  "tat_add_policy fd ioctl tpl = (case tpl of None \<Rightarrow> - 1 | Some t \<Rightarrow> if fd < 0 then - 1 else ioctl t)"

text \<open>The requests made, in order; the first one that fails ends the loop.\<close>

fun tat_add_loop :: "int \<Rightarrow> (tat_policy \<Rightarrow> int) \<Rightarrow> 'a py_heap_scheme \<Rightarrow> addr list \<Rightarrow> tat_policy list option" where
  "tat_add_loop fd ioctl h [] = Some []"
| "tat_add_loop fd ioctl h (a # as) = do {
     p \<leftarrow> policies h a;
     if pl_mode p \<noteq> PL_MODE_TRAPT then tat_add_loop fd ioctl h as
     else do {
       n \<leftarrow> strcpy_to TRAPT_NAMELEN (pl_name p);
       lt \<leftarrow> listeners h (pl_listener p);
       sp \<leftarrow> svrpools h (pl_svrpool p);
       arr \<leftarrow> tat_fill h (sp_svrlist sp) 0 (replicate MAX_SERVER (0, 0));
       let t = \<lparr>tp_name = n, tp_vsaddr = s_addr (lt_address lt), tp_vsport = port (lt_address lt), tp_psaddrs = arr, tp_npsaddr = word_of_int (sp_nserver sp)\<rparr>;
       if tat_add_policy fd ioctl (Some t) \<noteq> 0 then Some [t]
       else do { ts \<leftarrow> tat_add_loop fd ioctl h as; Some (t # ts) } } }"

definition tat_add_policies :: "addr \<Rightarrow> int \<Rightarrow> (tat_policy \<Rightarrow> int) \<Rightarrow> addr \<Rightarrow> 'a py_heap_scheme \<Rightarrow> (int \<times> tat_policy list) option" where
  "tat_add_policies m fd ioctl py h = (if m = NULL then Some (- 1, [])
     else do { P \<leftarrow> proxies h py; ts \<leftarrow> tat_add_loop fd ioctl h (py_pllist P); Some (0, ts) })"

definition tat_entry :: "'a py_heap_scheme \<Rightarrow> addr \<Rightarrow> u32 \<times> u16" where
  "tat_entry h s = (let a = sv_address (the (servers h s)) in (s_addr a, port a))"

lemma tat_fill_gen:
  "\<forall>s\<in>set ss. servers h s \<noteq> None \<Longrightarrow> tat_fill h ss i arr =
     (if ss = [] \<or> i + 8 * (length ss - 1) < length arr
      then Some (map (\<lambda>j. if i \<le> j \<and> (j - i) mod 8 = 0 \<and> (j - i) div 8 < length ss then tat_entry h (ss ! ((j - i) div 8)) else arr ! j) [0..<length arr])
      else None)"
proof (induction ss arbitrary: i arr)
  case Nil
  then show ?case by (simp add: map_nth)
next
  case (Cons s ss)
  obtain v where v: "servers h s = Some v" using Cons.prems by auto
  let ?a = "arr[i := tat_entry h s]"
  have len: "i + 8 + 8 * (length ss - 1) = i + 8 * length ss" if "ss \<noteq> []" using that by (cases ss) simp_all
  have eq: "(if i + 8 \<le> j \<and> (j - (i + 8)) mod 8 = 0 \<and> (j - (i + 8)) div 8 < length ss then tat_entry h (ss ! ((j - (i + 8)) div 8)) else ?a ! j) =
    (if i \<le> j \<and> (j - i) mod 8 = 0 \<and> (j - i) div 8 < length (s # ss) then tat_entry h ((s # ss) ! ((j - i) div 8)) else arr ! j)"
    if j: "j < length arr" for j
  proof (cases "i + 8 \<le> j")
    case True
    then obtain k where "j = i + 8 + k" using le_Suc_ex by blast
    then show ?thesis by (auto simp: nth_list_update)
  next
    case False
    then have "j - i < 8" by simp
    then show ?thesis using j False by (auto simp: nth_list_update)
  qed
  define F where "F = (\<lambda>j. if i + 8 \<le> j \<and> (j - (i + 8)) mod 8 = 0 \<and> (j - (i + 8)) div 8 < length ss then tat_entry h (ss ! ((j - (i + 8)) div 8)) else ?a ! j)"
  define G where "G = (\<lambda>j. if i \<le> j \<and> (j - i) mod 8 = 0 \<and> (j - i) div 8 < length (s # ss) then tat_entry h ((s # ss) ! ((j - i) div 8)) else arr ! j)"
  have FG: "map F [0..<length ?a] = map G [0..<length arr]" using eq unfolding F_def G_def by (intro map_cong) simp_all
  have ih: "tat_fill h ss (i + 8) ?a = (if ss = [] \<or> i + 8 + 8 * (length ss - 1) < length ?a then Some (map F [0..<length ?a]) else None)"
    unfolding F_def by (rule Cons.IH) (use Cons.prems in simp)
  have "tat_fill h (s # ss) i arr = (if i < length arr then tat_fill h ss (i + 8) ?a else None)"
    using v by (simp add: TAT_ADDR_SIZE_def tat_entry_def Let_def)
  also have "\<dots> = (if i + 8 * length ss < length arr then Some (map G [0..<length arr]) else None)"
    using ih len unfolding FG by (cases "ss = []") simp_all
  finally show ?case unfolding G_def by simp
qed

definition demo_start :: py_heap where
  "demo_start = \<lparr>certsets = Map.empty, cacerts = Map.empty, ctxs = {},
     servers = [10 \<mapsto> \<lparr>sv_address = zero_port, sv_weight = 1, sv_ssl = 0, sv_cert = NULL, sv_nconn = 0, sv_refcnt = 0\<rparr>], svrdatas = Map.empty,
     svrpools = [20 \<mapsto> \<lparr>sp_name = ''p'', sp_algo = SP_ALGO_RR, sp_svrlist = [10], sp_nserver = 1, sp_refcnt = 1\<rparr>], spdatas = Map.empty,
     listeners = [30 \<mapsto> \<lparr>lt_name = ''l'', lt_address = zero_port, lt_ssl = 0, lt_cert = NULL, lt_refcnt = 1\<rparr>], ltndatas = Map.empty, lfds = Map.empty,
     policies = [40 \<mapsto> \<lparr>pl_name = ''a'', pl_mode = PL_MODE_TPROXY, pl_listener = 30, pl_svrpool = 20, pl_ltndata = NULL, pl_spdata = NULL, pl_refcnt = 0\<rparr>],
     proxies = [50 \<mapsto> \<lparr>py_cfg = zero_cfg\<lparr>nworker := 2, naccept := 1, maxconn := 1000\<rparr>, py_maxfd = 0, py_certlist = [], py_ncert = 0, py_ltnlist = [30], py_nlistener = 1,
       py_splist = [20], py_nsvrpool = 1, py_pllist = [40], py_npolicy = 1\<rparr>]\<rparr>"

text \<open>
  C35: What the kernel gets for a pool: because the pointer advances by eight entries per server, the k-th server is at entry
  8 k and the entries between them are zero; a pool of more than 32 servers overruns the request.
\<close>

theorem tat_fill_layout:
  assumes "\<forall>s\<in>set ss. servers h s \<noteq> None"
  shows "tat_fill h ss 0 (replicate MAX_SERVER (0, 0)) =
    (if length ss \<le> 32
     then Some (map (\<lambda>j. if j mod 8 = 0 \<and> j div 8 < length ss then tat_entry h (ss ! (j div 8)) else (0, 0)) [0..<MAX_SERVER])
     else None)"
  using tat_fill_gen [OF assms, of 0 "replicate MAX_SERVER (0, 0)"] by (auto simp: MAX_SERVER_def)

theorem tat_fill_layout_witness:
  "tat_fill demo_start [10, 10] 0 (replicate MAX_SERVER (0, 0)) =
     Some (map (\<lambda>j. if j mod 8 = 0 \<and> j div 8 < length [10::addr, 10] then tat_entry demo_start ([10, 10] ! (j div 8)) else (0, 0)) [0..<MAX_SERVER]) \<and>
   tat_fill demo_start (replicate 33 10) 0 (replicate MAX_SERVER (0, 0)) = None"
proof
  show "tat_fill demo_start [10, 10] 0 (replicate MAX_SERVER (0, 0)) =
     Some (map (\<lambda>j. if j mod 8 = 0 \<and> j div 8 < length [10::addr, 10] then tat_entry demo_start ([10, 10] ! (j div 8)) else (0, 0)) [0..<MAX_SERVER])"
    using tat_fill_layout [of "[10, 10]" demo_start] by (simp add: demo_start_def)
  show "tat_fill demo_start (replicate 33 10) 0 (replicate MAX_SERVER (0, 0)) = None"
    using tat_fill_layout [of "replicate 33 10" demo_start] by (simp add: demo_start_def)
qed

definition tat_del_policy :: "int \<Rightarrow> (u32 \<times> u16 \<Rightarrow> int) \<Rightarrow> (u32 \<times> u16) option \<Rightarrow> int" where
  "tat_del_policy fd ioctl a = (case a of None \<Rightarrow> - 1 | Some v \<Rightarrow> if fd < 0 then - 1 else ioctl v)"

definition tat_flush_policies :: "int \<Rightarrow> int \<Rightarrow> int" where
  "tat_flush_policies fd ret = (if fd < 0 then - 1 else ret)"

subsection \<open>Policies for the kernel: transparent mode\<close>

text \<open>
  All policies go into one buffer, which is addressed by byte offsets: \<^verbatim>\<open>tp_policies_t\<close> has a header of 8 bytes,
  \<^verbatim>\<open>tp_policy_t\<close> has 60 bytes and \<^verbatim>\<open>ip_port_t\<close> has 24.  The pointer to the addresses again advances by
  24 entries, 576 bytes, for each server.  The request lists what is written at which offset.
\<close>

definition TP_HEAD :: int where "TP_HEAD = 8"
definition TP_POLICY_SIZE :: int where "TP_POLICY_SIZE = 60"
definition IP_PORT_SIZE :: int where "IP_PORT_SIZE = 24"

record tp_policy =
  tpp_off :: int
  tpp_name :: string
  tpp_vsaddr :: ip_port
  tpp_npsaddr :: int
  tpp_psaddrs :: "(int \<times> ip_port) list"

record tp_policies =
  tpls_size :: int
  tpls_npolicy :: int
  tpls_policies :: "tp_policy list"

fun tp_fill :: "'a py_heap_scheme \<Rightarrow> int \<Rightarrow> addr list \<Rightarrow> int \<Rightarrow> ((int \<times> ip_port) list \<times> int) option" where
  "tp_fill h len [] o' = Some ([], o')"
| "tp_fill h len (s # ss) o' = do {
     v \<leftarrow> servers h s;
     if o' + IP_PORT_SIZE > len then None
     else do {
       (as, e) \<leftarrow> tp_fill h len ss (o' + IP_PORT_SIZE * IP_PORT_SIZE);
       Some ((o', sv_address v) # as, e) } }"

fun tp_add_loop :: "'a py_heap_scheme \<Rightarrow> int \<Rightarrow> addr list \<Rightarrow> int \<Rightarrow> (tp_policy list \<times> int) option" where
  "tp_add_loop h len [] o' = Some ([], o')"
| "tp_add_loop h len (a # as) o' = do {
     p \<leftarrow> policies h a;
     if pl_mode p \<noteq> PL_MODE_TPROXY then tp_add_loop h len as o'
     else do {
       n \<leftarrow> strcpy_to MAX_NAME (pl_name p);
       lt \<leftarrow> listeners h (pl_listener p);
       sp \<leftarrow> svrpools h (pl_svrpool p);
       if o' + TP_POLICY_SIZE > len then None
       else do {
         (ps, e) \<leftarrow> tp_fill h len (sp_svrlist sp) (o' + TP_POLICY_SIZE);
         (ts, e) \<leftarrow> tp_add_loop h len as e;
         Some (\<lparr>tpp_off = o', tpp_name = n, tpp_vsaddr = lt_address lt, tpp_npsaddr = sp_nserver sp, tpp_psaddrs = ps\<rparr> # ts, e) } } }"

text \<open>The second component is the request, when it is made.\<close>

definition tp_add_policies :: "addr \<Rightarrow> int \<Rightarrow> (tp_policies \<Rightarrow> int) \<Rightarrow> addr \<Rightarrow> 'a py_heap_scheme \<Rightarrow> (int \<times> tp_policies option) option" where
  "tp_add_policies m fd ioctl py h = (if py = NULL then Some (- 1, None) else do {
     P \<leftarrow> proxies h py;
     if py_npolicy P < 1 then Some (- 1, None)
     else if m = NULL then Some (- 1, None)
     else do {
       (ts, e) \<leftarrow> tp_add_loop h ((TP_POLICY_SIZE + int MAX_SERVER * IP_PORT_SIZE) * py_npolicy P) (py_pllist P) TP_HEAD;
       if ts = [] then Some (0, None)
       else if fd < 0 then Some (- 1, None)
       else let t = \<lparr>tpls_size = e, tpls_npolicy = 0, tpls_policies = ts\<rparr> in Some (ioctl t, Some t) } })"

definition tp_flush_policies :: "int \<Rightarrow> int \<Rightarrow> int" where
  "tp_flush_policies fd ret = (if fd < 0 then - 1 else ret)"

lemma tp_fill_fits:
  "\<forall>s\<in>set ss. servers h s \<noteq> None \<Longrightarrow>
     (tp_fill h len ss o' = None) = (ss \<noteq> [] \<and> o' + 576 * (int (length ss) - 1) + 24 > len)"
proof (induction ss arbitrary: o')
  case (Cons s ss)
  obtain v where v: "servers h s = Some v" using Cons.prems by auto
  have "tp_fill h len ss (o' + 576) = None \<longleftrightarrow> ss \<noteq> [] \<and> o' + 576 + 576 * (int (length ss) - 1) + 24 > len"
    using Cons.IH [of "o' + 576"] Cons.prems by simp
  then show ?case using v by (cases ss) (auto simp: IP_PORT_SIZE_def split: Option.bind_splits)
qed simp

lemma tp_fill_end: "tp_fill h len ss o' = Some (ps, e) \<Longrightarrow> e = o' + 576 * int (length ss) \<and> map fst ps = map (\<lambda>k. o' + 576 * int k) [0..<length ss]"
proof (induction ss arbitrary: o' ps e)
  case (Cons s ss)
  then obtain v as where v: "tp_fill h len ss (o' + 576) = Some (as, e)" "ps = (o', v) # as"
    by (auto simp: IP_PORT_SIZE_def split: Option.bind_splits if_splits)
  have "map fst as = map (\<lambda>k. o' + 576 * int (Suc k)) [0..<length ss]" "e = o' + 576 + 576 * int (length ss)"
    using Cons.IH [OF v(1)] by (simp_all add: algebra_simps)
  then show ?case using v(2) by (simp add: map_upt_Suc del: upt_Suc)
qed simp

text \<open>
  For a proxy with one transparent policy the buffer holds a pool of at most 11 servers, with more it is overrun; the
  size handed to the kernel counts 576 bytes per server and the number of policies is always zero.
\<close>

theorem tp_one_policy:
  assumes "py \<noteq> NULL" and "proxies h py = Some P" and "py_pllist P = [a]" and "py_npolicy P = 1" and "policies h a = Some p"
    and "pl_mode p = PL_MODE_TPROXY" and "length (pl_name p) < MAX_NAME" and "listeners h (pl_listener p) = Some lt"
    and "svrpools h (pl_svrpool p) = Some sp" and live: "\<forall>s\<in>set (sp_svrlist sp). servers h s \<noteq> None" and "m \<noteq> NULL" and "0 \<le> fd"
  shows "if length (sp_svrlist sp) \<le> 11
    then \<exists>t. tp_add_policies m fd ioctl py h = Some (ioctl t, Some t) \<and> tpls_size t = 68 + 576 * int (length (sp_svrlist sp)) \<and>
      tpls_npolicy t = 0 \<and> map fst (concat (map tpp_psaddrs (tpls_policies t))) = map (\<lambda>k. 68 + 576 * int k) [0..<length (sp_svrlist sp)]
    else tp_add_policies m fd ioctl py h = None"
proof -
  have n: "strcpy_to MAX_NAME (pl_name p) = Some (pl_name p)" using assms(7) by (simp add: strcpy_to_def)
  have none: "tp_fill h 6204 (sp_svrlist sp) 68 = None \<longleftrightarrow> \<not> length (sp_svrlist sp) \<le> 11"
    using tp_fill_fits [OF live, of 6204 68] by auto
  show ?thesis
  proof (cases "tp_fill h 6204 (sp_svrlist sp) 68")
    case None
    then show ?thesis using none n assms by (auto simp: tp_add_policies_def TP_HEAD_def TP_POLICY_SIZE_def IP_PORT_SIZE_def MAX_SERVER_def)
  next
    case (Some x)
    obtain ps e where x: "x = (ps, e)" by (cases x)
    show ?thesis using Some [unfolded x] none n assms tp_fill_end [OF Some [unfolded x]]
      by (simp add: tp_add_policies_def TP_HEAD_def TP_POLICY_SIZE_def IP_PORT_SIZE_def MAX_SERVER_def Let_def)
  qed
qed

theorem tp_one_policy_witness:
  "\<exists>t. tp_add_policies 1 3 (\<lambda>_. 0) 50 demo_start = Some (0, Some t) \<and> tpls_size t = 644 \<and> tpls_npolicy t = 0"
proof -
  let ?P = "the (proxies demo_start 50)" and ?p = "the (policies demo_start 40)" and ?l = "the (listeners demo_start 30)" and ?s = "the (svrpools demo_start 20)"
  show ?thesis
    using tp_one_policy [where py = 50 and h = demo_start and P = ?P and a = 40 and p = ?p and lt = ?l and sp = ?s and m = 1 and fd = 3 and ioctl = "\<lambda>_. 0"]
    by (auto simp: demo_start_def MAX_NAME_def)
qed

subsection \<open>Running data and commands\<close>

text \<open>What the kernel and the allocator answer; the policies are numbered by their distance from the end of the list.\<close>

record py_env =
  e_rlimit :: "int \<Rightarrow> int"
  e_m1 :: "nat \<Rightarrow> addr"
  e_ms :: "nat \<Rightarrow> nat \<Rightarrow> addr"
  e_m2 :: "nat \<Rightarrow> addr"
  e_ssl :: ssl_env
  e_tat_mem :: addr
  e_tat_fd :: int
  e_tat_ioctl :: "tat_policy \<Rightarrow> int"
  e_tp_mem :: addr
  e_tp_fd :: int
  e_tp_ioctl :: "tp_policies \<Rightarrow> int"

fun init_policies :: "py_env \<Rightarrow> addr list \<Rightarrow> 'a pl_heap_scheme \<Rightarrow> (int \<times> 'a pl_heap_scheme) option" where
  "init_policies e [] h = Some (0, h)"
| "init_policies e (a # as) h = do {
     (r, h) \<leftarrow> policy_init_data (e_m1 e (length as)) (e_ms e (length as)) (e_m2 e (length as)) (e_ssl e) a h;
     if r \<noteq> 0 then Some (- 1, h) else init_policies e as h }"

text \<open>The debug levels are copied to global variables, which only the printing reads; the results of the two calls at
  the end are ignored.\<close>

definition py_init_data :: "py_env \<Rightarrow> addr \<Rightarrow> 'a py_heap_scheme \<Rightarrow> (int \<times> 'a py_heap_scheme) option" where
  "py_init_data e py h = (if py = NULL then Some (- 1, h) else do {
     P \<leftarrow> proxies h py;
     let mx = maxconn (py_cfg P) * 2 + 100;
     let h = h\<lparr>proxies := (proxies h)(py \<mapsto> P\<lparr>py_maxfd := mx\<rparr>)\<rparr>;
     if mx > 1024 \<and> e_rlimit e mx \<noteq> 0 then Some (- 1, h)
     else do {
       (r, h) \<leftarrow> init_policies e (py_pllist P) h;
       if r \<noteq> 0 then Some (- 1, h)
       else do {
         _ \<leftarrow> tat_add_policies (e_tat_mem e) (e_tat_fd e) (e_tat_ioctl e) py h;
         _ \<leftarrow> tp_add_policies (e_tp_mem e) (e_tp_fd e) (e_tp_ioctl e) py h;
         Some (0, h) } } })"

fun free_policies :: "addr list \<Rightarrow> 'a pl_heap_scheme \<Rightarrow> 'a pl_heap_scheme option" where
  "free_policies [] h = Some h"
| "free_policies (a # as) h = do { (r, h) \<leftarrow> policy_free_data a h; free_policies as h }"

definition py_free_data :: "addr \<Rightarrow> 'a py_heap_scheme \<Rightarrow> (int \<times> 'a py_heap_scheme) option" where
  "py_free_data py h = (if py = NULL then Some (- 1, h) else do {
     P \<leftarrow> proxies h py;
     h \<leftarrow> free_policies (py_pllist P) h;
     Some (0, h) })"

text \<open>The command queues of the workers, with their counters; \<open>None\<close> for a worker that does not run.\<close>

type_synonym queues = "nat \<Rightarrow> ((worker_cmd \<times> addr) list \<times> int) option"

definition add_cmd :: "nat \<Rightarrow> worker_cmd \<times> addr \<Rightarrow> queues \<Rightarrow> int \<times> queues" where
  "add_cmd i c qs = (case qs i of None \<Rightarrow> (- 1, qs) | Some (q, n) \<Rightarrow> (0, qs(i \<mapsto> (q @ [c], n + 1))))"

text \<open>The inner loop for one policy, worker \<open>i\<close> and the \<open>k\<close> ones after it; \<open>m\<close> tells whether \<^verbatim>\<open>calloc\<close> succeeds.\<close>

fun hand_policy :: "(nat \<Rightarrow> bool) \<Rightarrow> addr \<Rightarrow> nat \<Rightarrow> nat \<Rightarrow> queues \<Rightarrow> 'a pl_heap_scheme \<Rightarrow> (int \<times> queues \<times> 'a pl_heap_scheme) option" where
  "hand_policy m a i 0 qs h = Some (0, qs, h)"
| "hand_policy m a i (Suc k) qs h =
    (if \<not> m i then Some (- 1, qs, h)
     else do {
       (b, h) \<leftarrow> policy_clone a h;
       case add_cmd i (WORKER_CMD_ADD_POLICY, b) qs of (r, qs) \<Rightarrow>
         if r \<noteq> 0 then do { (x, h) \<leftarrow> policy_free a h; Some (- 1, qs, h) }
         else hand_policy m a (Suc i) k qs h })"

fun hand_policies :: "(addr \<Rightarrow> nat \<Rightarrow> bool) \<Rightarrow> nat \<Rightarrow> addr list \<Rightarrow> queues \<Rightarrow> 'a pl_heap_scheme \<Rightarrow> (int \<times> queues \<times> 'a pl_heap_scheme) option" where
  "hand_policies m n [] qs h = Some (0, qs, h)"
| "hand_policies m n (a # as) qs h = do {
     p \<leftarrow> policies h a;
     if pl_listener p = NULL \<or> pl_svrpool p = NULL then None
     else do {
       (r, qs, h) \<leftarrow> hand_policy (m a) a 0 n qs h;
       if r \<noteq> 0 then Some (- 1, qs, h) else hand_policies m n as qs h } }"

text \<open>\<^verbatim>\<open>_py_loop\<close> up to the wait for the stop flag.\<close>

definition py_loop :: "(addr \<Rightarrow> nat \<Rightarrow> bool) \<Rightarrow> addr \<Rightarrow> queues \<Rightarrow> 'a py_heap_scheme \<Rightarrow> (int \<times> queues \<times> 'a py_heap_scheme) option" where
  "py_loop m py qs h = do {
     P \<leftarrow> proxies h py;
     hand_policies m (nat (nworker (py_cfg P))) (py_pllist P) qs h }"

end
