(* ===== verification/Proxy_run.thy ===== *)
theory Proxy_run
  imports Proxy_start
begin

text \<open>
  Starting the workers, \<^verbatim>\<open>network/proxy/tproxy/worker.c\<close> (\<^verbatim>\<open>_worker_init\<close>, \<^verbatim>\<open>worker_run\<close>), and handing them the policies,
  \<^verbatim>\<open>_py_loop\<close> of \<^verbatim>\<open>network/proxy/tproxy/proxy.c\<close>.
\<close>

subsection \<open>Starting a worker\<close>

text \<open>What \<^verbatim>\<open>calloc\<close>, the two pools and the task queue return, and the answers the event layer gets.\<close>

record wk_env =
  e_wi :: addr
  e_pktpool :: addr
  e_ssnpool :: addr
  e_taskq :: addr
  e_fe_env :: fe_env

datatype wk_res = W_wi | W_pktpool | W_ssnpool | W_taskq | W_fe

text \<open>The pools hand out zeroed objects.\<close>

definition zero_session :: session where
  "zero_session = \<lparr>ss_sid = 0, ss_conns = (\<lambda>_. \<lparr>cn_fd = 0, cn_ssl = NULL, cn_peer = zero_port, cn_local = zero_port, cn_in = [], cn_out = [],
     cn_task = TASK_NONE, cn_flags = 0\<rparr>), ss_nalloced = 0, ss_request = [], ss_response = [], ss_worker = NULL, ss_thread = NULL, ss_policy = NULL, ss_svrdata = NULL\<rparr>"

definition new_worker :: "fd_epoll \<Rightarrow> int \<Rightarrow> pl_heap \<Rightarrow> worker" where
  "new_worker fe na h = pl_heap.extend h (worker.fields fe (\<lambda>_. None) {} (\<lambda>_. zero_session) [] 0 {} {} {} [] [] 0 0 na 0 (\<lambda>_. []) (\<lambda>_. []) {})"

text \<open>The second component says which of the resources are still allocated.\<close>

definition start_worker :: "wk_env \<Rightarrow> int \<Rightarrow> int \<Rightarrow> pl_heap \<Rightarrow> worker option \<times> wk_res set" where
  "start_worker e mx na h =
    (let undo = (\<lambda>live. let live = (if e_pktpool e \<noteq> NULL then live - {W_pktpool} else live);
                            live = (if e_ssnpool e \<noteq> NULL then live - {W_ssnpool} else live);
                            live = (if e_taskq e \<noteq> NULL then live - {W_taskq} else live)
                        in live - {W_fe, W_wi})
     in if e_wi e = NULL then (None, {})
     else if e_pktpool e = NULL then (None, undo {W_wi})
     else if e_ssnpool e = NULL then (None, undo {W_wi, W_pktpool})
     else if e_taskq e = NULL then (None, undo {W_wi, W_pktpool, W_ssnpool})
     else case fst (fd_epoll_alloc (e_fe_env e) mx 1) of
       None \<Rightarrow> (None, undo {W_wi, W_pktpool, W_ssnpool, W_taskq})
     | Some fe \<Rightarrow> (Some (new_worker fe na h), {W_wi, W_pktpool, W_ssnpool, W_taskq, W_fe}))"

text \<open>
  \<^verbatim>\<open>worker_run\<close> up to its loop: the worker, or the signal to the main thread.  \<open>prio\<close> is the result of \<^verbatim>\<open>setpriority\<close>.
\<close>

datatype 'w run = RUN_LOOP 'w | RUN_KILL_MAIN

definition worker_run :: "(int \<Rightarrow> int) \<Rightarrow> int \<Rightarrow> (int \<Rightarrow> int) \<Rightarrow> wk_env \<Rightarrow> int \<Rightarrow> proxy \<Rightarrow> pl_heap \<Rightarrow> worker run" where
  "worker_run prio ncpu aff e index P h = (let c = py_cfg P in
     if nice c \<noteq> 0 \<and> prio (nice c) \<noteq> 0 then RUN_KILL_MAIN
     else if bind_cpu c \<noteq> 0 \<and> thread_bind_cpu ncpu aff index (bind_cpu_algo c) (bind_cpu_ht c) < 0 then RUN_KILL_MAIN
     else case fst (start_worker e (py_maxfd P) (naccept c) h) of None \<Rightarrow> RUN_KILL_MAIN | Some w \<Rightarrow> RUN_LOOP w)"

lemma new_worker_init: "worker_init (new_worker fe na h)"
  by (simp add: worker_init_def new_worker_def pl_heap.defs worker.defs zero_session_def)

lemma thread_bind_cpu_ok: "0 \<le> index \<Longrightarrow> (\<And>c. aff c = 0) \<Longrightarrow> 0 \<le> thread_bind_cpu ncpu aff index algo ht"
  by (cases ht; cases algo) (simp_all add: thread_bind_cpu_def Let_def)



text \<open>A worker that cannot start gives back everything it had allocated before the failure.\<close>

lemma start_worker_no_leak: "fst (start_worker e mx na h) = None \<Longrightarrow> snd (start_worker e mx na h) = {}"
  by (auto simp: start_worker_def Let_def split: option.splits if_splits)

subsection \<open>Handing out the policies\<close>

definition bump :: "nat \<Rightarrow> policy \<Rightarrow> policy" where
  "bump n p = p\<lparr>pl_refcnt := pl_refcnt p + of_nat n\<rparr>"

definition queued :: "addr list \<Rightarrow> (worker_cmd \<times> addr) list \<times> int \<Rightarrow> (worker_cmd \<times> addr) list \<times> int" where
  "queued as = (\<lambda>(q, c). (q @ map (Pair WORKER_CMD_ADD_POLICY) as, c + int (length as)))"

lemma queued_append: "queued bs (queued as x) = queued (as @ bs) x"
  by (cases x) (simp add: queued_def)

lemma hand_policy_ok:
  assumes "a \<noteq> NULL" and "policies h a = Some p" and "\<And>j. m j" and "\<And>j. i \<le> j \<Longrightarrow> j < i + k \<Longrightarrow> qs j \<noteq> None"
  shows "hand_policy m a i k qs h =
    Some (0, \<lambda>j. if i \<le> j \<and> j < i + k then map_option (queued [a]) (qs j) else qs j, h\<lparr>policies := (policies h)(a \<mapsto> bump k p)\<rparr>)"
  using assms
proof (induction k arbitrary: i qs h p)
  case 0
  then show ?case by (auto simp: bump_def fun_upd_idem fun_eq_iff)
next
  case (Suc k)
  let ?h = "h\<lparr>policies := (policies h)(a \<mapsto> bump 1 p)\<rparr>"
  obtain q where q: "qs i = Some q" using Suc.prems(4) [of i] by auto
  let ?qs = "qs(i \<mapsto> queued [a] q)"
  have clone: "policy_clone a h = Some (a, ?h)" using Suc.prems(1, 2) by (simp add: policy_clone_def bump_def)
  have add: "add_cmd i (WORKER_CMD_ADD_POLICY, a) qs = (0, ?qs)" using q by (cases q) (simp add: add_cmd_def queued_def)
  have "?qs j \<noteq> None" if "Suc i \<le> j" "j < Suc i + k" for j using Suc.prems(4) [of j] that by simp
  then have ih: "hand_policy m a (Suc i) k ?qs ?h =
     Some (0, \<lambda>j. if Suc i \<le> j \<and> j < Suc i + k then map_option (queued [a]) (?qs j) else ?qs j, ?h\<lparr>policies := (policies ?h)(a \<mapsto> bump k (bump 1 p))\<rparr>)"
    using Suc.prems(1, 3) by (intro Suc.IH) simp_all
  have "(\<lambda>j. if Suc i \<le> j \<and> j < Suc i + k then map_option (queued [a]) (?qs j) else ?qs j) =
     (\<lambda>j. if i \<le> j \<and> j < i + Suc k then map_option (queued [a]) (qs j) else qs j)"
    using q by (auto simp: fun_eq_iff)
  moreover have "bump k (bump 1 p) = bump (Suc k) p" by (simp add: bump_def add.assoc)
  ultimately show ?case using ih clone add Suc.prems(3) [of i] by (simp del: fun_upd_apply)
qed

lemma hand_policies_ok:
  assumes "distinct as" and "\<forall>a\<in>set as. a \<noteq> NULL \<and> (\<exists>p. policies h a = Some p \<and> pl_listener p \<noteq> NULL \<and> pl_svrpool p \<noteq> NULL)"
    and "\<And>a j. m a j" and "\<And>j. j < n \<Longrightarrow> qs j \<noteq> None"
  shows "hand_policies m n as qs h =
    Some (0, \<lambda>j. if j < n then map_option (queued as) (qs j) else qs j, h\<lparr>policies := \<lambda>x. if x \<in> set as then map_option (bump n) (policies h x) else policies h x\<rparr>)"
  using assms
proof (induction as arbitrary: qs h)
  case Nil
  have "map_option (queued []) x = x" for x by (cases x) (auto simp: queued_def)
  then show ?case by (simp add: fun_eq_iff)
next
  case (Cons a as)
  obtain p where p: "policies h a = Some p" "pl_listener p \<noteq> NULL" "pl_svrpool p \<noteq> NULL" "a \<noteq> NULL" using Cons.prems(2) by auto
  let ?qs = "\<lambda>j. if 0 \<le> j \<and> j < 0 + n then map_option (queued [a]) (qs j) else qs j"
  let ?h = "h\<lparr>policies := (policies h)(a \<mapsto> bump n p)\<rparr>"
  have hand: "hand_policy (m a) a 0 n qs h = Some (0, ?qs, ?h)" using p Cons.prems(3, 4) by (intro hand_policy_ok) auto
  have ih: "hand_policies m n as ?qs ?h =
    Some (0, \<lambda>j. if j < n then map_option (queued as) (?qs j) else ?qs j, ?h\<lparr>policies := \<lambda>x. if x \<in> set as then map_option (bump n) (policies ?h x) else policies ?h x\<rparr>)"
    using Cons.prems by (intro Cons.IH) auto
  have "(\<lambda>j. if j < n then map_option (queued as) (?qs j) else ?qs j) = (\<lambda>j. if j < n then map_option (queued (a # as)) (qs j) else qs j)"
    by (auto simp: fun_eq_iff option.map_comp comp_def queued_append)
  moreover have "(\<lambda>x. if x \<in> set as then map_option (bump n) (policies ?h x) else policies ?h x) =
      (\<lambda>x. if x \<in> set (a # as) then map_option (bump n) (policies h x) else policies h x)"
    using Cons.prems(1) p(1) by (auto simp: fun_eq_iff)
  ultimately show ?case using hand ih p by simp
qed

text \<open>
  C34: When all workers run and no allocation fails, the main thread appends to the queue of every worker one command for each policy,
  in the order of the configuration, and takes as many references to each policy as there are workers.
\<close>

theorem py_loop_hands_out:
  assumes "proxies h py = Some P" and "distinct (py_pllist P)" and "\<And>a j. m a j"
    and "\<forall>a\<in>set (py_pllist P). a \<noteq> NULL \<and> (\<exists>p. policies h a = Some p \<and> pl_listener p \<noteq> NULL \<and> pl_svrpool p \<noteq> NULL)"
    and "\<And>j. j < nat (nworker (py_cfg P)) \<Longrightarrow> qs j \<noteq> None"
  shows "\<exists>qs' h'. py_loop m py qs h = Some (0, qs', h') \<and>
    (\<forall>j<nat (nworker (py_cfg P)). \<forall>q c. qs j = Some (q, c) \<longrightarrow>
       qs' j = Some (q @ map (Pair WORKER_CMD_ADD_POLICY) (py_pllist P), c + int (length (py_pllist P)))) \<and>
    (\<forall>a\<in>set (py_pllist P). \<forall>p. policies h a = Some p \<longrightarrow>
       policies h' a = Some (p\<lparr>pl_refcnt := pl_refcnt p + of_nat (nat (nworker (py_cfg P)))\<rparr>))"
  using hand_policies_ok [OF assms(2, 4, 3, 5)] assms(1) by (simp add: py_loop_def queued_def bump_def)

theorem py_loop_hands_out_witness:
  "\<exists>qs' h'. py_loop (\<lambda>_ _. True) 50 (\<lambda>j. if j < 2 then Some ([], 0) else None) demo_start = Some (0, qs', h') \<and>
     qs' 1 = Some ([(WORKER_CMD_ADD_POLICY, 40)], 1) \<and> map_option pl_refcnt (policies h' 40) = Some 2"
proof -
  let ?q = "\<lambda>j::nat. if j < 2 then Some ([], 0) else (None :: ((worker_cmd \<times> addr) list \<times> int) option)"
  have P: "proxies demo_start 50 = Some (the (proxies demo_start 50))" "py_pllist (the (proxies demo_start 50)) = [40]"
    "nworker (py_cfg (the (proxies demo_start 50))) = 2" by (simp_all add: demo_start_def)
  obtain p where p: "policies demo_start 40 = Some p" "pl_listener p \<noteq> NULL" "pl_svrpool p \<noteq> NULL" "pl_refcnt p = 0" by (simp add: demo_start_def)
  show ?thesis
    using py_loop_hands_out [OF P(1), of "\<lambda>_ _. True" ?q] p unfolding P(2, 3) by force
qed

end
