(* ===== verification/Sock_util.thy ===== *)
theory Sock_util
  imports Session Ip_addr_Correct
begin

text \<open>
  The socket functions, \<^verbatim>\<open>network/netutil/sock_util.c\<close>.  The part of the kernel they change is a record: open descriptors,
  options, addresses bound and connected to, listening and nonblocking sockets.  What a system call answers is an
  argument; a call that succeeds changes the record.  (\<open>sk_recv\<close> and \<open>sk_send\<close> are in \<open>Session\<close>.)
\<close>

subsection \<open>Socket addresses\<close>

text \<open>The union of the two address structures: its family, the port and the bytes of the address.\<close>

record sk_addr =
  sa_family :: int
  sa_port :: u16
  sa_bytes :: "u8 list"

definition sk_addr_from_ip_port :: "ip_port \<Rightarrow> sk_addr option" where
  "sk_addr_from_ip_port ip =
    (if family ip \<noteq> AF_INET \<and> family ip \<noteq> AF_INET6 then None
     else if family ip = AF_INET then Some \<lparr>sa_family = family ip, sa_port = port ip, sa_bytes = take 4 (addr_bytes ip) @ replicate 12 0\<rparr>
     else Some \<lparr>sa_family = family ip, sa_port = port ip, sa_bytes = addr_bytes ip\<rparr>)"

text \<open>The way back, in \<^verbatim>\<open>sk_tcp_accept\<close>: an IPv4 address overwrites four bytes, every other family all sixteen.\<close>

definition ip_from_sk :: "sk_addr \<Rightarrow> ip_port \<Rightarrow> ip_port" where
  "ip_from_sk a ip = (let ip = ip\<lparr>family := sa_family a\<rparr> in
     if sa_family a = AF_INET then ip\<lparr>addr_bytes := take 4 (sa_bytes a) @ drop 4 (addr_bytes ip), port := sa_port a\<rparr>
     else ip\<lparr>addr_bytes := sa_bytes a, port := sa_port a\<rparr>)"

subsection \<open>Kernel\<close>

datatype sockopt = SO_REUSEADDR | SO_REUSEPORT | IP_TRANSPARENT | TCP_NODELAY | TCP_QUICKACK | SO_KEEPALIVE
  | TCP_KEEPCNT | TCP_KEEPIDLE | TCP_KEEPINTVL | SO_MARK

record ksock =
  k_open :: "int set"
  k_opts :: "int \<times> sockopt \<rightharpoonup> int"
  k_bound :: "int \<rightharpoonup> sk_addr"
  k_peer :: "int \<rightharpoonup> sk_addr"
  k_listen :: "int set"
  k_nb :: "int set"

record sk_env =
  e_socket :: int
  e_opt :: "sockopt \<Rightarrow> bool"
  e_bind :: bool
  e_listen :: bool
  e_connect :: "int \<times> int"
  e_name :: "sk_addr option"
  e_accept :: "int \<times> sk_addr"
  e_soerr :: "bool \<times> int"
  e_getfl :: int
  e_setfl :: bool

definition EINPROGRESS :: int where "EINPROGRESS = 115"

definition k_socket :: "sk_env \<Rightarrow> ksock \<Rightarrow> int \<times> ksock" where
  "k_socket e k = (if e_socket e < 0 then (- 1, k) else (e_socket e, k\<lparr>k_open := insert (e_socket e) (k_open k)\<rparr>))"

definition k_close :: "int \<Rightarrow> ksock \<Rightarrow> ksock" where
  "k_close fd k = k\<lparr>k_open := k_open k - {fd}\<rparr>"

definition k_setsockopt :: "sk_env \<Rightarrow> int \<Rightarrow> sockopt \<Rightarrow> int \<Rightarrow> ksock \<Rightarrow> int \<times> ksock" where
  "k_setsockopt e fd o' v k = (if e_opt e o' then (0, k\<lparr>k_opts := (k_opts k)((fd, o') \<mapsto> v)\<rparr>) else (- 1, k))"

definition k_bind :: "sk_env \<Rightarrow> int \<Rightarrow> sk_addr \<Rightarrow> ksock \<Rightarrow> int \<times> ksock" where
  "k_bind e fd a k = (if e_bind e then (0, k\<lparr>k_bound := (k_bound k)(fd \<mapsto> a)\<rparr>) else (- 1, k))"

subsection \<open>The functions\<close>

definition sk_tcp_get_localaddr :: "sk_env \<Rightarrow> int \<Rightarrow> ip_port option \<Rightarrow> (int \<times> ip_port option) option" where
  "sk_tcp_get_localaddr e fd ip = (case e_name e of None \<Rightarrow> Some (- 1, ip) | Some a \<Rightarrow>
     if sa_family a \<noteq> AF_INET \<and> sa_family a \<noteq> AF_INET6 then Some (- 1, ip)
     else case ip of None \<Rightarrow> None | Some i \<Rightarrow> Some (0, Some (ip_from_sk a i)))"

definition sk_set_nonblock :: "sk_env \<Rightarrow> int \<Rightarrow> int \<Rightarrow> ksock \<Rightarrow> int \<times> ksock" where
  "sk_set_nonblock e fd nbio k = (if fd < 0 then (- 1, k)
     else if e_getfl e < 0 then (- 1, k)
     else if \<not> e_setfl e then (- 1, k)
     else (0, k\<lparr>k_nb := (if nbio \<noteq> 0 then insert fd (k_nb k) else k_nb k - {fd})\<rparr>))"

text \<open>The address of the caller is an argument and a result, since it is filled in.\<close>

definition sk_tcp_connect :: "sk_env \<Rightarrow> int \<Rightarrow> ip_port option \<Rightarrow> ip_port option \<Rightarrow> int \<Rightarrow> ksock \<Rightarrow> (int \<times> ip_port option \<times> ksock) option" where
  "sk_tcp_connect e fd dip sip transparent k = (case dip of None \<Rightarrow> Some (- 1, sip, k) | Some d \<Rightarrow>
     if fd < 0 then Some (- 1, sip, k)
     else case sk_addr_from_ip_port d of None \<Rightarrow> Some (- 1, sip, k) | Some svraddr \<Rightarrow>
       let go = (\<lambda>k. do {
          let (ret, err) = e_connect e;
          let k = (if ret \<ge> 0 \<or> err = EINPROGRESS then k\<lparr>k_peer := (k_peer k)(fd \<mapsto> svraddr)\<rparr> else k);
          (r, sip) \<leftarrow> (if transparent = 0 \<and> sip \<noteq> None then sk_tcp_get_localaddr e fd sip else Some (0, sip));
          if r \<noteq> 0 then Some (- 1, sip, k)
          else if ret < 0 then (if err = EINPROGRESS then Some (0, sip, k) else Some (- 1, sip, k))
          else Some (1, sip, k) })
       in if transparent = 0 then go k
       else case sip of None \<Rightarrow> Some (- 1, sip, k) | Some s \<Rightarrow>
         case sk_addr_from_ip_port s of None \<Rightarrow> Some (- 1, sip, k) | Some cliaddr \<Rightarrow>
           (case k_setsockopt e fd IP_TRANSPARENT 1 k of (r, k) \<Rightarrow>
             if r \<noteq> 0 then Some (- 1, sip, k)
             else case k_bind e fd cliaddr k of (r, k) \<Rightarrow> if r \<noteq> 0 then Some (- 1, sip, k) else go k))"

definition sk_tcp_client :: "sk_env \<Rightarrow> ip_port option \<Rightarrow> ip_port option \<Rightarrow> int \<Rightarrow> ksock \<Rightarrow> (int \<times> ip_port option \<times> ksock) option" where
  "sk_tcp_client e dip sip transparent k = (if dip = None then Some (- 1, sip, k)
     else case k_socket e k of (fd, k) \<Rightarrow>
       if fd < 0 then Some (- 1, sip, k)
       else do {
         (ret, sip, k) \<leftarrow> sk_tcp_connect e fd dip sip transparent k;
         if ret \<noteq> 1 then Some (- 1, sip, k_close fd k) else Some (fd, sip, k) })"

text \<open>The third component is the flag \<open>*wait\<close>, when it is set.\<close>

definition sk_tcp_client_nb ::
  "sk_env \<Rightarrow> ip_port option \<Rightarrow> ip_port option \<Rightarrow> int \<Rightarrow> bool \<Rightarrow> ksock \<Rightarrow> (int \<times> ip_port option \<times> int option \<times> ksock) option" where
  "sk_tcp_client_nb e dip sip transparent wait k = (if dip = None \<or> \<not> wait then Some (- 1, sip, None, k)
     else case k_socket e k of (fd, k) \<Rightarrow>
       if fd < 0 then Some (- 1, sip, None, k)
       else do {
         let k = snd (sk_set_nonblock e fd 1 k);
         (ret, sip, k) \<leftarrow> sk_tcp_connect e fd dip sip transparent k;
         if ret < 0 then Some (- 1, sip, None, k_close fd k) else Some (fd, sip, Some (if ret = 1 then 0 else 1), k) })"

text \<open>When the transparent option cannot be set, the descriptor is not closed.\<close>

definition sk_tcp_server :: "sk_env \<Rightarrow> ip_port option \<Rightarrow> int \<Rightarrow> int \<Rightarrow> ksock \<Rightarrow> int \<times> ksock" where
  "sk_tcp_server e ip reuse_port transparent k = (case ip of None \<Rightarrow> (- 1, k) | Some i \<Rightarrow>
     case sk_addr_from_ip_port i of None \<Rightarrow> (- 1, k) | Some svraddr \<Rightarrow>
     case k_socket e k of (fd, k) \<Rightarrow>
     if fd < 0 then (- 1, k)
     else case k_setsockopt e fd SO_REUSEADDR 1 k of (r, k) \<Rightarrow>
     if r \<noteq> 0 then (- 1, k_close fd k)
     else case (if reuse_port \<noteq> 0 then k_setsockopt e fd SO_REUSEPORT 1 k else (0, k)) of (r, k) \<Rightarrow>
     if r \<noteq> 0 then (- 1, k_close fd k)
     else case (if transparent \<noteq> 0 then k_setsockopt e fd IP_TRANSPARENT 1 k else (0, k)) of (r, k) \<Rightarrow>
     if r \<noteq> 0 then (- 1, k)
     else case k_bind e fd svraddr k of (r, k) \<Rightarrow>
     if r \<noteq> 0 then (- 1, k_close fd k)
     else if \<not> e_listen e then (- 1, k_close fd k)
     else (fd, k\<lparr>k_listen := insert fd (k_listen k)\<rparr>))"

text \<open>\<open>nb\<close> distinguishes \<^verbatim>\<open>sk_tcp_accept_nb\<close>, which calls \<^verbatim>\<open>accept4\<close> with the nonblocking flag, from \<^verbatim>\<open>sk_tcp_accept\<close>.\<close>

definition sk_accept :: "bool \<Rightarrow> sk_env \<Rightarrow> int \<Rightarrow> ip_port option \<Rightarrow> ip_port option \<Rightarrow> ksock \<Rightarrow> (int \<times> ip_port option \<times> ip_port option \<times> ksock) option" where
  "sk_accept nb e fd sip dip k = (if fd < 0 then Some (- 1, sip, dip, k)
     else let (clifd, a) = e_accept e in
       if clifd < 0 then Some (- 1, sip, dip, k)
       else do {
         let k = k\<lparr>k_open := insert clifd (k_open k), k_nb := (if nb then insert clifd (k_nb k) else k_nb k)\<rparr>;
         let sip = map_option (ip_from_sk a) sip;
         if dip = None then Some (clifd, sip, dip, k)
         else do {
           (r, dip) \<leftarrow> sk_tcp_get_localaddr e clifd dip;
           if r \<noteq> 0 then Some (- 1, sip, dip, k_close clifd k) else Some (clifd, sip, dip, k) } })"

definition sk_tcp_accept :: "sk_env \<Rightarrow> int \<Rightarrow> ip_port option \<Rightarrow> ip_port option \<Rightarrow> ksock \<Rightarrow> (int \<times> ip_port option \<times> ip_port option \<times> ksock) option" where
  "sk_tcp_accept = sk_accept False"

definition sk_tcp_accept_nb :: "sk_env \<Rightarrow> int \<Rightarrow> ip_port option \<Rightarrow> ip_port option \<Rightarrow> ksock \<Rightarrow> (int \<times> ip_port option \<times> ip_port option \<times> ksock) option" where
  "sk_tcp_accept_nb = sk_accept True"

definition sk_is_connected :: "sk_env \<Rightarrow> int \<Rightarrow> int" where
  "sk_is_connected e fd = (let (ok, err) = e_soerr e in if \<not> ok then - 1 else if err \<noteq> 0 then - 1 else 0)"

definition sk_set_nodelay :: "sk_env \<Rightarrow> int \<Rightarrow> int \<Rightarrow> ksock \<Rightarrow> int \<times> ksock" where
  "sk_set_nodelay e fd v k = (if fd < 0 then (- 1, k) else k_setsockopt e fd TCP_NODELAY v k)"

definition sk_set_quickack :: "sk_env \<Rightarrow> int \<Rightarrow> int \<Rightarrow> ksock \<Rightarrow> int \<times> ksock" where
  "sk_set_quickack e fd v k = (if fd < 0 then (- 1, k) else k_setsockopt e fd TCP_QUICKACK v k)"

definition sk_set_mark :: "sk_env \<Rightarrow> int \<Rightarrow> int \<Rightarrow> ksock \<Rightarrow> int \<times> ksock" where
  "sk_set_mark e fd v k = (if fd < 0 then (- 1, k) else k_setsockopt e fd SO_MARK v k)"

definition sk_set_keepalive :: "sk_env \<Rightarrow> int \<Rightarrow> ksock \<Rightarrow> int \<times> ksock" where
  "sk_set_keepalive e fd k = (if fd < 0 then (- 1, k)
     else case k_setsockopt e fd SO_KEEPALIVE 1 k of (r, k) \<Rightarrow> if r \<noteq> 0 then (- 1, k)
     else case k_setsockopt e fd TCP_KEEPCNT 3 k of (r, k) \<Rightarrow> if r \<noteq> 0 then (- 1, k)
     else case k_setsockopt e fd TCP_KEEPIDLE 60 k of (r, k) \<Rightarrow> if r \<noteq> 0 then (- 1, k)
     else case k_setsockopt e fd TCP_KEEPINTVL 20 k of (r, k) \<Rightarrow> if r \<noteq> 0 then (- 1, k) else (0, k))"

text \<open>The entries of the resolver: family and bytes.  \<open>None\<close> is a failed call.\<close>

fun first_addr :: "(int \<times> u8 list) list \<Rightarrow> ip_addr \<Rightarrow> int \<times> ip_addr" where
  "first_addr [] ip = (- 1, ip)"
| "first_addr ((f, bs) # as) ip =
    (if f = AF_INET then (0, ip\<lparr>family := AF_INET, addr_bytes := take 4 bs @ drop 4 (addr_bytes ip)\<rparr>)
     else if f = AF_INET6 then (0, ip\<lparr>family := AF_INET6, addr_bytes := bs\<rparr>)
     else first_addr as ip)"

definition sk_gethostbyname :: "(string \<Rightarrow> int \<Rightarrow> (int \<times> u8 list) list option) \<Rightarrow> string option \<Rightarrow> int \<Rightarrow> ip_addr option \<Rightarrow> int \<times> ip_addr option" where
  "sk_gethostbyname resolve domain fam ip = (case (domain, ip) of
     (Some d, Some i) \<Rightarrow> (case resolve d fam of None \<Rightarrow> (- 1, ip) | Some as \<Rightarrow> (case first_addr as i of (r, i) \<Rightarrow> (r, Some i)))
   | _ \<Rightarrow> (- 1, ip))"

text \<open>
  \<^verbatim>\<open>sk_send_all\<close>: in round \<open>t\<close> the answers are \<open>pl t\<close> of \<^verbatim>\<open>poll\<close> (an error number, or whether the error event is set) and \<open>sd t\<close> of
  \<^verbatim>\<open>send\<close>.  The bytes accepted are appended to \<open>out\<close>.  The loop need not end when \<^verbatim>\<open>send\<close> keeps accepting nothing.
\<close>

partial_function (option) send_all_loop :: "(nat \<Rightarrow> int + bool) \<Rightarrow> (nat \<Rightarrow> nat + int) \<Rightarrow> nat \<Rightarrow> u8 list \<Rightarrow> int \<Rightarrow> u8 list \<Rightarrow> (int \<times> u8 list) option" where
  "send_all_loop pl sd t bs m out =
    (if bs = [] then Some (m, out)
     else case pl t of
       Inl e \<Rightarrow> if e = EINTR then Some (m, out) else Some (- 1, out)
     | Inr err \<Rightarrow> if err then Some (- 1, out)
       else case sd t of
         Inr e \<Rightarrow> if e \<noteq> EINTR \<or> e \<noteq> EAGAIN then Some (- 1, out) else send_all_loop pl sd (t + 1) bs m out
       | Inl n \<Rightarrow> send_all_loop pl sd (t + 1) (drop n bs) (m + int (min n (length bs))) (out @ take n bs))"

definition sk_send_all :: "(nat \<Rightarrow> int + bool) \<Rightarrow> (nat \<Rightarrow> nat + int) \<Rightarrow> int \<Rightarrow> u8 list \<Rightarrow> (int \<times> u8 list) option" where
  "sk_send_all pl sd fd bs = (if fd < 0 \<or> bs = [] then Some (- 1, []) else send_all_loop pl sd 0 bs 0 [])"

text \<open>The condition of \<^verbatim>\<open>sk_packet\<close> on the type holds for every type.\<close>

definition SOCK_RAW :: int where "SOCK_RAW = 3"
definition SOCK_DGRAM :: int where "SOCK_DGRAM = 2"

definition sk_packet :: "sk_env \<Rightarrow> int \<Rightarrow> int \<Rightarrow> ksock \<Rightarrow> int \<times> ksock" where
  "sk_packet e type protocol k = (if type \<noteq> SOCK_RAW \<or> type \<noteq> SOCK_DGRAM then (- 1, k)
     else if protocol = 0 then (- 1, k) else k_socket e k)"

definition sk_raw :: "sk_env \<Rightarrow> int \<Rightarrow> ksock \<Rightarrow> int \<times> ksock" where
  "sk_raw e protocol k = k_socket e k"

declare send_all_loop.simps [code]

subsection \<open>Addresses\<close>

text \<open>
  An address handed to the kernel and read back into a structure of any contents is the same address and port.
\<close>

theorem sk_addr_roundtrip:
  assumes "ip_wf ip" and "ip_wf old" and "sk_addr_from_ip_port ip = Some a"
  shows "family (ip_from_sk a old) = family ip \<and> same_addr (ip_from_sk a old) ip \<and> port (ip_from_sk a old) = port ip \<and> ip_wf (ip_from_sk a old)"
  using assms by (auto simp: sk_addr_from_ip_port_def ip_from_sk_def ip_wf_def same_addr_def Let_def s_addr_def split: if_splits)

theorem sk_addr_roundtrip_witness:
  "port (ip_from_sk (the (sk_addr_from_ip_port \<lparr>family = AF_INET, addr_bytes = [10,0,0,2] @ replicate 12 7, port = 80\<rparr>)) zero_port) = 80"
  using sk_addr_roundtrip [of "\<lparr>family = AF_INET, addr_bytes = [10,0,0,2] @ replicate 12 7, port = 80\<rparr>" zero_port
      "the (sk_addr_from_ip_port \<lparr>family = AF_INET, addr_bytes = [10,0,0,2] @ replicate 12 7, port = 80\<rparr>)"]
  by (simp add: ip_wf_def zero_port_def sk_addr_from_ip_port_def)

subsection \<open>Descriptors\<close>

lemma k_open_simps [simp]: "k_open (k_close fd k) = k_open k - {fd}" "k_open (snd (k_setsockopt e fd o' v k)) = k_open k" "k_open (snd (k_bind e fd a k)) = k_open k"
  "k_open (snd (sk_set_nonblock e fd n k)) = k_open k"
  by (simp_all add: k_close_def k_setsockopt_def k_bind_def sk_set_nonblock_def)

lemma connect_open: "sk_tcp_connect e fd dip sip tp k = Some (r, sip', k') \<Longrightarrow> k_open k' = k_open k \<and> r \<in> {- 1, 0, 1}"
  by (auto simp: sk_tcp_connect_def k_setsockopt_def k_bind_def Let_def split: option.splits if_splits prod.splits Option.bind_splits)

lemma connect_returns: "\<exists>r sip' k'. sk_tcp_connect e fd dip sip tp k = Some (r, sip', k')"
  by (auto simp: sk_tcp_connect_def sk_tcp_get_localaddr_def k_setsockopt_def k_bind_def Let_def split: option.splits prod.splits)

lemma client_open:
  assumes "e_socket e \<notin> k_open k"
  shows "\<exists>r sip' k'. sk_tcp_client e dip sip tp k = Some (r, sip', k') \<and> k_open k' = (if r < 0 then k_open k else insert r (k_open k))"
proof (cases "dip = None \<or> e_socket e < 0")
  case True
  then show ?thesis by (auto simp: sk_tcp_client_def k_socket_def)
next
  case False
  let ?k = "k\<lparr>k_open := insert (e_socket e) (k_open k)\<rparr>"
  obtain r sip' k' where c: "sk_tcp_connect e (e_socket e) dip sip tp ?k = Some (r, sip', k')" using connect_returns by metis
  have "k_open k' = insert (e_socket e) (k_open k)" using connect_open [OF c] by simp
  then show ?thesis using c False assms by (cases "r = 1") (simp_all add: sk_tcp_client_def k_socket_def)
qed

lemma client_nb_open:
  assumes "e_socket e \<notin> k_open k"
  shows "\<exists>r sip' w k'. sk_tcp_client_nb e dip sip tp wait k = Some (r, sip', w, k') \<and> k_open k' = (if r < 0 then k_open k else insert r (k_open k))"
proof (cases "dip = None \<or> \<not> wait \<or> e_socket e < 0")
  case True
  then show ?thesis by (auto simp: sk_tcp_client_nb_def k_socket_def)
next
  case False
  let ?k = "snd (sk_set_nonblock e (e_socket e) 1 (k\<lparr>k_open := insert (e_socket e) (k_open k)\<rparr>))"
  obtain r sip' k' where c: "sk_tcp_connect e (e_socket e) dip sip tp ?k = Some (r, sip', k')" using connect_returns by metis
  have "k_open k' = insert (e_socket e) (k_open k)" using connect_open [OF c] by simp
  then show ?thesis using c False assms by (cases "r < 0") (simp_all add: sk_tcp_client_nb_def k_socket_def)
qed

lemma accept_open:
  assumes "fst (e_accept e) \<notin> k_open k"
  shows "\<exists>r sip' dip' k'. sk_accept nb e fd sip dip k = Some (r, sip', dip', k') \<and> k_open k' = (if r < 0 then k_open k else insert r (k_open k))"
  using assms by (cases "e_accept e"; cases dip; cases "e_name e") (auto simp: sk_accept_def sk_tcp_get_localaddr_def Let_def)

text \<open>
  C39: A client or accepted socket is the only descriptor left open, and a call that fails leaves none; the kernel
  returns descriptors that were not open.
\<close>

theorem sk_tcp_no_leak:
  assumes "e_socket e \<notin> k_open k" and "fst (e_accept e) \<notin> k_open k"
  shows "(\<exists>r sip' k'. sk_tcp_client e dip sip tp k = Some (r, sip', k') \<and> k_open k' = (if r < 0 then k_open k else insert r (k_open k))) \<and>
    (\<exists>r sip' w k'. sk_tcp_client_nb e dip sip tp wait k = Some (r, sip', w, k') \<and> k_open k' = (if r < 0 then k_open k else insert r (k_open k))) \<and>
    (\<exists>r sip' dip' k'. sk_tcp_accept e fd sip dip k = Some (r, sip', dip', k') \<and> k_open k' = (if r < 0 then k_open k else insert r (k_open k))) \<and>
    (\<exists>r sip' dip' k'. sk_tcp_accept_nb e fd sip dip k = Some (r, sip', dip', k') \<and> k_open k' = (if r < 0 then k_open k else insert r (k_open k)))"
  using client_open [OF assms(1)] client_nb_open [OF assms(1)] accept_open [OF assms(2)]
  unfolding sk_tcp_accept_def sk_tcp_accept_nb_def by blast

definition demo_sk :: sk_env where
  "demo_sk = \<lparr>e_socket = 7, e_opt = (\<lambda>o'. o' \<noteq> IP_TRANSPARENT), e_bind = True, e_listen = True, e_connect = (- 1, 111), e_name = None, e_accept = (8, \<lparr>sa_family = AF_INET, sa_port = 80, sa_bytes = replicate 16 0\<rparr>),
     e_soerr = (True, 0), e_getfl = 0, e_setfl = True\<rparr>"

definition demo_ks :: ksock where
  "demo_ks = \<lparr>k_open = {0, 1, 2}, k_opts = Map.empty, k_bound = Map.empty, k_peer = Map.empty, k_listen = {}, k_nb = {}\<rparr>"

theorem sk_tcp_no_leak_witness:
  "\<exists>r sip' k'. sk_tcp_client demo_sk (Some zero_port) None 0 demo_ks = Some (r, sip', k') \<and> k_open k' = (if r < 0 then {0, 1, 2} else {r, 0, 1, 2})"
proof -
  have f: "e_socket demo_sk \<notin> k_open demo_ks" "fst (e_accept demo_sk) \<notin> k_open demo_ks" "k_open demo_ks = {0, 1, 2}" by (simp_all add: demo_sk_def demo_ks_def)
  show ?thesis using sk_tcp_no_leak [OF f(1, 2), of "Some zero_port" None 0] unfolding f(3) by blast
qed

text \<open>
  C40: A server socket that is returned is bound to the address asked for, listens, and has the options asked for; a call that
  fails closes the socket again, except when only the transparent option was refused.
\<close>

theorem sk_tcp_server_correct:
  assumes "e_socket e \<notin> k_open k" and "sk_tcp_server e (Some ip) reuse_port transparent k = (r, k')"
  shows "if 0 \<le> r
    then r \<in> k_listen k' \<and> k_bound k' r = sk_addr_from_ip_port ip \<and> k_opts k' (r, SO_REUSEADDR) = Some 1 \<and>
      (reuse_port \<noteq> 0 \<longrightarrow> k_opts k' (r, SO_REUSEPORT) = Some 1) \<and> (transparent \<noteq> 0 \<longrightarrow> k_opts k' (r, IP_TRANSPARENT) = Some 1) \<and> k_open k' = insert r (k_open k)
    else k_open k' = k_open k \<or> transparent \<noteq> 0 \<and> \<not> e_opt e IP_TRANSPARENT \<and> k_open k' = insert (e_socket e) (k_open k)"
  using assms
  by (auto simp: sk_tcp_server_def k_socket_def k_setsockopt_def k_bind_def k_close_def split: option.splits if_splits)

theorem sk_tcp_server_correct_witness:
  "k_bound (snd (sk_tcp_server demo_sk (Some (zero_port\<lparr>family := AF_INET\<rparr>)) 1 0 demo_ks)) 7 = sk_addr_from_ip_port (zero_port\<lparr>family := AF_INET\<rparr>)"
  using sk_tcp_server_correct [of demo_sk demo_ks "zero_port\<lparr>family := AF_INET\<rparr>" 1 0 7 "snd (sk_tcp_server demo_sk (Some (zero_port\<lparr>family := AF_INET\<rparr>)) 1 0 demo_ks)"]
  by (simp add: demo_sk_def demo_ks_def sk_tcp_server_def sk_addr_from_ip_port_def k_socket_def k_setsockopt_def k_bind_def)

lemma sk_tcp_server_leaks:
  "k_open (snd (sk_tcp_server demo_sk (Some (zero_port\<lparr>family := AF_INET\<rparr>)) 1 1 demo_ks)) = {7, 0, 1, 2} \<and>
   fst (sk_tcp_server demo_sk (Some (zero_port\<lparr>family := AF_INET\<rparr>)) 1 1 demo_ks) = - 1"
  by (simp add: demo_sk_def demo_ks_def sk_tcp_server_def sk_addr_from_ip_port_def k_socket_def k_setsockopt_def k_bind_def)

subsection \<open>Sending everything\<close>

lemma send_all_loop_done:
  assumes "\<And>t. pl t = Inr False" and "\<And>t. \<exists>n>0. sd t = Inl n"
  shows "send_all_loop pl sd t bs m out = Some (m + int (length bs), out @ bs)"
proof (induction bs arbitrary: t m out rule: length_induct)
  case (1 bs)
  obtain n where n: "0 < n" "sd t = Inl n" using assms(2) by blast
  show ?case
  proof (cases "bs = []")
    case True
    then show ?thesis by (simp add: send_all_loop.simps)
  next
    case False
    then have "send_all_loop pl sd t bs m out = send_all_loop pl sd (t + 1) (drop n bs) (m + int (min n (length bs))) (out @ take n bs)"
      using assms(1) n(2) by (subst send_all_loop.simps) simp
    moreover have "length (drop n bs) < length bs" using n(1) False by simp
    ultimately show ?thesis using 1 by (auto simp: min_def)
  qed
qed

lemma send_all_loop_prefix:
  assumes run: "send_all_loop pl sd t bs m out = Some x"
  shows "\<exists>n\<le>length bs. snd x = out @ take n bs \<and> (fst x = - 1 \<or> fst x = m + int n)"
proof (rule send_all_loop.raw_induct [where P = "\<lambda>pl sd t bs m out x. \<exists>n\<le>length bs. snd x = out @ take n bs \<and> (fst x = - 1 \<or> fst x = m + int n)", OF _ run])
  fix f :: "(nat \<Rightarrow> int + bool) \<Rightarrow> (nat \<Rightarrow> nat + int) \<Rightarrow> nat \<Rightarrow> u8 list \<Rightarrow> int \<Rightarrow> u8 list \<Rightarrow> (int \<times> u8 list) option" and pl sd t bs m out x
  assume IH: "\<And>pl sd t bs m out x. f pl sd t bs m out = Some x \<Longrightarrow> \<exists>n\<le>length bs. snd x = out @ take n bs \<and> (fst x = - 1 \<or> fst x = m + int n)"
    and step: "(if bs = [] then Some (m, out)
     else case pl t of
       Inl e \<Rightarrow> if e = EINTR then Some (m, out) else Some (- 1, out)
     | Inr err \<Rightarrow> if err then Some (- 1, out)
       else case sd t of
         Inl n \<Rightarrow> f pl sd (t + 1) (drop n bs) (m + int (min n (length bs))) (out @ take n bs)
       | Inr e \<Rightarrow> if e \<noteq> EINTR \<or> e \<noteq> EAGAIN then Some (- 1, out) else f pl sd (t + 1) bs m out) = Some x"
  show "\<exists>n\<le>length bs. snd x = out @ take n bs \<and> (fst x = - 1 \<or> fst x = m + int n)"
  proof (cases "\<exists>n. bs \<noteq> [] \<and> pl t = Inr False \<and> sd t = Inl n")
    case True
    then obtain n where n: "bs \<noteq> []" "pl t = Inr False" "sd t = Inl n" by blast
    then have "f pl sd (t + 1) (drop n bs) (m + int (min n (length bs))) (out @ take n bs) = Some x" using step by simp
    then obtain j where j: "j \<le> length (drop n bs)" "snd x = (out @ take n bs) @ take j (drop n bs)" "fst x = - 1 \<or> fst x = m + int (min n (length bs)) + int j"
      using IH by blast
    show ?thesis
    proof (cases "n \<le> length bs")
      case True
      then show ?thesis using j by (intro exI [of _ "n + j"]) (auto simp: take_add)
    next
      case False
      then show ?thesis using j by (intro exI [of _ "length bs"]) auto
    qed
  next
    case False
    then have "snd x = out \<and> (fst x = - 1 \<or> fst x = m)" using step by (auto simp: EINTR_def EAGAIN_def split: if_splits sum.splits)
    then show ?thesis by (intro exI [of _ 0]) auto
  qed
qed



end
