(* ===== verification/Sockpool.thy ===== *)
theory Sockpool
  imports Fz_Prelude
begin

unbundle bit_operations_syntax

text \<open>
  The pool of server sockets, \<^verbatim>\<open>network/socket/proxy/utils/sockpool.c\<close>: connected sockets are kept in a table of doubly linked
  lists, indexed by the address they are connected to, and given to callers that want a connection to that address.
  The items of the pool are an array; a pointer to an item is its index, \<open>None\<close> is \<^verbatim>\<open>NULL\<close>.  The calls run under one
  lock and are single steps here.  The amount of memory used, which is only counted, is left out.
\<close>

record item =
  it_prev :: "nat option"
  it_next :: "nat option"
  it_fd :: int
  it_nused :: u32
  it_used :: bool
  it_port :: u16
  it_ip :: u32

record entry =
  en_size :: u32
  en_head :: "nat option"

record sockpool =
  skp_size :: u32
  skp_success :: u32
  skp_failed :: u32
  skp_nused :: u32
  skp_items :: "nat \<rightharpoonup> item"
  skp_hash :: "nat \<Rightarrow> entry"

definition SOCKPOOL_HSIZE :: nat where "SOCKPOOL_HSIZE = 10001"

text \<open>The descriptors that are open, and the peers of the connected ones.\<close>

record fds =
  fd_open :: "int set"
  fd_peer :: "int \<rightharpoonup> u32 \<times> u16"

definition close_fd :: "int \<Rightarrow> fds \<Rightarrow> fds" where
  "close_fd fd k = k\<lparr>fd_open := fd_open k - {fd}, fd_peer := (fd_peer k)(fd := None)\<rparr>"

subsection \<open>Lists\<close>

definition byte :: "nat \<Rightarrow> u32 \<Rightarrow> u32" where
  "byte i w = ucast (ucast (drop_bit (8 * i) w AND 0xff) :: u8)"

definition sockpool_keygen :: "u32 \<Rightarrow> u16 \<Rightarrow> u8" where
  "sockpool_keygen ip port =
    ucast ((byte 3 ip + byte 2 ip + byte 1 ip + byte 0 ip + byte 1 (ucast port) + byte 0 (ucast port)) mod of_nat SOCKPOOL_HSIZE)"

definition upd_item :: "nat option \<Rightarrow> (item \<Rightarrow> item) \<Rightarrow> sockpool \<Rightarrow> sockpool option" where
  "upd_item q f p = (case q of None \<Rightarrow> None | Some i \<Rightarrow> do {
     it \<leftarrow> skp_items p i; Some (p\<lparr>skp_items := (skp_items p)(i \<mapsto> f it)\<rparr>) })"

definition upd_entry :: "nat \<Rightarrow> (entry \<Rightarrow> entry) \<Rightarrow> sockpool \<Rightarrow> sockpool" where
  "upd_entry k f p = p\<lparr>skp_hash := (skp_hash p)(k := f (skp_hash p k))\<rparr>"

definition sockpool_hash_get :: "nat \<Rightarrow> sockpool \<Rightarrow> (nat option \<times> sockpool) option" where
  "sockpool_hash_get k p =
    (if en_size (skp_hash p k) \<noteq> 0 then do {
       let item = en_head (skp_hash p k);
       p \<leftarrow> (case item of None \<Rightarrow> Some p | Some i \<Rightarrow> do {
         it \<leftarrow> skp_items p i; Some (upd_entry k (\<lambda>en. en\<lparr>en_head := it_next it\<rparr>) p) });
       p \<leftarrow> (if en_head (skp_hash p k) \<noteq> None then upd_item (en_head (skp_hash p k)) (\<lambda>it. it\<lparr>it_prev := None\<rparr>) p else Some p);
       Some (item, upd_entry k (\<lambda>en. en\<lparr>en_size := en_size en - 1\<rparr>) p) }
     else Some (None, p))"

definition sockpool_hash_add :: "nat \<Rightarrow> nat \<Rightarrow> sockpool \<Rightarrow> sockpool option" where
  "sockpool_hash_add k i p = do {
     p \<leftarrow> (if en_head (skp_hash p k) \<noteq> None then do {
            p \<leftarrow> upd_item (Some i) (\<lambda>it. it\<lparr>it_next := en_head (skp_hash p k)\<rparr>) p;
            upd_item (en_head (skp_hash p k)) (\<lambda>it. it\<lparr>it_prev := Some i\<rparr>) p }
          else upd_item (Some i) (\<lambda>it. it\<lparr>it_next := None\<rparr>) p);
     p \<leftarrow> upd_item (Some i) (\<lambda>it. it\<lparr>it_prev := None\<rparr>) (upd_entry k (\<lambda>en. en\<lparr>en_head := Some i\<rparr>) p);
     Some (upd_entry k (\<lambda>en. en\<lparr>en_size := en_size en + 1\<rparr>) p) }"

definition sockpool_hash_del :: "nat \<Rightarrow> nat \<Rightarrow> sockpool \<Rightarrow> sockpool option" where
  "sockpool_hash_del k i p = do {
     it \<leftarrow> skp_items p i;
     p \<leftarrow> (if it_prev it \<noteq> None then upd_item (it_prev it) (\<lambda>x. x\<lparr>it_next := it_next it\<rparr>) p
          else Some (upd_entry k (\<lambda>en. en\<lparr>en_head := it_next it\<rparr>) p));
     it \<leftarrow> skp_items p i;
     p \<leftarrow> (if it_next it \<noteq> None then upd_item (it_next it) (\<lambda>x. x\<lparr>it_prev := it_prev it\<rparr>) p else Some p);
     Some (upd_entry k (\<lambda>en. en\<lparr>en_size := en_size en - 1\<rparr>) p) }"

text \<open>A socket can be used again when there is nothing to read and the peer has not closed it; \<open>rcv\<close> is what \<^verbatim>\<open>recv\<close> answers.\<close>

definition sockpool_testfd :: "(int \<Rightarrow> u8 list + int) \<Rightarrow> int \<Rightarrow> int" where
  "sockpool_testfd rcv fd = (case rcv fd of Inr e \<Rightarrow> if e = EAGAIN then 0 else - 1 | Inl _ \<Rightarrow> - 1)"

text \<open>The loops follow the pointers and may fail to
  end on a damaged list.\<close>

partial_function (option) find_free_loop :: "(int \<Rightarrow> u8 list + int) \<Rightarrow> nat \<Rightarrow> nat option \<Rightarrow> sockpool \<Rightarrow> fds \<Rightarrow> (nat option \<times> sockpool \<times> fds) option" where
  "find_free_loop rcv k item p fs = (case item of None \<Rightarrow> Some (None, p, fs) | Some i \<Rightarrow> do {
     it \<leftarrow> skp_items p i;
     if it_fd it < 0 then None
     else if it_used it then find_free_loop rcv k (it_next it) p fs
     else if sockpool_testfd rcv (it_fd it) \<noteq> 0 then do {
       p \<leftarrow> sockpool_hash_del k i p;
       p \<leftarrow> sockpool_hash_add SOCKPOOL_HSIZE i p;
       find_free_loop rcv k (it_next it) (p\<lparr>skp_nused := skp_nused p - 1\<rparr>) (close_fd (it_fd it) fs) }
     else Some (Some i, p, fs) })"

definition sockpool_hash_find_free :: "(int \<Rightarrow> u8 list + int) \<Rightarrow> nat \<Rightarrow> sockpool \<Rightarrow> fds \<Rightarrow> (nat option \<times> sockpool \<times> fds) option" where
  "sockpool_hash_find_free rcv k p fs = find_free_loop rcv k (en_head (skp_hash p k)) p fs"

partial_function (option) find_loop :: "sockpool \<Rightarrow> int \<Rightarrow> u32 \<Rightarrow> u16 \<Rightarrow> nat option \<Rightarrow> nat option option" where
  "find_loop p fd ip port item = (case item of None \<Rightarrow> Some None | Some i \<Rightarrow> do {
     it \<leftarrow> skp_items p i;
     if it_fd it < 0 then None
     else if it_fd it = fd then (if it_ip it = ip \<and> it_port it = port then Some (Some i) else None)
     else find_loop p fd ip port (it_next it) })"

definition sockpool_hash_find :: "nat \<Rightarrow> int \<Rightarrow> u32 \<Rightarrow> u16 \<Rightarrow> sockpool \<Rightarrow> nat option option" where
  "sockpool_hash_find k fd ip port p = (if fd < 0 then None else find_loop p fd ip port (en_head (skp_hash p k)))"

partial_function (option) count_loop :: "sockpool \<Rightarrow> int \<Rightarrow> nat option \<Rightarrow> int \<Rightarrow> int option" where
  "count_loop p fd item n = (case item of None \<Rightarrow> Some n | Some i \<Rightarrow> do {
     it \<leftarrow> skp_items p i;
     if it_fd it < 0 then None
     else count_loop p fd (it_next it) (if it_fd it = fd then n + 1 else n) })"

definition sockpool_hash_unique :: "nat \<Rightarrow> int \<Rightarrow> sockpool \<Rightarrow> int option" where
  "sockpool_hash_unique k fd p = (if fd < 0 then None
     else do { n \<leftarrow> count_loop p fd (en_head (skp_hash p k)) 0; Some (if n > 1 then - 1 else 0) })"

declare find_free_loop.simps [code] find_loop.simps [code] count_loop.simps [code]

subsection \<open>The pool\<close>

text \<open>\<open>m1\<close>, \<open>m2\<close>, \<open>m3\<close> say whether the three allocations succeed.\<close>

definition sockpool_alloc :: "bool \<Rightarrow> bool \<Rightarrow> bool \<Rightarrow> nat \<Rightarrow> sockpool option" where
  "sockpool_alloc m1 m2 m3 n = (if n < 1 \<or> \<not> m1 \<or> \<not> m2 \<or> \<not> m3 then None
     else Some \<lparr>skp_size = of_nat n, skp_success = 0, skp_failed = 0, skp_nused = 0,
       skp_items = (\<lambda>i. if i < n then Some \<lparr>it_prev = (if i = 0 then None else Some (i - 1)), it_next = (if i = n - 1 then None else Some (i + 1)),
          it_fd = - 1, it_nused = 0, it_used = False, it_port = 0, it_ip = 0\<rparr> else None),
       skp_hash = (\<lambda>i. if i = SOCKPOOL_HSIZE then \<lparr>en_size = of_nat n, en_head = Some 0\<rparr> else \<lparr>en_size = 0, en_head = None\<rparr>)\<rparr>)"

text \<open>The descriptors closed, in order.\<close>

partial_function (option) close_loop :: "sockpool \<Rightarrow> nat option \<Rightarrow> int list \<Rightarrow> int list option" where
  "close_loop p item cs = (case item of None \<Rightarrow> Some cs | Some i \<Rightarrow> do {
     it \<leftarrow> skp_items p i;
     if it_fd it < 0 then None else close_loop p (it_next it) (cs @ [it_fd it]) })"

declare close_loop.simps [code]

fun free_entries :: "sockpool \<Rightarrow> nat list \<Rightarrow> int list \<Rightarrow> int list option" where
  "free_entries p [] cs = Some cs"
| "free_entries p (k # ks) cs = do { cs \<leftarrow> close_loop p (en_head (skp_hash p k)) cs; free_entries p ks cs }"

definition sockpool_free :: "sockpool option \<Rightarrow> fds \<Rightarrow> (int list \<times> fds) option" where
  "sockpool_free pool fs = (case pool of None \<Rightarrow> Some ([], fs) | Some p \<Rightarrow> do {
     cs \<leftarrow> free_entries p [0..<SOCKPOOL_HSIZE] [];
     Some (cs, fold close_fd cs fs) })"

text \<open>\<open>new\<close> is the result of connecting a new socket, which depends on the descriptors that are open.\<close>

definition sockpool_get :: "(int \<Rightarrow> u8 list + int) \<Rightarrow> (int set \<Rightarrow> int) \<Rightarrow> sockpool option \<Rightarrow> u32 \<Rightarrow> u16 \<Rightarrow> fds \<Rightarrow> (int \<times> sockpool option \<times> fds) option" where
  "sockpool_get rcv new pool ip port fs = (case pool of None \<Rightarrow> Some (- 1, pool, fs) | Some p \<Rightarrow>
     if ip < 1 \<or> port < 1 then Some (- 1, pool, fs)
     else do {
       let k = unat (sockpool_keygen ip port);
       (item, p, fs) \<leftarrow> sockpool_hash_find_free rcv k p fs;
       case item of Some i \<Rightarrow> do {
           p \<leftarrow> upd_item (Some i) (\<lambda>it. it\<lparr>it_nused := it_nused it + 1\<rparr>) p;
           it \<leftarrow> skp_items p i;
           _ \<leftarrow> sockpool_hash_unique k (it_fd it) p;
           p \<leftarrow> upd_item (Some i) (\<lambda>it. it\<lparr>it_used := True\<rparr>) (p\<lparr>skp_success := skp_success p + 1\<rparr>);
           Some (it_fd it, Some p, fs) }
       | None \<Rightarrow>
         if skp_nused p \<ge> skp_size p then Some (- 1, Some (p\<lparr>skp_failed := skp_failed p + 1\<rparr>), fs)
         else if new (fd_open fs) < 0 then Some (- 1, Some (p\<lparr>skp_failed := skp_failed p + 1\<rparr>), fs)
         else do {
           let fd = new (fd_open fs);
           let fs = fs\<lparr>fd_open := insert fd (fd_open fs), fd_peer := (fd_peer fs)(fd \<mapsto> (ip, port))\<rparr>;
           (item, p) \<leftarrow> sockpool_hash_get SOCKPOOL_HSIZE p;
           case item of None \<Rightarrow> Some (- 1, Some (p\<lparr>skp_failed := skp_failed p + 1\<rparr>), close_fd fd fs)
           | Some i \<Rightarrow> do {
               p \<leftarrow> upd_item (Some i) (\<lambda>it. it\<lparr>it_fd := fd, it_nused := 1, it_ip := ip, it_port := port, it_used := True\<rparr>) p;
               p \<leftarrow> sockpool_hash_add k i p;
               Some (fd, Some (p\<lparr>skp_nused := skp_nused p + 1, skp_success := skp_success p + 1\<rparr>), fs) } } })"

text \<open>\<^verbatim>\<open>getpeername\<close> fails on a descriptor without peer; then the item is left as it is.\<close>

definition sockpool_put :: "sockpool option \<Rightarrow> int \<Rightarrow> int \<Rightarrow> fds \<Rightarrow> (int \<times> sockpool option \<times> fds) option" where
  "sockpool_put pool fd isclose fs = (case pool of None \<Rightarrow> Some (- 1, pool, fs) | Some p \<Rightarrow>
     if fd < 0 then Some (- 1, pool, fs)
     else case fd_peer fs fd of None \<Rightarrow> Some (- 1, pool, fs) | Some (ip, port) \<Rightarrow> do {
       let k = unat (sockpool_keygen ip port);
       item \<leftarrow> sockpool_hash_find k fd ip port p;
       case item of None \<Rightarrow> Some (- 1, pool, fs)
       | Some i \<Rightarrow>
         if isclose = 0 then do { p \<leftarrow> upd_item (Some i) (\<lambda>it. it\<lparr>it_used := False\<rparr>) p; Some (0, Some p, fs) }
         else do {
           p \<leftarrow> sockpool_hash_del k i p;
           p \<leftarrow> sockpool_hash_add SOCKPOOL_HSIZE i p;
           Some (0, Some (p\<lparr>skp_nused := skp_nused p - 1\<rparr>), close_fd fd fs) } })"

end
