(* ===== verification/Sockpool_Correct.thy ===== *)
theory Sockpool_Correct
  imports Sockpool
begin

text \<open>
  Correctness of the pool of server sockets: the lists of the table represent a partition of the items, the
  sockets in them are open and belong to the address they are filed under, and no socket is given out twice.
\<close>

subsection \<open>Doubly linked segments\<close>

text \<open>From \<open>hp\<close>, whose predecessor is \<open>pv\<close>, through the items \<open>xs\<close> to the pointer \<open>nx\<close>; \<open>lt\<close> is the last item passed.\<close>

fun dlseg :: "(nat \<rightharpoonup> item) \<Rightarrow> nat option \<Rightarrow> nat option \<Rightarrow> nat list \<Rightarrow> nat option \<Rightarrow> nat option \<Rightarrow> bool" where
  "dlseg M pv hp [] lt nx \<longleftrightarrow> hp = nx \<and> pv = lt"
| "dlseg M pv hp (x # xs) lt nx \<longleftrightarrow> hp = Some x \<and> (\<exists>it. M x = Some it \<and> it_prev it = pv \<and> dlseg M (Some x) (it_next it) xs lt nx)"

lemma dlseg_append: "dlseg M pv hp (xs @ ys) lt nx \<longleftrightarrow> (\<exists>l n. dlseg M pv hp xs l n \<and> dlseg M l n ys lt nx)"
  by (induction xs arbitrary: pv hp) auto

lemma dlseg_cong: "(\<And>x. x \<in> set xs \<Longrightarrow> M x = M' x) \<Longrightarrow> dlseg M pv hp xs lt nx = dlseg M' pv hp xs lt nx"
  by (induction xs arbitrary: pv hp) auto

lemma dlseg_upd [simp]: "x \<notin> set xs \<Longrightarrow> dlseg (M(x := v)) pv hp xs lt nx = dlseg M pv hp xs lt nx"
  by (rule dlseg_cong) auto

lemma dlseg_data: "(\<And>it. it_prev (f it) = it_prev it) \<Longrightarrow> (\<And>it. it_next (f it) = it_next it) \<Longrightarrow> M x = Some it \<Longrightarrow>
    dlseg (M(x \<mapsto> f it)) pv hp xs lt nx = dlseg M pv hp xs lt nx"
  by (induction xs arbitrary: pv hp) auto

lemma dlseg_set_next:
  "dlseg M pv hp (ys @ [y]) lt nx \<Longrightarrow> y \<notin> set ys \<Longrightarrow> M y = Some it \<Longrightarrow> dlseg (M(y \<mapsto> it\<lparr>it_next := nx'\<rparr>)) pv hp (ys @ [y]) (Some y) nx'"
  by (auto simp: dlseg_append)

lemma dlseg_set_prev:
  "dlseg M pv hp (z # zs) lt nx \<Longrightarrow> z \<notin> set zs \<Longrightarrow> M z = Some it \<Longrightarrow> dlseg (M(z \<mapsto> it\<lparr>it_prev := pv'\<rparr>)) pv' hp (z # zs) lt nx"
  by auto

lemma dlseg_last: "dlseg M pv hp (ys @ [y]) lt nx \<Longrightarrow> lt = Some y"
  by (auto simp: dlseg_append)

lemma dlseg_live: "dlseg M pv hp xs lt nx \<Longrightarrow> x \<in> set xs \<Longrightarrow> \<exists>it. M x = Some it"
  by (induction xs arbitrary: pv hp) auto

subsection \<open>One list of the table\<close>

definition lst :: "sockpool \<Rightarrow> nat \<Rightarrow> nat list \<Rightarrow> bool" where
  "lst p k xs \<longleftrightarrow> (\<exists>lt. dlseg (skp_items p) None (en_head (skp_hash p k)) xs lt None) \<and> en_size (skp_hash p k) = of_nat (length xs) \<and> distinct xs"

text \<open>What an item holds apart from its place in a list.\<close>

definition content :: "item \<Rightarrow> item" where
  "content it = it\<lparr>it_prev := None, it_next := None\<rparr>"

definition contents :: "sockpool \<Rightarrow> nat \<rightharpoonup> item" where
  "contents p i = map_option content (skp_items p i)"

text \<open>Only the list \<open>k\<close> and links of the items \<open>S\<close> change.\<close>

definition relinked :: "nat \<Rightarrow> nat set \<Rightarrow> sockpool \<Rightarrow> sockpool \<Rightarrow> bool" where
  "relinked k S p p' \<longleftrightarrow> skp_size p' = skp_size p \<and> skp_nused p' = skp_nused p \<and> (\<forall>x. x \<notin> S \<longrightarrow> skp_items p' x = skp_items p x) \<and>
     (\<forall>j. j \<noteq> k \<longrightarrow> skp_hash p' j = skp_hash p j) \<and> contents p' = contents p"

lemma content_links [simp]: "content (it\<lparr>it_prev := a\<rparr>) = content it" "content (it\<lparr>it_next := b\<rparr>) = content it"
  by (simp_all add: content_def)

lemma contents_eq: "contents p' = contents p \<longleftrightarrow> (\<forall>i. map_option content (skp_items p' i) = map_option content (skp_items p i))"
  by (simp add: contents_def fun_eq_iff)

lemma contents_hash [simp]: "contents (p\<lparr>skp_hash := H\<rparr>) = contents p" "contents (p\<lparr>skp_nused := n\<rparr>) = contents p"
  "contents (p\<lparr>skp_success := n\<rparr>) = contents p" "contents (p\<lparr>skp_failed := n\<rparr>) = contents p"
  by (simp_all add: contents_eq)

lemma lst_frame: "lst p k xs \<Longrightarrow> relinked j S p p' \<Longrightarrow> j \<noteq> k \<Longrightarrow> S \<inter> set xs = {} \<Longrightarrow> lst p' k xs"
  unfolding lst_def relinked_def using dlseg_cong [of xs "skp_items p" "skp_items p'"] by (metis disjoint_iff)

lemma hash_add_lst:
  assumes "lst p k xs" and i: "i \<notin> set xs" "skp_items p i = Some it"
  shows "\<exists>p'. sockpool_hash_add k i p = Some p' \<and> lst p' k (i # xs) \<and> relinked k (set (i # xs)) p p'"
proof (cases xs)
  case Nil
  let ?p = "p\<lparr>skp_items := (skp_items p)(i \<mapsto> it\<lparr>it_next := None, it_prev := None\<rparr>), skp_hash := (skp_hash p)(k := (skp_hash p k)\<lparr>en_head := Some i, en_size := en_size (skp_hash p k) + 1\<rparr>)\<rparr>"
  have "sockpool_hash_add k i p = Some ?p"
    using assms Nil by (auto simp: lst_def sockpool_hash_add_def upd_item_def upd_entry_def)
  moreover have "lst ?p k (i # xs)" using assms Nil by (simp add: lst_def)
  moreover have "relinked k (set (i # xs)) p ?p" using i by (auto simp: relinked_def contents_eq)
  ultimately show ?thesis by blast
next
  case (Cons y ys)
  obtain lt iy where y: "en_head (skp_hash p k) = Some y" "skp_items p y = Some iy" "dlseg (skp_items p) None (Some y) (y # ys) lt None"
      "distinct (y # ys)" "en_size (skp_hash p k) = of_nat (length (y # ys))"
    using assms(1) Cons by (auto simp: lst_def)
  have ne: "y \<noteq> i" "i \<notin> set ys" using i Cons by auto
  let ?M = "(skp_items p)(i \<mapsto> it\<lparr>it_next := Some y\<rparr>, y \<mapsto> iy\<lparr>it_prev := Some i\<rparr>)"
  let ?p = "p\<lparr>skp_items := ?M(i \<mapsto> it\<lparr>it_next := Some y, it_prev := None\<rparr>), skp_hash := (skp_hash p)(k := (skp_hash p k)\<lparr>en_head := Some i, en_size := en_size (skp_hash p k) + 1\<rparr>)\<rparr>"
  have "sockpool_hash_add k i p = Some ?p"
    using i y(1, 2) ne(1) by (simp add: sockpool_hash_add_def upd_item_def upd_entry_def)
  moreover have "dlseg ?M (Some i) (Some y) (y # ys) lt None" using y i ne by auto
  then have "lst ?p k (i # xs)" using y ne Cons by (auto simp: lst_def)
  moreover have "relinked k (set (i # xs)) p ?p" using i y Cons by (auto simp: relinked_def contents_eq)
  ultimately show ?thesis by blast
qed

lemma dlseg_cut_left:
  assumes "dlseg M None hp ys l (Some i)" and "distinct ys"
  shows "l = None \<and> ys = [] \<or> (\<exists>y iy. l = Some y \<and> y \<in> set ys \<and> M y = Some iy \<and> dlseg (M(y \<mapsto> iy\<lparr>it_next := n\<rparr>)) None hp ys l n)"
proof (cases ys rule: rev_cases)
  case Nil
  then show ?thesis using assms by simp
next
  case (snoc zs y)
  then have l: "l = Some y" using assms(1) dlseg_last by blast
  obtain iy where "M y = Some iy" using dlseg_live [OF assms(1), of y] snoc by auto
  then show ?thesis using dlseg_set_next [of M None hp zs y l "Some i" iy n] assms l snoc by auto
qed

lemma dlseg_cut_right:
  assumes "dlseg M (Some i) n zs lt None" and "distinct zs"
  shows "n = None \<and> zs = [] \<or> (\<exists>z iz. n = Some z \<and> z \<in> set zs \<and> M z = Some iz \<and> dlseg (M(z \<mapsto> iz\<lparr>it_prev := l\<rparr>)) l n zs lt None)"
  using assms dlseg_set_prev by (cases zs) auto

lemma hash_del_lst:
  assumes l: "lst p k xs" and i: "i \<in> set xs"
  shows "\<exists>p'. sockpool_hash_del k i p = Some p' \<and> lst p' k (remove1 i xs) \<and> relinked k (set xs) p p'"
proof -
  obtain ys zs where xs: "xs = ys @ i # zs" using i by (meson split_list)
  obtain lt where seg: "dlseg (skp_items p) None (en_head (skp_hash p k)) xs lt None" and d: "distinct xs"
    and sz: "en_size (skp_hash p k) = of_nat (length xs)" using l by (auto simp: lst_def)
  obtain pv it where it: "skp_items p i = Some it" "it_prev it = pv" and left: "dlseg (skp_items p) None (en_head (skp_hash p k)) ys pv (Some i)"
    and right: "dlseg (skp_items p) (Some i) (it_next it) zs lt None" using seg unfolding xs dlseg_append by auto
  have dy: "distinct ys" "distinct zs" "i \<notin> set ys" "i \<notin> set zs" "set ys \<inter> set zs = {}" using d xs by auto
  have rm: "remove1 i xs = ys @ zs" using dy by (simp add: xs remove1_append)
  have len: "of_nat (length xs) - 1 = (of_nat (length (ys @ zs)) :: u32)" by (simp add: xs)
  let ?s = "\<lambda>en. en\<lparr>en_size := en_size en - 1\<rparr>"
  consider (first) "pv = None" "ys = []"
    | (later) y iy where "pv = Some y" "y \<in> set ys" "skp_items p y = Some iy"
        "dlseg ((skp_items p)(y \<mapsto> iy\<lparr>it_next := it_next it\<rparr>)) None (en_head (skp_hash p k)) ys pv (it_next it)"
    using dlseg_cut_left [OF left dy(1), of "it_next it"] by blast
  then show ?thesis
  proof cases
    case first
    show ?thesis
    proof (cases zs)
      case Nil
      then have n: "it_next it = None" using right by simp
      let ?p = "upd_entry k ?s (upd_entry k (\<lambda>en. en\<lparr>en_head := None\<rparr>) p)"
      have "sockpool_hash_del k i p = Some ?p" using it first n by (simp add: sockpool_hash_del_def upd_entry_def)
      moreover have "lst ?p k (remove1 i xs)" using first Nil rm sz by (simp add: lst_def upd_entry_def xs)
      moreover have "relinked k (set xs) p ?p" by (auto simp: relinked_def upd_entry_def contents_eq)
      ultimately show ?thesis by blast
    next
      case (Cons z zs')
      then obtain iz where z: "it_next it = Some z" "skp_items p z = Some iz" "dlseg ((skp_items p)(z \<mapsto> iz\<lparr>it_prev := None\<rparr>)) None (Some z) zs lt None"
        using dlseg_cut_right [OF right dy(2), of None] by auto
      let ?p = "upd_entry k ?s ((upd_entry k (\<lambda>en. en\<lparr>en_head := Some z\<rparr>) p)\<lparr>skp_items := (skp_items p)(z \<mapsto> iz\<lparr>it_prev := None\<rparr>)\<rparr>)"
      have "sockpool_hash_del k i p = Some ?p" using it first z by (simp add: sockpool_hash_del_def upd_entry_def upd_item_def)
      moreover have "lst ?p k (remove1 i xs)" using first z(3) dy sz rm len by (auto simp: lst_def upd_entry_def)
      moreover have "relinked k (set xs) p ?p" using z Cons xs by (auto simp: relinked_def upd_entry_def contents_eq)
      ultimately show ?thesis by blast
    qed
  next
    case later
    let ?M = "(skp_items p)(y \<mapsto> iy\<lparr>it_next := it_next it\<rparr>)"
    have y: "y \<noteq> i" "y \<notin> set zs" using later dy by auto
    show ?thesis
    proof (cases zs)
      case Nil
      then have n: "it_next it = None" using right by simp
      let ?p = "upd_entry k ?s (p\<lparr>skp_items := ?M\<rparr>)"
      have "sockpool_hash_del k i p = Some ?p" using it later(1, 3) y n by (simp add: sockpool_hash_del_def upd_entry_def upd_item_def)
      moreover have "lst ?p k (remove1 i xs)" using later(4) n Nil rm sz len dy by (auto simp: lst_def upd_entry_def)
      moreover have "relinked k (set xs) p ?p" using later xs by (auto simp: relinked_def upd_entry_def contents_eq)
      ultimately show ?thesis by blast
    next
      case (Cons z0 zs')
      have r: "dlseg ?M (Some i) (it_next it) zs lt None" using right y by simp
      obtain z iz where z: "it_next it = Some z" "z \<in> set zs" "?M z = Some iz" "dlseg (?M(z \<mapsto> iz\<lparr>it_prev := pv\<rparr>)) pv (it_next it) zs lt None"
        using dlseg_cut_right [OF r dy(2), of pv] Cons by blast
      let ?N = "?M(z \<mapsto> iz\<lparr>it_prev := pv\<rparr>)"
      have ne: "z \<noteq> y" "z \<noteq> i" "z \<notin> set ys" using z(2) y dy by auto
      let ?p = "upd_entry k ?s (p\<lparr>skp_items := ?N\<rparr>)"
      have "sockpool_hash_del k i p = Some ?p" using it later(1, 3) y(1) z(1, 3) ne by (simp add: sockpool_hash_del_def upd_entry_def upd_item_def)
      moreover have "dlseg ?N None (en_head (skp_hash p k)) (ys @ zs) lt None"
        using later(4) z(4) ne(3) unfolding dlseg_append by (metis dlseg_upd)
      then have "lst ?p k (remove1 i xs)" using rm sz len dy by (auto simp: lst_def upd_entry_def)
      moreover have "relinked k (set xs) p ?p" using later(2, 3) z(2, 3) ne(1) xs by (auto simp: relinked_def upd_entry_def contents_eq)
      ultimately show ?thesis by blast
    qed
  qed
qed

lemma hash_get_lst:
  assumes "lst p k (x # xs)" and "length (x # xs) < 2 ^ 32"
  shows "\<exists>p'. sockpool_hash_get k p = Some (Some x, p') \<and> lst p' k xs \<and> relinked k (set (x # xs)) p p'"
proof -
  obtain lt it where x: "en_head (skp_hash p k) = Some x" "skp_items p x = Some it" "dlseg (skp_items p) (Some x) (it_next it) xs lt None" "distinct (x # xs)"
    and sz: "en_size (skp_hash p k) = of_nat (length (x # xs))" using assms(1) by (auto simp: lst_def)
  have "unat (of_nat (length (x # xs)) :: u32) = length (x # xs)" using assms(2) by (simp add: unsigned_of_nat take_bit_eq_mod del: of_nat_Suc length_Cons)
  then have n0: "en_size (skp_hash p k) \<noteq> 0" using sz by fastforce
  let ?h = "upd_entry k (\<lambda>en. en\<lparr>en_head := it_next it\<rparr>)" and ?s = "upd_entry k (\<lambda>en. en\<lparr>en_size := en_size en - 1\<rparr>)"
  show ?thesis
  proof (cases xs)
    case Nil
    then have n: "it_next it = None" using x(3) by simp
    have "sockpool_hash_get k p = Some (Some x, ?s (?h p))" using x n n0 by (simp add: sockpool_hash_get_def upd_entry_def)
    moreover have "lst (?s (?h p)) k xs" using Nil n sz by (simp add: lst_def upd_entry_def)
    moreover have "relinked k (set (x # xs)) p (?s (?h p))" by (simp add: relinked_def upd_entry_def contents_eq)
    ultimately show ?thesis by blast
  next
    case (Cons z zs)
    obtain iz where z: "it_next it = Some z" "skp_items p z = Some iz" "dlseg ((skp_items p)(z \<mapsto> iz\<lparr>it_prev := None\<rparr>)) None (Some z) xs lt None"
      using dlseg_cut_right [OF x(3), of None] x(4) Cons by auto
    let ?p = "?s ((?h p)\<lparr>skp_items := (skp_items p)(z \<mapsto> iz\<lparr>it_prev := None\<rparr>)\<rparr>)"
    have "sockpool_hash_get k p = Some (Some x, ?p)" using x(1, 2) z(1, 2) n0 by (simp add: sockpool_hash_get_def upd_entry_def upd_item_def)
    moreover have "lst ?p k xs" using z(1, 3) x(4) sz by (auto simp: lst_def upd_entry_def)
    moreover have "relinked k (set (x # xs)) p ?p" using z(2) Cons by (auto simp: relinked_def upd_entry_def contents_eq)
    ultimately show ?thesis by blast
  qed
qed

subsection \<open>The table\<close>

definition rep :: "sockpool \<Rightarrow> (nat \<Rightarrow> nat list) \<Rightarrow> bool" where
  "rep p L \<longleftrightarrow> (\<forall>k\<le>SOCKPOOL_HSIZE. lst p k (L k)) \<and> (\<forall>j\<le>SOCKPOOL_HSIZE. \<forall>k\<le>SOCKPOOL_HSIZE. j \<noteq> k \<longrightarrow> set (L j) \<inter> set (L k) = {})"

lemma rep_step:
  assumes r: "rep p L" and k: "k \<le> SOCKPOOL_HSIZE" and l: "lst p' k xs" and c: "relinked k S p p'"
    and new: "\<And>j. j \<le> SOCKPOOL_HSIZE \<Longrightarrow> j \<noteq> k \<Longrightarrow> S \<inter> set (L j) = {}" and sub: "set xs \<subseteq> S"
  shows "rep p' (L(k := xs))"
proof -
  have "lst p' j (L j)" if "j \<le> SOCKPOOL_HSIZE" "j \<noteq> k" for j using lst_frame [OF _ c] new that r by (auto simp: rep_def)
  moreover have "set xs \<inter> set (L j) = {}" if "j \<le> SOCKPOOL_HSIZE" "j \<noteq> k" for j using new [OF that] sub by blast
  ultimately show ?thesis using r l k unfolding rep_def by (auto simp: Int_commute)
qed

lemma rep_add:
  assumes r: "rep p L" and k: "k \<le> SOCKPOOL_HSIZE" and i: "skp_items p i = Some it" "\<And>j. j \<le> SOCKPOOL_HSIZE \<Longrightarrow> i \<notin> set (L j)"
  shows "\<exists>p'. sockpool_hash_add k i p = Some p' \<and> rep p' (L(k := i # L k)) \<and> relinked k (insert i (set (L k))) p p'"
proof -
  obtain p' where p': "sockpool_hash_add k i p = Some p'" "lst p' k (i # L k)" "relinked k (set (i # L k)) p p'"
    using hash_add_lst [of p k "L k" i it] r k i by (auto simp: rep_def)
  have "rep p' (L(k := i # L k))" using r k i(2) by (intro rep_step [OF r k p'(2, 3)]) (auto simp: rep_def)
  then show ?thesis using p' by auto
qed

lemma rep_del:
  assumes r: "rep p L" and k: "k \<le> SOCKPOOL_HSIZE" and i: "i \<in> set (L k)"
  shows "\<exists>p'. sockpool_hash_del k i p = Some p' \<and> rep p' (L(k := remove1 i (L k))) \<and> relinked k (set (L k)) p p'"
proof -
  obtain p' where p': "sockpool_hash_del k i p = Some p'" "lst p' k (remove1 i (L k))" "relinked k (set (L k)) p p'"
    using hash_del_lst [of p k "L k" i] r k i by (auto simp: rep_def)
  have "rep p' (L(k := remove1 i (L k)))" using r k set_remove1_subset [of i "L k"] by (intro rep_step [OF r k p'(2, 3)]) (auto simp: rep_def)
  then show ?thesis using p' by auto
qed

lemma rep_get:
  assumes r: "rep p L" and k: "k \<le> SOCKPOOL_HSIZE" and i: "L k = i # xs" and len: "length (L k) < 2 ^ 32"
  shows "\<exists>p'. sockpool_hash_get k p = Some (Some i, p') \<and> rep p' (L(k := xs)) \<and> relinked k (set (L k)) p p'"
proof -
  have l: "lst p k (i # xs)" using r k i by (metis rep_def)
  obtain p' where p': "sockpool_hash_get k p = Some (Some i, p')" "lst p' k xs" "relinked k (set (L k)) p p'"
    using hash_get_lst [of p k i xs] l i len by auto
  have "set (L k) \<inter> set (L j) = {}" if "j \<le> SOCKPOOL_HSIZE" "j \<noteq> k" for j using r k that by (metis rep_def)
  then have "rep p' (L(k := xs))" by (rule rep_step [OF r k p'(2, 3)]) (auto simp: i)
  then show ?thesis using p' by auto
qed

lemma rep_same: "skp_items p' = skp_items p \<Longrightarrow> skp_hash p' = skp_hash p \<Longrightarrow> rep p' L = rep p L"
  by (simp add: rep_def lst_def)

lemma rep_data:
  assumes "\<And>it. it_prev (f it) = it_prev it" and "\<And>it. it_next (f it) = it_next it" and "skp_items p i = Some it"
  shows "rep (p\<lparr>skp_items := (skp_items p)(i \<mapsto> f it)\<rparr>) L = rep p L"
  using dlseg_data [of f "skp_items p" i it] assms by (simp add: rep_def lst_def)

lemma lst_next:
  assumes "lst p k (ys @ z # zs)"
  shows "\<exists>it. skp_items p z = Some it \<and> it_next it = (case zs of [] \<Rightarrow> None | w # _ \<Rightarrow> Some w)"
  using assms by (cases zs) (auto simp: lst_def dlseg_append)

lemma lst_head: "lst p k xs \<Longrightarrow> en_head (skp_hash p k) = (case xs of [] \<Rightarrow> None | w # _ \<Rightarrow> Some w)"
  by (cases xs) (auto simp: lst_def)

lemma rep_live: "rep p L \<Longrightarrow> k \<le> SOCKPOOL_HSIZE \<Longrightarrow> i \<in> set (L k) \<Longrightarrow> \<exists>it. skp_items p i = Some it"
  unfolding rep_def lst_def using dlseg_live by blast

subsection \<open>The invariant\<close>

definition bucketed :: "(nat \<Rightarrow> nat list) \<Rightarrow> nat set" where
  "bucketed L = (\<Union>k<SOCKPOOL_HSIZE. set (L k))"

definition the_item :: "sockpool \<Rightarrow> nat \<Rightarrow> item" where
  "the_item p i = the (contents p i)"

text \<open>The sockets of the pool and those that are given out.\<close>

definition owned :: "sockpool \<Rightarrow> (nat \<Rightarrow> nat list) \<Rightarrow> int set" where
  "owned p L = (\<lambda>i. it_fd (the_item p i)) ` bucketed L"

definition busy :: "sockpool \<Rightarrow> (nat \<Rightarrow> nat list) \<Rightarrow> int set" where
  "busy p L = (\<lambda>i. it_fd (the_item p i)) ` {i \<in> bucketed L. it_used (the_item p i)}"

text \<open>A socket of a list is open and, as long as it has a peer, connected to the address it is filed under.\<close>

definition filed :: "fds \<Rightarrow> nat \<Rightarrow> item \<Rightarrow> bool" where
  "filed fs k it \<longleftrightarrow> 0 \<le> it_fd it \<and> it_fd it \<in> fd_open fs \<and> (fd_peer fs (it_fd it) = None \<or> fd_peer fs (it_fd it) = Some (it_ip it, it_port it)) \<and>
     k = unat (sockpool_keygen (it_ip it) (it_port it))"

definition pool_inv :: "sockpool \<Rightarrow> fds \<Rightarrow> (nat \<Rightarrow> nat list) \<Rightarrow> bool" where
  "pool_inv p fs L \<longleftrightarrow> rep p L \<and> bucketed L \<union> set (L SOCKPOOL_HSIZE) = {..<unat (skp_size p)} \<and> unat (skp_nused p) = card (bucketed L) \<and>
     (\<forall>k<SOCKPOOL_HSIZE. \<forall>i\<in>set (L k). filed fs k (the_item p i)) \<and> inj_on (\<lambda>i. it_fd (the_item p i)) (bucketed L)"

lemma the_item_contents: "contents p' = contents p \<Longrightarrow> the_item p' = the_item p"
  by (simp add: the_item_def fun_eq_iff)

lemma the_item_Some: "skp_items p i = Some it \<Longrightarrow> it_fd (the_item p i) = it_fd it \<and> it_used (the_item p i) = it_used it \<and>
    it_ip (the_item p i) = it_ip it \<and> it_port (the_item p i) = it_port it"
  by (simp add: the_item_def contents_def content_def)

lemma keygen_small: "unat (sockpool_keygen ip port) < SOCKPOOL_HSIZE"
proof -
  have "unat (sockpool_keygen ip port) < 2 ^ LENGTH(8)" by (rule unsigned_less)
  then show ?thesis by (simp add: SOCKPOOL_HSIZE_def)
qed

lemma bucketed_disj: "rep p L \<Longrightarrow> bucketed L \<inter> set (L SOCKPOOL_HSIZE) = {}"
  unfolding rep_def bucketed_def by (auto simp: disjoint_iff dest: less_imp_le)

lemma bucketed_remove:
  assumes r: "rep p L" and k: "k < SOCKPOOL_HSIZE" and i: "i \<in> set (L k)"
  shows "bucketed (L(k := remove1 i (L k), SOCKPOOL_HSIZE := xs)) = bucketed L - {i}"
proof -
  have "distinct (L k)" using r k by (simp add: rep_def lst_def)
  moreover have "i \<notin> set (L j)" if "j < SOCKPOOL_HSIZE" "j \<noteq> k" for j using r k i that unfolding rep_def by (metis disjoint_iff less_imp_le)
  ultimately show ?thesis using k by (auto simp: bucketed_def split: if_splits)
qed

lemma bucketed_add: "k < SOCKPOOL_HSIZE \<Longrightarrow> bucketed (L(SOCKPOOL_HSIZE := xs, k := i # L k)) = insert i (bucketed L)"
  by (auto simp: bucketed_def split: if_splits)

lemma bucketedI: "k < SOCKPOOL_HSIZE \<Longrightarrow> i \<in> set (L k) \<Longrightarrow> i \<in> bucketed L"
  by (auto simp: bucketed_def)

lemma finite_bucketed: "finite (bucketed L)"
  by (simp add: bucketed_def)

lemma pool_inv_filed:
  assumes "pool_inv p fs L" and "k < SOCKPOOL_HSIZE" and "i \<in> set (L k)" and "skp_items p i = Some it"
  shows "0 \<le> it_fd it" "it_fd it \<in> fd_open fs" "fd_peer fs (it_fd it) = None \<or> fd_peer fs (it_fd it) = Some (it_ip it, it_port it)"
    "k = unat (sockpool_keygen (it_ip it) (it_port it))"
proof -
  have "filed fs k (the_item p i)" using assms(1-3) by (simp add: pool_inv_def)
  then show "0 \<le> it_fd it" "it_fd it \<in> fd_open fs" "fd_peer fs (it_fd it) = None \<or> fd_peer fs (it_fd it) = Some (it_ip it, it_port it)"
    "k = unat (sockpool_keygen (it_ip it) (it_port it))"
    using the_item_Some [OF assms(4)] by (simp_all add: filed_def)
qed

text \<open>Only the contents of the items in lists, the numbers and the table count.\<close>

lemma pool_inv_cong:
  assumes "pool_inv p fs L" and "rep p' L" and "skp_size p' = skp_size p" and "skp_nused p' = skp_nused p"
    and "\<And>i. i \<in> bucketed L \<Longrightarrow> it_fd (the_item p' i) = it_fd (the_item p i) \<and> it_ip (the_item p' i) = it_ip (the_item p i) \<and> it_port (the_item p' i) = it_port (the_item p i)"
  shows "pool_inv p' fs L" and "owned p' L = owned p L"
proof -
  have f: "filed fs k (the_item p' i)" if k: "k < SOCKPOOL_HSIZE" "i \<in> set (L k)" for i k
  proof -
    have "i \<in> bucketed L" using k by (auto simp: bucketed_def)
    moreover have "filed fs k (the_item p i)" using assms(1) k by (simp add: pool_inv_def)
    ultimately show ?thesis using assms(5) [of i] by (simp add: filed_def)
  qed
  moreover have "inj_on (\<lambda>i. it_fd (the_item p' i)) (bucketed L) = inj_on (\<lambda>i. it_fd (the_item p i)) (bucketed L)"
    using assms(5) by (intro inj_on_cong) simp
  ultimately show "pool_inv p' fs L" using assms(1-4) by (simp add: pool_inv_def)
  show "owned p' L = owned p L" using assms(5) unfolding owned_def by (intro image_cong) simp_all
qed

text \<open>A socket is closed and its item returned to the free list.\<close>

lemma retire:
  assumes inv: "pool_inv p fs L" and k: "k < SOCKPOOL_HSIZE" and i: "i \<in> set (L k)" and fd: "fd = it_fd (the_item p i)"
  shows "\<exists>p1 p2. sockpool_hash_del k i p = Some p1 \<and> sockpool_hash_add SOCKPOOL_HSIZE i p1 = Some p2 \<and>
    (let p' = p2\<lparr>skp_nused := skp_nused p2 - 1\<rparr>; L' = L(k := remove1 i (L k), SOCKPOOL_HSIZE := i # L SOCKPOOL_HSIZE) in
     pool_inv p' (close_fd fd fs) L' \<and> the_item p' = the_item p \<and> owned p' L' = owned p L - {fd} \<and> busy p' L' = busy p L - {fd})"
proof -
  let ?H = SOCKPOOL_HSIZE
  let ?L = "L(k := remove1 i (L k))"
  have r: "rep p L" and all: "bucketed L \<union> set (L ?H) = {..<unat (skp_size p)}" and nu: "unat (skp_nused p) = card (bucketed L)"
    and fil: "\<And>j x. j < ?H \<Longrightarrow> x \<in> set (L j) \<Longrightarrow> filed fs j (the_item p x)" and inj: "inj_on (\<lambda>i. it_fd (the_item p i)) (bucketed L)"
    using inv by (auto simp: pool_inv_def)
  obtain p1 where p1: "sockpool_hash_del k i p = Some p1" "rep p1 ?L" "relinked k (set (L k)) p p1" using rep_del [OF r _ i] k by auto
  obtain it where it: "skp_items p1 i = Some it" using rep_live [OF r _ i] k p1(3) by (auto simp: relinked_def contents_eq) (metis option.map_disc_iff not_Some_eq)
  have "i \<notin> set (?L j)" if "j \<le> ?H" for j
  proof (cases "j = k")
    case True
    have "distinct (L k)" using r k by (simp add: rep_def lst_def)
    then show ?thesis using True by simp
  next
    case False
    then show ?thesis using r k i that unfolding rep_def by (metis disjoint_iff fun_upd_other less_imp_le)
  qed
  then obtain p2 where p2: "sockpool_hash_add ?H i p1 = Some p2" "rep p2 (?L(?H := i # ?L ?H))" "relinked ?H (insert i (set (?L ?H))) p1 p2"
    using rep_add [OF p1(2) _ it, of ?H] by auto
  define p' L' where "p' = p2\<lparr>skp_nused := skp_nused p2 - 1\<rparr>" and "L' = L(k := remove1 i (L k), ?H := i # L ?H)"
  have L': "?L(?H := i # ?L ?H) = L'" using k by (simp add: L'_def)
  have same: "the_item p' = the_item p" "skp_size p' = skp_size p" "skp_nused p' = skp_nused p - 1"
    using p1(3) p2(3) by (auto simp: relinked_def p'_def intro!: the_item_contents)
  have rep': "rep p' L'" using p2(2) L' rep_same [of p' p2 L'] by (simp add: p'_def)
  have bk: "bucketed L' = bucketed L - {i}" unfolding L'_def by (rule bucketed_remove [OF r k i])
  have ib: "i \<in> bucketed L" using k i by (auto simp: bucketed_def)
  have "card (bucketed L) \<noteq> 0" using ib finite_bucketed [of L] by auto
  then have "unat (skp_nused p - 1) = unat (skp_nused p) - 1" using nu by (intro unat_minus_one) auto
  then have card: "unat (skp_nused p') = card (bucketed L')" using nu same(3) bk ib finite_bucketed [of L] by simp
  have fil': "filed (close_fd fd fs) j (the_item p' x)" if j: "j < ?H" "x \<in> set (L' j)" for j x
  proof -
    have "x \<in> bucketed L'" using j by (auto simp: bucketed_def)
    then have x: "x \<in> bucketed L" "x \<noteq> i" using bk by auto
    then have "it_fd (the_item p x) \<noteq> fd" using inj ib fd by (auto dest: inj_onD)
    moreover have "filed fs j (the_item p x)" using fil j unfolding L'_def by (auto split: if_splits dest: in_set_remove1 [THEN iffD1, rotated] set_remove1_subset [THEN subsetD])
    ultimately show ?thesis unfolding same(1) by (simp add: filed_def close_fd_def)
  qed
  have "bucketed L' \<union> set (L' ?H) = {..<unat (skp_size p')}" using all bk ib same(2) by (auto simp: L'_def)
  then have "pool_inv p' (close_fd fd fs) L'"
    using rep' card fil' inj unfolding pool_inv_def same(1) bk by (auto intro: inj_on_diff)
  moreover have "owned p' L' = owned p L - {fd}" using inj ib unfolding owned_def same(1) bk fd by (auto dest: inj_onD)
  moreover have "busy p' L' = busy p L - {fd}" using inj ib unfolding busy_def same(1) bk fd by (auto dest: inj_onD)
  ultimately show ?thesis using p1(1) p2(1) same(1) unfolding p'_def L'_def by (auto simp: Let_def)
qed

subsection \<open>The loops\<close>

text \<open>The pointer to a list.\<close>

definition ptr :: "nat list \<Rightarrow> nat option" where
  "ptr xs = (case xs of [] \<Rightarrow> None | x # _ \<Rightarrow> Some x)"

lemma ptr_simps [simp]: "ptr [] = None" "ptr (x # xs) = Some x"
  by (simp_all add: ptr_def)

lemma rep_next: "rep p L \<Longrightarrow> k \<le> SOCKPOOL_HSIZE \<Longrightarrow> L k = ys @ z # zs \<Longrightarrow> \<exists>it. skp_items p z = Some it \<and> it_next it = ptr zs"
  using lst_next [of p k ys z zs] unfolding rep_def ptr_def by metis

lemma rep_head: "rep p L \<Longrightarrow> k \<le> SOCKPOOL_HSIZE \<Longrightarrow> en_head (skp_hash p k) = ptr (L k)"
  using lst_head [of p k "L k"] by (simp add: rep_def ptr_def)

definition close_all :: "int set \<Rightarrow> fds \<Rightarrow> fds" where
  "close_all C fs = fs\<lparr>fd_open := fd_open fs - C, fd_peer := (\<lambda>fd. if fd \<in> C then None else fd_peer fs fd)\<rparr>"

lemma close_all_simps [simp]: "close_all {} fs = fs" "close_all C (close_fd fd fs) = close_all (insert fd C) fs"
  by (cases fs; auto simp: close_all_def close_fd_def fun_eq_iff)+

lemma find_free_ok:
  assumes "pool_inv p fs L" and "k < SOCKPOOL_HSIZE" and "L k = ys @ zs"
  shows "\<exists>r p' L'. find_free_loop rcv k (ptr zs) p fs = Some (r, p', close_all (owned p L - owned p' L') fs) \<and>
    pool_inv p' (close_all (owned p L - owned p' L') fs) L' \<and> owned p' L' \<subseteq> owned p L \<and> busy p' L' = busy p L \<and>
    (\<forall>i. r = Some i \<longrightarrow> i \<in> set (L' k) \<and> \<not> it_used (the_item p' i) \<and> sockpool_testfd rcv (it_fd (the_item p' i)) = 0)"
  using assms
proof (induction zs arbitrary: p fs L ys)
  case Nil
  then show ?case by (intro exI [of _ None] exI [of _ p] exI [of _ L]) (simp add: find_free_loop.simps)
next
  case (Cons z zs)
  have r: "rep p L" and inj: "inj_on (\<lambda>i. it_fd (the_item p i)) (bucketed L)" using Cons.prems(1) by (auto simp: pool_inv_def)
  have z: "z \<in> set (L k)" using Cons.prems(3) by simp
  then have zb: "z \<in> bucketed L" using Cons.prems(2) by (rule bucketedI [rotated])
  obtain it where it: "skp_items p z = Some it" "it_next it = ptr zs" using rep_next [OF r _ Cons.prems(3)] Cons.prems(2) by auto
  note f = the_item_Some [OF it(1)]
  have fd: "0 \<le> it_fd it" using pool_inv_filed(1) [OF Cons.prems(1, 2) z it(1)] .
  show ?case
  proof (cases "it_used it")
    case True
    then have "find_free_loop rcv k (ptr (z # zs)) p fs = find_free_loop rcv k (ptr zs) p fs"
      using it fd by (subst find_free_loop.simps) simp
    then show ?thesis using Cons.IH [OF Cons.prems(1, 2), of "ys @ [z]"] Cons.prems(3) by simp
  next
    case unused: False
    show ?thesis
    proof (cases "sockpool_testfd rcv (it_fd it) = 0")
      case True
      then have "find_free_loop rcv k (ptr (z # zs)) p fs = Some (Some z, p, fs)" using it fd unused by (subst find_free_loop.simps) simp
      then show ?thesis using Cons.prems(1) True unused f z by (intro exI [of _ "Some z"] exI [of _ p] exI [of _ L]) simp
    next
      case False
      let ?L = "L(k := remove1 z (L k), SOCKPOOL_HSIZE := z # L SOCKPOOL_HSIZE)"
      obtain p1 p2 p3 where p: "sockpool_hash_del k z p = Some p1" "sockpool_hash_add SOCKPOOL_HSIZE z p1 = Some p2" "p3 = p2\<lparr>skp_nused := skp_nused p2 - 1\<rparr>"
        and inv: "pool_inv p3 (close_fd (it_fd it) fs) ?L" and ow: "owned p3 ?L = owned p L - {it_fd it}" and bu: "busy p3 ?L = busy p L - {it_fd it}"
        using retire [OF Cons.prems(1, 2) z, of "it_fd it"] f by (auto simp: Let_def)
      have nb: "it_fd it \<notin> busy p L" using inj zb unused f by (auto simp: busy_def dest: inj_onD)
      have ow1: "it_fd it \<in> owned p L" using imageI [OF zb, of "\<lambda>i. it_fd (the_item p i)"] f by (simp add: owned_def)
      have "z \<notin> set ys" using r Cons.prems(2, 3) by (auto simp: rep_def lst_def dest: spec [of _ k])
      then have Lk: "?L k = ys @ zs" using Cons.prems(2, 3) by (simp add: remove1_append)
      obtain r p' L' where ih: "find_free_loop rcv k (ptr zs) p3 (close_fd (it_fd it) fs) = Some (r, p', close_all (owned p3 ?L - owned p' L') (close_fd (it_fd it) fs))"
        "pool_inv p' (close_all (owned p3 ?L - owned p' L') (close_fd (it_fd it) fs)) L'" "owned p' L' \<subseteq> owned p3 ?L" "busy p' L' = busy p3 ?L"
        "\<forall>i. r = Some i \<longrightarrow> i \<in> set (L' k) \<and> \<not> it_used (the_item p' i) \<and> sockpool_testfd rcv (it_fd (the_item p' i)) = 0"
        using Cons.IH [OF inv Cons.prems(2) Lk] by blast
      have C: "insert (it_fd it) (owned p3 ?L - owned p' L') = owned p L - owned p' L'" using ow ow1 ih(3) by auto
      have "find_free_loop rcv k (ptr (z # zs)) p fs = find_free_loop rcv k (ptr zs) p3 (close_fd (it_fd it) fs)"
        using it fd unused False p by (subst find_free_loop.simps) simp
      then show ?thesis using ih ow bu nb C
        by (intro exI [of _ r] exI [of _ p'] exI [of _ L']) (simp only: close_all_simps, auto)
    qed
  qed
qed

lemma find_loop_ok:
  assumes "rep p L" and "k \<le> SOCKPOOL_HSIZE" and "L k = ys @ zs" and "i \<in> set zs" and "skp_items p i = Some it" and "it_fd it = fd"
    and "\<And>j jt. j \<in> set (L k) \<Longrightarrow> skp_items p j = Some jt \<Longrightarrow> 0 \<le> it_fd jt \<and> (it_fd jt = fd \<longrightarrow> j = i)"
  shows "find_loop p fd (it_ip it) (it_port it) (ptr zs) = Some (Some i)"
  using assms(3, 4)
proof (induction zs arbitrary: ys)
  case (Cons z zs)
  obtain zt where z: "skp_items p z = Some zt" "it_next zt = ptr zs" using rep_next [OF assms(1, 2) Cons.prems(1)] by blast
  have zz: "0 \<le> it_fd zt" "it_fd zt = fd \<longrightarrow> z = i" using assms(7) [OF _ z(1)] Cons.prems(1) by auto
  show ?case
  proof (cases "z = i")
    case True
    then show ?thesis using z zz assms(5, 6) by (subst find_loop.simps) simp
  next
    case False
    then have "find_loop p fd (it_ip it) (it_port it) (ptr (z # zs)) = find_loop p fd (it_ip it) (it_port it) (ptr zs)"
      using z zz by (subst find_loop.simps) auto
    then show ?thesis using Cons.IH [of "ys @ [z]"] Cons.prems False by simp
  qed
qed simp

lemma count_loop_ok:
  assumes "rep p L" and "k \<le> SOCKPOOL_HSIZE" and "L k = ys @ zs" and "\<And>j jt. j \<in> set (L k) \<Longrightarrow> skp_items p j = Some jt \<Longrightarrow> 0 \<le> it_fd jt"
  shows "\<exists>m. count_loop p fd (ptr zs) n = Some m"
  using assms(3)
proof (induction zs arbitrary: ys n)
  case (Cons z zs)
  obtain zt where z: "skp_items p z = Some zt" "it_next zt = ptr zs" using rep_next [OF assms(1, 2) Cons.prems(1)] by blast
  then have "count_loop p fd (ptr (z # zs)) n = count_loop p fd (ptr zs) (if it_fd zt = fd then n + 1 else n)"
    using assms(4) [OF _ z(1)] Cons.prems(1) by (subst count_loop.simps) auto
  then show ?case using Cons.IH [of "ys @ [z]"] Cons.prems by simp
qed (simp add: count_loop.simps)

lemma close_loop_ok:
  assumes "rep p L" and "k \<le> SOCKPOOL_HSIZE" and "L k = ys @ zs" and "\<And>j jt. j \<in> set (L k) \<Longrightarrow> skp_items p j = Some jt \<Longrightarrow> 0 \<le> it_fd jt"
  shows "close_loop p (ptr zs) cs = Some (cs @ map (\<lambda>i. it_fd (the_item p i)) zs)"
  using assms(3)
proof (induction zs arbitrary: ys cs)
  case (Cons z zs)
  obtain zt where z: "skp_items p z = Some zt" "it_next zt = ptr zs" using rep_next [OF assms(1, 2) Cons.prems(1)] by blast
  then have "close_loop p (ptr (z # zs)) cs = close_loop p (ptr zs) (cs @ [it_fd zt])"
    using assms(4) [OF _ z(1)] Cons.prems(1) by (subst close_loop.simps) auto
  then show ?case using Cons.IH [of "ys @ [z]"] Cons.prems the_item_Some [OF z(1)] by simp
qed (simp add: close_loop.simps)

end
