(* ===== verification/Sockpool_Run.thy ===== *)
theory Sockpool_Run
  imports Sockpool_Correct Fz_Interfaces
begin

text \<open>
  The operations of the pool of server sockets keep its invariant; what they give out, take back and close.
\<close>

subsection \<open>A new socket enters the pool\<close>

lemma the_item_upd: "the_item (p\<lparr>skp_items := (skp_items p)(i \<mapsto> it)\<rparr>) j = (if j = i then content it else the_item p j)"
  by (simp add: the_item_def contents_def)

lemma the_item_num [simp]: "the_item (p\<lparr>skp_nused := n\<rparr>) = the_item p" "the_item (p\<lparr>skp_success := n\<rparr>) = the_item p" "the_item (p\<lparr>skp_failed := n\<rparr>) = the_item p"
  by (simp_all add: the_item_def contents_def fun_eq_iff)

lemma owned_open: "pool_inv p fs L \<Longrightarrow> owned p L \<subseteq> fd_open fs"
  by (auto simp: owned_def bucketed_def pool_inv_def filed_def)

lemma busy_owned: "busy p L \<subseteq> owned p L"
  by (auto simp: busy_def owned_def)

lemma enroll:
  assumes inv: "pool_inv p fs L" and free: "L SOCKPOOL_HSIZE = x # xs" and fd: "0 \<le> fd" "fd \<notin> fd_open fs"
    and k: "k = unat (sockpool_keygen ip port)"
    and nt: "\<And>it. it_fd (f it) = fd \<and> it_ip (f it) = ip \<and> it_port (f it) = port \<and> it_used (f it) \<and> it_prev (f it) = it_prev it \<and> it_next (f it) = it_next it"
  shows "\<exists>p1 p2 p3. sockpool_hash_get SOCKPOOL_HSIZE p = Some (Some x, p1) \<and> upd_item (Some x) f p1 = Some p2 \<and> sockpool_hash_add k x p2 = Some p3 \<and>
    (let p' = p3\<lparr>skp_nused := skp_nused p3 + 1, skp_success := skp_success p3 + 1\<rparr>; L' = L(SOCKPOOL_HSIZE := xs, k := x # L k);
         fs' = fs\<lparr>fd_open := insert fd (fd_open fs), fd_peer := (fd_peer fs)(fd \<mapsto> (ip, port))\<rparr> in
     pool_inv p' fs' L' \<and> owned p' L' = insert fd (owned p L) \<and> busy p' L' = insert fd (busy p L))"
proof -
  let ?H = SOCKPOOL_HSIZE
  have kH: "k < ?H" using keygen_small k by simp
  have r: "rep p L" and all: "bucketed L \<union> set (L ?H) = {..<unat (skp_size p)}" and nu: "unat (skp_nused p) = card (bucketed L)"
    and fil: "\<And>j y. j < ?H \<Longrightarrow> y \<in> set (L j) \<Longrightarrow> filed fs j (the_item p y)" and inj: "inj_on (\<lambda>i. it_fd (the_item p i)) (bucketed L)"
    using inv by (auto simp: pool_inv_def)
  have d: "distinct (x # xs)" using r free by (metis rep_def lst_def order_refl)
  have un: "card (bucketed L) + card (set (L ?H)) = unat (skp_size p)"
    using card_Un_disjoint [OF finite_bucketed _ bucketed_disj [OF r]] all by simp
  have "unat (skp_size p) < 2 ^ LENGTH(32)" by (rule unsigned_less)
  then have lt: "unat (skp_size p) < 2 ^ 32" by simp
  have len: "length (L ?H) < 2 ^ 32" using un lt free distinct_card [OF d] by simp
  obtain p1 where p1: "sockpool_hash_get ?H p = Some (Some x, p1)" "rep p1 (L(?H := xs))" "relinked ?H (set (L ?H)) p p1"
    using rep_get [OF r _ free len] by auto
  have "\<exists>it. skp_items p x = Some it" using rep_live [OF r, of ?H x] free by simp
  then obtain it where it: "skp_items p1 x = Some it" using p1(3) by (auto simp: relinked_def contents_eq) (metis option.map_disc_iff not_Some_eq)
  define p2 where "p2 = p1\<lparr>skp_items := (skp_items p1)(x \<mapsto> f it)\<rparr>"
  have p2: "upd_item (Some x) f p1 = Some p2" "rep p2 (L(?H := xs))" "skp_items p2 x = Some (f it)"
    using it p1(2) rep_data [of f p1 x it "L(?H := xs)"] nt by (simp_all add: p2_def upd_item_def)
  have xb: "x \<notin> bucketed L" using bucketed_disj [OF r] free by auto
  have "x \<notin> set ((L(?H := xs)) j)" if "j \<le> ?H" for j
  proof (cases "j = ?H")
    case False
    then show ?thesis using xb that by (auto simp: bucketed_def)
  qed (use d in simp)
  then obtain p3 where p3: "sockpool_hash_add k x p2 = Some p3" "rep p3 (L(?H := xs, k := x # L k))" "relinked k (insert x (set (L k))) p2 p3"
    using rep_add [OF p2(2) _ p2(3), of k] kH by auto
  define p' L' fs' where "p' = p3\<lparr>skp_nused := skp_nused p3 + 1, skp_success := skp_success p3 + 1\<rparr>" and "L' = L(?H := xs, k := x # L k)"
    and "fs' = fs\<lparr>fd_open := insert fd (fd_open fs), fd_peer := (fd_peer fs)(fd \<mapsto> (ip, port))\<rparr>"
  have item: "the_item p' j = (if j = x then content (f it) else the_item p j)" for j
    using p1(3) p3(3) the_item_upd [of p1 x "f it" j] the_item_contents [of p1 p] the_item_contents [of p3 p2] by (simp add: p'_def p2_def relinked_def)
  have cf: "it_fd (content (f it)) = fd" "it_ip (content (f it)) = ip" "it_port (content (f it)) = port" "it_used (content (f it))"
    using nt by (simp_all add: content_def)
  have bk: "bucketed L' = insert x (bucketed L)" unfolding L'_def using bucketed_add [OF kH] by simp
  have num: "skp_size p' = skp_size p" "skp_nused p' = skp_nused p + 1" using p1(3) p3(3) by (simp_all add: p'_def p2_def relinked_def)
  have "card (bucketed L') = card (bucketed L) + 1" using bk xb finite_bucketed by simp
  moreover have "unat (skp_nused p + 1) = unat (skp_nused p) + 1"
    using un lt nu free distinct_card [OF d] by (intro unat_u32_suc) simp
  ultimately have card: "unat (skp_nused p') = card (bucketed L')" using nu num by simp
  have fresh: "it_fd (the_item p j) \<noteq> fd" if "j \<in> bucketed L" for j using owned_open [OF inv] that fd(2) by (auto simp: owned_def)
  have fo: "fd \<notin> (\<lambda>i. it_fd (the_item p i)) ` bucketed L" using fresh by blast
  have fil': "filed fs' j (the_item p' y)" if j: "j < ?H" "y \<in> set (L' j)" for j y
  proof (cases "y = x")
    case True
    then have "j = k" using j xb by (auto simp: L'_def bucketed_def split: if_splits)
    then show ?thesis using True item cf fd(1) k by (simp add: filed_def fs'_def)
  next
    case False
    then have y: "y \<in> set (L j)" using j by (auto simp: L'_def split: if_splits)
    then show ?thesis using False item fil [OF j(1) y] fresh [OF bucketedI [of j y L, OF j(1) y]] by (simp add: filed_def fs'_def)
  qed
  have rep': "rep p' L'" using p3(2) rep_same [of p' p3 L'] by (simp add: p'_def L'_def)
  have img: "(\<lambda>i. g (the_item p' i)) ` S = (\<lambda>i. g (the_item p i)) ` S" if "x \<notin> S" for S and g :: "item \<Rightarrow> int"
    using item that by (intro image_cong) auto
  have "inj_on (\<lambda>i. it_fd (the_item p' i)) (bucketed L) = inj_on (\<lambda>i. it_fd (the_item p i)) (bucketed L)" using item xb by (intro inj_on_cong) auto
  then have "inj_on (\<lambda>i. it_fd (the_item p' i)) (bucketed L')" using inj fo xb img [OF xb, of it_fd] item cf(1) unfolding bk by auto
  moreover have "bucketed L' \<union> set (L' ?H) = {..<unat (skp_size p')}" using all free bk num kH by (auto simp: L'_def)
  ultimately have "pool_inv p' fs' L'" using rep' card fil' by (simp add: pool_inv_def)
  moreover have "owned p' L' = insert fd (owned p L)" using img [OF xb, of it_fd] item cf(1) by (simp add: owned_def bk)
  moreover have "busy p' L' = insert fd (busy p L)"
  proof -
    have "{i \<in> bucketed L'. it_used (the_item p' i)} = insert x {i \<in> bucketed L. it_used (the_item p i)}" using bk item cf(4) xb by auto
    then show ?thesis using img [of "{i \<in> bucketed L. it_used (the_item p i)}" it_fd] xb item cf(1) by (simp add: busy_def)
  qed
  ultimately show ?thesis using p1(1) p2(1) p3(1) unfolding p'_def L'_def fs'_def by (auto simp: Let_def)
qed

subsection \<open>A socket of the pool is lent\<close>

lemma lend:
  assumes inv: "pool_inv p fs L" and k: "k < SOCKPOOL_HSIZE" and i: "i \<in> set (L k)" "\<not> it_used (the_item p i)" and it: "skp_items p i = Some it"
    and p1: "p1 = p\<lparr>skp_items := (skp_items p)(i \<mapsto> it\<lparr>it_nused := it_nused it + 1\<rparr>)\<rparr>"
    and p': "p' = p\<lparr>skp_items := (skp_items p)(i \<mapsto> it\<lparr>it_nused := it_nused it + 1, it_used := True\<rparr>), skp_success := skp_success p + 1\<rparr>"
  shows "\<exists>u. sockpool_hash_unique k (it_fd it) p1 = Some u" and "pool_inv p' fs L" and "busy p' L = insert (it_fd it) (busy p L)" and "it_fd it \<notin> busy p L"
proof -
  let ?it' = "it\<lparr>it_nused := it_nused it + 1, it_used := True\<rparr>"
  have r: "rep p L" and inj: "inj_on (\<lambda>i. it_fd (the_item p i)) (bucketed L)" using inv by (auto simp: pool_inv_def)
  have ib: "i \<in> bucketed L" using bucketedI [of k i L, OF k i(1)] .
  note f = pool_inv_filed [OF inv k i(1) it] and ff = the_item_Some [OF it]
  have rep1: "rep p1 L" using rep_data [of "\<lambda>it. it\<lparr>it_nused := it_nused it + 1\<rparr>" p i it L] r it by (simp add: p1)
  have "0 \<le> it_fd jt" if "j \<in> set (L k)" "skp_items p1 j = Some jt" for j jt
    using pool_inv_filed(1) [OF inv k that(1)] f(1) that(2) by (auto simp: p1 split: if_splits)
  then show "\<exists>u. sockpool_hash_unique k (it_fd it) p1 = Some u"
    using count_loop_ok [OF rep1 _, of k "[]" "L k" "it_fd it" 0] rep_head [OF rep1, of k] k f(1) by (auto simp: sockpool_hash_unique_def)
  have item: "the_item p' j = (if j = i then content ?it' else the_item p j)" for j
    using the_item_upd [of p i ?it' j] by (simp add: p')
  have rep': "rep p' L" using rep_data [of "\<lambda>it. it\<lparr>it_nused := it_nused it + 1, it_used := True\<rparr>" p i it L] r it
    by (subst rep_same [of _ "p\<lparr>skp_items := (skp_items p)(i \<mapsto> ?it')\<rparr>"]) (simp_all add: p')
  show "pool_inv p' fs L" by (rule pool_inv_cong [OF inv rep']) (use item ff in \<open>auto simp: content_def p'\<close>)
  have "{j \<in> bucketed L. it_used (the_item p' j)} = insert i {j \<in> bucketed L. it_used (the_item p j)}" using item ib by (auto simp: content_def)
  moreover have "(\<lambda>j. it_fd (the_item p' j)) ` S = (\<lambda>j. it_fd (the_item p j)) ` S" for S using item ff by (intro image_cong) (auto simp: content_def)
  ultimately show "busy p' L = insert (it_fd it) (busy p L)" using ff by (simp add: busy_def)
  show "it_fd it \<notin> busy p L" using inj ib i(2) ff by (auto simp: busy_def dest: inj_onD)
qed

subsection \<open>The operations\<close>

lemma get_ok:
  assumes inv: "pool_inv p fs L" and new: "\<And>S. 0 \<le> new S \<Longrightarrow> new S \<notin> S"
  shows "\<exists>r p' fs' L'. sockpool_get rcv new (Some p) ip port fs = Some (r, Some p', fs') \<and> pool_inv p' fs' L' \<and>
    (if r < 0 then busy p' L' = busy p L
     else r \<notin> busy p L \<and> busy p' L' = insert r (busy p L) \<and> r \<in> fd_open fs' \<and>
       (\<exists>a b. (fd_peer fs' r = None \<or> fd_peer fs' r = Some (a, b)) \<and> sockpool_keygen a b = sockpool_keygen ip port))"
proof (cases "ip < 1 \<or> port < 1")
  case True
  then show ?thesis using inv by (intro exI [of _ "- 1"] exI [of _ p] exI [of _ fs] exI [of _ L]) (simp add: sockpool_get_def)
next
  case pos: False
  define k where "k = unat (sockpool_keygen ip port)"
  have k: "k < SOCKPOOL_HSIZE" using keygen_small by (simp add: k_def)
  have hp: "en_head (skp_hash p k) = ptr (L k)" using rep_head [of p L k] inv k by (simp add: pool_inv_def)
  obtain r p1 L1 fs1 where find: "sockpool_hash_find_free rcv k p fs = Some (r, p1, fs1)" and inv1: "pool_inv p1 fs1 L1"
    and bu: "busy p1 L1 = busy p L" and r: "\<And>i. r = Some i \<Longrightarrow> i \<in> set (L1 k) \<and> \<not> it_used (the_item p1 i)"
    using find_free_ok [OF inv k, of "[]" "L k" rcv] hp unfolding sockpool_hash_find_free_def by auto
  have r1: "rep p1 L1" using inv1 by (simp add: pool_inv_def)
  show ?thesis
  proof (cases r)
    case (Some i)
    have i: "i \<in> set (L1 k)" "\<not> it_used (the_item p1 i)" using r Some by auto
    obtain it where it: "skp_items p1 i = Some it" using rep_live [OF r1 _ i(1)] k by auto
    note f = pool_inv_filed [OF inv1 k i(1) it] and l = lend [OF inv1 k i it refl refl]
    obtain u where u: "sockpool_hash_unique k (it_fd it) (p1\<lparr>skp_items := (skp_items p1)(i \<mapsto> it\<lparr>it_nused := it_nused it + 1\<rparr>)\<rparr>) = Some u" using l(1) by blast
    let ?p' = "p1\<lparr>skp_items := (skp_items p1)(i \<mapsto> it\<lparr>it_nused := it_nused it + 1, it_used := True\<rparr>), skp_success := skp_success p1 + 1\<rparr>"
    have "sockpool_keygen (it_ip it) (it_port it) = sockpool_keygen ip port" using f(4) unfolding k_def by (metis word_unat_eq_iff)
    moreover have "sockpool_get rcv new (Some p) ip port fs = Some (it_fd it, Some ?p', fs1)"
      using pos find Some it u by (simp add: sockpool_get_def k_def [symmetric] upd_item_def)
    ultimately show ?thesis using f(1-3) l(2-4) bu by (metis linorder_not_le)
  next
    case None
    show ?thesis
    proof (cases "skp_nused p1 \<ge> skp_size p1 \<or> new (fd_open fs1) < 0")
      case True
      have "pool_inv (p1\<lparr>skp_failed := skp_failed p1 + 1\<rparr>) fs1 L1"
        by (rule pool_inv_cong [OF inv1]) (use r1 rep_same [of "p1\<lparr>skp_failed := skp_failed p1 + 1\<rparr>" p1 L1] in simp_all)
      moreover have "busy (p1\<lparr>skp_failed := skp_failed p1 + 1\<rparr>) L1 = busy p L" using bu by (simp add: busy_def)
      moreover have "sockpool_get rcv new (Some p) ip port fs = Some (- 1, Some (p1\<lparr>skp_failed := skp_failed p1 + 1\<rparr>), fs1)"
        using pos find None True by (auto simp: sockpool_get_def k_def [symmetric])
      ultimately show ?thesis by force
    next
      case False
      define fd where "fd = new (fd_open fs1)"
      have fd: "0 \<le> fd" "fd \<notin> fd_open fs1" using False new [of "fd_open fs1"] by (auto simp: fd_def)
      have "unat (skp_nused p1) < unat (skp_size p1)" using False by (simp add: word_less_nat_alt [symmetric] not_le)
      then have "L1 SOCKPOOL_HSIZE \<noteq> []" using inv1 by (auto simp: pool_inv_def)
      then obtain x xs where L1: "L1 SOCKPOOL_HSIZE = x # xs" by (cases "L1 SOCKPOOL_HSIZE") auto
      let ?f = "\<lambda>it. it\<lparr>it_fd := fd, it_nused := 1, it_ip := ip, it_port := port, it_used := True\<rparr>"
      let ?fs = "fs1\<lparr>fd_open := insert fd (fd_open fs1), fd_peer := (fd_peer fs1)(fd \<mapsto> (ip, port))\<rparr>"
      obtain p2 p3 p4 where ops: "sockpool_hash_get SOCKPOOL_HSIZE p1 = Some (Some x, p2)" "upd_item (Some x) ?f p2 = Some p3" "sockpool_hash_add k x p3 = Some p4"
        and inv': "pool_inv (p4\<lparr>skp_nused := skp_nused p4 + 1, skp_success := skp_success p4 + 1\<rparr>) ?fs (L1(SOCKPOOL_HSIZE := xs, k := x # L1 k))"
        and bu': "busy (p4\<lparr>skp_nused := skp_nused p4 + 1, skp_success := skp_success p4 + 1\<rparr>) (L1(SOCKPOOL_HSIZE := xs, k := x # L1 k)) = insert fd (busy p1 L1)"
        using enroll [OF inv1 L1 fd k_def, of ?f] by (auto simp: Let_def)
      have "sockpool_get rcv new (Some p) ip port fs = Some (fd, Some (p4\<lparr>skp_nused := skp_nused p4 + 1, skp_success := skp_success p4 + 1\<rparr>), ?fs)"
        using pos find None False ops by (simp add: sockpool_get_def k_def [symmetric] fd_def [symmetric])
      moreover have "fd \<notin> busy p1 L1" using fd(2) owned_open [OF inv1] busy_owned [of p1 L1] by auto
      ultimately show ?thesis using inv' bu' bu fd(1)
        by (intro exI [of _ fd] exI [of _ "p4\<lparr>skp_nused := skp_nused p4 + 1, skp_success := skp_success p4 + 1\<rparr>"] exI [of _ ?fs] exI [of _ "L1(SOCKPOOL_HSIZE := xs, k := x # L1 k)"]) auto
    qed
  qed
qed

text \<open>The item of a socket that is given out and still has a peer.\<close>

lemma find_busy:
  assumes inv: "pool_inv p fs L" and fd: "fd \<in> busy p L" and peer: "fd_peer fs fd = Some (ip, port)" and k: "k = unat (sockpool_keygen ip port)"
  shows "\<exists>i it. i \<in> set (L k) \<and> skp_items p i = Some it \<and> it_fd it = fd \<and> 0 \<le> fd \<and> sockpool_hash_find k fd ip port p = Some (Some i)"
proof -
  have r: "rep p L" and inj: "inj_on (\<lambda>i. it_fd (the_item p i)) (bucketed L)" using inv by (auto simp: pool_inv_def)
  have kH: "k < SOCKPOOL_HSIZE" using keygen_small k by simp
  obtain i where i: "i \<in> bucketed L" "it_fd (the_item p i) = fd" using fd by (auto simp: busy_def)
  obtain j where j: "j < SOCKPOOL_HSIZE" "i \<in> set (L j)" using i(1) by (auto simp: bucketed_def)
  obtain it where it: "skp_items p i = Some it" using rep_live [OF r _ j(2)] j(1) by auto
  note f = pool_inv_filed [OF inv j it]
  have e: "it_fd it = fd" "it_ip it = ip" "it_port it = port" using the_item_Some [OF it] i(2) f(3) peer by auto
  have jk: "j = k" using f(4) e k by simp
  have all: "0 \<le> it_fd yt \<and> (it_fd yt = fd \<longrightarrow> y = i)" if y: "y \<in> set (L k)" "skp_items p y = Some yt" for y yt
    using pool_inv_filed(1) [OF inv kH y] the_item_Some [OF y(2)] i(2) inj_onD [OF inj _ bucketedI [of k y L, OF kH y(1)] i(1)] by simp
  have "find_loop p fd (it_ip it) (it_port it) (ptr (L k)) = Some (Some i)"
    by (rule find_loop_ok [where ys = "[]", OF r _ _ _ it e(1) all]) (use j(2) jk kH in simp_all)
  then show ?thesis using rep_head [OF r, of k] kH it e f(1) j(2) jk by (auto simp: sockpool_hash_find_def)
qed

text \<open>A socket that has lost its peer is not taken back and stays given out.\<close>

lemma put_ok:
  assumes inv: "pool_inv p fs L" and fd: "fd \<in> busy p L"
  shows "\<exists>r p' fs' L'. sockpool_put (Some p) fd isclose fs = Some (r, Some p', fs') \<and> pool_inv p' fs' L' \<and>
    (if fd_peer fs fd = None then r = - 1 \<and> p' = p \<and> fs' = fs \<and> L' = L
     else r = 0 \<and> busy p' L' = busy p L - {fd} \<and>
       (if isclose = 0 then owned p' L' = owned p L \<and> fs' = fs else owned p' L' = owned p L - {fd} \<and> fs' = close_fd fd fs))"
proof (cases "fd_peer fs fd")
  case None
  then show ?thesis using inv by (intro exI [of _ "- 1"] exI [of _ p] exI [of _ fs] exI [of _ L]) (simp add: sockpool_put_def)
next
  case (Some a)
  obtain ip port where a: "a = (ip, port)" by (cases a)
  define k where "k = unat (sockpool_keygen ip port)"
  have k: "k < SOCKPOOL_HSIZE" using keygen_small by (simp add: k_def)
  obtain i it where i: "i \<in> set (L k)" "skp_items p i = Some it" "it_fd it = fd" "0 \<le> fd" "sockpool_hash_find k fd ip port p = Some (Some i)"
    using find_busy [OF inv fd Some [unfolded a] k_def] by blast
  have ib: "i \<in> bucketed L" using bucketedI [of k i L, OF k i(1)] .
  note ff = the_item_Some [OF i(2)]
  show ?thesis
  proof (cases "isclose = 0")
    case True
    let ?p' = "p\<lparr>skp_items := (skp_items p)(i \<mapsto> it\<lparr>it_used := False\<rparr>)\<rparr>"
    have r: "rep p L" and inj: "inj_on (\<lambda>i. it_fd (the_item p i)) (bucketed L)" using inv by (auto simp: pool_inv_def)
    have rep': "rep ?p' L" using rep_data [of "\<lambda>it. it\<lparr>it_used := False\<rparr>" p i it L] r i(2) by simp
    have item: "the_item ?p' j = (if j = i then content (it\<lparr>it_used := False\<rparr>) else the_item p j)" for j by (rule the_item_upd)
    have c: "pool_inv ?p' fs L" "owned ?p' L = owned p L" by (rule pool_inv_cong [OF inv rep']; use item ff in \<open>auto simp: content_def\<close>)+
    have used: "{j \<in> bucketed L. it_used (the_item ?p' j)} = {j \<in> bucketed L. it_used (the_item p j)} - {i}" using item by (auto simp: content_def)
    have img: "(\<lambda>j. it_fd (the_item ?p' j)) ` S = (\<lambda>j. it_fd (the_item p j)) ` S" for S using item ff by (intro image_cong) (auto simp: content_def)
    have same: "x = i" if "x \<in> bucketed L" "it_fd (the_item p x) = fd" for x using inj_onD [OF inj _ that(1) ib] that(2) ff i(3) by simp
    have "it_fd (the_item p i) = fd" using ff i(3) by simp
    then have "busy ?p' L = busy p L - {fd}" unfolding busy_def used img using same by blast
    moreover have "sockpool_put (Some p) fd isclose fs = Some (0, Some ?p', fs)" using Some a i True by (simp add: sockpool_put_def k_def [symmetric] upd_item_def)
    ultimately show ?thesis using c Some True by auto
  next
    case False
    obtain p1 p2 where p: "sockpool_hash_del k i p = Some p1" "sockpool_hash_add SOCKPOOL_HSIZE i p1 = Some p2"
      and inv': "pool_inv (p2\<lparr>skp_nused := skp_nused p2 - 1\<rparr>) (close_fd fd fs) (L(k := remove1 i (L k), SOCKPOOL_HSIZE := i # L SOCKPOOL_HSIZE))"
      and ob: "owned (p2\<lparr>skp_nused := skp_nused p2 - 1\<rparr>) (L(k := remove1 i (L k), SOCKPOOL_HSIZE := i # L SOCKPOOL_HSIZE)) = owned p L - {fd}"
        "busy (p2\<lparr>skp_nused := skp_nused p2 - 1\<rparr>) (L(k := remove1 i (L k), SOCKPOOL_HSIZE := i # L SOCKPOOL_HSIZE)) = busy p L - {fd}"
      using retire [OF inv k i(1), of fd] ff i(3) by (auto simp: Let_def)
    have "sockpool_put (Some p) fd isclose fs = Some (0, Some (p2\<lparr>skp_nused := skp_nused p2 - 1\<rparr>), close_fd fd fs)"
      using Some a i False p by (simp add: sockpool_put_def k_def [symmetric])
    then show ?thesis using inv' ob Some False by auto
  qed
qed

lemma free_entries_ok:
  assumes inv: "pool_inv p fs L" and "\<forall>k\<in>set ks. k < SOCKPOOL_HSIZE"
  shows "free_entries p ks cs = Some (cs @ concat (map (\<lambda>k. map (\<lambda>i. it_fd (the_item p i)) (L k)) ks))"
  using assms(2)
proof (induction ks arbitrary: cs)
  case (Cons k ks)
  have r: "rep p L" using inv by (simp add: pool_inv_def)
  have "close_loop p (en_head (skp_hash p k)) cs = Some (cs @ map (\<lambda>i. it_fd (the_item p i)) (L k))"
    using close_loop_ok [OF r, of k "[]" "L k" cs] rep_head [OF r, of k] pool_inv_filed(1) [OF inv] Cons.prems by auto
  then show ?case using Cons by simp
qed simp

lemma fold_close: "fold close_fd cs fs = close_all (set cs) fs"
  by (induction cs arbitrary: fs) simp_all

lemma distinct_lists:
  assumes "rep p L" and "n \<le> SOCKPOOL_HSIZE"
  shows "distinct (concat (map L [0..<n])) \<and> set (concat (map L [0..<n])) = (\<Union>k<n. set (L k))"
  using assms(2)
proof (induction n)
  case (Suc n)
  have "distinct (L n)" "\<And>j. j < n \<Longrightarrow> set (L j) \<inter> set (L n) = {}" using assms(1) Suc.prems by (auto simp: rep_def lst_def)
  then show ?case using Suc by (auto simp: lessThan_Suc)
qed simp

lemma free_ok:
  assumes inv: "pool_inv p fs L"
  shows "\<exists>cs fs'. sockpool_free (Some p) fs = Some (cs, fs') \<and> distinct cs \<and> set cs = owned p L \<and> fd_open fs' = fd_open fs - owned p L"
proof -
  have r: "rep p L" and inj: "inj_on (\<lambda>i. it_fd (the_item p i)) (bucketed L)" using inv by (auto simp: pool_inv_def)
  let ?cs = "map (\<lambda>i. it_fd (the_item p i)) (concat (map L [0..<SOCKPOOL_HSIZE]))"
  have d: "distinct (concat (map L [0..<SOCKPOOL_HSIZE]))" "set (concat (map L [0..<SOCKPOOL_HSIZE])) = bucketed L"
    using distinct_lists [OF r order_refl] unfolding bucketed_def by blast+
  have "free_entries p [0..<SOCKPOOL_HSIZE] [] = Some ?cs" using free_entries_ok [OF inv, of "[0..<SOCKPOOL_HSIZE]" "[]"] by (simp add: map_concat comp_def)
  then have "sockpool_free (Some p) fs = Some (?cs, close_all (set ?cs) fs)" by (simp add: sockpool_free_def fold_close)
  moreover have "distinct ?cs" using d inj by (simp only: distinct_map)
  moreover have "set ?cs = owned p L" using d(2) by (simp only: set_map owned_def)
  ultimately show ?thesis by (auto simp: close_all_def)
qed

subsection \<open>An empty pool and its life\<close>

lemma dlseg_upt:
  assumes "a \<le> n" and "0 < n" and "\<And>i. i < n \<Longrightarrow> \<exists>it. M i = Some it \<and> it_prev it = (if i = 0 then None else Some (i - 1)) \<and> it_next it = (if i = n - 1 then None else Some (i + 1))"
  shows "dlseg M (if a = 0 then None else Some (a - 1)) (if a < n then Some a else None) [a..<n] (Some (n - 1)) None"
  using assms(1)
proof (induction "n - a" arbitrary: a)
  case 0
  then show ?case using assms(2) by simp
next
  case (Suc m)
  then have a: "a < n" by simp
  obtain it where "M a = Some it" "it_prev it = (if a = 0 then None else Some (a - 1))" "it_next it = (if a = n - 1 then None else Some (a + 1))"
    using assms(3) [OF a] by blast
  moreover have "(if a = n - 1 then None else Some (a + 1)) = (if a + 1 < n then Some (a + 1) else None)" using a by auto
  ultimately show ?case using Suc.hyps(1) [of "a + 1"] Suc.hyps(2) a by (simp add: upt_conv_Cons)
qed

definition empty_lists :: "nat \<Rightarrow> nat \<Rightarrow> nat list" where
  "empty_lists n k = (if k = SOCKPOOL_HSIZE then [0..<n] else [])"

lemma alloc_inv:
  assumes "0 < n" and "n < 2 ^ 32" and p: "sockpool_alloc True True True n = Some p"
  shows "pool_inv p fs (empty_lists n) \<and> busy p (empty_lists n) = {}"
proof -
  have bk: "bucketed (empty_lists n) = {}" by (auto simp: bucketed_def empty_lists_def)
  have seg: "dlseg (skp_items p) None (Some 0) [0..<n] (Some (n - 1)) None"
    using dlseg_upt [of 0 n "skp_items p"] assms by (auto simp: sockpool_alloc_def)
  have "rep p (empty_lists n)"
    unfolding rep_def lst_def using p seg assms(1) by (auto simp: empty_lists_def sockpool_alloc_def)
  moreover have "unat (skp_size p) = n" "skp_nused p = 0" using p assms by (auto simp: sockpool_alloc_def unsigned_of_nat take_bit_eq_mod)
  ultimately show ?thesis using bk by (auto simp: pool_inv_def busy_def empty_lists_def atLeast0LessThan)
qed

text \<open>
  A life of the pool: callers get sockets and put back those they hold, peers go away, other descriptors are opened.
  The third component is the set of sockets held.
\<close>

type_synonym pool_state = "sockpool \<times> fds \<times> int set"

inductive pool_step :: "pool_state \<Rightarrow> pool_state \<Rightarrow> bool" where
  get: "(\<And>S. 0 \<le> new S \<Longrightarrow> new S \<notin> S) \<Longrightarrow> sockpool_get rcv new (Some p) ip port fs = Some (r, Some p', fs') \<Longrightarrow>
      pool_step (p, fs, B) (p', fs', if r < 0 then B else insert r B)"
| put: "fd \<in> B \<Longrightarrow> sockpool_put (Some p) fd isclose fs = Some (r, Some p', fs') \<Longrightarrow> pool_step (p, fs, B) (p', fs', if r = 0 then B - {fd} else B)"
| lost: "pool_step (p, fs, B) (p, fs\<lparr>fd_peer := (fd_peer fs)(fd := None)\<rparr>, B)"
| other: "pool_step (p, fs, B) (p, fs\<lparr>fd_open := insert fd (fd_open fs)\<rparr>, B)"

definition pool_init :: "pool_state \<Rightarrow> bool" where
  "pool_init = (\<lambda>(p, fs, B). B = {} \<and> (\<exists>n. 0 < n \<and> n < 2 ^ 32 \<and> sockpool_alloc True True True n = Some p))"

definition pool_ok :: "pool_state \<Rightarrow> bool" where
  "pool_ok = (\<lambda>(p, fs, B). \<exists>L. pool_inv p fs L \<and> busy p L = B)"

lemma pool_inv_fds:
  assumes "pool_inv p fs L" and "fd_open fs \<subseteq> fd_open fs'" and "\<And>fd. fd_peer fs' fd = None \<or> fd_peer fs' fd = fd_peer fs fd"
  shows "pool_inv p fs' L"
proof -
  have "filed fs' k it" if "filed fs k it" for k it using that assms(2) assms(3) [of "it_fd it"] by (auto simp: filed_def)
  then show ?thesis using assms(1) by (simp add: pool_inv_def)
qed

lemma pool_step_ok: "pool_step s s' \<Longrightarrow> pool_ok s \<Longrightarrow> pool_ok s'"
proof (induction rule: pool_step.induct)
  case (get new rcv p ip port fs r p' fs' B)
  then obtain L where "pool_inv p fs L" "busy p L = B" by (auto simp: pool_ok_def)
  then show ?case using get_ok [of p fs L new rcv ip port] get(1, 2) by (auto simp: pool_ok_def split: if_splits)
next
  case (put fd B p isclose fs r p' fs')
  then obtain L where "pool_inv p fs L" "busy p L = B" by (auto simp: pool_ok_def)
  then show ?case using put_ok [of p fs L fd isclose] put(1, 2) by (auto simp: pool_ok_def split: if_splits)
next
  case (lost p fs B fd)
  then obtain L where L: "pool_inv p fs L" "busy p L = B" by (auto simp: pool_ok_def)
  have "pool_inv p (fs\<lparr>fd_peer := (fd_peer fs)(fd := None)\<rparr>) L" by (rule pool_inv_fds [OF L(1)]) simp_all
  then show ?case using L(2) by (auto simp: pool_ok_def)
next
  case (other p fs B fd)
  then show ?case using pool_inv_fds [of p fs _ "fs\<lparr>fd_open := insert fd (fd_open fs)\<rparr>"] by (auto simp: pool_ok_def)
qed

interpretation skp: inductive_invariant pool_init pool_step pool_ok
proof
  fix s
  assume i: "pool_init s"
  obtain p fs B where s: "s = (p, fs, B)" by (cases s)
  obtain n where n: "0 < n" "n < 2 ^ 32" "sockpool_alloc True True True n = Some p" and B: "B = {}" using i unfolding s pool_init_def by blast
  show "pool_ok s" using alloc_inv [OF n, of fs] B unfolding s pool_ok_def by blast
qed (rule pool_step_ok)

lemma reach_pool: "reach pool_init pool_step (p, fs, B) \<Longrightarrow> \<exists>L. pool_inv p fs L \<and> busy p L = B"
  using skp.reach_inv [of "(p, fs, B)"] by (simp add: pool_ok_def)

definition demo_skp :: sockpool where "demo_skp = the (sockpool_alloc True True True 2)"
definition demo_fds :: fds where "demo_fds = \<lparr>fd_open = {0, 1, 2}, fd_peer = (\<lambda>_. None)\<rparr>"
definition demo_new :: "int set \<Rightarrow> int" where "demo_new S = (if 5 \<in> S then - 1 else 5)"

lemma demo_skp_reach: "reach pool_init pool_step (demo_skp, demo_fds, {})"
  by (rule reach_init) (auto simp: pool_init_def demo_skp_def sockpool_alloc_def intro!: exI [of _ 2])

text \<open>
  C36: Whatever happened to the pool before, \<^verbatim>\<open>sockpool_get\<close> returns, and a socket it gives out is open, nobody else holds it, and it
  was connected to an address with the key of the address asked for.  A new connection gets a descriptor that is not open.
\<close>

theorem sockpool_get_exclusive:
  assumes "reach pool_init pool_step (p, fs, B)" and "\<And>S. 0 \<le> new S \<Longrightarrow> new S \<notin> S"
  shows "\<exists>r p' fs'. sockpool_get rcv new (Some p) ip port fs = Some (r, Some p', fs') \<and>
    (0 \<le> r \<longrightarrow> r \<notin> B \<and> r \<in> fd_open fs' \<and>
       (\<exists>a b. (fd_peer fs' r = None \<or> fd_peer fs' r = Some (a, b)) \<and> sockpool_keygen a b = sockpool_keygen ip port))"
proof -
  obtain L where "pool_inv p fs L" "busy p L = B" using reach_pool [OF assms(1)] by blast
  then show ?thesis using get_ok [of p fs L new rcv ip port] assms(2) by (metis not_less)
qed

theorem sockpool_get_exclusive_witness:
  "\<exists>r p' fs'. sockpool_get (\<lambda>_. Inr EAGAIN) demo_new (Some demo_skp) 0x0200000a 80 demo_fds = Some (r, Some p', fs') \<and>
    (0 \<le> r \<longrightarrow> r \<in> fd_open fs')"
proof -
  have "demo_new S \<notin> S" if "0 \<le> demo_new S" for S using that by (auto simp: demo_new_def split: if_splits)
  then show ?thesis using sockpool_get_exclusive [OF demo_skp_reach, of demo_new "\<lambda>_. Inr EAGAIN" "0x0200000a" 80] by auto
qed



text \<open>
  The key is a sum of bytes and the search looks at the key only: a free socket connected to one address is given to a caller who
  asks for another with the same key, as 10.0.0.2 and 10.0.2.0 have for every port.
\<close>

definition one_socket :: "u32 \<Rightarrow> u16 \<Rightarrow> sockpool" where
  "one_socket ip port = \<lparr>skp_size = 1, skp_success = 1, skp_failed = 0, skp_nused = 1,
     skp_items = [0 \<mapsto> \<lparr>it_prev = None, it_next = None, it_fd = 5, it_nused = 1, it_used = False, it_port = port, it_ip = ip\<rparr>],
     skp_hash = (\<lambda>k. if k = unat (sockpool_keygen ip port) then \<lparr>en_size = 1, en_head = Some 0\<rparr> else \<lparr>en_size = 0, en_head = None\<rparr>)\<rparr>"

theorem sockpool_get_wrong_server:
  assumes "sockpool_keygen b q = sockpool_keygen a port" and "1 \<le> b" and "1 \<le> q"
  shows "\<exists>p'. sockpool_get (\<lambda>_. Inr EAGAIN) new (Some (one_socket a port)) b q fs = Some (5, Some p', fs)"
  using assms
  by (simp add: sockpool_get_def sockpool_testfd_def one_socket_def sockpool_hash_find_free_def find_free_loop.simps upd_item_def sockpool_hash_unique_def count_loop.simps linorder_not_le [symmetric])

lemma key_collision: "sockpool_keygen 0x0200000a port = sockpool_keygen 0x0002000a port"
  by (simp add: sockpool_keygen_def byte_def)

end
