(* ===== verification/Algorithms.thy ===== *)
theory Algorithms
  imports Fz_Interfaces "HOL-Library.Multiset"
begin

text \<open>
  The algorithms of \<^verbatim>\<open>basic/algorithm\<close>: binary search, Euclid's algorithm, the k-th element of an array
  and the mixing function of \<^verbatim>\<open>jhash.h\<close>.  An array of objects is the list of its objects, a pointer into
  it an index; reading outside of the array is a fault.  Comparison functions and \<^verbatim>\<open>qsort\<close> are arguments.
\<close>

definition INT_MAX :: int where "INT_MAX = 2 ^ 31 - 1"

text \<open>Conversion of an unsigned number to \<open>int\<close>.\<close>

definition to_int :: "nat \<Rightarrow> int" where
  "to_int n = sint (of_nat n :: u32)"

lemma to_int_small: "n < 2 ^ 31 \<Longrightarrow> to_int n = int n"
  unfolding to_int_def
  by (simp add: signed_of_nat signed_take_bit_int_eq_self)

subsection \<open>Binary search\<close>

function bin_loop :: "('a \<Rightarrow> 'a \<Rightarrow> int) \<Rightarrow> 'a list \<Rightarrow> 'a \<Rightarrow> int \<Rightarrow> int \<Rightarrow> nat option option" where
  "bin_loop cmp arr v low high =
    (if \<not> low < high then Some None
     else if high + low > INT_MAX then None
     else let mid = (high + low) div 2 in
       if \<not> (0 \<le> mid \<and> nat mid < length arr) then None
       else if cmp v (arr ! nat mid) < 0 then bin_loop cmp arr v low (mid - 1)
       else if cmp v (arr ! nat mid) > 0 then bin_loop cmp arr v (mid + 1) high
       else Some (Some (nat mid)))"
  by auto
termination
  by (relation "measure (\<lambda>(cmp, arr, v, low, high). nat (high - low))") auto

declare bin_loop.simps [simp del]

definition bin_search ::
  "'a list option \<Rightarrow> nat \<Rightarrow> nat \<Rightarrow> ('a \<Rightarrow> 'a \<Rightarrow> int) \<Rightarrow> 'a option \<Rightarrow> nat option option" where
  "bin_search array objsize nobj cmp val =
    (case (array, val) of
       (Some arr, Some v) \<Rightarrow>
         if objsize < 1 \<or> nobj < 1 then Some None
         else bin_loop cmp arr v 0 (to_int (nobj - 1))
     | _ \<Rightarrow> Some None)"

subsection \<open>Euclid's algorithm\<close>

function gcd_ul :: "64 word \<Rightarrow> 64 word \<Rightarrow> 64 word" where
  "gcd_ul a b = (if b > 0 then gcd_ul b (a mod b) else a)"
  by auto
termination
  by (relation "measure (\<lambda>(a, b). unat b)")
    (auto simp: unat_mod_distrib word_greater_zero_iff unat_gt_0)

declare gcd_ul.simps [simp del]

subsection \<open>The k-th element\<close>

definition nth_opt :: "'a list \<Rightarrow> int \<Rightarrow> 'a option" where
  "nth_opt xs i = (if 0 \<le> i \<and> nat i < length xs then Some (xs ! nat i) else None)"

text \<open>The loop over the rest of the array; \<open>qs\<close> is \<^verbatim>\<open>qsort\<close> with the comparison function.\<close>

fun kth_loop :: "('a list \<Rightarrow> 'a list) \<Rightarrow> ('a \<Rightarrow> 'a \<Rightarrow> int) \<Rightarrow> int \<Rightarrow> 'a list \<Rightarrow> 'a list \<Rightarrow> 'a list option" where
  "kth_loop qs cmp k [] karray = Some karray"
| "kth_loop qs cmp k (x # xs) karray = do {
     z \<leftarrow> nth_opt karray (k - 1);
     if cmp x z < 0 then kth_loop qs cmp k xs (qs (karray[nat (k - 1) := x]))
     else kth_loop qs cmp k xs karray }"

text \<open>
  \<open>m\<close> tells whether \<^verbatim>\<open>malloc\<close> succeeds and \<open>out\<close> whether the result pointer is there.  The loop counter is
  an \<open>int\<close>, so arrays it cannot count are a fault.
\<close>

definition kth_array ::
  "bool \<Rightarrow> ('a list \<Rightarrow> 'a list) \<Rightarrow> 'a list option \<Rightarrow> nat \<Rightarrow> int \<Rightarrow> ('a \<Rightarrow> 'a \<Rightarrow> int) option \<Rightarrow> bool \<Rightarrow> (int \<times> 'a option) option" where
  "kth_array m qs array n k cmp out =
    (case (array, cmp) of
       (Some arr, Some c) \<Rightarrow>
         if \<not> out \<or> k < 0 \<or> k > int n then Some (- 1, None)
         else if \<not> m then Some (- 1, None)
         else if n > length arr \<or> int n > INT_MAX then None
         else do {
           karray \<leftarrow> kth_loop qs c k (drop (nat k) (take n arr)) (qs (take (nat k) arr));
           x \<leftarrow> nth_opt karray (k - 1);
           Some (0, Some x) }
     | _ \<Rightarrow> Some (- 1, None))"

definition kth_sort ::
  "bool \<Rightarrow> ('a list \<Rightarrow> 'a list) \<Rightarrow> 'a list option \<Rightarrow> nat \<Rightarrow> int \<Rightarrow> ('a \<Rightarrow> 'a \<Rightarrow> int) option \<Rightarrow> bool \<Rightarrow> (int \<times> 'a option) option" where
  "kth_sort m qs array n k cmp out =
    (case (array, cmp) of
       (Some arr, Some c) \<Rightarrow>
         if \<not> out \<or> k < 0 \<or> k > int n then Some (- 1, None)
         else if \<not> m then Some (- 1, None)
         else if n > length arr then None
         else do {
           x \<leftarrow> nth_opt (qs (take n arr)) (k - 1);
           Some (0, Some x) }
     | _ \<Rightarrow> Some (- 1, None))"

text \<open>The comparison function of \<^verbatim>\<open>kth_test.c\<close>.\<close>

definition int_cmp :: "int \<Rightarrow> int \<Rightarrow> int" where
  "int_cmp i j = i - j"

subsection \<open>The hash\<close>

unbundle bit_operations_syntax

definition rol32 :: "u32 \<Rightarrow> nat \<Rightarrow> u32" where
  "rol32 w n = (push_bit n w OR drop_bit (32 - n) w)"

definition JHASH_INITVAL :: u32 where "JHASH_INITVAL = 0xdeadbeef"

text \<open>One line of the macro: \<open>x -= z; x ^= rol32(z, n); z += y\<close>.\<close>

definition jhash_line :: "nat \<Rightarrow> u32 \<Rightarrow> u32 \<Rightarrow> u32 \<Rightarrow> u32 \<times> u32" where
  "jhash_line n x y z = ((x - z) XOR rol32 z n, z + y)"

definition JHASH_FINAL :: "u32 \<times> u32 \<times> u32 \<Rightarrow> u32 \<times> u32 \<times> u32" where
  "JHASH_FINAL t = (let (a, b, c) = t;
     (a, c) = jhash_line 4 a b c;
     (b, a) = jhash_line 6 b c a;
     (c, b) = jhash_line 8 c a b;
     (a, c) = jhash_line 16 a b c;
     (b, a) = jhash_line 19 b c a;
     (c, b) = jhash_line 4 c a b
   in (a, b, c))"

definition jhash_3words :: "u32 \<Rightarrow> u32 \<Rightarrow> u32 \<Rightarrow> u32" where
  "jhash_3words a b c =
     (case JHASH_FINAL (a + JHASH_INITVAL, b + JHASH_INITVAL, c + JHASH_INITVAL) of (a, b, c) \<Rightarrow> c)"

text \<open>Undoing a line, and the whole macro.\<close>

definition jhash_unline :: "nat \<Rightarrow> u32 \<Rightarrow> u32 \<Rightarrow> u32 \<Rightarrow> u32 \<times> u32" where
  "jhash_unline n x y z = (let z = z - y in ((x XOR rol32 z n) + z, z))"

definition JHASH_UNDO :: "u32 \<times> u32 \<times> u32 \<Rightarrow> u32 \<times> u32 \<times> u32" where
  "JHASH_UNDO t = (let (a, b, c) = t;
     (c, b) = jhash_unline 4 c a b;
     (b, a) = jhash_unline 19 b c a;
     (a, c) = jhash_unline 16 a b c;
     (c, b) = jhash_unline 8 c a b;
     (b, a) = jhash_unline 6 b c a;
     (a, c) = jhash_unline 4 a b c
   in (a, b, c))"

lemma jhash_unline_line: "jhash_line n x y z = (x', z') \<Longrightarrow> jhash_unline n x' y z' = (x, z)"
  by (auto simp: jhash_line_def jhash_unline_def Let_def xor.assoc)

lemma jhash_line_unline: "jhash_unline n x y z = (x', z') \<Longrightarrow> jhash_line n x' y z' = (x, z)"
  by (auto simp: jhash_line_def jhash_unline_def Let_def xor.assoc)

subsection \<open>Binary search: what a missing result means\<close>

text \<open>The array is ascending as seen from the value that is looked for.\<close>

definition ascending_for :: "('a \<Rightarrow> 'a \<Rightarrow> int) \<Rightarrow> 'a list \<Rightarrow> 'a \<Rightarrow> bool" where
  "ascending_for cmp arr v \<longleftrightarrow> (\<forall>i j. i \<le> j \<longrightarrow> j < length arr \<longrightarrow>
     (cmp v (arr ! i) < 0 \<longrightarrow> cmp v (arr ! j) < 0) \<and> (cmp v (arr ! j) > 0 \<longrightarrow> cmp v (arr ! i) > 0))"

context c_order
begin

lemma ascending_for_sorted:
  assumes "sorted_wrt (\<lambda>x y. cmp x y \<le> 0) arr" and "dm v" and "\<forall>x\<in>set arr. dm x"
  shows "ascending_for cmp arr v"
proof -
  have "(cmp v (arr ! i) < 0 \<longrightarrow> cmp v (arr ! j) < 0) \<and> (cmp v (arr ! j) > 0 \<longrightarrow> cmp v (arr ! i) > 0)"
    if ij: "i \<le> j" "j < length arr" for i j
  proof -
    have d: "dm (arr ! i)" "dm (arr ! j)" using assms(3) ij by auto
    have le: "cmp (arr ! i) (arr ! j) \<le> 0"
      using assms(1) ij refl [OF d(1)] by (cases "i = j") (auto simp: sorted_wrt_iff_nth_less)
    have "cmp v (arr ! j) < 0" if "cmp v (arr ! i) < 0" using less_le_trans [OF assms(2) d that le] .
    moreover have "cmp v (arr ! i) > 0" if "cmp v (arr ! j) > 0"
    proof (rule ccontr)
      assume "\<not> cmp v (arr ! i) > 0"
      then have "cmp v (arr ! j) \<le> 0" using le_trans [OF assms(2) d _ le] by simp
      then show False using that by simp
    qed
    ultimately show ?thesis by blast
  qed
  then show ?thesis unfolding ascending_for_def by blast
qed

end

text \<open>Between two positions at most one object matches.\<close>

definition one_left :: "('a \<Rightarrow> 'a \<Rightarrow> int) \<Rightarrow> 'a list \<Rightarrow> 'a \<Rightarrow> int \<Rightarrow> int \<Rightarrow> bool" where
  "one_left cmp arr v low high \<longleftrightarrow>
     (\<exists>p. \<forall>i<length arr. low \<le> int i \<and> int i \<le> high \<and> int i \<noteq> p \<longrightarrow> cmp v (arr ! i) \<noteq> 0)"

lemma one_left_extend:
  assumes "one_left cmp arr v l h"
    and "\<And>i. i < length arr \<Longrightarrow> int i < l \<or> h < int i \<Longrightarrow> low \<le> int i \<Longrightarrow> int i \<le> high \<Longrightarrow> cmp v (arr ! i) \<noteq> 0"
  shows "one_left cmp arr v low high"
proof -
  obtain p where p: "\<And>i. i < length arr \<Longrightarrow> l \<le> int i \<Longrightarrow> int i \<le> h \<Longrightarrow> int i \<noteq> p \<Longrightarrow> cmp v (arr ! i) \<noteq> 0"
    using assms(1) unfolding one_left_def by auto
  have "cmp v (arr ! i) \<noteq> 0" if "i < length arr" "low \<le> int i" "int i \<le> high" "int i \<noteq> p" for i
    using p [OF that(1)] assms(2) [OF that(1) _ that(2,3)] that(4) by linarith
  then show ?thesis unfolding one_left_def by blast
qed

lemma bin_loop_correct:
  assumes "ascending_for cmp arr v" and "int (length arr) < 2 ^ 30" and "0 \<le> low" and "high < int (length arr)"
  shows "\<exists>r. bin_loop cmp arr v low high = Some r \<and>
    (\<forall>i. r = Some i \<longrightarrow> i < length arr \<and> cmp v (arr ! i) = 0) \<and> (r = None \<longrightarrow> one_left cmp arr v low high)"
  using assms
proof (induction cmp arr v low high rule: bin_loop.induct)
  case (1 cmp arr v low high)
  define mid where "mid = (high + low) div 2"
  show ?case
  proof (cases "low < high")
    case False
    then show ?thesis by (subst bin_loop.simps) (auto simp: one_left_def intro!: exI [of _ low])
  next
    case True
    have nov: "\<not> high + low > INT_MAX" using True "1.prems" by (simp add: INT_MAX_def)
    have mid: "low \<le> mid" "mid < high" "0 \<le> mid" "nat mid < length arr"
      using True "1.prems" by (auto simp: mid_def)
    have asc: "cmp v (arr ! i) < 0 \<Longrightarrow> i \<le> j \<Longrightarrow> j < length arr \<Longrightarrow> cmp v (arr ! j) < 0"
      "cmp v (arr ! j) > 0 \<Longrightarrow> i \<le> j \<Longrightarrow> j < length arr \<Longrightarrow> cmp v (arr ! i) > 0" for i j
      using "1.prems"(1) by (auto simp: ascending_for_def)
    consider "cmp v (arr ! nat mid) < 0" | "cmp v (arr ! nat mid) > 0" | "cmp v (arr ! nat mid) = 0" by linarith
    then show ?thesis
    proof cases
      case lt: 1
      have run: "bin_loop cmp arr v low high = bin_loop cmp arr v low (mid - 1)"
        using True nov mid lt by (subst bin_loop.simps) (simp add: mid_def [symmetric])
      have "cmp v (arr ! i) \<noteq> 0" if "i < length arr" "mid \<le> int i" for i
        using asc(1) [OF lt, of i] that mid by fastforce
      then have "one_left cmp arr v low high" if "one_left cmp arr v low (mid - 1)"
        using one_left_extend [OF that] by force
      then show ?thesis unfolding run using "1.IH"(1) [OF _ nov mid_def] True mid lt "1.prems" by auto
    next
      case gt: 2
      have run: "bin_loop cmp arr v low high = bin_loop cmp arr v (mid + 1) high"
        using True nov mid gt by (subst bin_loop.simps) (simp add: mid_def [symmetric])
      have "cmp v (arr ! i) \<noteq> 0" if "int i \<le> mid" for i
        using asc(2) [OF gt, of i] that mid by fastforce
      then have "one_left cmp arr v low high" if "one_left cmp arr v (mid + 1) high"
        using one_left_extend [OF that] by force
      then show ?thesis unfolding run using "1.IH"(2) [OF _ nov mid_def] True mid gt "1.prems" by auto
    next
      case eq: 3
      have "bin_loop cmp arr v low high = Some (Some (nat mid))"
        using True nov mid eq by (subst bin_loop.simps) (simp add: mid_def [symmetric])
      then show ?thesis using mid eq by simp
    qed
  qed
qed

subsection \<open>The k-th element: ranks\<close>

definition kth_rank :: "('a \<Rightarrow> 'a \<Rightarrow> int) \<Rightarrow> nat \<Rightarrow> 'a list \<Rightarrow> 'a \<Rightarrow> bool" where
  "kth_rank cmp k xs x \<longleftrightarrow> x \<in> set xs \<and> length (filter (\<lambda>y. cmp y x < 0) xs) < k \<and>
     k \<le> length (filter (\<lambda>y. cmp y x \<le> 0) xs)"

text \<open>What \<^verbatim>\<open>qsort\<close> promises.\<close>

definition qsort_ok :: "('a \<Rightarrow> 'a \<Rightarrow> int) \<Rightarrow> ('a list \<Rightarrow> 'a list) \<Rightarrow> bool" where
  "qsort_ok cmp qs \<longleftrightarrow> (\<forall>xs. mset (qs xs) = mset xs \<and> sorted_wrt (\<lambda>x y. cmp x y \<le> 0) (qs xs))"

lemma qsort_ok_length: "qsort_ok cmp qs \<Longrightarrow> length (qs xs) = length xs"
  by (metis qsort_ok_def size_mset)

context c_order
begin

text \<open>A sorted part of the array that nothing outside is below of: its last object has the rank of its length.\<close>

definition lowest :: "'a list \<Rightarrow> 'a list \<Rightarrow> bool" where
  "lowest ks xs \<longleftrightarrow> ks \<noteq> [] \<and> sorted_wrt (\<lambda>x y. cmp x y \<le> 0) ks \<and>
     (\<exists>rs. mset ks + mset rs = mset xs \<and> (\<forall>y\<in>set rs. cmp (last ks) y \<le> 0))"

lemma lowest_parts:
  assumes "lowest ks xs" and "\<forall>x\<in>set xs. dm x"
  obtains bs l rs where "ks = bs @ [l]" "mset ks + mset rs = mset xs" "dm l"
    "\<And>y. y \<in> set bs \<Longrightarrow> cmp y l \<le> 0" "\<And>y. y \<in> set rs \<Longrightarrow> dm y \<and> cmp l y \<le> 0" "set xs = set ks \<union> set rs"
proof -
  obtain bs l where ks: "ks = bs @ [l]" using assms(1) by (cases ks rule: rev_cases) (auto simp: lowest_def)
  obtain rs where rs: "mset ks + mset rs = mset xs" "\<forall>y\<in>set rs. cmp l y \<le> 0"
    using assms(1) ks by (auto simp: lowest_def)
  have "set xs = set ks \<union> set rs" using rs(1) by (metis set_mset_mset set_mset_union)
  then show thesis using that [OF ks rs(1)] ks rs(2) assms by (auto simp: lowest_def sorted_wrt_append)
qed

lemma lowest_rank:
  assumes "lowest ks xs" and "\<forall>x\<in>set xs. dm x"
  shows "kth_rank cmp (length ks) xs (last ks)"
proof -
  obtain bs l rs where p: "ks = bs @ [l]" "mset ks + mset rs = mset xs" "dm l"
    "\<And>y. y \<in> set bs \<Longrightarrow> cmp y l \<le> 0" "\<And>y. y \<in> set rs \<Longrightarrow> dm y \<and> cmp l y \<le> 0" "set xs = set ks \<union> set rs"
    using lowest_parts [OF assms] by blast
  have len: "length (filter P xs) = length (filter P ks) + length (filter P rs)" for P
    using p(2) by (metis filter_union_mset mset_filter size_mset size_union)
  have "\<not> cmp y l < 0" if "y \<in> set rs" for y
    using p(5) [OF that] p(3) swap_less [of l y] by linarith
  then have 1: "filter (\<lambda>y. cmp y l < 0) rs = []" by simp
  have 2: "filter (\<lambda>y. cmp y l \<le> 0) ks = ks" using p(1,4) refl [OF p(3)] by auto
  show ?thesis unfolding kth_rank_def len
    using p(1,6) 1 2 refl [OF p(3)] le_imp_less_Suc [OF length_filter_le [of "\<lambda>y. cmp y l < 0" bs]] by auto
qed

text \<open>Two objects of the same rank are equal.\<close>

lemma rank_unique:
  assumes "kth_rank cmp k xs x" and "kth_rank cmp k xs y" and "\<forall>x\<in>set xs. dm x"
  shows "cmp x y = 0"
proof -
  have le: "\<not> cmp x y < 0" if xy: "kth_rank cmp k xs x" "kth_rank cmp k xs y" for x y
  proof
    assume less: "cmp x y < 0"
    have d: "dm x" "dm y" using xy assms(3) by (auto simp: kth_rank_def)
    have "cmp z y < 0" if "z \<in> set xs" "cmp z x \<le> 0" for z
    proof (rule ccontr)
      assume "\<not> cmp z y < 0"
      then have "cmp y z \<le> 0" using swap_less [of z y] swap_zero [of z y] that assms(3) d by fastforce
      then have "cmp y x \<le> 0" using le_trans [of y z x] that assms(3) d by blast
      then show False using less swap_less [of y x] d by simp
    qed
    then have "length (filter (\<lambda>z. cmp z x \<le> 0) xs) \<le> length (filter (\<lambda>z. cmp z y < 0) xs)"
      by (induction xs) auto
    then show False using xy by (simp add: kth_rank_def)
  qed
  have "dm x" "dm y" using assms by (auto simp: kth_rank_def)
  then show ?thesis using le [OF assms(1,2)] le [OF assms(2,1)] swap_less [of x y] by simp
qed

text \<open>One more object: it replaces the last one, or it stays outside.\<close>

lemma lowest_step:
  assumes "lowest ks xs" and "\<forall>x\<in>set (xs @ [x]). dm x" and qs: "qsort_ok cmp qs"
  shows "lowest (if cmp x (last ks) < 0 then qs (ks[length ks - 1 := x]) else ks) (xs @ [x])"
proof -
  have dx: "dm x" and dxs: "\<forall>x\<in>set xs. dm x" using assms(2) by auto
  obtain bs l rs where p: "ks = bs @ [l]" "mset ks + mset rs = mset xs" "dm l"
    "\<And>y. y \<in> set bs \<Longrightarrow> cmp y l \<le> 0" "\<And>y. y \<in> set rs \<Longrightarrow> dm y \<and> cmp l y \<le> 0" "set xs = set ks \<union> set rs"
    using lowest_parts [OF assms(1) dxs] by blast
  show ?thesis
  proof (cases "cmp x l < 0")
    case True
    have m: "mset (qs (bs @ [x])) = mset (bs @ [x])" and s: "sorted_wrt (\<lambda>x y. cmp x y \<le> 0) (qs (bs @ [x]))"
      using qs by (auto simp: qsort_ok_def)
    then have ne: "qs (bs @ [x]) \<noteq> []" by (metis append_is_Nil_conv list.distinct(1) mset_zero_iff)
    have "set (qs (bs @ [x])) = insert x (set bs)" using mset_eq_setD [OF m] by auto
    then have last: "last (qs (bs @ [x])) \<in> insert x (set bs)" using ne by (metis last_in_set)
    then have "cmp (last (qs (bs @ [x]))) l \<le> 0" "dm (last (qs (bs @ [x])))"
      using p True dx dxs by auto
    then have "\<forall>y\<in>set (l # rs). cmp (last (qs (bs @ [x]))) y \<le> 0"
      using p(3,5) le_trans [of "last (qs (bs @ [x]))" l] by auto
    moreover have "mset (qs (bs @ [x])) + mset (l # rs) = mset (xs @ [x])" using p(1,2) m by auto
    ultimately have "lowest (qs (bs @ [x])) (xs @ [x])" unfolding lowest_def using ne s by blast
    then show ?thesis using True p(1) by simp
  next
    case False
    then have "cmp l x \<le> 0" using swap_less [of l x] dx p(3) by linarith
    then have "\<forall>y\<in>set (x # rs). cmp (last ks) y \<le> 0" using p(1,5) by auto
    moreover have "mset ks + mset (x # rs) = mset (xs @ [x])" using p(2) by auto
    moreover have "ks \<noteq> []" "sorted_wrt (\<lambda>x y. cmp x y \<le> 0) ks" using assms(1) by (auto simp: lowest_def)
    ultimately have "lowest ks (xs @ [x])" unfolding lowest_def by blast
    then show ?thesis using False p(1) by simp
  qed
qed

lemma kth_loop_lowest:
  assumes "lowest ks xs" and "\<forall>x\<in>set (xs @ ys). dm x" and "qsort_ok cmp qs" and "k = int (length ks)"
  shows "\<exists>ks'. kth_loop qs cmp k ys ks = Some ks' \<and> lowest ks' (xs @ ys) \<and> length ks' = length ks"
  using assms
proof (induction ys arbitrary: xs ks)
  case (Cons y ys)
  let ?ks = "if cmp y (last ks) < 0 then qs (ks[length ks - 1 := y]) else ks"
  have ne: "ks \<noteq> []" using Cons.prems by (auto simp: lowest_def)
  have len: "length ?ks = length ks" using qsort_ok_length [OF Cons.prems(3)] by simp
  have "lowest ?ks (xs @ [y])" using lowest_step [OF Cons.prems(1) _ Cons.prems(3), of y] Cons.prems(2) by auto
  then obtain ks' where "kth_loop qs cmp k ys ?ks = Some ks'" "lowest ks' ((xs @ [y]) @ ys)" "length ks' = length ks"
    using Cons.IH [of ?ks "xs @ [y]"] Cons.prems len by auto
  moreover have "nth_opt ks (k - 1) = Some (last ks)" "nat (k - 1) = length ks - 1"
    using ne Cons.prems(4) by (cases ks; simp add: nth_opt_def last_conv_nth nat_diff_distrib)+
  ultimately show ?case by auto
qed simp

lemma lowest_take:
  assumes "sorted_wrt (\<lambda>x y. cmp x y \<le> 0) zs" and "mset zs = mset xs" and "1 \<le> k" and "k \<le> length zs"
  shows "lowest (take k zs) xs"
proof -
  have "take k zs \<noteq> []" using assms(3,4) by auto
  moreover have "sorted_wrt (\<lambda>x y. cmp x y \<le> 0) (take k zs @ drop k zs)" using assms(1) by simp
  moreover have "mset (take k zs) + mset (drop k zs) = mset xs" using assms(2)
    by (metis append_take_drop_id mset_append)
  ultimately show ?thesis unfolding lowest_def by (metis last_in_set sorted_wrt_append)
qed

end

lemma nth_opt_last: "ks \<noteq> [] \<Longrightarrow> nth_opt ks (int (length ks) - 1) = Some (last ks)"
  by (cases ks) (simp_all add: nth_opt_def last_conv_nth nat_diff_distrib)

lemma nth_opt_take: "1 \<le> k \<Longrightarrow> k \<le> length zs \<Longrightarrow> nth_opt zs (int k - 1) = Some (last (take k zs))"
  by (cases k) (auto simp: nth_opt_def take_Suc_conv_app_nth)

subsection \<open>Properties\<close>

interpretation ic: c_order "\<lambda>_. True" int_cmp "(=)"
  by unfold_locales (auto simp: int_cmp_def sgn_if)

text \<open>
  On an ascending array \<^verbatim>\<open>bin_search\<close> returns, and what it returns is an object equal to the value.  When it
  returns nothing, all objects but at most one differ from the value: the loop ends one step early and never
  looks at the last candidate, so that an array of one object is never searched at all.
\<close>

theorem bin_search_correct:
  assumes "c_order dm cmp same" and "sorted_wrt (\<lambda>x y. cmp x y \<le> 0) arr" and "dm v" and "\<forall>x\<in>set arr. dm x"
    and "1 \<le> objsize" and "length arr = n" and "1 \<le> n" and "n < 2 ^ 30"
  shows "\<exists>r. bin_search (Some arr) objsize n cmp (Some v) = Some r \<and>
    (\<forall>i. r = Some i \<longrightarrow> i < n \<and> cmp v (arr ! i) = 0) \<and>
    (r = None \<longrightarrow> (\<exists>p. \<forall>i<n. int i \<noteq> p \<longrightarrow> cmp v (arr ! i) \<noteq> 0)) \<and>
    (n = 1 \<longrightarrow> r = None)"
proof -
  have asc: "ascending_for cmp arr v" by (rule c_order.ascending_for_sorted [OF assms(1-4)])
  have high: "to_int (n - 1) = int n - 1" using assms(7,8) by (simp add: to_int_small of_nat_diff)
  have run: "bin_search (Some arr) objsize n cmp (Some v) = bin_loop cmp arr v 0 (int n - 1)"
    using assms(5,7) high by (simp add: bin_search_def)
  obtain r where r: "bin_loop cmp arr v 0 (int n - 1) = Some r"
    "\<forall>i. r = Some i \<longrightarrow> i < n \<and> cmp v (arr ! i) = 0" "r = None \<longrightarrow> one_left cmp arr v 0 (int n - 1)"
    using bin_loop_correct [OF asc, of 0 "int n - 1"] assms(6,8) by auto
  have "r = None" if "n = 1" using r(1) that by (simp add: bin_loop.simps [of cmp arr v 0 0])
  moreover have "\<exists>p. \<forall>i<n. int i \<noteq> p \<longrightarrow> cmp v (arr ! i) \<noteq> 0" if "r = None"
    using r(3) that assms(6) by (auto simp: one_left_def)
  ultimately show ?thesis using run r(1,2) by auto
qed

theorem bin_search_correct_witness:
  "\<exists>r. bin_search (Some [3, 5, 8]) 4 3 int_cmp (Some 5) = Some r \<and> (\<forall>i. r = Some i \<longrightarrow> i < 3)"
  using bin_search_correct [OF ic.c_order_axioms, where arr = "[3, 5, 8]" and v = 5 and objsize = 4 and n = 3] by (auto simp: int_cmp_def)

text \<open>\<^verbatim>\<open>gcd\<close> returns, and it returns the greatest common divisor of the two machine words.\<close>

theorem gcd_ul_correct: "unat (gcd_ul a b) = gcd (unat a) (unat b)"
proof (induction a b rule: gcd_ul.induct)
  case (1 a b)
  show ?case
  proof (cases "b > 0")
    case True
    then have "unat (gcd_ul a b) = gcd (unat b) (unat a mod unat b)"
      using "1.IH" by (subst gcd_ul.simps) (simp add: unat_mod_distrib)
    then show ?thesis by (simp add: gcd.commute flip: gcd_red_nat)
  next
    case False
    then show ?thesis by (subst gcd_ul.simps) (simp add: word_greater_zero_iff)
  qed
qed

text \<open>
  For \<open>1 \<le> k \<le> n\<close> both \<^verbatim>\<open>kth_array\<close>, which keeps the \<open>k\<close> smallest objects seen so far, and \<^verbatim>\<open>kth_sort\<close>, which sorts
  the whole array, return an object of rank \<open>k\<close>, and the two results are equal.
\<close>

theorem kth_array_sort_equivalent:
  assumes ord: "c_order dm cmp same" and qs: "qsort_ok cmp qs" and dm: "\<forall>x\<in>set arr. dm x"
    and n: "length arr = n" "int n \<le> INT_MAX" and k: "1 \<le> k" "k \<le> n"
  shows "\<exists>x y. kth_array True qs (Some arr) n (int k) (Some cmp) True = Some (0, Some x) \<and>
    kth_sort True qs (Some arr) n (int k) (Some cmp) True = Some (0, Some y) \<and>
    kth_rank cmp k arr x \<and> kth_rank cmp k arr y \<and> cmp x y = 0"
proof -
  have q: "mset (qs zs) = mset zs" "sorted_wrt (\<lambda>x y. cmp x y \<le> 0) (qs zs)" "length (qs zs) = length zs" for zs
    using qs qsort_ok_length [OF qs] by (auto simp: qsort_ok_def)
  have "c_order.lowest cmp (take k (qs (take k arr))) (take k arr)"
    using c_order.lowest_take [OF ord q(2) [of "take k arr"] q(1), of k] k n q(3) by simp
  then have "c_order.lowest cmp (qs (take k arr)) (take k arr)" using k n q(3) by simp
  then obtain ks where ks: "kth_loop qs cmp (int k) (drop k arr) (qs (take k arr)) = Some ks"
      "c_order.lowest cmp ks arr" "length ks = k"
    using c_order.kth_loop_lowest [OF ord _ _ qs, of "qs (take k arr)" "take k arr" "drop k arr" "int k"] dm k n q(3) by auto
  have low: "c_order.lowest cmp (take k (qs arr)) arr" using c_order.lowest_take [OF ord q(2) [of arr] q(1), of k] k n q(3) by simp
  let ?x = "last ks" and ?y = "last (take k (qs arr))"
  have rank: "kth_rank cmp k arr ?x" "kth_rank cmp k arr ?y"
    using c_order.lowest_rank [OF ord ks(2) dm] c_order.lowest_rank [OF ord low dm] ks(3) k n q(3) by simp_all
  have "nth_opt ks (int k - 1) = Some ?x" using nth_opt_last [of ks] ks(3) k by (cases ks) auto
  then have "kth_array True qs (Some arr) n (int k) (Some cmp) True = Some (0, Some ?x)"
    using ks(1) k n by (simp add: kth_array_def)
  moreover have "kth_sort True qs (Some arr) n (int k) (Some cmp) True = Some (0, Some ?y)"
    using nth_opt_take [of k "qs arr"] k n q(3) by (simp add: kth_sort_def)
  ultimately show ?thesis using rank c_order.rank_unique [OF ord rank dm] by blast
qed

lemma sort_ok: "qsort_ok int_cmp sort"
  by (auto simp: qsort_ok_def int_cmp_def)

theorem kth_array_sort_equivalent_witness:
  "\<exists>x. kth_array True sort (Some [4, 1, 3, 2]) 4 2 (Some int_cmp) True = Some (0, Some x) \<and> kth_rank int_cmp 2 [4, 1, 3, 2] x"
  using kth_array_sort_equivalent [OF ic.c_order_axioms sort_ok, of "[4, 1, 3, 2]" 4 2]
  by (auto simp: INT_MAX_def)

text \<open>\<open>k = 0\<close> passes the checks and reads before the block.\<close>

lemma kth_zero_faults:
  "n \<le> length arr \<Longrightarrow> qsort_ok cmp qs \<Longrightarrow>
     kth_array True qs (Some arr) n 0 (Some cmp) True = None \<and> kth_sort True qs (Some arr) n 0 (Some cmp) True = None"
  using qsort_ok_length [of cmp qs "[]"]
  by (cases "take n arr") (auto simp: kth_array_def kth_sort_def nth_opt_def)

text \<open>
  The mixing of \<^verbatim>\<open>jhash.h\<close> loses no information: it can be undone, so different triples of words are mixed
  to different triples.
\<close>

theorem jhash_final_roundtrip: "JHASH_UNDO (JHASH_FINAL t) = t \<and> JHASH_FINAL (JHASH_UNDO t) = t"
proof
  show "JHASH_UNDO (JHASH_FINAL t) = t"
    by (cases t) (simp add: JHASH_UNDO_def JHASH_FINAL_def jhash_unline_line split: prod.splits)
  show "JHASH_FINAL (JHASH_UNDO t) = t"
    by (cases t) (simp add: JHASH_UNDO_def JHASH_FINAL_def jhash_line_unline split: prod.splits)
qed

end
