(* ===== verification/Max_Subseq.thy ===== *)
theory Max_Subseq
  imports Algorithms "HOL-Library.Sublist"
begin

text \<open>
  The four solutions of the maximum subsequence sum problem in \<^verbatim>\<open>basic/algorithm/maxsubseqsum.c\<close>.  The code works
  on objects of any size through the callbacks \<open>cmp\<close> and \<open>add\<close>; \<open>z\<close> is the object whose bytes are all 0.  The
  array is the list of its \<open>nobjs\<close> objects, so a loop that starts at \<open>i\<close> runs over what is left of the list.
\<close>

subsection \<open>The loops\<close>

text \<open>\<^verbatim>\<open>maxsubseqsum_n3\<close>: for every end the sum is computed anew.\<close>

definition n3_row :: "('a \<Rightarrow> 'a \<Rightarrow> int) \<Rightarrow> ('a \<Rightarrow> 'a \<Rightarrow> 'a) \<Rightarrow> 'a \<Rightarrow> 'a list \<Rightarrow> 'a \<Rightarrow> 'a" where
  "n3_row cmp add z xs ret =
     foldl (\<lambda>ret m. let s = foldl add z (take m xs) in if cmp s ret > 0 then s else ret) ret [1..<Suc (length xs)]"

fun n3_loop :: "('a \<Rightarrow> 'a \<Rightarrow> int) \<Rightarrow> ('a \<Rightarrow> 'a \<Rightarrow> 'a) \<Rightarrow> 'a \<Rightarrow> 'a list \<Rightarrow> 'a \<Rightarrow> 'a" where
  "n3_loop cmp add z [] ret = ret"
| "n3_loop cmp add z (x # xs) ret = n3_loop cmp add z xs (n3_row cmp add z (x # xs) ret)"

text \<open>\<^verbatim>\<open>maxsubseqsum_n2\<close>: the sum grows with the end.\<close>

fun n2_row :: "('a \<Rightarrow> 'a \<Rightarrow> int) \<Rightarrow> ('a \<Rightarrow> 'a \<Rightarrow> 'a) \<Rightarrow> 'a \<Rightarrow> 'a list \<Rightarrow> 'a \<Rightarrow> 'a" where
  "n2_row cmp add s [] ret = ret"
| "n2_row cmp add s (x # xs) ret = (let s = add s x in n2_row cmp add s xs (if cmp s ret > 0 then s else ret))"

fun n2_loop :: "('a \<Rightarrow> 'a \<Rightarrow> int) \<Rightarrow> ('a \<Rightarrow> 'a \<Rightarrow> 'a) \<Rightarrow> 'a \<Rightarrow> 'a list \<Rightarrow> 'a \<Rightarrow> 'a" where
  "n2_loop cmp add z [] ret = ret"
| "n2_loop cmp add z (x # xs) ret = n2_loop cmp add z xs (n2_row cmp add z (x # xs) ret)"

text \<open>
  The border sums of \<^verbatim>\<open>maxsubseqsum_div\<close>.  The left one is replaced whenever the comparison is not 0, the
  right one only when it is positive.
\<close>

fun div_left :: "('a \<Rightarrow> 'a \<Rightarrow> int) \<Rightarrow> ('a \<Rightarrow> 'a \<Rightarrow> 'a) \<Rightarrow> 'a list \<Rightarrow> 'a \<Rightarrow> 'a \<Rightarrow> 'a" where
  "div_left cmp add [] s mx = mx"
| "div_left cmp add (x # xs) s mx = (let s = add s x in div_left cmp add xs s (if cmp s mx \<noteq> 0 then s else mx))"

fun div_right :: "('a \<Rightarrow> 'a \<Rightarrow> int) \<Rightarrow> ('a \<Rightarrow> 'a \<Rightarrow> 'a) \<Rightarrow> 'a list \<Rightarrow> 'a \<Rightarrow> 'a \<Rightarrow> 'a" where
  "div_right cmp add [] s mx = mx"
| "div_right cmp add (x # xs) s mx = (let s = add s x in div_right cmp add xs s (if cmp s mx > 0 then s else mx))"

text \<open>
  \<open>m off n\<close> tells whether \<^verbatim>\<open>malloc\<close> succeeds in the call on the \<open>n\<close> objects from \<open>off\<close> on; the return codes of
  the recursive calls are ignored, as in the code.
\<close>

lemma half_less: "xs \<noteq> [] \<Longrightarrow> length xs \<noteq> Suc 0 \<Longrightarrow> length xs - length xs div 2 < length xs"
  by (cases xs; cases "tl xs") auto

function div_rec ::
  "(nat \<Rightarrow> nat \<Rightarrow> bool) \<Rightarrow> ('a \<Rightarrow> 'a \<Rightarrow> int) \<Rightarrow> ('a \<Rightarrow> 'a \<Rightarrow> 'a) \<Rightarrow> 'a \<Rightarrow> nat \<Rightarrow> 'a list \<Rightarrow> 'a \<Rightarrow> int \<times> 'a" where
  "div_rec m cmp add z off arr ret =
    (if length arr < 1 then (- 1, ret)
     else if length arr = 1 then (0, hd arr)
     else if \<not> m off (length arr) then (- 1, ret)
     else let ret = hd arr;
          left = length arr div 2;
          maxleftsum = snd (div_rec m cmp add z off (take left arr) z);
          maxrightsum = snd (div_rec m cmp add z (off + left) (drop left arr) z);
          maxleftbordersum = div_left cmp add (rev (take left arr)) z z;
          maxrightbordersum = div_right cmp add (drop left arr) z z;
          maxleftbordersum = add maxleftbordersum maxrightbordersum;
          ret = (if cmp maxleftsum ret > 0 then maxleftsum else ret);
          ret = (if cmp maxrightsum ret > 0 then maxrightsum else ret);
          ret = (if cmp maxleftbordersum ret > 0 then maxleftbordersum else ret)
       in (0, ret))"
  by auto
termination
  by (relation "measure (\<lambda>(m, cmp, add, z, off, arr, ret). length arr)") (auto simp: half_less)

declare div_rec.simps [simp del]

text \<open>
  \<^verbatim>\<open>maxsubseqsum_n\<close> runs over \<open>objsize\<close> objects; \<open>cmp0\<close> is the comparison with a null pointer, which may be
  a fault.
\<close>

fun n_loop ::
  "('a \<Rightarrow> 'a \<Rightarrow> int) \<Rightarrow> ('a \<Rightarrow> int option) \<Rightarrow> ('a \<Rightarrow> 'a \<Rightarrow> 'a) \<Rightarrow> 'a \<Rightarrow> nat \<Rightarrow> 'a list \<Rightarrow> 'a \<Rightarrow> 'a \<Rightarrow> 'a option" where
  "n_loop cmp cmp0 add z 0 xs s ret = Some ret"
| "n_loop cmp cmp0 add z (Suc k) [] s ret = None"
| "n_loop cmp cmp0 add z (Suc k) (x # xs) s ret = (let s = add s x in
     if cmp s ret > 0 then n_loop cmp cmp0 add z k xs s s
     else do { c \<leftarrow> cmp0 s; n_loop cmp cmp0 add z k xs (if c < 0 then z else s) ret })"

subsection \<open>The functions\<close>

text \<open>
  The result is the return code with what the pointer \<open>ret\<close> leads to (\<open>None\<close> for a null pointer).  The loop
  counters are \<open>int\<close>s, so arrays they cannot count are a fault.
\<close>

definition maxsubseqsum_n3 ::
  "bool \<Rightarrow> 'a list option \<Rightarrow> nat \<Rightarrow> ('a \<Rightarrow> 'a \<Rightarrow> int) option \<Rightarrow> ('a \<Rightarrow> 'a \<Rightarrow> 'a) \<Rightarrow> 'a \<Rightarrow> 'a option \<Rightarrow> (int \<times> 'a option) option" where
  "maxsubseqsum_n3 m array objsize cmp add z ret =
    (case (array, cmp, ret) of
       (Some arr, Some c, Some r) \<Rightarrow>
         if objsize < 1 \<or> length arr < 1 then Some (- 1, ret)
         else if \<not> m then Some (0, ret)
         else if length arr > objsize \<or> int (length arr) > INT_MAX then None
         else Some (0, Some (n3_loop c add z arr (hd arr)))
     | _ \<Rightarrow> Some (- 1, ret))"

definition maxsubseqsum_n2 ::
  "bool \<Rightarrow> 'a list option \<Rightarrow> nat \<Rightarrow> ('a \<Rightarrow> 'a \<Rightarrow> int) option \<Rightarrow> ('a \<Rightarrow> 'a \<Rightarrow> 'a) \<Rightarrow> 'a \<Rightarrow> 'a option \<Rightarrow> (int \<times> 'a option) option" where
  "maxsubseqsum_n2 m array objsize cmp add z ret =
    (case (array, cmp, ret) of
       (Some arr, Some c, Some r) \<Rightarrow>
         if objsize < 1 \<or> length arr < 1 then Some (- 1, ret)
         else if \<not> m then Some (- 1, ret)
         else if int (length arr) > INT_MAX then None
         else Some (0, Some (n2_loop c add z arr (hd arr)))
     | _ \<Rightarrow> Some (- 1, ret))"

definition maxsubseqsum_div ::
  "(nat \<Rightarrow> nat \<Rightarrow> bool) \<Rightarrow> 'a list option \<Rightarrow> nat \<Rightarrow> ('a \<Rightarrow> 'a \<Rightarrow> int) option \<Rightarrow> ('a \<Rightarrow> 'a \<Rightarrow> 'a) \<Rightarrow> 'a \<Rightarrow> 'a option \<Rightarrow>
     (int \<times> 'a option) option" where
  "maxsubseqsum_div m array objsize cmp add z ret =
    (case (array, cmp, ret) of
       (Some arr, Some c, Some r) \<Rightarrow>
         if objsize < 1 \<or> length arr < 1 then Some (- 1, ret)
         else if int (length arr) > INT_MAX then None
         else (case div_rec m c add z 0 arr r of (code, v) \<Rightarrow> Some (code, Some v))
     | _ \<Rightarrow> Some (- 1, ret))"

definition maxsubseqsum_n ::
  "bool \<Rightarrow> 'a list option \<Rightarrow> nat \<Rightarrow> ('a \<Rightarrow> 'a \<Rightarrow> int) option \<Rightarrow> ('a \<Rightarrow> int option) \<Rightarrow> ('a \<Rightarrow> 'a \<Rightarrow> 'a) \<Rightarrow> 'a \<Rightarrow> 'a option \<Rightarrow>
     (int \<times> 'a option) option" where
  "maxsubseqsum_n m array objsize cmp cmp0 add z ret =
    (case (array, cmp, ret) of
       (Some arr, Some c, Some r) \<Rightarrow>
         if objsize < 1 \<or> length arr < 1 then Some (- 1, ret)
         else if \<not> m then Some (- 1, ret)
         else do { v \<leftarrow> n_loop c cmp0 add z objsize arr z (hd arr); Some (0, Some v) }
     | _ \<Rightarrow> Some (- 1, ret))"

text \<open>The callbacks of \<^verbatim>\<open>maxsubseqsum_test.c\<close>: the sum, and the comparison with a null pointer.\<close>

definition int_add :: "int \<Rightarrow> int \<Rightarrow> int" where
  "int_add i j = i + j"

definition int_cmp_null :: "int \<Rightarrow> int option" where
  "int_cmp_null i = Some i"

subsection \<open>The cubic and the quadratic loop agree\<close>

lemma n2_row_foldl:
  "n2_row cmp add (foldl add z pre) xs ret =
     foldl (\<lambda>ret m. let s = foldl add z (take m (pre @ xs)) in if cmp s ret > 0 then s else ret) ret
       [Suc (length pre)..<Suc (length pre + length xs)]"
proof (induction xs arbitrary: pre ret)
  case (Cons x xs)
  have up: "[Suc (length pre)..<Suc (length pre + length (x # xs))] =
      Suc (length pre) # [Suc (length (pre @ [x]))..<Suc (length (pre @ [x]) + length xs)]"
    by (simp add: upt_conv_Cons del: upt_Suc)
  show ?case unfolding up using Cons.IH [of "pre @ [x]"] by (simp add: Let_def)
qed simp

lemma n3_row_n2_row: "n3_row cmp add z xs ret = n2_row cmp add z xs ret"
  using n2_row_foldl [of cmp add z "[]" xs ret] by (simp add: n3_row_def)

lemma n3_loop_n2_loop: "n3_loop cmp add z xs ret = n2_loop cmp add z xs ret"
  by (induction xs arbitrary: ret) (simp_all add: n3_row_n2_row)

subsection \<open>Sums of segments\<close>

text \<open>What the callbacks promise: they compute with a number that every object stands for.\<close>

locale c_summable =
  fixes cmp :: "'a \<Rightarrow> 'a \<Rightarrow> int"
    and add :: "'a \<Rightarrow> 'a \<Rightarrow> 'a"
    and z :: 'a
    and val :: "'a \<Rightarrow> int"
  assumes val_add [simp]: "val (add a b) = val a + val b"
    and val_zero [simp]: "val z = 0"
    and cmp_pos [simp]: "cmp a b > 0 \<longleftrightarrow> val a > val b"
    and cmp_zero [simp]: "cmp a b = 0 \<longleftrightarrow> val a = val b"
begin

definition ssum :: "'a list \<Rightarrow> int" where
  "ssum xs = sum_list (map val xs)"

definition psums :: "int \<Rightarrow> 'a list \<Rightarrow> int set" where
  "psums k xs = {k + ssum p | p. p \<noteq> [] \<and> prefix p xs}"

definition segsums :: "'a list \<Rightarrow> int set" where
  "segsums xs = {ssum p | p. p \<noteq> [] \<and> sublist p xs}"

definition is_max :: "int \<Rightarrow> int set \<Rightarrow> bool" where
  "is_max v S \<longleftrightarrow> v \<in> S \<and> (\<forall>x\<in>S. x \<le> v)"

lemma psums_Nil [simp]: "psums k [] = {}"
  by (auto simp: psums_def)

lemma psums_Cons: "psums k (x # xs) = insert (k + val x) (psums (k + val x) xs)"
proof -
  have "p \<noteq> [] \<and> prefix p (x # xs) \<longleftrightarrow> (\<exists>q. p = x # q \<and> prefix q xs)" for p
    by (cases p) auto
  then have "psums k (x # xs) = {k + ssum (x # q) | q. prefix q xs}" by (auto simp: psums_def)
  also have "\<dots> = insert (k + val x) {k + val x + ssum q | q. q \<noteq> [] \<and> prefix q xs}"
  proof (intro equalityI subsetI)
    fix v assume "v \<in> {k + ssum (x # q) | q. prefix q xs}"
    then obtain q where "v = k + val x + ssum q" "prefix q xs" by (auto simp: ssum_def)
    then show "v \<in> insert (k + val x) {k + val x + ssum q | q. q \<noteq> [] \<and> prefix q xs}"
      by (cases "q = []") (auto simp: ssum_def)
  next
    fix v assume "v \<in> insert (k + val x) {k + val x + ssum q | q. q \<noteq> [] \<and> prefix q xs}"
    then consider "v = k + ssum (x # [])" | q where "v = k + ssum (x # q)" "prefix q xs" by (auto simp: ssum_def)
    then show "v \<in> {k + ssum (x # q) | q. prefix q xs}" by cases auto
  qed
  finally show ?thesis by (simp add: psums_def)
qed

lemma segsums_Nil [simp]: "segsums [] = {}"
  by (auto simp: segsums_def)

lemma segsums_Cons: "segsums (x # xs) = psums 0 (x # xs) \<union> segsums xs"
  by (auto simp: segsums_def psums_def sublist_Cons_right)

lemma n2_row_max: "is_max (val (n2_row cmp add s xs ret)) (insert (val ret) (psums (val s) xs))"
proof (induction xs arbitrary: s ret)
  case (Cons x xs)
  show ?case
    using Cons.IH [of "add s x" "if cmp (add s x) ret > 0 then add s x else ret"]
    by (auto simp: psums_Cons is_max_def Let_def split: if_splits)
qed (simp add: is_max_def)

lemma n2_loop_max: "is_max (val (n2_loop cmp add z xs ret)) (insert (val ret) (segsums xs))"
proof (induction xs arbitrary: ret)
  case (Cons x xs)
  show ?case
    using Cons.IH [of "n2_row cmp add z (x # xs) ret"] n2_row_max [of z "x # xs" ret]
    unfolding segsums_Cons is_max_def by auto
qed (simp add: is_max_def)

text \<open>Divide and conquer: the left border is the whole left part, the right one a prefix of the right part.\<close>

lemma div_left_sum: "val (div_left cmp add xs s mx) = (if xs = [] then val mx else val s + ssum xs)"
proof (induction xs arbitrary: s mx)
  case (Cons x xs)
  show ?case using Cons.IH [of "add s x" "if cmp (add s x) mx \<noteq> 0 then add s x else mx"]
    by (cases "xs = []") (simp_all add: ssum_def Let_def)
qed simp

lemma div_right_max: "is_max (val (div_right cmp add xs s mx)) (insert (val mx) (psums (val s) xs))"
proof (induction xs arbitrary: s mx)
  case (Cons x xs)
  show ?case using Cons.IH [of "add s x" "if cmp (add s x) mx > 0 then add s x else mx"]
    by (auto simp: psums_Cons is_max_def Let_def split: if_splits)
qed (simp add: is_max_def)

lemma segsums_append:
  "segsums xs \<subseteq> segsums (xs @ ys)" "segsums ys \<subseteq> segsums (xs @ ys)"
  unfolding segsums_def by (blast intro: sublist_order.order_trans sublist_append_rightI sublist_append_leftI)+

lemma border_segsums:
  assumes "xs \<noteq> []" and "r \<in> insert 0 (psums 0 ys)"
  shows "ssum xs + r \<in> segsums (xs @ ys)"
proof -
  have "r = ssum [] \<or> (\<exists>p. prefix p ys \<and> r = ssum p)" using assms(2) by (auto simp: psums_def ssum_def)
  then obtain p where "prefix p ys" "r = ssum p" by (metis Nil_prefix)
  then have "ssum xs + r = ssum (xs @ p)" "sublist (xs @ p) (xs @ ys)"
    by (auto simp: ssum_def intro: prefix_imp_sublist)
  then show ?thesis using assms(1) unfolding segsums_def by blast
qed

lemma hd_segsums: "xs \<noteq> [] \<Longrightarrow> val (hd xs) \<in> segsums xs"
  by (cases xs) (auto simp: segsums_Cons psums_Cons)

lemma div_rec_segsums:
  assumes "\<And>off n. m off n" and "arr \<noteq> []"
  shows "\<exists>v. div_rec m cmp add z off arr ret = (0, v) \<and> val v \<in> segsums arr"
  using assms(2)
proof (induction "length arr" arbitrary: off arr ret rule: less_induct)
  case less
  show ?case
  proof (cases "length arr = 1")
    case True
    then show ?thesis using hd_segsums [OF less.prems] by (subst div_rec.simps) simp
  next
    case False
    define ls rs where "ls = take (length arr div 2) arr" and "rs = drop (length arr div 2) arr"
    have two: "2 \<le> length arr" using less.prems False by (cases arr) (auto simp: Suc_le_eq)
    then have parts: "arr = ls @ rs" "ls \<noteq> []" "rs \<noteq> []" "length ls < length arr" "length rs < length arr"
      by (auto simp: ls_def rs_def)
    obtain l r where l: "snd (div_rec m cmp add z off ls z) = l" "val l \<in> segsums ls"
      and r: "snd (div_rec m cmp add z (off + length arr div 2) rs z) = r" "val r \<in> segsums rs"
      using less.hyps [OF parts(4,2), of off z] less.hyps [OF parts(5,3), of "off + length arr div 2" z] by auto
    let ?b = "add (div_left cmp add (rev ls) z z) (div_right cmp add rs z z)"
    have "val ?b = ssum ls + val (div_right cmp add rs z z)"
      using div_left_sum [of "rev ls" z z] parts(2) by (simp add: ssum_def rev_map [symmetric])
    then have b: "val ?b \<in> segsums arr"
      using border_segsums [OF parts(2), of "val (div_right cmp add rs z z)" rs] div_right_max [of rs z z] parts(1)
      by (simp add: is_max_def)
    have "val l \<in> segsums arr" "val r \<in> segsums arr" using l r segsums_append parts(1) by blast+
    then show ?thesis
      using b hd_segsums [OF less.prems] less.prems two assms(1)
      by (subst div_rec.simps) (simp add: ls_def [symmetric] rs_def [symmetric] l(1) r(1) Let_def)
  qed
qed

end

subsection \<open>Properties\<close>

interpretation ia: c_summable int_cmp int_add 0 id
  by unfold_locales (auto simp: int_cmp_def int_add_def)

text \<open>
  \<^verbatim>\<open>maxsubseqsum_n2\<close> returns the largest sum of a nonempty segment of the array.
\<close>

theorem maxsubseqsum_n2_correct:
  assumes "c_summable cmp add z val" and "arr \<noteq> []" and "int (length arr) \<le> INT_MAX" and "1 \<le> objsize"
  shows "\<exists>v. maxsubseqsum_n2 True (Some arr) objsize (Some cmp) add z (Some r) = Some (0, Some v) \<and>
    (\<exists>p. p \<noteq> [] \<and> sublist p arr \<and> val v = sum_list (map val p)) \<and>
    (\<forall>p. p \<noteq> [] \<and> sublist p arr \<longrightarrow> sum_list (map val p) \<le> val v)"
proof -
  have "c_summable.is_max (val (n2_loop cmp add z arr (hd arr))) (c_summable.segsums val arr)"
    using c_summable.n2_loop_max [OF assms(1), of arr "hd arr"] c_summable.hd_segsums [OF assms(1,2)]
    by (simp add: insert_absorb)
  then show ?thesis
    using assms by (auto simp: maxsubseqsum_n2_def c_summable.is_max_def [OF assms(1)]
        c_summable.segsums_def [OF assms(1)] c_summable.ssum_def [OF assms(1)] Suc_le_eq)
qed

theorem maxsubseqsum_n2_correct_witness:
  "\<exists>v. maxsubseqsum_n2 True (Some [- 2, 4, - 1, 3]) 4 (Some int_cmp) int_add 0 (Some 0) = Some (0, Some v) \<and>
    sum_list [4, - 1, 3] \<le> v"
proof -
  have "sublist [4, - 1, 3] [- 2, 4, - 1, 3 :: int]" by code_simp
  then show ?thesis
    using maxsubseqsum_n2_correct [OF ia.c_summable_axioms, of "[- 2, 4, - 1, 3]" 4 0] by (force simp: INT_MAX_def)
qed

text \<open>
  \<^verbatim>\<open>maxsubseqsum_n3\<close> agrees with \<^verbatim>\<open>maxsubseqsum_n2\<close>, whatever the callbacks do, as long as there are no more objects
  than an object has bytes; with more of them it writes past the end of its buffer, because it clears
  \<open>nobjs\<close> bytes of it.
\<close>

theorem maxsubseqsum_n3_n2:
  assumes "arr \<noteq> []" and "int (length arr) \<le> INT_MAX" and "1 \<le> objsize"
  shows "maxsubseqsum_n3 True (Some arr) objsize (Some cmp) add z (Some r) =
    (if length arr \<le> objsize then maxsubseqsum_n2 True (Some arr) objsize (Some cmp) add z (Some r) else None)"
  using assms by (auto simp: maxsubseqsum_n3_def maxsubseqsum_n2_def n3_loop_n2_loop)

theorem maxsubseqsum_n3_n2_witness:
  "maxsubseqsum_n3 True (Some [3, - 1, 2 :: int]) 4 (Some int_cmp) int_add 0 (Some 0) =
    maxsubseqsum_n2 True (Some [3, - 1, 2]) 4 (Some int_cmp) int_add 0 (Some 0)"
  using maxsubseqsum_n3_n2 [of "[3, - 1, 2 :: int]" 4 int_cmp int_add 0 0] by (simp add: INT_MAX_def)

text \<open>
  \<^verbatim>\<open>maxsubseqsum_div\<close> returns the sum of some segment, so never more than the maximum; but since it takes every
  left border sum instead of the largest one it may return less: on \<open>-5, 3, 4, 1\<close> it returns 5 instead of 8.
\<close>

theorem maxsubseqsum_div_sound:
  assumes "c_summable cmp add z val" and "arr \<noteq> []" and "int (length arr) \<le> INT_MAX" and "1 \<le> objsize"
  shows "(\<exists>v p. maxsubseqsum_div (\<lambda>_ _. True) (Some arr) objsize (Some cmp) add z (Some r) = Some (0, Some v) \<and>
      p \<noteq> [] \<and> sublist p arr \<and> val v = sum_list (map val p)) \<and>
    maxsubseqsum_div (\<lambda>_ _. True) (Some [- 5, 3, 4, 1]) 4 (Some int_cmp) int_add 0 (Some 0) = Some (0, Some 5) \<and>
    maxsubseqsum_n2 True (Some [- 5, 3, 4, 1]) 4 (Some int_cmp) int_add 0 (Some 0) = Some (0, Some 8)"
proof (intro conjI)
  show "\<exists>v p. maxsubseqsum_div (\<lambda>_ _. True) (Some arr) objsize (Some cmp) add z (Some r) = Some (0, Some v) \<and>
      p \<noteq> [] \<and> sublist p arr \<and> val v = sum_list (map val p)"
    using c_summable.div_rec_segsums [OF assms(1) _ assms(2), of "\<lambda>_ _. True" 0 r] assms
    by (auto simp: maxsubseqsum_div_def Suc_le_eq c_summable.segsums_def [OF assms(1)] c_summable.ssum_def [OF assms(1)])
  show "maxsubseqsum_div (\<lambda>_ _. True) (Some [- 5, 3, 4, 1]) 4 (Some int_cmp) int_add 0 (Some 0) = Some (0, Some 5)"
    by code_simp
  show "maxsubseqsum_n2 True (Some [- 5, 3, 4, 1]) 4 (Some int_cmp) int_add 0 (Some 0) = Some (0, Some 8)"
    by code_simp
qed

theorem maxsubseqsum_div_sound_witness:
  "\<exists>v. maxsubseqsum_div (\<lambda>_ _. True) (Some [1, - 2, 3]) 4 (Some int_cmp) int_add 0 (Some 0) = Some (0, Some v)"
  using maxsubseqsum_div_sound [OF ia.c_summable_axioms, of "[1, - 2, 3]" 4 0] by (auto simp: INT_MAX_def)

text \<open>
  The linear solution loses the maximum too: the sum is not reset when it is negative but larger than the
  best one so far.  It also runs over as many objects as an object has bytes.
\<close>

lemma maxsubseqsum_n_wrong:
  "maxsubseqsum_n True (Some [- 3, - 1, 5, 0]) 4 (Some int_cmp) int_cmp_null int_add 0 (Some 0) = Some (0, Some 4)"
  "maxsubseqsum_n2 True (Some [- 3, - 1, 5, 0]) 4 (Some int_cmp) int_add 0 (Some 0) = Some (0, Some 5)"
  "maxsubseqsum_n True (Some [1, 2, 3, 4, 5]) 4 (Some int_cmp) int_cmp_null int_add 0 (Some 0) = Some (0, Some 10)"
  "maxsubseqsum_n True (Some [1, 2, 3]) 4 (Some int_cmp) int_cmp_null int_add 0 (Some 0) = None"
  by code_simp+

end
