(* ===== verification/Bm_search.thy ===== *)
theory Bm_search
  imports Algorithms C_Mem
begin

text \<open>
  The string search of \<^verbatim>\<open>basic/algorithm/BM_search.c\<close>.  Buffers and patterns are lists of bytes and the two
  tables lists of numbers; reading or writing outside of them is a fault.  \<open>size_t\<close> is 64 bits wide.
\<close>

definition rd :: "u8 list \<Rightarrow> int \<Rightarrow> u8 option" where
  "rd s i = nth_opt s i"

lemma nth_opt_nat: "i < length s \<Longrightarrow> nth_opt s (int i) = Some (s ! i)"
  by (simp add: nth_opt_def)

lemma rd_nat: "i < length s \<Longrightarrow> rd s (int i) = Some (s ! i)"
  by (simp add: rd_def nth_opt_def)

text \<open>Subtraction on \<open>size_t\<close>.\<close>

definition sz_minus :: "nat \<Rightarrow> nat \<Rightarrow> nat" where
  "sz_minus a b = nat ((int a - int b) mod 2 ^ 64)"

lemma sz_minus_le: "b \<le> a \<Longrightarrow> a < 2 ^ 64 \<Longrightarrow> sz_minus a b = a - b"
  by (simp add: sz_minus_def flip: of_nat_diff)

subsection \<open>The table of bad characters\<close>

text \<open>The index is a \<open>char\<close> converted to \<^verbatim>\<open>unsigned int\<close>, so negative characters are far outside.\<close>

function bc_loop :: "u8 list \<Rightarrow> nat \<Rightarrow> nat \<Rightarrow> int list \<Rightarrow> int list option" where
  "bc_loop pat plen i bc =
    (if \<not> i < sz_minus plen 1 then Some bc
     else if \<not> i < length pat then None
     else let k = nat (schar (pat ! i) mod 2 ^ 32) in
       if k < length bc then bc_loop pat plen (i + 1) (bc[k := to_int (sz_minus plen (i + 1))]) else None)"
  by auto
termination
  by (relation "measure (\<lambda>(pat, plen, i, bc). length pat - i)") auto

declare bc_loop.simps [simp del]

definition BM_get_bc :: "u8 list option \<Rightarrow> nat \<Rightarrow> int list option \<Rightarrow> nat \<Rightarrow> (int \<times> int list option) option" where
  "BM_get_bc pat plen bc bclen =
    (case (pat, bc) of
       (Some p, Some b) \<Rightarrow>
         if bclen < 1 \<or> bclen < 256 then Some (- 1, bc)
         else if length b < 256 then None
         else do {
           b \<leftarrow> bc_loop p plen 0 (replicate 256 (to_int plen) @ drop 256 b);
           Some (0, Some b) }
     | _ \<Rightarrow> Some (- 1, bc))"

subsection \<open>The table of good suffixes\<close>

text \<open>The three inner loops of \<^verbatim>\<open>BM_get_gs\<close>; positions are offsets from the start of the pattern.\<close>

function gs_find :: "u8 list \<Rightarrow> int \<Rightarrow> int \<Rightarrow> int option" where
  "gs_find pat c p1 =
    (if p1 \<ge> 0 then do { x \<leftarrow> rd pat p1; if schar x \<noteq> c then gs_find pat c (p1 - 1) else Some (p1 - 1) }
     else Some p1)"
  by auto
termination
  by (relation "measure (\<lambda>(pat, c, p1). nat (p1 + 1))") auto

function gs_cmp :: "u8 list \<Rightarrow> int \<Rightarrow> int \<Rightarrow> int \<Rightarrow> (int \<times> int) option" where
  "gs_cmp pat pptr p3 p2 =
    (if p3 \<ge> 0 then do {
       x \<leftarrow> rd pat p3;
       y \<leftarrow> rd pat p2;
       if x = y \<and> p2 - 1 \<ge> pptr then gs_cmp pat pptr (p3 - 1) (p2 - 1) else Some (p3 - 1, p2 - 1) }
     else Some (p3, p2))"
  by auto
termination
  by (relation "measure (\<lambda>(pat, pptr, p3, p2). nat (p3 + 1))") auto

declare gs_find.simps [simp del] gs_cmp.simps [simp del]

partial_function (option) gs_try :: "u8 list \<Rightarrow> int \<Rightarrow> int \<Rightarrow> int \<Rightarrow> int \<Rightarrow> (int \<times> int) option" where
  "gs_try pat c plen pptr p1 = do {
     p1 \<leftarrow> gs_find pat c p1;
     (p3, p2) \<leftarrow> gs_cmp pat pptr p1 (plen - 2);
     if p3 \<ge> 0 \<and> p2 \<ge> pptr then gs_try pat c plen pptr p1 else Some (p3, p2) }"

text \<open>The outer loop: entry \<open>g\<close> of the table is computed when \<open>pptr\<close> is \<open>g\<close>.\<close>

fun gs_loop :: "u8 list \<Rightarrow> int \<Rightarrow> int \<Rightarrow> nat \<Rightarrow> int list \<Rightarrow> int list option" where
  "gs_loop pat c plen 0 gs = Some gs"
| "gs_loop pat c plen (Suc g) gs = do {
     (p3, p2) \<leftarrow> gs_try pat c plen (int g) (plen - 2);
     if g < length gs then gs_loop pat c plen g (gs[g := p2 - p3]) else None }"

definition BM_get_gs :: "u8 list option \<Rightarrow> nat \<Rightarrow> int list option \<Rightarrow> nat \<Rightarrow> (int \<times> int list option) option" where
  "BM_get_gs pat plen gs gslen =
    (case (pat, gs) of
       (Some p, Some g) \<Rightarrow>
         if plen < 1 \<or> gslen < plen then Some (- 1, gs)
         else if length g < plen then None
         else do {
           c \<leftarrow> rd p (int plen - 1);
           g \<leftarrow> gs_loop p (uint c) (int plen) (plen - 1) (g[plen - 1 := 1]);
           Some (0, Some g) }
     | _ \<Rightarrow> Some (- 1, gs))"

subsection \<open>The search\<close>

text \<open>
  Comparing backwards from the end of a window: a match at a position, or the place of the first
  difference in buffer and pattern.
\<close>

fun bm_match :: "u8 list \<Rightarrow> u8 list \<Rightarrow> int \<Rightarrow> nat \<Rightarrow> (nat + (int \<times> nat)) option" where
  "bm_match buf pat b 0 = None"
| "bm_match buf pat b (Suc p) = do {
     x \<leftarrow> rd buf (b - 1);
     y \<leftarrow> rd pat (int p);
     if x = y then (if p = 0 then Some (Inl (nat (b - 1))) else bm_match buf pat (b - 1) p)
     else Some (Inr (b - 1, p)) }"

partial_function (option) bm_loop ::
  "u8 list \<Rightarrow> nat \<Rightarrow> u8 list \<Rightarrow> nat \<Rightarrow> int list \<Rightarrow> int list \<Rightarrow> int \<Rightarrow> nat option option" where
  "bm_loop buf blen pat plen bc gs b =
    (if b mod 2 ^ 64 \<le> int blen then do {
       r \<leftarrow> bm_match buf pat b plen;
       case r of
         Inl pos \<Rightarrow> Some (Some pos)
       | Inr (b, p) \<Rightarrow> do {
           x \<leftarrow> rd buf b;
           skip \<leftarrow> nth_opt bc (uint x);
           shift \<leftarrow> nth_opt gs (int p);
           let b = b + skip + (int plen - int p);
           if b > INT_MAX then None else bm_loop buf blen pat plen bc gs b } }
     else Some None)"

definition BM_search ::
  "u8 list option \<Rightarrow> nat \<Rightarrow> u8 list option \<Rightarrow> nat \<Rightarrow> int list option \<Rightarrow> nat \<Rightarrow> int list option \<Rightarrow> nat \<Rightarrow> nat option option" where
  "BM_search buf blen pat plen bc bclen gs gslen =
    (case (buf, pat, bc, gs) of
       (Some s, Some p, Some c, Some g) \<Rightarrow>
         if bclen < 256 \<or> gslen < plen then Some None
         else if blen < 1 \<or> plen < 1 then Some None
         else bm_loop s blen p plen c g (to_int plen)
     | _ \<Rightarrow> Some None)"

subsection \<open>The table of bad characters is right\<close>

text \<open>Every shift is positive and at most the distance of any occurrence from the last position.\<close>

definition bc_spec :: "u8 list \<Rightarrow> int list \<Rightarrow> bool" where
  "bc_spec pat bc \<longleftrightarrow> 256 \<le> length bc \<and> (\<forall>c<256. 1 \<le> bc ! c \<and> bc ! c \<le> int (length pat)) \<and>
     (\<forall>i<length pat - 1. bc ! unat (pat ! i) \<le> int (length pat - 1 - i))"

text \<open>After \<open>i\<close> rounds the entries are right for the first \<open>i\<close> characters.\<close>

definition bc_upto :: "u8 list \<Rightarrow> nat \<Rightarrow> int list \<Rightarrow> bool" where
  "bc_upto pat i bc \<longleftrightarrow> 256 \<le> length bc \<and> (\<forall>c<256. 1 \<le> bc ! c \<and> bc ! c \<le> int (length pat)) \<and>
     (\<forall>j<i. j < length pat - 1 \<longrightarrow> bc ! unat (pat ! j) \<le> int (length pat - 1 - j))"

lemma schar_ascii: "x < 128 \<Longrightarrow> schar x = uint x"
proof -
  assume "x < 128"
  then have "uint x < 2 ^ 7" by (simp add: word_less_def)
  moreover have "sint x = signed_take_bit 7 (uint x)" by (simp add: sint_uint)
  moreover have "0 \<le> uint x" by simp
  ultimately show ?thesis unfolding schar_def by (metis signed_take_bit_int_eq_self neg_le_0_iff_le order_trans zero_le_numeral zero_le_power)
qed

lemma bc_loop_spec:
  assumes "bc_upto pat i bc" and "\<forall>x\<in>set pat. x < 128" and "pat \<noteq> []" and "length pat < 2 ^ 31"
  shows "\<exists>bc'. bc_loop pat (length pat) i bc = Some bc' \<and> bc_spec pat bc'"
  using assms
proof (induction "length pat - i" arbitrary: i bc)
  case 0
  then have "\<not> i < sz_minus (length pat) 1" by (simp add: sz_minus_le Suc_le_eq)
  then show ?case using 0 by (subst bc_loop.simps) (auto simp: bc_upto_def bc_spec_def)
next
  case (Suc d)
  have m: "sz_minus (length pat) k = length pat - k" if "k \<le> length pat" for k
    using that Suc.prems(4) by (simp add: sz_minus_le)
  have one: "1 \<le> length pat" using Suc.prems(3) by (simp add: Suc_le_eq)
  show ?case
  proof (cases "i < length pat - 1")
    case False
    then show ?thesis using Suc.prems one by (subst bc_loop.simps) (auto simp: m bc_upto_def bc_spec_def)
  next
    case True
    let ?k = "unat (pat ! i)"
    have "pat ! i < 128" using True Suc.prems(2) by simp
    then have "schar (pat ! i) = uint (pat ! i)" by (rule schar_ascii)
    moreover have k8: "?k < 256" using unat_u8_less [of "pat ! i"] by simp
    moreover have "uint (pat ! i) < 256" using k8 by (simp only: uint_nat)
    ultimately have k: "nat (schar (pat ! i) mod 2 ^ 32) = ?k" by simp
    have v: "to_int (sz_minus (length pat) (i + 1)) = int (length pat - 1 - i)"
      using True Suc.prems(4) by (simp add: m to_int_small)
    let ?bc = "bc[?k := int (length pat - 1 - i)]"
    have "bc_upto pat (i + 1) ?bc"
      using Suc.prems(1) True k8 by (auto simp: bc_upto_def nth_list_update less_Suc_eq unsigned_word_eqI)
    then obtain bc' where bc': "bc_loop pat (length pat) (i + 1) ?bc = Some bc'" "bc_spec pat bc'"
      using Suc.hyps Suc.prems(2-4) by (metis Suc.hyps(2) Suc_eq_plus1 diff_Suc_1 diff_commute diff_diff_left)
    have "bc_loop pat (length pat) i bc = bc_loop pat (length pat) (i + 1) ?bc"
      using True less_le_trans [OF True diff_le_self] one k k8 v Suc.prems(1) by (subst bc_loop.simps) (simp add: m bc_upto_def)
    then show ?thesis using bc' by simp
  qed
qed

lemma BM_get_bc_spec:
  assumes "\<forall>x\<in>set pat. x < 128" and "pat \<noteq> []" and "length pat < 2 ^ 31" and "256 \<le> bclen" and "256 \<le> length bc"
  shows "\<exists>bc'. BM_get_bc (Some pat) (length pat) (Some bc) bclen = Some (0, Some bc') \<and> bc_spec pat bc'"
proof -
  have "bc_upto pat 0 (replicate 256 (to_int (length pat)) @ drop 256 bc)"
    using assms(2,3) by (auto simp: bc_upto_def nth_append to_int_small Suc_le_eq)
  from bc_loop_spec [OF this assms(1-3)] show ?thesis
    using assms(4,5) by (auto simp: BM_get_bc_def)
qed

subsection \<open>The table of good suffixes\<close>

text \<open>All reads are inside the pattern, the search ends, and every shift is between 1 and the length.\<close>

lemma gs_find_ok:
  assumes "p1 < int (length pat)" and "- 1 \<le> p1"
  shows "\<exists>q. gs_find pat c p1 = Some q \<and> - 1 \<le> q \<and> q \<le> p1 \<and> (0 \<le> p1 \<longrightarrow> q < p1)"
  using assms
proof (induction pat c p1 rule: gs_find.induct)
  case (1 pat c p1)
  show ?case
  proof (cases "0 \<le> p1")
    case True
    then have "rd pat p1 = Some (pat ! nat p1)" using "1.prems" by (simp add: rd_def nth_opt_def)
    then show ?thesis using True "1.IH" [of "pat ! nat p1"] "1.prems" by (subst gs_find.simps) force
  qed (use "1.prems" in \<open>simp add: gs_find.simps\<close>)
qed

lemma gs_cmp_ok:
  assumes "p3 \<le> p2" and "p2 < int (length pat)" and "- 1 \<le> p3"
  shows "\<exists>q3 q2. gs_cmp pat pptr p3 p2 = Some (q3, q2) \<and> q2 - q3 = p2 - p3 \<and> q3 \<le> p3"
  using assms
proof (induction pat pptr p3 p2 rule: gs_cmp.induct)
  case (1 pat pptr p3 p2)
  show ?case
  proof (cases "0 \<le> p3")
    case True
    then have "rd pat p3 = Some (pat ! nat p3)" "rd pat p2 = Some (pat ! nat p2)"
      using "1.prems" by (auto simp: rd_def nth_opt_def)
    then show ?thesis using True "1.IH" [of "pat ! nat p3" "pat ! nat p2"] "1.prems"
      by (subst gs_cmp.simps) force
  qed (use "1.prems" in \<open>simp add: gs_cmp.simps\<close>)
qed

lemma gs_try_ok:
  assumes "p1 \<le> plen - 2" and "plen = int (length pat)" and "- 1 \<le> p1" and "2 \<le> plen"
  shows "\<exists>q3 q2. gs_try pat c plen pptr p1 = Some (q3, q2) \<and> 1 \<le> q2 - q3 \<and> q2 - q3 < plen"
  using assms
proof (induction "nat (p1 + 1)" arbitrary: p1 rule: less_induct)
  case less
  obtain q where q: "gs_find pat c p1 = Some q" "- 1 \<le> q" "q \<le> p1" "0 \<le> p1 \<longrightarrow> q < p1"
    using gs_find_ok [of p1 pat c] less.prems by auto
  obtain q3 q2 where c: "gs_cmp pat pptr q (plen - 2) = Some (q3, q2)" "q2 - q3 = plen - 2 - q" "q3 \<le> q"
    using gs_cmp_ok [of q "plen - 2" pat pptr] less.prems q by auto
  show ?case
  proof (cases "q3 \<ge> 0 \<and> q2 \<ge> pptr")
    case True
    then have "q < p1" "nat (q + 1) < nat (p1 + 1)" using q c(3) by auto
    then show ?thesis using less.hyps [of q] less.prems q(1,2) c(1) True by (subst gs_try.simps) simp
  next
    case False
    have "q < plen - 2" using q less.prems by auto
    then show ?thesis using q c False less.prems by (subst gs_try.simps) auto
  qed
qed

lemma gs_loop_ok:
  assumes "plen = int (length pat)" and "2 \<le> plen" and "n < length pat" and "length pat \<le> length gs"
    and "\<forall>i. n \<le> i \<longrightarrow> i < length pat \<longrightarrow> 1 \<le> gs ! i \<and> gs ! i < plen"
  shows "\<exists>gs'. gs_loop pat c plen n gs = Some gs' \<and> length gs' = length gs \<and>
    (\<forall>i<length pat. 1 \<le> gs' ! i \<and> gs' ! i < plen)"
  using assms(3-)
proof (induction n arbitrary: gs)
  case (Suc n)
  obtain q3 q2 where q: "gs_try pat c plen (int n) (plen - 2) = Some (q3, q2)" "1 \<le> q2 - q3" "q2 - q3 < plen"
    using gs_try_ok [of "plen - 2" plen pat c "int n"] assms(1,2) by auto
  have "\<forall>i. n \<le> i \<longrightarrow> i < length pat \<longrightarrow> 1 \<le> gs[n := q2 - q3] ! i \<and> gs[n := q2 - q3] ! i < plen"
    using Suc.prems q by (auto simp: nth_list_update Suc_le_eq)
  then show ?case using Suc.IH [of "gs[n := q2 - q3]"] Suc.prems q(1) by auto
qed simp

lemma BM_get_gs_ok:
  assumes "length pat = plen" and "1 \<le> plen" and "plen \<le> gslen" and "plen \<le> length gs"
  shows "\<exists>gs'. BM_get_gs (Some pat) plen (Some gs) gslen = Some (0, Some gs') \<and> length gs' = length gs \<and>
    (\<forall>i<plen. 1 \<le> gs' ! i \<and> gs' ! i \<le> int plen)"
proof -
  have c: "rd pat (int plen - 1) = Some (pat ! (plen - 1))"
    using assms(1,2) by (simp add: rd_def nth_opt_def nat_diff_distrib)
  show ?thesis
  proof (cases "plen = 1")
    case True
    then show ?thesis using assms c by (auto simp: BM_get_gs_def)
  next
    case False
    have "\<forall>i. plen - 1 \<le> i \<longrightarrow> i < length pat \<longrightarrow> 1 \<le> gs[plen - 1 := 1] ! i \<and> gs[plen - 1 := 1] ! i < int plen"
      using assms False by (auto simp: nth_list_update)
    then obtain gs' where "gs_loop pat (uint (pat ! (plen - 1))) (int plen) (plen - 1) (gs[plen - 1 := 1]) = Some gs'"
      "length gs' = length gs" "\<forall>i<length pat. 1 \<le> gs' ! i \<and> gs' ! i < int plen"
      using gs_loop_ok [of "int plen" pat "plen - 1" "gs[plen - 1 := 1]" "uint (pat ! (plen - 1))"] assms False by auto
    then show ?thesis using assms c False by (auto simp: BM_get_gs_def less_imp_le)
  qed
qed

subsection \<open>The search\<close>

definition occurs :: "u8 list \<Rightarrow> u8 list \<Rightarrow> nat \<Rightarrow> bool" where
  "occurs pat buf pos \<longleftrightarrow> pos + length pat \<le> length buf \<and> (\<forall>i<length pat. buf ! (pos + i) = pat ! i)"

text \<open>Comparing a window that ends at \<open>e\<close>, with everything from \<open>p\<close> on known to agree.\<close>

lemma bm_match_spec:
  assumes "e \<le> length buf" and "length pat \<le> e" and "1 \<le> p" and "p \<le> length pat"
    and "\<forall>i. p \<le> i \<longrightarrow> i < length pat \<longrightarrow> buf ! (e - length pat + i) = pat ! i"
  shows "bm_match buf pat (int (e - length pat + p)) p = Some (Inl (e - length pat)) \<and> occurs pat buf (e - length pat) \<or>
    (\<exists>q<p. bm_match buf pat (int (e - length pat + p)) p = Some (Inr (int (e - length pat + q), q)) \<and>
       buf ! (e - length pat + q) \<noteq> pat ! q \<and>
       (\<forall>i. q < i \<longrightarrow> i < length pat \<longrightarrow> buf ! (e - length pat + i) = pat ! i))"
  using assms(3-)
proof (induction p)
  case (Suc p)
  let ?s = "e - length pat"
  have lt: "?s + p < length buf" "p < length pat" using Suc.prems(2) assms(1,2) by linarith+
  have eq: "int (?s + Suc p) - 1 = int (?s + p)" by simp
  have r: "rd buf (int (?s + Suc p) - 1) = Some (buf ! (?s + p))" "rd pat (int p) = Some (pat ! p)"
    unfolding eq by (rule rd_nat [OF lt(1)], rule rd_nat [OF lt(2)])
  show ?case
  proof (cases "buf ! (?s + p) = pat ! p")
    case False
    then show ?thesis using r Suc.prems eq by (intro disjI2 exI [of _ p]) auto
  next
    case True
    have all: "\<forall>i. p \<le> i \<longrightarrow> i < length pat \<longrightarrow> buf ! (?s + i) = pat ! i"
      using True Suc.prems(3) by (metis Suc_leI le_neq_implies_less)
    show ?thesis
    proof (cases "p = 0")
      case True
      then show ?thesis using \<open>buf ! (?s + p) = pat ! p\<close> all r assms(1,2) by (simp add: occurs_def)
    next
      case False
      then have "bm_match buf pat (int (?s + Suc p)) (Suc p) = bm_match buf pat (int (?s + p)) p"
        using True r eq by simp
      then show ?thesis using Suc.IH False all Suc.prems by (auto simp: less_Suc_eq)
    qed
  qed
qed simp

text \<open>The last character of the pattern occurs only there.\<close>

definition last_unique :: "u8 list \<Rightarrow> bool" where
  "last_unique pat \<longleftrightarrow> (\<forall>i<length pat - 1. pat ! i \<noteq> pat ! (length pat - 1))"

text \<open>Then no window that the shift skips matches.\<close>

lemma skip_safe:
  assumes bc: "bc_spec pat bc" and u: "last_unique pat" and q: "q < length pat"
    and ne: "buf ! (s + q) \<noteq> pat ! q" and eq: "\<forall>i. q < i \<longrightarrow> i < length pat \<longrightarrow> buf ! (s + i) = pat ! i"
    and d: "int d < bc ! unat (buf ! (s + q))"
  shows "\<not> occurs pat buf (s + d)"
proof
  assume o: "occurs pat buf (s + d)"
  have d0: "d \<noteq> 0" using o ne q by (metis add.right_neutral occurs_def)
  have "unat (buf ! (s + q)) < 256" using unat_u8_less [of "buf ! (s + q)"] by simp
  then have "bc ! unat (buf ! (s + q)) \<le> int (length pat)" using bc by (simp add: bc_spec_def)
  then have dn: "d \<le> length pat - 1" using d by linarith
  define j where "j = length pat - 1 - d"
  have j: "j < length pat - 1" "s + d + j = s + (length pat - 1)" "length pat - 1 - j = d"
    using d0 dn q by (auto simp: j_def)
  then have "buf ! (s + d + j) = pat ! j" using o unfolding occurs_def by (meson less_le_trans diff_le_self)
  then have pj: "pat ! j = buf ! (s + (length pat - 1))" by (simp only: j(2))
  show False
  proof (cases "q < length pat - 1")
    case True
    have lt: "length pat - 1 < length pat" using q by simp
    from True have "buf ! (s + (length pat - 1)) = pat ! (length pat - 1)" using eq lt by blast
    then show False using pj u j(1) by (simp add: last_unique_def)
  next
    case False
    then have "q = length pat - 1" using q by simp
    then have "bc ! unat (buf ! (s + q)) \<le> int d" using bc j pj unfolding bc_spec_def by metis
    then show False using d by simp
  qed
qed

text \<open>A result is an occurrence; with a unique last character it is the first one.\<close>

definition bm_result :: "u8 list \<Rightarrow> u8 list \<Rightarrow> nat \<Rightarrow> nat option \<Rightarrow> bool" where
  "bm_result pat buf s r \<longleftrightarrow> (\<forall>pos. r = Some pos \<longrightarrow> occurs pat buf pos) \<and>
     (last_unique pat \<longrightarrow> (\<forall>t\<ge>s. occurs pat buf t \<longrightarrow> (\<exists>pos\<le>t. r = Some pos)))"

lemma bm_loop_spec:
  assumes bc: "bc_spec pat bc" and gs: "length pat \<le> length gs" and len: "length buf < 2 ^ 30" "length pat < 2 ^ 30"
    and "pat \<noteq> []" and "length pat \<le> e" and "e \<le> length buf + length pat"
  shows "\<exists>r. bm_loop buf (length buf) pat (length pat) bc gs (int e) = Some r \<and> bm_result pat buf (e - length pat) r"
  using assms(6,7)
proof (induction "length buf + length pat - e" arbitrary: e rule: less_induct)
  case less
  let ?n = "length pat" and ?s = "e - length pat"
  have small: "int e mod 2 ^ 64 = int e" using less.prems len by simp
  show ?case
  proof (cases "e \<le> length buf")
    case False
    then have "bm_loop buf (length buf) pat ?n bc gs (int e) = Some None"
      using small by (subst bm_loop.simps) simp
    moreover have "\<not> occurs pat buf t" if "t \<ge> ?s" for t using that False less.prems by (auto simp: occurs_def)
    ultimately show ?thesis by (auto simp: bm_result_def)
  next
    case True
    have e: "int (?s + ?n) = int e" using less.prems by simp
    consider (hit) "bm_match buf pat (int e) ?n = Some (Inl ?s)" "occurs pat buf ?s"
      | (miss) q where "q < ?n" "bm_match buf pat (int e) ?n = Some (Inr (int (?s + q), q))"
          "buf ! (?s + q) \<noteq> pat ! q" "\<forall>i. q < i \<longrightarrow> i < ?n \<longrightarrow> buf ! (?s + i) = pat ! i"
      using bm_match_spec [OF True less.prems(1), of ?n] assms(5) unfolding e by (auto simp: Suc_le_eq)
    then show ?thesis
    proof cases
      case hit
      then have "bm_loop buf (length buf) pat ?n bc gs (int e) = Some (Some ?s)"
        using small True by (subst bm_loop.simps) simp
      then show ?thesis using hit by (auto simp: bm_result_def)
    next
      case miss
      define c where "c = buf ! (?s + q)"
      have c8: "unat c < 256" using unat_u8_less [of c] by simp
      then have k: "1 \<le> bc ! unat c" "bc ! unat c \<le> int ?n" using bc by (auto simp: bc_spec_def)
      define e' where "e' = e + nat (bc ! unat c)"
      have e': "length buf + ?n - e' < length buf + ?n - e" "?n \<le> e'" "e' \<le> length buf + ?n"
        using k True less.prems unfolding e'_def by linarith+
      have r: "rd buf (int (?s + q)) = Some c" using rd_nat [of "?s + q" buf] True miss(1) less.prems by (simp add: c_def)
      have "unat c < length bc" "q < length gs" using c8 bc gs miss(1) by (auto simp: bc_spec_def)
      then have t: "nth_opt bc (uint c) = Some (bc ! unat c)" "nth_opt gs (int q) = Some (gs ! q)"
        by (simp_all only: uint_nat nth_opt_nat)
      have b: "int (?s + q) + bc ! unat c + (int ?n - int q) = int e'" using k less.prems by (simp add: e'_def)
      have "\<not> int e' > INT_MAX" using e'(3) len by (simp add: INT_MAX_def)
      then have run: "bm_loop buf (length buf) pat ?n bc gs (int e) = bm_loop buf (length buf) pat ?n bc gs (int e')"
        using small True miss(2) r t b by (subst bm_loop.simps) (simp del: of_nat_add)
      obtain res where res: "bm_loop buf (length buf) pat ?n bc gs (int e') = Some res" "bm_result pat buf (e' - ?n) res"
        using less.hyps [OF e'] by blast
      have "\<not> occurs pat buf t" if "last_unique pat" "?s \<le> t" "t < e' - ?n" for t
        using skip_safe [OF bc that(1) miss(1,3,4), of "t - ?s"] that(2,3) k less.prems unfolding e'_def c_def by auto
      then have "bm_result pat buf ?s res" using res(2) unfolding bm_result_def by (meson not_le)
      then show ?thesis using run res(1) by simp
    qed
  qed
qed

subsection \<open>Properties\<close>

text \<open>
  C29: with the table that \<^verbatim>\<open>BM_get_bc\<close> computes for an ASCII pattern, \<^verbatim>\<open>BM_search\<close> ends without reading outside of the
  buffer, and a result is an occurrence of the pattern.  When the last character of the pattern occurs nowhere
  else in it, the result is the first occurrence, and there is none when nothing is returned.
\<close>

theorem BM_search_correct:
  assumes "\<forall>x\<in>set pat. x < 128" and "pat \<noteq> []" and "length pat < 2 ^ 30" and "buf \<noteq> []" and "length buf < 2 ^ 30"
    and "256 \<le> bclen" and "256 \<le> length bc" and "length pat \<le> gslen" and "length pat \<le> length gs"
  shows "\<exists>bc' r. BM_get_bc (Some pat) (length pat) (Some bc) bclen = Some (0, Some bc') \<and>
    BM_search (Some buf) (length buf) (Some pat) (length pat) (Some bc') bclen (Some gs) gslen = Some r \<and>
    (\<forall>pos. r = Some pos \<longrightarrow> occurs pat buf pos) \<and>
    (last_unique pat \<longrightarrow> (\<forall>t. occurs pat buf t \<longrightarrow> (\<exists>pos\<le>t. r = Some pos)))"
proof -
  obtain bc' where bc': "BM_get_bc (Some pat) (length pat) (Some bc) bclen = Some (0, Some bc')" "bc_spec pat bc'"
    using BM_get_bc_spec [OF assms(1,2) _ assms(6,7)] assms(3) by auto
  obtain r where r: "bm_loop buf (length buf) pat (length pat) bc' gs (int (length pat)) = Some r" "bm_result pat buf 0 r"
    using bm_loop_spec [OF bc'(2) assms(9,5,3,2), of "length pat"] by auto
  have "BM_search (Some buf) (length buf) (Some pat) (length pat) (Some bc') bclen (Some gs) gslen = Some r"
    using r(1) assms by (simp add: BM_search_def to_int_small Suc_le_eq)
  then show ?thesis using bc'(1) r(2) by (auto simp: bm_result_def)
qed

theorem BM_search_correct_witness:
  "\<exists>bc' r. BM_get_bc (Some [97, 98]) 2 (Some (replicate 256 0)) 256 = Some (0, Some bc') \<and>
    BM_search (Some [98, 97, 98]) 3 (Some [97, 98]) 2 (Some bc') 256 (Some [1, 1]) 2 = Some r \<and> (\<exists>pos\<le>1. r = Some pos)"
proof -
  have u: "last_unique [97, 98]" and o: "occurs [97, 98] [98, 97, 98] 1"
    by (auto simp: last_unique_def occurs_def nth_Cons' less_Suc_eq numeral_2_eq_2)
  have len: "length [97 :: u8, 98] = 2" "length [98 :: u8, 97, 98] = 3" by simp_all
  show ?thesis
    using BM_search_correct [of "[97, 98]" "[98, 97, 98]" 256 "replicate 256 0" 2 "[1, 1]", unfolded len] u o by auto
qed

text \<open>
  When the last character occurs again in the pattern the shift may jump over a match: the shift of the bad
  character is the one for a difference at the last position, and the code uses it for any position.  The
  pattern \<open>abb\<close> is not found in \<open>babb\<close>.
\<close>

theorem BM_search_misses:
  "occurs [97, 98, 98] [98, 97, 98, 98] 1 \<and>
    (\<exists>bc. BM_get_bc (Some [97, 98, 98]) 3 (Some (replicate 256 0)) 256 = Some (0, Some bc) \<and>
      BM_search (Some [98, 97, 98, 98]) 4 (Some [97, 98, 98]) 3 (Some bc) 256 (Some [1, 1, 1]) 3 = Some None)"
proof -
  let ?bc = "(replicate 256 (3 :: int))[97 := 2, 98 := 1]"
  have t3: "to_int 3 = 3" "to_int 2 = 2" "to_int (Suc 0) = 1" by (simp_all add: to_int_small)
  have "bc_loop [97, 98, 98] 3 0 (replicate 256 3) = Some ?bc"
    by (simp add: bc_loop.simps sz_minus_def schar_def t3)
  then have bc: "BM_get_bc (Some [97, 98, 98]) 3 (Some (replicate 256 0)) 256 = Some (0, Some ?bc)"
    by (simp add: BM_get_bc_def t3)
  have 5: "bm_loop [98, 97, 98, 98] 4 [97, 98, 98] 3 ?bc [1, 1, 1] 5 = Some None"
    by (subst bm_loop.simps) simp
  have "bm_loop [98, 97, 98, 98] 4 [97, 98, 98] 3 ?bc [1, 1, 1] 3 = Some None"
    by (subst bm_loop.simps) (simp add: rd_def nth_opt_def numeral_3_eq_3 INT_MAX_def 5 [unfolded numeral_3_eq_3])
  then have "BM_search (Some [98, 97, 98, 98]) 4 (Some [97, 98, 98]) 3 (Some ?bc) 256 (Some [1, 1, 1]) 3 = Some None"
    by (simp add: BM_search_def t3)
  moreover have "occurs [97, 98, 98] [98, 97, 98, 98] 1"
    by (auto simp: occurs_def nth_Cons' less_Suc_eq numeral_3_eq_3)
  ultimately show ?thesis using bc by blast
qed

text \<open>A character above 127 in the pattern is a write far outside of the table.\<close>

lemma schar_high: "128 \<le> x \<Longrightarrow> - 128 \<le> schar x \<and> schar x < 0"
proof -
  assume "128 \<le> x"
  then have x: "128 \<le> uint x" by (simp add: word_le_def)
  have "- (2 ^ 7) \<le> sint x" using sint_greater_eq [of x] by simp
  moreover have "sint x < 0"
  proof (rule ccontr)
    assume "\<not> sint x < 0"
    moreover have "sint x < 2 ^ 7" using sint_less [of x] by simp
    ultimately have "uint x = sint x" by (simp add: uint_sint take_bit_int_eq_self)
    then show False using x \<open>sint x < 2 ^ 7\<close> by simp
  qed
  ultimately show ?thesis by (simp add: schar_def)
qed

lemma BM_get_bc_high:
  assumes "length bc < 2 ^ 31" and "256 \<le> length bc" and "128 \<le> x"
  shows "BM_get_bc (Some [x, y]) 2 (Some bc) 256 = None"
proof -
  have "schar x mod 2 ^ 32 = (schar x + 2 ^ 32) mod 2 ^ 32" by simp
  also have "\<dots> = schar x + 2 ^ 32" using schar_high [OF assms(3)] by (intro mod_pos_pos_trivial) auto
  finally have "\<not> nat (schar x mod 2 ^ 32) < length bc" using assms(1) schar_high [OF assms(3)] by auto
  then show ?thesis using assms(2) by (simp add: BM_get_bc_def bc_loop.simps sz_minus_def)
qed

end
