(* ===== verification/Spec2Isabelle.thy ===== *)
theory Spec2Isabelle
  imports Hash Shash Str_util Locks Mempool Dbuffer Fz_Tree Relay_Run Proxy_run Sock_util Sockpool_Run Max_Subseq Bm_search
begin

text \<open>
  A verification of the reusable C code of the repository: its data structures and algorithms
  (\<^verbatim>\<open>code/basic\<close>), its address utilities (\<^verbatim>\<open>code/network/netutil\<close>) and its transparent proxy
  (\<^verbatim>\<open>code/network/proxy/utils\<close>, \<^verbatim>\<open>code/network/proxy/tproxy\<close>).  All paths below are relative to \<^verbatim>\<open>src/code\<close>.

  \<^bold>\<open>How the program fits together.\<close>  A configuration file describes certificate sets, listeners, server pools and
  policies by name; the main thread builds these objects, prepares their running data, hands some of the policies to
  the kernel, starts the workers and sends every policy to each of them.  The proxy is an event loop per worker thread.  Its event layer
  (\<^verbatim>\<open>fd_epoll\<close>) maps descriptors to callbacks and batches the changes it makes to the kernel's interest set.  A
  policy ties a listener to a server pool; both have running data that live sessions share by reference
  counts.  Server pools choose servers by weighted round robin or by address, and hold SSL contexts made from
  certificate sets.  A worker accepts connections on the listeners of its policies; every accepted client gets a
  session with two connections, one to the client and one to the server chosen by the pool.  Data read from one
  side is queued as packets, passed through the parse task of the session and sent to the other side.
  Packets and sessions come from object pools; every list is the intrusive circular list.
  The containers (hash tables, tree, memory pool, dynamic buffer), the locks, the string and address utilities
  and the algorithms are independent libraries.

  \<^bold>\<open>Theories and sources.\<close>
  \<^item> \<open>Fz_Prelude\<close>: machine types, addresses, \<^verbatim>\<open>align_num\<close>, shared lemmas, and two calculi
    for operations that may fault: \<open>post\<close> says what holds if they return, \<open>wp\<close> also that they return when a condition holds.  \<open>Fz_Interfaces\<close>: the interfaces as
    locales (object pool, bucket table, comparison function, inductive invariant, lock, reference counting),
    each interpreted by the component that provides it.
  \<^item> \<open>Cblist\<close> (\<^verbatim>\<open>basic/datastruct/cblist.h\<close>): ring lists on a heap of links, with a representation predicate.
  \<^item> \<open>Hlist\<close>, \<open>Objpool\<close>, \<open>Objpool_Correct\<close> (\<^verbatim>\<open>objpool.c\<close>): the object pool over caches of nodes; no object is handed
    out twice, objects do not overlap, every block is freed once.
  \<^item> \<open>Bucket\<close>, \<open>Hash\<close> (\<^verbatim>\<open>hash.c\<close>), \<open>Shash\<close> (\<^verbatim>\<open>shash.h\<close>): the hash tables against an abstract bucket table; the choice of
    the table size is a search that ends.
  \<^item> \<open>C_Mem\<close>, \<open>Str_util\<close> (\<^verbatim>\<open>basic/stdext/str_util.c\<close>): strings in a byte memory whose accesses can fault.
  \<^item> \<open>Inet\<close>, \<open>Ip_addr\<close>, \<open>Ip_addr_Correct\<close> (\<^verbatim>\<open>network/netutil/ip_addr.c\<close>): addresses, ports, masks, ranges, parsing and
    printing; \<open>Inet\<close> models the C library calls.
  \<^item> \<open>Locks\<close> (\<^verbatim>\<open>spinlock.h\<close>, \<^verbatim>\<open>rwlock.h\<close>): every function as its atomic steps, threads interleaved; mutual exclusion and
    progress.
  \<^item> \<open>Mempool\<close>, \<open>Dbuffer\<close>, \<open>Fz_Tree\<close> (\<^verbatim>\<open>mempool.h\<close>, \<^verbatim>\<open>dbuffer.h\<close>, \<^verbatim>\<open>tree.c\<close>).
  \<^item> \<open>Fd_epoll\<close> (\<^verbatim>\<open>network/proxy/utils/fd_epoll.c\<close>): the event layer refines a map from descriptors to wanted events.
  \<^item> \<open>Certset\<close>, \<open>Svrpool\<close>, \<open>Svrpool_Correct\<close>, \<open>Policy\<close> (\<^verbatim>\<open>certset.c\<close>, \<^verbatim>\<open>svrpool.c\<close>, \<^verbatim>\<open>listener.c\<close>, \<^verbatim>\<open>policy.c\<close>): one heap record,
    extended from theory to theory; round robin, choice by address, reference counts.
  \<^item> \<open>Session\<close> (\<^verbatim>\<open>session.c\<close>, \<^verbatim>\<open>connection.c\<close>, \<^verbatim>\<open>task.h\<close>, \<^verbatim>\<open>packet.h\<close>, the accepting half of \<^verbatim>\<open>listener.c\<close>, and the send
    and receive wrappers of \<^verbatim>\<open>sock_util.c\<close> and \<^verbatim>\<open>ssl_util.c\<close>) and \<open>Worker\<close> (\<^verbatim>\<open>network/proxy/tproxy/worker.c\<close>): the state of
    a worker extends that of the policies by its sessions, its task queue, the descriptors open and the packets
    in use.  Socket and SSL calls are answered by an environment \<open>io_env\<close>, indexed by \<open>wk_tick\<close>, which counts the
    calls made.  The logs \<open>wk_rcvd\<close> and \<open>wk_sent\<close> and the set \<open>wk_dying\<close> of sessions being deleted are ghost state: no
    operation reads them.
  \<^item> \<open>Session_Correct\<close>: the relation \<open>keeps\<close> between the
    states before and after an operation on one session, and what every operation keeps.  \<open>Relay\<close>, \<open>Relay_Run\<close>: the
    loop of a worker as a step relation, its invariant, and the theorems: bytes are relayed without loss,
    duplication or reordering, arrive, packets have one owner, and freeing a session gives everything back.
  \<^item> \<open>Proxy\<close> (\<^verbatim>\<open>network/proxy/tproxy/proxy.c\<close>): the proxy object with its four lists of named objects.  \<open>Proxy_config\<close>
    (\<^verbatim>\<open>network/proxy/utils/proxy_config.c\<close>): the whole configuration parser, from the characters of the file to the heap.
    \<open>Proxy_config_Correct\<close>: the locale \<open>registry\<close> for a list of objects with different names, interpreted for each of the four lists, and the
    invariant of the heap while a file is read.  \<open>Proxy_load\<close>: every accepted file gives a well-formed proxy, and reading ends without
    a memory fault for every file without NUL characters.  \<open>Proxy_release\<close>: releasing the proxy after a load is safe.  \<open>Proxy_text\<close>:
    words and numbers of a line.
  \<^item> \<open>Proxy_start\<close> (\<^verbatim>\<open>thread.c\<close>, \<^verbatim>\<open>trapt_util.c\<close>, \<^verbatim>\<open>tproxy_util.c\<close>, the rest of \<^verbatim>\<open>proxy.c\<close>) and \<open>Proxy_run\<close> (the start of \<^verbatim>\<open>worker.c\<close>): threads
    and CPUs, the requests made to the kernel, the running data, the start of a worker in an initial state of its loop, and the
    commands every worker gets.
  \<^item> \<open>Sock_util\<close> (\<^verbatim>\<open>network/netutil/sock_util.c\<close>): the socket functions over the part of the kernel state they change; no
    descriptor is leaked but in one case, server sockets are set up as asked, everything is sent.
  \<^item> \<open>Sockpool\<close>, \<open>Sockpool_Correct\<close>, \<open>Sockpool_Run\<close> (\<^verbatim>\<open>network/socket/proxy/utils/sockpool.c\<close>): the pool of server connections, doubly linked
    lists in an array of items; the life of a pool is a step relation whose invariant says that the lists partition the
    items and no socket is held twice.
  \<^item> \<open>Algorithms\<close>, \<open>Max_Subseq\<close>, \<open>Bm_search\<close> (\<^verbatim>\<open>basic/algorithm\<close>).

  \<^bold>\<open>Conventions.\<close>  A C pointer is a natural number and \<open>NULL\<close> is 0; the results of \<^verbatim>\<open>malloc\<close> and of system or
  SSL calls are arguments.  A failed assertion, an access to memory that is not there and a second
  free are \<open>None\<close>; error codes are values.  Fixed-width integers are words where their width matters.
  Loops that need not end are partial functions into \<open>option\<close>, with separate theorems that they return; no fuel is used.

  \<^bold>\<open>Not modelled.\<close>  Printing functions; code that only wraps system calls (\<^verbatim>\<open>dir_util.c\<close>, the
  device and kernel interfaces) or the SSL library (the rest of \<^verbatim>\<open>ssl_util.c\<close>); the program around the
  proxy (\<^verbatim>\<open>main.c\<close>, and \<^verbatim>\<open>proxy_main\<close>, which runs main thread and workers next to each other); older generations of the proxy;
  the HTTP parser, which mixes two versions of its state and does not compile; the copies of Snort under \<^verbatim>\<open>offline\<close>; exercises, samples and tests.
\<close>

end
